(* ===== verification/Prelude.thy ===== *)
theory Prelude
  imports Main "HOL-Library.Word" "HOL-Library.List_Lexorder"
begin

text \<open>
  Shared vocabulary of the development: bytes, Go's \<^verbatim>\<open>int64\<close> as an integer with an explicit
  wrap-around, the error values the program distinguishes, fallible computations as a sum
  type, big-endian fixed-width integers (package \<^verbatim>\<open>encoding/binary\<close>), and the generic lemmas
  on lists, maps and finite sums that the component theories share.
\<close>

named_theorems result_simps \<open>how fallible computations compose\<close>
named_theorems wrap_simps \<open>wrap-around arithmetic on 64-bit integers\<close>
named_theorems codec_simps \<open>round trips of the fixed-width encodings\<close>

section \<open>Bytes and fallible computations\<close>

type_synonym byte = "8 word"
type_synonym bytes = "byte list"

text \<open>
  The errors of the program that some caller or some theorem can tell apart. Wrapping with
  \<^verbatim>\<open>fmt.Errorf("...: %w", err)\<close> keeps the identity \<^verbatim>\<open>errors.Is\<close> tests, so wrapping is the
  identity here; message texts are not modelled.
\<close>

datatype error =
    ErrClosed                \<comment> \<open>index.ErrClosed\<close>
  | ErrLocked                \<comment> \<open>index.ErrLocked\<close>
  | ErrStore nat             \<comment> \<open>an error of the key-value store, numbered by the store\<close>
  | ErrLength nat nat        \<comment> \<open>got, want\<close>
  | ErrVersion byte          \<comment> \<open>unknown schema version\<close>
  | ErrHex                   \<comment> \<open>not hexadecimal\<close>
  | ErrMalformedKey nat      \<comment> \<open>malformed lru key of this length\<close>
  | ErrNegative string int   \<comment> \<open>a field that must not be negative\<close>
  | ErrNotExist              \<comment> \<open>fs.ErrNotExist\<close>
  | ErrExist                 \<comment> \<open>fs.ErrExist\<close>
  | ErrXDev                  \<comment> \<open>syscall.EXDEV\<close>
  | ErrIO nat                \<comment> \<open>any other I/O error\<close>
  | ErrShortBody int int     \<comment> \<open>wrote, declared\<close>
  | ErrCancelled             \<comment> \<open>ctx.Err()\<close>
  | ErrDigestMismatch        \<comment> \<open>bazel.ErrDigestMismatch\<close>
  | ErrUploadFinished        \<comment> \<open>bazel.ErrUploadFinished\<close>
  | ErrParse                 \<comment> \<open>a text that does not parse\<close>

type_synonym 'a result = "error + 'a"

definition rbind :: "'a result \<Rightarrow> ('a \<Rightarrow> 'b result) \<Rightarrow> 'b result" where
  "rbind m f = (case m of Inl e \<Rightarrow> Inl e | Inr x \<Rightarrow> f x)"

lemma rbind_simps [simp]:
  "rbind (Inl e) f = Inl e"
  "rbind (Inr x) f = f x"
  by (simp_all add: rbind_def)

lemma rbind_eq_Inr_iff [result_simps]:
  "rbind m f = Inr y \<longleftrightarrow> (\<exists>x. m = Inr x \<and> f x = Inr y)"
  by (cases m) auto

lemma rbind_eq_Inl_iff [result_simps]:
  "rbind m f = Inl e \<longleftrightarrow> m = Inl e \<or> (\<exists>x. m = Inr x \<and> f x = Inl e)"
  by (cases m) auto

lemma rbind_cong [fundef_cong]:
  "m = m' \<Longrightarrow> (\<And>x. m' = Inr x \<Longrightarrow> f x = g x) \<Longrightarrow> rbind m f = rbind m' g"
  by (cases m') auto

section \<open>64-bit signed integers\<close>

text \<open>
  Go's \<^verbatim>\<open>int64\<close> is an \<^typ>\<open>int\<close> together with the explicit wrap-around \<open>wrap64\<close> at the
  operations that can leave the range; \<open>in64\<close> is the range itself.
\<close>

definition in64 :: "int \<Rightarrow> bool" where
  "in64 x \<longleftrightarrow> - (2 ^ 63) \<le> x \<and> x < 2 ^ 63"

definition wrap64 :: "int \<Rightarrow> int" where
  "wrap64 x = (x + 2 ^ 63) mod 2 ^ 64 - 2 ^ 63"

definition add64 :: "int \<Rightarrow> int \<Rightarrow> int" where
  "add64 x y = wrap64 (x + y)"

definition sub64 :: "int \<Rightarrow> int \<Rightarrow> int" where
  "sub64 x y = wrap64 (x - y)"

lemma in64_wrap64 [simp, intro!]: "in64 (wrap64 x)"
proof -
  have "0 \<le> (x + 2 ^ 63) mod 2 ^ 64" and "(x + 2 ^ 63) mod 2 ^ 64 < (2::int) ^ 64"
    by simp_all
  then show ?thesis by (simp add: in64_def wrap64_def)
qed

lemma wrap64_id [wrap_simps]: "in64 x \<Longrightarrow> wrap64 x = x"
  by (simp add: in64_def wrap64_def mod_pos_pos_trivial)

lemma wrap64_idem [simp]: "wrap64 (wrap64 x) = wrap64 x"
  by (rule wrap64_id) simp

lemma wrap64_eq_iff: "wrap64 x = wrap64 y \<longleftrightarrow> x mod 2 ^ 64 = y mod 2 ^ 64"
proof -
  have "wrap64 x = wrap64 y \<longleftrightarrow> (x + 2 ^ 63) mod 2 ^ 64 = (y + 2 ^ 63) mod (2 ^ 64 :: int)"
    by (simp add: wrap64_def)
  also have "\<dots> \<longleftrightarrow> x mod 2 ^ 64 = y mod 2 ^ 64"
    by (simp add: mod_eq_dvd_iff)
  finally show ?thesis .
qed

lemma wrap64_mod: "wrap64 x mod 2 ^ 64 = x mod 2 ^ 64"
  using wrap64_eq_iff [of "wrap64 x" x] by simp

lemma wrap64_of_mod [wrap_simps]: "wrap64 (x mod 2 ^ 64) = wrap64 x"
  by (simp add: wrap64_eq_iff)

lemma wrap64_add_left [wrap_simps]: "wrap64 (wrap64 x + y) = wrap64 (x + y)"
  unfolding wrap64_eq_iff by (metis mod_add_left_eq wrap64_mod)

lemma wrap64_add_right [wrap_simps]: "wrap64 (x + wrap64 y) = wrap64 (x + y)"
  unfolding wrap64_eq_iff by (metis mod_add_right_eq wrap64_mod)

lemma wrap64_diff_left [wrap_simps]: "wrap64 (wrap64 x - y) = wrap64 (x - y)"
  unfolding wrap64_eq_iff by (metis mod_diff_left_eq wrap64_mod)

lemma wrap64_diff_right [wrap_simps]: "wrap64 (x - wrap64 y) = wrap64 (x - y)"
  unfolding wrap64_eq_iff by (metis mod_diff_right_eq wrap64_mod)

lemma add64_exact: "in64 (x + y) \<Longrightarrow> add64 x y = x + y"
  by (simp add: add64_def wrap64_id)

lemma sub64_exact: "in64 (x - y) \<Longrightarrow> sub64 x y = x - y"
  by (simp add: sub64_def wrap64_id)

lemma in64_small [simp]: "in64 0" "in64 1"
  by (simp_all add: in64_def)

section \<open>Big-endian integers\<close>

text \<open>
  \<open>put_be n v\<close> are the \<open>n\<close> low bytes of \<open>v\<close>, most significant first, which for \<open>n = 8\<close> is
  \<^verbatim>\<open>binary.BigEndian.PutUint64(b, uint64(v))\<close>, also for a negative \<open>v\<close>; \<open>be_value\<close> reads
  bytes back as an unsigned number.
\<close>

fun put_be :: "nat \<Rightarrow> int \<Rightarrow> bytes" where
  "put_be 0 v = []"
| "put_be (Suc n) v = put_be n (v div 256) @ [word_of_int v]"

definition be_value :: "bytes \<Rightarrow> int" where
  "be_value bs = foldl (\<lambda>acc b. acc * 256 + uint b) 0 bs"

definition put_u64 :: "int \<Rightarrow> bytes" where
  "put_u64 v = put_be 8 v"

definition get_i64 :: "bytes \<Rightarrow> int" where
  "get_i64 bs = wrap64 (be_value bs)"

lemma length_put_be [simp]: "length (put_be n v) = n"
  by (induction n arbitrary: v) auto

lemma length_put_u64 [simp]: "length (put_u64 v) = 8"
  by (simp add: put_u64_def)

lemma be_value_Nil [simp]: "be_value [] = 0"
  by (simp add: be_value_def)

lemma be_value_snoc [simp]: "be_value (bs @ [b]) = be_value bs * 256 + uint b"
  by (simp add: be_value_def)

lemma uint_byte_bounds: "0 \<le> uint (b :: byte)" "uint (b :: byte) < 256"
  using uint_lt2p [of b] by simp_all

lemma be_value_Cons: "be_value (b # bs) = uint b * 256 ^ length bs + be_value bs"
proof (induction bs rule: rev_induct)
  case Nil
  then show ?case by (simp add: be_value_def)
next
  case (snoc x xs)
  have "be_value (b # xs @ [x]) = be_value ((b # xs) @ [x])" by simp
  also have "\<dots> = be_value (b # xs) * 256 + uint x" by (rule be_value_snoc)
  finally show ?case using snoc by (simp add: algebra_simps)
qed

lemma be_value_bounds: "0 \<le> be_value bs \<and> be_value bs < 256 ^ length bs"
proof (induction bs)
  case Nil
  then show ?case by simp
next
  case (Cons b bs)
  have "uint b * 256 ^ length bs \<le> (255 :: int) * 256 ^ length bs"
    using uint_byte_bounds [of b] by (intro mult_right_mono) auto
  moreover have "0 \<le> uint b * 256 ^ length bs" by simp
  ultimately show ?case using Cons unfolding be_value_Cons list.size power_Suc
    by (simp only: add_0_right add_Suc_right power_Suc) linarith
qed

lemma be_value_put_be: "be_value (put_be n v) = v mod 256 ^ n"
proof (induction n arbitrary: v)
  case 0
  then show ?case by simp
next
  case (Suc n)
  have "be_value (put_be (Suc n) v) = (v div 256) mod 256 ^ n * 256 + v mod 256"
    using Suc by (simp add: uint_word_of_int)
  also have "\<dots> = v mod (256 * 256 ^ n)"
    by (subst zmod_zmult2_eq) auto
  finally show ?case by simp
qed

lemma get_put_u64: "get_i64 (put_u64 v) = wrap64 v"
proof -
  have "be_value (put_u64 v) = v mod 2 ^ 64"
    by (simp add: put_u64_def be_value_put_be)
  then show ?thesis by (simp only: get_i64_def wrap64_of_mod)
qed

lemma get_put_u64_id [codec_simps]: "in64 v \<Longrightarrow> get_i64 (put_u64 v) = v"
  by (simp add: get_put_u64 wrap64_id)

lemma in64_get_i64 [simp, intro!]: "in64 (get_i64 bs)"
  by (simp add: get_i64_def)

lemma be_value_inj: "length xs = length ys \<Longrightarrow> be_value xs = be_value ys \<Longrightarrow> xs = ys"
proof (induction xs ys rule: list_induct2)
  case Nil
  then show ?case by simp
next
  case (Cons x xs y ys)
  let ?B = "256 ^ length ys :: int"
  have eq: "uint x * ?B + be_value xs = uint y * ?B + be_value ys"
    using Cons.prems Cons.hyps by (simp add: be_value_Cons)
  have b: "0 \<le> be_value xs" "be_value xs < ?B" "0 \<le> be_value ys" "be_value ys < ?B"
    using be_value_bounds [of xs] be_value_bounds [of ys] Cons.hyps by auto
  have "uint x = (uint x * ?B + be_value xs) div ?B" using b by simp
  also have "\<dots> = uint y" using eq b by simp
  finally have "uint x = uint y" .
  then show ?case using eq Cons.IH by (simp add: word_uint_eq_iff)
qed

lemma put_be_value: "put_be (length bs) (be_value bs) = bs"
  by (rule be_value_inj) (use be_value_bounds [of bs] in \<open>simp_all add: be_value_put_be\<close>)

text \<open>
  Bytewise lexicographic order, the order of the key-value store, is numeric order on
  big-endian numbers of one width.
\<close>

lemma be_value_less_iff: "length xs = length ys \<Longrightarrow> xs < ys \<longleftrightarrow> be_value xs < be_value ys"
proof (induction xs ys rule: list_induct2)
  case Nil
  then show ?case by simp
next
  case (Cons x xs y ys)
  let ?B = "256 ^ length ys :: int"
  have b: "0 \<le> be_value xs" "be_value xs < ?B" "0 \<le> be_value ys" "be_value ys < ?B"
    using be_value_bounds [of xs] be_value_bounds [of ys] Cons.hyps by auto
  have step: "be_value (c # us) < be_value (d # vs)"
    if "uint c < uint d" and "length us = length ys" and "length vs = length ys"
    for c d :: byte and us vs
  proof -
    have "be_value us < ?B" and "0 \<le> be_value vs"
      using be_value_bounds [of us] be_value_bounds [of vs] that by auto
    moreover have "(uint c + 1) * ?B \<le> uint d * ?B"
      using that by (intro mult_right_mono) auto
    ultimately show ?thesis using that by (simp add: be_value_Cons algebra_simps)
  qed
  consider "uint x < uint y" | "uint y < uint x" | "x = y"
    by (metis linorder_neqE_linordered_idom word_uint_eq_iff)
  then show ?case
  proof cases
    case 1
    then show ?thesis using step [OF 1, of xs ys] Cons.hyps by (simp add: word_less_def)
  next
    case 2
    then show ?thesis using step [OF 2, of ys xs] Cons.hyps by (auto simp: word_less_def)
  next
    case 3
    then show ?thesis using Cons by (simp add: be_value_Cons)
  qed
qed

lemma put_u64_less_iff:
  assumes "0 \<le> x" "x < 2 ^ 63" "0 \<le> y" "y < 2 ^ 63"
  shows "put_u64 x < put_u64 y \<longleftrightarrow> x < y"
  using assms by (simp add: be_value_less_iff put_u64_def be_value_put_be)

lemma put_u64_inj: "in64 x \<Longrightarrow> in64 y \<Longrightarrow> put_u64 x = put_u64 y \<Longrightarrow> x = y"
  by (metis get_put_u64_id)

lemma put_be_mod: "put_be n (v mod 256 ^ n) = put_be n v"
  by (rule be_value_inj) (simp_all add: be_value_put_be)

lemma put_get_u64 [codec_simps]:
  assumes "length bs = 8"
  shows "put_u64 (get_i64 bs) = bs"
proof -
  have "put_u64 (get_i64 bs) = put_be 8 (wrap64 (be_value bs) mod 256 ^ 8)"
    by (simp only: put_u64_def get_i64_def put_be_mod)
  also have "wrap64 (be_value bs) mod 256 ^ 8 = be_value bs mod 256 ^ 8"
    using wrap64_mod [of "be_value bs"] by simp
  also have "put_be 8 (be_value bs mod 256 ^ 8) = bs"
    using put_be_value [of bs] assms by (simp only: put_be_mod)
  finally show ?thesis .
qed

section \<open>Slices\<close>

text \<open>Go's \<^verbatim>\<open>b[i:j]\<close> for \<open>i \<le> j \<le> len(b)\<close>.\<close>

definition bslice :: "nat \<Rightarrow> nat \<Rightarrow> 'a list \<Rightarrow> 'a list" where
  "bslice i j xs = take (j - i) (drop i xs)"

lemma length_bslice [simp]: "length (bslice i j xs) = min (length xs) j - i"
  by (simp add: bslice_def)

lemma bslice_append: "i \<le> j \<Longrightarrow> j \<le> k \<Longrightarrow> bslice i j xs @ bslice j k xs = bslice i k xs"
proof -
  assume "i \<le> j" "j \<le> k"
  then have "bslice i k xs = take ((j - i) + (k - j)) (drop i xs)" by (simp add: bslice_def)
  also have "\<dots> = bslice i j xs @ take (k - j) (drop (j - i) (drop i xs))"
    by (simp only: take_add bslice_def)
  also have "drop (j - i) (drop i xs) = drop j xs" using \<open>i \<le> j\<close> by simp
  finally show ?thesis by (simp add: bslice_def)
qed

lemma bslice_to_end: "length xs \<le> k \<Longrightarrow> bslice i k xs = drop i xs"
  by (simp add: bslice_def)

lemma drop_conv_bslice: "i \<le> k \<Longrightarrow> bslice i k xs @ drop k xs = drop i xs"
  by (metis append_take_drop_id drop_drop le_add_diff_inverse2 bslice_def)

section \<open>Lexicographic order\<close>

lemma append_less_iff:
  "length xs = length ys \<Longrightarrow>
     xs @ us < ys @ vs \<longleftrightarrow> xs < ys \<or> xs = ys \<and> us < (vs :: 'a::linorder list)"
  by (induction xs ys rule: list_induct2) auto

section \<open>Cardinalities\<close>

lemma int_card_remove:
  "finite A \<Longrightarrow> int (card (A - {x})) = int (card A) - (if x \<in> A then 1 else 0)"
proof -
  assume fin: "finite A"
  show ?thesis
  proof (cases "x \<in> A")
    case True
    then have "card A = Suc (card (A - {x}))" using fin by (simp only: card.remove)
    then show ?thesis using True by simp
  qed simp
qed

lemma int_card_insert:
  "finite A \<Longrightarrow> int (card (insert x A)) = int (card A) + (if x \<in> A then 0 else 1)"
  by (simp add: card_insert_if)

lemma int_card_pred: "finite A \<Longrightarrow> x \<in> A \<Longrightarrow> int (card A - Suc 0) = int (card A) - 1"
  by (cases "card A") (auto simp: card_eq_0_iff)

end
