(* ===== verification/Ids.thy ===== *)
theory Ids
  imports Prelude
begin

text \<open>
  Package \<^verbatim>\<open>internal/ids\<close>: the two 32-byte identifiers, their hexadecimal form and the
  conversions from raw bytes. \<^verbatim>\<open>ActionID\<close>, \<^verbatim>\<open>OutputID\<close> and Bazel's \<^verbatim>\<open>Digest\<close> are all the Go
  type \<^verbatim>\<open>[32]byte\<close>; the development has one type of 32-byte arrays and names it as the code
  does. The facts shown are the round trips between an identifier and its text, exactly which
  texts parse, and that a wrong length is refused rather than padded.
\<close>

section \<open>32-byte arrays\<close>

typedef id32 = "{bs :: bytes. length bs = 32}"
  morphisms id_bytes Abs_id32
  by (rule exI [of _ "replicate 32 0"]) simp

lemma Abs_id32_code [code abstype]: "Abs_id32 (id_bytes a) = a"
  by (rule id_bytes_inverse)

type_synonym ActionID = id32
type_synonym OutputID = id32
type_synonym Digest = id32

text \<open>Go's \<^verbatim>\<open>copy(a[:], bs)\<close> into a fresh, zeroed array: short inputs leave zeros, long ones are cut.\<close>

definition copy_id :: "bytes \<Rightarrow> id32" where
  "copy_id bs = Abs_id32 (take 32 (bs @ replicate 32 0))"

lemma id_bytes_copy_id [code abstract]: "id_bytes (copy_id bs) = take 32 (bs @ replicate 32 0)"
  by (simp add: copy_id_def Abs_id32_inverse)

instantiation id32 :: equal
begin

definition equal_id32 :: "id32 \<Rightarrow> id32 \<Rightarrow> bool" where
  "equal_id32 a b \<longleftrightarrow> id_bytes a = id_bytes b"

instance
  by standard (simp add: equal_id32_def id_bytes_inject)

end

lemma length_id_bytes [simp]: "length (id_bytes a) = 32"
  using id_bytes [of a] by simp

lemma id_bytes_eq_iff [simp]: "id_bytes a = id_bytes b \<longleftrightarrow> a = b"
  by (rule id_bytes_inject)

lemma id_bytes_copy: "length bs = 32 \<Longrightarrow> id_bytes (copy_id bs) = bs"
  by (simp add: id_bytes_copy_id)

lemma copy_id_bytes [simp, codec_simps]: "copy_id (id_bytes a) = a"
  by (metis id_bytes_copy id_bytes_inject length_id_bytes)

lemma copy_id_inj: "length xs = 32 \<Longrightarrow> length ys = 32 \<Longrightarrow> copy_id xs = copy_id ys \<Longrightarrow> xs = ys"
  by (metis id_bytes_copy)

section \<open>Hexadecimal (package encoding/hex)\<close>

definition hexdigit :: "nat \<Rightarrow> char" where
  "hexdigit n = ''0123456789abcdef'' ! n"

text \<open>\<^verbatim>\<open>fromHexChar\<close>: both cases of letter are digits.\<close>

definition fromHexChar :: "char \<Rightarrow> nat option" where
  "fromHexChar c =
     (let n = (of_char c :: nat) in
      if 48 \<le> n \<and> n \<le> 57 then Some (n - 48)
      else if 97 \<le> n \<and> n \<le> 102 then Some (n - 87)
      else if 65 \<le> n \<and> n \<le> 70 then Some (n - 55)
      else None)"

fun hex_encode :: "bytes \<Rightarrow> string" where
  "hex_encode [] = []"
| "hex_encode (b # bs) = hexdigit (unat b div 16) # hexdigit (unat b mod 16) # hex_encode bs"

fun hex_decode :: "string \<Rightarrow> bytes result" where
  "hex_decode [] = Inr []"
| "hex_decode [c] = Inl ErrHex"
| "hex_decode (c # d # cs) =
     (case fromHexChar c of
        None \<Rightarrow> Inl ErrHex
      | Some x \<Rightarrow>
          (case fromHexChar d of
             None \<Rightarrow> Inl ErrHex
           | Some y \<Rightarrow> rbind (hex_decode cs) (\<lambda>bs. Inr (of_nat (16 * x + y) # bs))))"

text \<open>The lower-case form of a hexadecimal digit, and of a text.\<close>

definition lower_hex :: "char \<Rightarrow> char" where
  "lower_hex c = (case fromHexChar c of None \<Rightarrow> c | Some n \<Rightarrow> hexdigit n)"

lemma fromHexChar_hexdigits: "list_all (\<lambda>n. fromHexChar (hexdigit n) = Some n) [0..<16]"
  by code_simp

lemma fromHexChar_hexdigit [simp]: "n < 16 \<Longrightarrow> fromHexChar (hexdigit n) = Some n"
  using fromHexChar_hexdigits by (simp only: list_all_iff set_upt) auto

lemma fromHexChar_bound: "fromHexChar c = Some n \<Longrightarrow> n < 16"
  by (auto simp: fromHexChar_def Let_def split: if_splits)

lemma unat_byte_bound [simp]: "unat (b :: byte) < 256"
proof -
  have "unat b < 2 ^ LENGTH(8)" by (rule unsigned_less)
  then show ?thesis by simp
qed

lemma unat_nibbles [simp]: "unat (b :: byte) div 16 < 16" "unat b mod 16 < 16"
  using unat_byte_bound [of b] by (auto simp: less_mult_imp_div_less)

lemma byte_of_nibbles: "of_nat (16 * (unat b div 16) + unat b mod 16) = (b :: byte)"
  by (simp only: mult_div_mod_eq) simp

lemma length_hex_encode [simp]: "length (hex_encode bs) = 2 * length bs"
  by (induction bs) auto

lemma hex_decode_encode [simp]: "hex_decode (hex_encode bs) = Inr bs"
  by (induction bs) (simp_all add: byte_of_nibbles del: of_nat_add of_nat_mult)

lemma hex_decode_length: "hex_decode s = Inr bs \<Longrightarrow> length s = 2 * length bs"
  by (induction s arbitrary: bs rule: hex_decode.induct)
    (auto simp: result_simps split: option.splits)

lemma unat_of_nibbles: "x < 16 \<Longrightarrow> y < 16 \<Longrightarrow> unat (of_nat (16 * x + y) :: byte) = 16 * x + y"
  by (simp only: unat_of_nat) simp

lemma hex_encode_decode: "hex_decode s = Inr bs \<Longrightarrow> hex_encode bs = map lower_hex s"
proof (induction s arbitrary: bs rule: hex_decode.induct)
  case (3 c d cs)
  then obtain x y bs' where "fromHexChar c = Some x" "fromHexChar d = Some y"
    "hex_decode cs = Inr bs'" "bs = of_nat (16 * x + y) # bs'"
    by (auto simp: result_simps split: option.splits)
  moreover from this have "x < 16" "y < 16" by (auto dest: fromHexChar_bound)
  ultimately show ?case
    using 3 by (simp add: unat_of_nibbles lower_hex_def del: of_nat_add of_nat_mult)
qed auto

section \<open>The package's functions\<close>

definition id_Size :: nat where
  "id_Size = 32"

definition id_HexSize :: nat where
  "id_HexSize = 2 * id_Size"

definition id_String :: "id32 \<Rightarrow> string" where
  "id_String a = hex_encode (id_bytes a)"

definition parseHex :: "string \<Rightarrow> nat \<Rightarrow> bytes result" where
  "parseHex s n =
     (if length s \<noteq> 2 * n then Inl (ErrLength (length s) (2 * n)) else hex_decode s)"

definition ParseActionID :: "string \<Rightarrow> ActionID result" where
  "ParseActionID s = rbind (parseHex s id_Size) (\<lambda>bs. Inr (copy_id bs))"

definition ParseOutputID :: "string \<Rightarrow> OutputID result" where
  "ParseOutputID s = rbind (parseHex s id_Size) (\<lambda>bs. Inr (copy_id bs))"

definition ActionIDFromBytes :: "bytes \<Rightarrow> ActionID result" where
  "ActionIDFromBytes b =
     (if length b \<noteq> id_Size then Inl (ErrLength (length b) id_Size) else Inr (copy_id b))"

definition OutputIDFromBytes :: "bytes \<Rightarrow> OutputID result" where
  "OutputIDFromBytes b =
     (if length b \<noteq> id_Size then Inl (ErrLength (length b) id_Size) else Inr (copy_id b))"

lemma length_id_String [simp]: "length (id_String a) = 64"
  by (simp add: id_String_def)

lemma id_String_inj: "id_String a = id_String b \<Longrightarrow> a = b"
  by (metis hex_decode_encode id_String_def id_bytes_eq_iff sum.inject(2))

lemma ParseActionID_String [simp]: "ParseActionID (id_String a) = Inr a"
  by (simp add: ParseActionID_def parseHex_def id_Size_def id_String_def)

lemma ParseOutputID_eq: "ParseOutputID = ParseActionID"
  by (rule ext) (simp add: ParseOutputID_def ParseActionID_def)

lemma ParseActionID_Inr_iff:
  "ParseActionID s = Inr a \<longleftrightarrow> length s = 64 \<and> hex_decode s = Inr (id_bytes a)"
proof
  assume "ParseActionID s = Inr a"
  then obtain bs where "length s = 64" "hex_decode s = Inr bs" "a = copy_id bs"
    by (auto simp: ParseActionID_def parseHex_def id_Size_def result_simps split: if_splits)
  moreover from this have "length bs = 32" using hex_decode_length [of s bs] by simp
  ultimately show "length s = 64 \<and> hex_decode s = Inr (id_bytes a)"
    by (simp add: id_bytes_copy)
qed (simp add: ParseActionID_def parseHex_def id_Size_def)

lemma ParseActionID_lower: "ParseActionID s = Inr a \<Longrightarrow> id_String a = map lower_hex s"
  by (auto simp: ParseActionID_Inr_iff id_String_def dest: hex_encode_decode)

lemma ActionIDFromBytes_Inr_iff: "ActionIDFromBytes b = Inr a \<longleftrightarrow> b = id_bytes a"
  by (auto simp: ActionIDFromBytes_def id_Size_def id_bytes_copy)

lemma OutputIDFromBytes_Inr_iff: "OutputIDFromBytes b = Inr a \<longleftrightarrow> b = id_bytes a"
  by (auto simp: OutputIDFromBytes_def id_Size_def id_bytes_copy)

text \<open>The lower-case hexadecimal digits, the only characters of a printed identifier.\<close>

definition is_hex :: "char \<Rightarrow> bool" where
  "is_hex c \<longleftrightarrow> c \<in> set ''0123456789abcdef''"

lemma hexdigit_is_hex: "n < 16 \<Longrightarrow> is_hex (hexdigit n)"
  unfolding is_hex_def hexdigit_def by (rule nth_mem) simp

lemma hex_encode_is_hex: "c \<in> set (hex_encode bs) \<Longrightarrow> is_hex c"
  by (induction bs) (auto simp: hexdigit_is_hex)

lemma id_String_hex: "c \<in> set (id_String v) \<Longrightarrow> is_hex c"
  by (auto simp: id_String_def dest: hex_encode_is_hex)

end
