(* ===== verification/Codec.thy ===== *)
theory Codec
  imports Ids
begin

text \<open>
  \<^verbatim>\<open>internal/index/keys.go\<close> and \<^verbatim>\<open>internal/index/codec.go\<close>: the byte layout of the index. Keys
  partition one ordered keyspace into four tables by their first byte; values have fixed widths
  and carry a schema version. The contract of a fixed-width encoding is the locale
  \<open>record_codec\<close>, interpreted for the three value layouts; the keys are shown injective,
  pairwise disjoint across tables, and, for the LRU table, ordered as their timestamps.
\<close>

section \<open>Keys (keys.go)\<close>

definition prefixEntry :: byte where "prefixEntry = 101"
definition prefixLRU :: byte where "prefixLRU = 108"
definition prefixObj :: byte where "prefixObj = 111"
definition prefixMeta :: byte where "prefixMeta = 109"

lemmas prefix_defs = prefixEntry_def prefixLRU_def prefixObj_def prefixMeta_def

definition entryKeyLen :: nat where "entryKeyLen = 1 + id_Size"
definition lruKeyLen :: nat where "lruKeyLen = 1 + 8 + id_Size"
definition objKeyLen :: nat where "objKeyLen = 1 + id_Size"

lemmas key_len_defs = entryKeyLen_def lruKeyLen_def objKeyLen_def id_Size_def

definition metaKey :: "string \<Rightarrow> bytes" where
  "metaKey name = prefixMeta # map of_char name"

definition metaCounters :: bytes where
  "metaCounters = metaKey ''counters''"

definition metaCleanShutdown :: bytes where
  "metaCleanShutdown = metaKey ''clean-shutdown''"

definition metaActivity :: bytes where
  "metaActivity = metaKey ''activity''"

definition activityBucketPrefix :: bytes where
  "activityBucketPrefix = metaKey ''activity/''"

definition entryKey :: "ActionID \<Rightarrow> bytes" where
  "entryKey a = prefixEntry # id_bytes a"

definition objKey :: "OutputID \<Rightarrow> bytes" where
  "objKey o' = prefixObj # id_bytes o'"

definition lruKey :: "int \<Rightarrow> ActionID \<Rightarrow> bytes" where
  "lruKey lastUsedAt a = prefixLRU # put_u64 lastUsedAt @ id_bytes a"

definition parseLRUKey :: "bytes \<Rightarrow> (int \<times> ActionID) result" where
  "parseLRUKey k =
     (if length k \<noteq> lruKeyLen \<or> k ! 0 \<noteq> prefixLRU then Inl (ErrMalformedKey (length k))
      else Inr (get_i64 (bslice 1 9 k), copy_id (drop 9 k)))"

definition outputIDFromObjKey :: "bytes \<Rightarrow> OutputID option" where
  "outputIDFromObjKey k =
     (if length k \<noteq> objKeyLen \<or> k ! 0 \<noteq> prefixObj then None else Some (copy_id (drop 1 k)))"

definition prefixRange :: "byte \<Rightarrow> bytes \<times> bytes" where
  "prefixRange p = ([p], [p + 1])"

lemma entryKey_eq_iff [simp]: "entryKey a = entryKey b \<longleftrightarrow> a = b"
  by (simp add: entryKey_def)

lemma objKey_eq_iff [simp]: "objKey a = objKey b \<longleftrightarrow> a = b"
  by (simp add: objKey_def)

lemma lruKey_eq_iff: "in64 t \<Longrightarrow> in64 u \<Longrightarrow> lruKey t a = lruKey u b \<longleftrightarrow> t = u \<and> a = b"
  by (auto simp: lruKey_def dest: put_u64_inj)

lemma key_disjoint [simp]:
  "entryKey a \<noteq> objKey b" "entryKey a \<noteq> lruKey t b" "entryKey a \<noteq> metaKey n"
  "objKey b \<noteq> entryKey a" "objKey b \<noteq> lruKey t a" "objKey b \<noteq> metaKey n"
  "lruKey t b \<noteq> entryKey a" "lruKey t a \<noteq> objKey b" "lruKey t a \<noteq> metaKey n"
  "metaKey n \<noteq> entryKey a" "metaKey n \<noteq> objKey b" "metaKey n \<noteq> lruKey t a"
  by (simp_all add: entryKey_def objKey_def lruKey_def metaKey_def prefix_defs)

lemma parseLRUKey_lruKey [codec_simps]: "in64 t \<Longrightarrow> parseLRUKey (lruKey t a) = Inr (t, a)"
  by (simp add: parseLRUKey_def lruKey_def key_len_defs bslice_def get_put_u64_id drop_Cons')

lemma list_split_hd: "length xs = Suc n \<Longrightarrow> xs = xs ! 0 # drop 1 xs"
  by (cases xs) auto

lemma parseLRUKey_Inr: "parseLRUKey k = Inr (t, a) \<Longrightarrow> in64 t \<and> k = lruKey t a"
proof -
  assume *: "parseLRUKey k = Inr (t, a)"
  then have k: "length k = 41" "k ! 0 = prefixLRU" and t: "t = get_i64 (bslice 1 9 k)"
    and a: "a = copy_id (drop 9 k)"
    by (auto simp: parseLRUKey_def key_len_defs split: if_splits)
  have "put_u64 t = bslice 1 9 k" using k t by (simp add: put_get_u64)
  moreover have "id_bytes a = drop 9 k" using k a by (simp add: id_bytes_copy)
  ultimately have "lruKey t a = prefixLRU # bslice 1 9 k @ drop 9 k"
    by (simp add: lruKey_def)
  also have "\<dots> = k ! 0 # drop 1 k" using k by (simp add: drop_conv_bslice)
  also have "\<dots> = k" using list_split_hd [of k 40] k by simp
  finally show ?thesis using t by simp
qed

lemma outputIDFromObjKey_eq_Some_iff: "outputIDFromObjKey k = Some v \<longleftrightarrow> k = objKey v"
proof
  assume *: "outputIDFromObjKey k = Some v"
  then have k: "length k = 33" "k ! 0 = prefixObj" "v = copy_id (drop 1 k)"
    by (auto simp: outputIDFromObjKey_def key_len_defs split: if_splits)
  then have "objKey v = k ! 0 # drop 1 k" by (simp add: objKey_def id_bytes_copy)
  then show "k = objKey v" using list_split_hd [of k 32] k by simp
qed (simp add: outputIDFromObjKey_def objKey_def key_len_defs)

lemma outputIDFromObjKey_objKey [simp]: "outputIDFromObjKey (objKey v) = Some v"
  by (simp add: outputIDFromObjKey_eq_Some_iff)

lemma copy_id_objKey [simp]: "copy_id (drop (Suc 0) (objKey v)) = v"
  by (simp add: objKey_def)

text \<open>
  The order of the LRU table: lexicographic key order is chronological order, with the action
  id breaking ties, for the non-negative timestamps \<^verbatim>\<open>Put\<close> admits.
\<close>

definition lru_time :: "int \<Rightarrow> bool" where
  "lru_time t \<longleftrightarrow> 0 \<le> t \<and> t < 2 ^ 63"

lemma lru_time_in64 [simp]: "lru_time t \<Longrightarrow> in64 t"
  by (simp add: lru_time_def in64_def)

lemma lruKey_less_iff:
  "lru_time t \<Longrightarrow> lru_time u \<Longrightarrow>
     lruKey t a < lruKey u b \<longleftrightarrow> t < u \<or> t = u \<and> id_bytes a < id_bytes b"
  by (auto simp: lruKey_def append_less_iff put_u64_less_iff lru_time_def in64_def
      dest: put_u64_inj [rotated 2])

lemma lruKey_less_imp_le:
  "lru_time t \<Longrightarrow> lru_time u \<Longrightarrow> lruKey t a < lruKey u b \<Longrightarrow> t \<le> u"
  by (auto simp: lruKey_less_iff)

text \<open>The bounds of an iterator over one table admit exactly the keys with its prefix.\<close>

lemma in_prefixRange_iff:
  assumes "uint p < 255"
  shows "fst (prefixRange p) \<le> k \<and> k < snd (prefixRange p) \<longleftrightarrow> (\<exists>r. k = p # r)"
proof (cases k)
  case Nil
  then show ?thesis by (simp add: prefixRange_def )
next
  case (Cons c r)
  have "uint (p + 1) = uint p + 1" using assms by (simp add: uint_plus_if')
  then show ?thesis
    using Cons by (auto simp: prefixRange_def word_less_def word_uint_eq_iff)
qed

section \<open>Values (codec.go)\<close>

definition schemaV1 :: byte where "schemaV1 = 1"

definition entryValLen :: nat where "entryValLen = 1 + id_Size + 8 + 8 + 8"
definition objValLen :: nat where "objValLen = 1 + 8 + 8"
definition countersLen :: nat where "countersLen = 1 + 8 + 8 + 8 + 8"

lemmas val_len_defs = entryValLen_def objValLen_def countersLen_def id_Size_def

record Entry =
  OutputID :: OutputID
  Size :: int
  CreatedAt :: int
  LastUsedAt :: int

record objRef =
  Refs :: int
  DiskBytes :: int

record countersSnapshot =
  cActions :: int
  cObjects :: int
  cDiskBytes :: int
  cZeroRefs :: int

definition encodeEntry :: "Entry \<Rightarrow> bytes" where
  "encodeEntry e =
     schemaV1 # id_bytes (OutputID e) @ put_u64 (Size e) @ put_u64 (CreatedAt e)
       @ put_u64 (LastUsedAt e)"

definition decodeEntry :: "bytes \<Rightarrow> Entry result" where
  "decodeEntry b =
     (if length b \<noteq> entryValLen then Inl (ErrLength (length b) entryValLen)
      else if b ! 0 \<noteq> schemaV1 then Inl (ErrVersion (b ! 0))
      else Inr \<lparr>OutputID = copy_id (bslice 1 33 b), Size = get_i64 (bslice 33 41 b),
                CreatedAt = get_i64 (bslice 41 49 b), LastUsedAt = get_i64 (bslice 49 57 b)\<rparr>)"

definition encodeObjRef :: "objRef \<Rightarrow> bytes" where
  "encodeObjRef r = schemaV1 # put_u64 (Refs r) @ put_u64 (DiskBytes r)"

definition decodeObjRef :: "bytes \<Rightarrow> objRef result" where
  "decodeObjRef b =
     (if length b \<noteq> objValLen then Inl (ErrLength (length b) objValLen)
      else if b ! 0 \<noteq> schemaV1 then Inl (ErrVersion (b ! 0))
      else Inr \<lparr>Refs = get_i64 (bslice 1 9 b), DiskBytes = get_i64 (bslice 9 17 b)\<rparr>)"

definition encodeCounters :: "countersSnapshot \<Rightarrow> bytes" where
  "encodeCounters c =
     schemaV1 # put_u64 (cActions c) @ put_u64 (cObjects c) @ put_u64 (cDiskBytes c)
       @ put_u64 (cZeroRefs c)"

definition decodeCounters :: "bytes \<Rightarrow> countersSnapshot result" where
  "decodeCounters b =
     (if length b \<noteq> countersLen then Inl (ErrLength (length b) countersLen)
      else if b ! 0 \<noteq> schemaV1 then Inl (ErrVersion (b ! 0))
      else Inr \<lparr>cActions = get_i64 (bslice 1 9 b), cObjects = get_i64 (bslice 9 17 b),
                cDiskBytes = get_i64 (bslice 17 25 b), cZeroRefs = get_i64 (bslice 25 33 b)\<rparr>)"

text \<open>The values each layout can hold: every integer field is an \<^verbatim>\<open>int64\<close>.\<close>

definition wf_entry :: "Entry \<Rightarrow> bool" where
  "wf_entry e \<longleftrightarrow> in64 (Size e) \<and> in64 (CreatedAt e) \<and> in64 (LastUsedAt e)"

definition wf_objRef :: "objRef \<Rightarrow> bool" where
  "wf_objRef r \<longleftrightarrow> in64 (Refs r) \<and> in64 (DiskBytes r)"

definition wf_counters :: "countersSnapshot \<Rightarrow> bool" where
  "wf_counters c \<longleftrightarrow>
     in64 (cActions c) \<and> in64 (cObjects c) \<and> in64 (cDiskBytes c) \<and> in64 (cZeroRefs c)"

text \<open>
  What a client of a fixed-width value encoding relies on. \<open>dec_enc\<close> and \<open>enc_dec\<close> make the
  decoder the exact inverse; \<open>bad_length\<close>, \<open>bad_version\<close> and \<open>accepts\<close> say which byte strings
  it refuses, and with which error.
\<close>

locale record_codec =
  fixes enc :: "'a \<Rightarrow> bytes"
    and dec :: "bytes \<Rightarrow> 'a result"
    and ok :: "'a \<Rightarrow> bool"
    and width :: nat
  assumes dec_enc: "ok x \<Longrightarrow> dec (enc x) = Inr x"
    and enc_dec: "dec bs = Inr x \<Longrightarrow> ok x \<and> enc x = bs"
    and bad_length: "length bs \<noteq> width \<Longrightarrow> dec bs = Inl (ErrLength (length bs) width)"
    and bad_version: "length bs = width \<Longrightarrow> bs ! 0 \<noteq> schemaV1 \<Longrightarrow> dec bs = Inl (ErrVersion (bs ! 0))"
    and accepts: "length bs = width \<Longrightarrow> bs ! 0 = schemaV1 \<Longrightarrow> \<exists>x. dec bs = Inr x"
begin

lemma dec_Inr_iff: "dec bs = Inr x \<longleftrightarrow> ok x \<and> bs = enc x"
  using dec_enc enc_dec by blast

lemma enc_inj: "ok x \<Longrightarrow> ok y \<Longrightarrow> enc x = enc y \<Longrightarrow> x = y"
  by (metis dec_enc sum.inject(2))

lemma enc_option_inj:
  "map_option enc x = map_option enc y \<Longrightarrow> (\<And>z. x = Some z \<Longrightarrow> ok z) \<Longrightarrow> (\<And>z. y = Some z \<Longrightarrow> ok z) \<Longrightarrow> x = y"
  by (cases x; cases y) (simp_all add: enc_inj)

lemma dec_defined_iff: "(\<exists>x. dec bs = Inr x) \<longleftrightarrow> length bs = width \<and> bs ! 0 = schemaV1"
  by (metis accepts bad_length bad_version sum.distinct(1))

lemma dec_error_cases:
  assumes "dec bs = Inl e"
  shows "e = ErrLength (length bs) width \<and> length bs \<noteq> width
    \<or> e = ErrVersion (bs ! 0) \<and> length bs = width \<and> bs ! 0 \<noteq> schemaV1"
  by (metis accepts assms bad_length bad_version sum.distinct(1) sum.inject(1))

end

interpretation ent: record_codec encodeEntry decodeEntry wf_entry entryValLen
proof
  fix e assume "wf_entry e"
  then show "decodeEntry (encodeEntry e) = Inr e"
    by (simp add: decodeEntry_def encodeEntry_def val_len_defs wf_entry_def bslice_def
        get_put_u64_id drop_Cons')
next
  fix b e assume "decodeEntry b = Inr e"
  then have b: "length b = 57" "b ! 0 = schemaV1"
    and e: "e = \<lparr>OutputID = copy_id (bslice 1 33 b), Size = get_i64 (bslice 33 41 b),
                CreatedAt = get_i64 (bslice 41 49 b), LastUsedAt = get_i64 (bslice 49 57 b)\<rparr>"
    by (auto simp: decodeEntry_def val_len_defs split: if_splits)
  have "encodeEntry e = b ! 0 # bslice 1 33 b @ bslice 33 41 b @ bslice 41 49 b @ bslice 49 57 b"
    using b e by (simp add: encodeEntry_def id_bytes_copy put_get_u64)
  also have "\<dots> = b"
    using b list_split_hd [of b 56] by (simp add: drop_conv_bslice bslice_to_end)
  finally show "wf_entry e \<and> encodeEntry e = b" using e by (simp add: wf_entry_def)
qed (auto simp: decodeEntry_def)

interpretation obj: record_codec encodeObjRef decodeObjRef wf_objRef objValLen
proof
  fix r assume "wf_objRef r"
  then show "decodeObjRef (encodeObjRef r) = Inr r"
    by (simp add: decodeObjRef_def encodeObjRef_def val_len_defs wf_objRef_def bslice_def
        get_put_u64_id drop_Cons')
next
  fix b r assume "decodeObjRef b = Inr r"
  then have b: "length b = 17" "b ! 0 = schemaV1"
    and r: "r = \<lparr>Refs = get_i64 (bslice 1 9 b), DiskBytes = get_i64 (bslice 9 17 b)\<rparr>"
    by (auto simp: decodeObjRef_def val_len_defs split: if_splits)
  have "encodeObjRef r = b ! 0 # bslice 1 9 b @ bslice 9 17 b"
    using b r by (simp add: encodeObjRef_def put_get_u64)
  also have "\<dots> = b"
    using b list_split_hd [of b 16] by (simp add: drop_conv_bslice bslice_to_end)
  finally show "wf_objRef r \<and> encodeObjRef r = b" using r by (simp add: wf_objRef_def)
qed (auto simp: decodeObjRef_def)

interpretation cnt: record_codec encodeCounters decodeCounters wf_counters countersLen
proof
  fix c assume "wf_counters c"
  then show "decodeCounters (encodeCounters c) = Inr c"
    by (simp add: decodeCounters_def encodeCounters_def val_len_defs wf_counters_def bslice_def
        get_put_u64_id drop_Cons')
next
  fix b c assume "decodeCounters b = Inr c"
  then have b: "length b = 33" "b ! 0 = schemaV1"
    and c: "c = \<lparr>cActions = get_i64 (bslice 1 9 b), cObjects = get_i64 (bslice 9 17 b),
                cDiskBytes = get_i64 (bslice 17 25 b), cZeroRefs = get_i64 (bslice 25 33 b)\<rparr>"
    by (auto simp: decodeCounters_def val_len_defs split: if_splits)
  have "encodeCounters c = b ! 0 # bslice 1 9 b @ bslice 9 17 b @ bslice 17 25 b @ bslice 25 33 b"
    using b c by (simp add: encodeCounters_def put_get_u64)
  also have "\<dots> = b"
    using b list_split_hd [of b 32] by (simp add: drop_conv_bslice bslice_to_end)
  finally show "wf_counters c \<and> encodeCounters c = b" using c by (simp add: wf_counters_def)
qed (auto simp: decodeCounters_def)

end
