(* ===== verification/Index_Spec.thy ===== *)
theory Index_Spec
  imports Codec
begin

text \<open>
  What the index promises, without its tables: which entry each action has, and what each known
  output costs on disk. Reference counts, the LRU order and the counters are functions of this
  state, and the theories above show that the stored tables compute them. An output can be
  known without being referenced: a \<^verbatim>\<open>Put\<close> that repoints the last action of an output leaves its
  cost in the budget until an eviction pass reaps it.
\<close>

record ispec =
  ents :: "ActionID \<Rightarrow> Entry option"
  cost :: "OutputID \<Rightarrow> int option"

definition empty_spec :: ispec where
  "empty_spec = \<lparr>ents = Map.empty, cost = Map.empty\<rparr>"

section \<open>Derived quantities\<close>

definition users :: "ispec \<Rightarrow> OutputID \<Rightarrow> ActionID set" where
  "users s v = {a. \<exists>e. ents s a = Some e \<and> OutputID e = v}"

definition refcount :: "ispec \<Rightarrow> OutputID \<Rightarrow> int" where
  "refcount s v = int (card (users s v))"

definition zero_objs :: "ispec \<Rightarrow> OutputID set" where
  "zero_objs s = {v \<in> dom (cost s). users s v = {}}"

definition total_cost :: "ispec \<Rightarrow> int" where
  "total_cost s = (\<Sum>v \<in> dom (cost s). the (cost s v))"

definition lru_order :: "ispec \<Rightarrow> (int \<times> ActionID) set" where
  "lru_order s = {(t, a). \<exists>e. ents s a = Some e \<and> LastUsedAt e = t}"

section \<open>Well-formed states\<close>

definition entry_ok :: "Entry \<Rightarrow> bool" where
  "entry_ok e \<longleftrightarrow> lru_time (LastUsedAt e) \<and> lru_time (CreatedAt e) \<and> lru_time (Size e)"

definition swf :: "ispec \<Rightarrow> bool" where
  "swf s \<longleftrightarrow>
     finite (dom (ents s)) \<and> finite (dom (cost s))
     \<and> (\<forall>a e. ents s a = Some e \<longrightarrow> entry_ok e \<and> OutputID e \<in> dom (cost s))
     \<and> (\<forall>v c. cost s v = Some c \<longrightarrow> lru_time c)
     \<and> int (card (dom (ents s))) < 2 ^ 63"

lemma entry_ok_wf [simp]: "entry_ok e \<Longrightarrow> wf_entry e"
  by (simp add: entry_ok_def wf_entry_def)

lemma users_subset: "users s v \<subseteq> dom (ents s)"
  by (auto simp: users_def)

lemma finite_users: "swf s \<Longrightarrow> finite (users s v)"
  by (meson finite_subset swf_def users_subset)

lemma refcount_bounds: "swf s \<Longrightarrow> 0 \<le> refcount s v \<and> refcount s v < 2 ^ 63"
proof -
  assume "swf s"
  then have "int (card (users s v)) \<le> int (card (dom (ents s)))"
    by (simp add: card_mono users_subset swf_def)
  with \<open>swf s\<close> show ?thesis by (auto simp: refcount_def swf_def)
qed

lemma refcount_in64 [simp]: "swf s \<Longrightarrow> in64 (refcount s v)"
  using refcount_bounds [of s v] by (auto simp: in64_def)

lemma refcount_eq_0_iff: "swf s \<Longrightarrow> refcount s v = 0 \<longleftrightarrow> users s v = {}"
  by (simp add: refcount_def finite_users)

lemma users_user: "ents s a = Some e \<Longrightarrow> a \<in> users s (OutputID e)"
  by (auto simp: users_def)

lemma refcount_pos: "swf s \<Longrightarrow> ents s a = Some e \<Longrightarrow> 1 \<le> refcount s (OutputID e)"
  by (metis empty_iff int_one_le_iff_zero_less order_le_less refcount_bounds refcount_eq_0_iff users_user)

lemma finite_zero_objs: "swf s \<Longrightarrow> finite (zero_objs s)"
  by (simp add: zero_objs_def swf_def)

lemma swf_empty [simp]: "swf empty_spec"
  by (simp add: swf_def empty_spec_def)

section \<open>Operations\<close>

definition spec_put :: "ActionID \<Rightarrow> Entry \<Rightarrow> int \<Rightarrow> ispec \<Rightarrow> ispec" where
  "spec_put a e d s =
     s\<lparr>ents := (ents s)(a \<mapsto> e),
       cost := (if OutputID e \<in> dom (cost s) then cost s else (cost s)(OutputID e \<mapsto> d))\<rparr>"

definition spec_remove :: "ActionID \<Rightarrow> ispec \<Rightarrow> ispec" where
  "spec_remove a s = s\<lparr>ents := (ents s)(a := None)\<rparr>"

definition spec_forget :: "OutputID \<Rightarrow> ispec \<Rightarrow> ispec" where
  "spec_forget v s = s\<lparr>cost := (cost s)(v := None)\<rparr>"

definition orphans_on_delete :: "ActionID \<Rightarrow> ispec \<Rightarrow> OutputID option" where
  "orphans_on_delete a s =
     (case ents s a of
        None \<Rightarrow> None
      | Some e \<Rightarrow> (if users s (OutputID e) = {a} then Some (OutputID e) else None))"

definition spec_delete :: "ActionID \<Rightarrow> ispec \<Rightarrow> ispec" where
  "spec_delete a s =
     (case orphans_on_delete a s of
        None \<Rightarrow> spec_remove a s
      | Some v \<Rightarrow> spec_forget v (spec_remove a s))"

definition touch_due :: "int \<Rightarrow> int \<Rightarrow> Entry \<Rightarrow> bool" where
  "touch_due now g e \<longleftrightarrow> LastUsedAt e < now \<and> \<not> (0 < g \<and> now - LastUsedAt e < g)"

definition spec_touch :: "ActionID \<Rightarrow> int \<Rightarrow> int \<Rightarrow> ispec \<Rightarrow> ispec" where
  "spec_touch a now g s =
     (case ents s a of
        None \<Rightarrow> s
      | Some e \<Rightarrow>
          (if touch_due now g e then s\<lparr>ents := (ents s)(a \<mapsto> e\<lparr>LastUsedAt := now\<rparr>)\<rparr> else s))"

definition spec_reap :: "ispec \<Rightarrow> ispec" where
  "spec_reap s = s\<lparr>cost := (cost s) |` (- zero_objs s)\<rparr>"

definition spec_recost :: "OutputID \<Rightarrow> int \<Rightarrow> ispec \<Rightarrow> ispec" where
  "spec_recost v c s = (if v \<in> dom (cost s) then s\<lparr>cost := (cost s)(v \<mapsto> c)\<rparr> else s)"

section \<open>How the operations change the derived quantities\<close>

lemma users_put:
  "users (spec_put a e d s) v = (if v = OutputID e then insert a (users s v) else users s v - {a})"
  by (auto simp: users_def spec_put_def)

lemma users_remove: "users (spec_remove a s) v = users s v - {a}"
  by (auto simp: users_def spec_remove_def)

lemma users_forget [simp]: "users (spec_forget u s) v = users s v"
  by (simp add: users_def spec_forget_def)

lemma users_recost [simp]: "users (spec_recost u c s) v = users s v"
  by (simp add: users_def spec_recost_def)

lemma users_reap [simp]: "users (spec_reap s) v = users s v"
  by (simp add: users_def spec_reap_def)

lemma users_touch [simp]: "users (spec_touch a now g s) v = users s v"
  by (auto simp: users_def spec_touch_def split: option.splits)

lemma users_delete: "users (spec_delete a s) v = users s v - {a}"
  by (auto simp: spec_delete_def users_remove split: option.splits)

lemma ents_delete [simp]: "ents (spec_delete a s) = (ents s)(a := None)"
  by (simp add: spec_delete_def spec_remove_def spec_forget_def split: option.splits)

lemma cost_delete:
  "cost (spec_delete a s) =
     (case orphans_on_delete a s of None \<Rightarrow> cost s | Some v \<Rightarrow> (cost s)(v := None))"
  by (simp add: spec_delete_def spec_remove_def spec_forget_def split: option.splits)

lemma users_disjoint: "a \<in> users s v \<Longrightarrow> a \<in> users s u \<Longrightarrow> u = v"
  by (auto simp: users_def)

lemma card_dom_put_le: "finite (dom (ents s)) \<Longrightarrow> card (insert a (dom (ents s))) \<le> Suc (card (dom (ents s)))"
  by (simp add: card_insert_if)

section \<open>Every operation keeps a well-formed state well-formed\<close>

lemma swf_put:
  assumes "swf s" "entry_ok e" "lru_time d" "int (card (dom (ents s))) < 2 ^ 63 - 1"
  shows "swf (spec_put a e d s)"
  using assms card_dom_put_le [of s a] by (auto simp: swf_def spec_put_def split: if_splits)

lemma swf_remove:
  assumes "swf s"
  shows "swf (spec_remove a s)"
proof -
  have "card (dom (ents s) - {a}) \<le> card (dom (ents s))"
    using assms by (intro card_mono) (auto simp: swf_def)
  then show ?thesis using assms by (auto simp: swf_def spec_remove_def split: if_splits)
qed

lemma swf_forget: "swf s \<Longrightarrow> users s v = {} \<Longrightarrow> swf (spec_forget v s)"
  by (fastforce simp: swf_def spec_forget_def users_def split: if_splits)

lemma swf_delete: "swf s \<Longrightarrow> swf (spec_delete a s)"
  by (auto simp: spec_delete_def orphans_on_delete_def users_remove swf_remove
      intro!: swf_forget split: option.splits if_splits)

lemma swf_touch:
  assumes "swf s" "lru_time now"
  shows "swf (spec_touch a now g s)"
proof (cases "ents s a")
  case None
  then show ?thesis using assms by (simp add: spec_touch_def)
next
  case (Some e)
  then have "dom ((ents s)(a \<mapsto> e\<lparr>LastUsedAt := now\<rparr>)) = dom (ents s)" by auto
  then show ?thesis
    using Some assms by (auto simp: swf_def spec_touch_def entry_ok_def split: if_splits)
qed

lemma swf_reap: "swf s \<Longrightarrow> swf (spec_reap s)"
  by (auto simp: swf_def spec_reap_def zero_objs_def users_def restrict_map_def dom_def split: if_splits)

lemma swf_recost: "swf s \<Longrightarrow> lru_time c \<Longrightarrow> swf (spec_recost v c s)"
  by (auto simp: swf_def spec_recost_def insert_absorb split: if_splits)

section \<open>Sums over maps\<close>

lemma total_cost_insert:
  assumes "finite (dom (cost s))" "v \<notin> dom (cost s)"
  shows "total_cost (s\<lparr>cost := (cost s)(v \<mapsto> c)\<rparr>) = total_cost s + c"
proof -
  have "(\<Sum>u \<in> dom (cost s). the (((cost s)(v \<mapsto> c)) u)) = (\<Sum>u \<in> dom (cost s). the (cost s u))"
    using assms(2) by (intro sum.cong) auto
  then show ?thesis using assms by (simp add: total_cost_def)
qed

lemma total_cost_forget:
  assumes "finite (dom (cost s))" "cost s v = Some c"
  shows "total_cost (spec_forget v s) = total_cost s - c"
proof -
  have "(\<Sum>u \<in> dom (cost s) - {v}. the (((cost s)(v := None)) u)) = (\<Sum>u \<in> dom (cost s) - {v}. the (cost s u))"
    by (intro sum.cong) auto
  moreover have "v \<in> dom (cost s)" using assms(2) by auto
  ultimately show ?thesis
    using assms by (simp add: total_cost_def spec_forget_def sum_diff1)
qed

lemma total_cost_recost:
  assumes "finite (dom (cost s))" "cost s v = Some b"
  shows "total_cost (spec_recost v c s) = total_cost s + (c - b)"
proof -
  have v: "v \<in> dom (cost s)" using assms(2) by auto
  have "(\<Sum>u \<in> dom (cost s). the (((cost s)(v \<mapsto> c)) u)) = c + (\<Sum>u \<in> dom (cost s) - {v}. the (cost s u))"
    using assms v by (subst sum.remove [of _ v]) (auto intro!: sum.cong)
  moreover have "total_cost s = b + (\<Sum>u \<in> dom (cost s) - {v}. the (cost s u))"
    using assms v by (simp add: total_cost_def sum.remove [of _ v])
  ultimately show ?thesis
    using assms v by (simp add: total_cost_def spec_recost_def insert_absorb)
qed

lemma total_cost_ents [simp]: "total_cost (s\<lparr>ents := f\<rparr>) = total_cost s"
  by (simp add: total_cost_def)

lemma total_cost_touch [simp]: "total_cost (spec_touch a now g s) = total_cost s"
  by (simp add: spec_touch_def split: option.splits)

lemma total_cost_nonneg: "swf s \<Longrightarrow> 0 \<le> total_cost s"
  by (auto simp: total_cost_def swf_def lru_time_def intro!: sum_nonneg)

end
