(* ===== verification/Kv_Store.thy ===== *)
theory Kv_Store
  imports Prelude
begin

text \<open>
  The embedded key-value store (package \<^verbatim>\<open>github.com/cockroachdb/pebble/v2\<close>) is third-party
  code, so it is a parameter of the index: a record of the calls the index makes, over an
  unspecified type of stores. \<open>pebble_ok\<close> is what the index relies on, which is Pebble's
  documented behaviour: a read that succeeds returns the stored value, a batch that is
  committed is applied as a whole and in order, a batch that is not leaves the store alone,
  and an iterator yields the pairs between its bounds in bytewise key order. Every call may
  fail. \<open>ref_pebble\<close>, an association list kept in key order, satisfies the contract.
\<close>

datatype batch_op =
    BSet bytes bytes
  | BDelete bytes
  | BDeleteRange bytes bytes

type_synonym batch = "batch_op list"
type_synonym kv_map = "bytes \<Rightarrow> bytes option"

text \<open>
  \<open>pb_iter\<close> returns the pairs the scan yields and the error, if any, that ended it early
  (\<^verbatim>\<open>iter.Error()\<close>); the outer error is that of \<^verbatim>\<open>db.NewIter\<close>. \<open>pb_view\<close> is the mapping a store
  stands for; no operation of the program reads it. \<open>pb_lock\<close> and \<open>pb_unlock\<close> are the directory
  lock, \<open>pb_open\<close> and \<open>pb_close\<close> open and close the database in that directory.
\<close>

record 'db pebble =
  pb_view :: "'db \<Rightarrow> kv_map"
  pb_get :: "'db \<Rightarrow> bytes \<Rightarrow> bytes option result"
  pb_stage :: "batch \<Rightarrow> batch_op \<Rightarrow> batch result"
  pb_commit :: "'db \<Rightarrow> batch \<Rightarrow> 'db result"
  pb_sync :: "'db \<Rightarrow> error option"
  pb_iter :: "'db \<Rightarrow> bytes \<Rightarrow> bytes \<Rightarrow> ((bytes \<times> bytes) list \<times> error option) result"
  pb_compact :: "'db \<Rightarrow> 'db result"
  pb_lock :: "'db \<Rightarrow> error option"
  pb_open :: "'db \<Rightarrow> 'db result"
  pb_close :: "'db \<Rightarrow> error option"
  pb_unlock :: "'db \<Rightarrow> error option"

fun apply_op :: "batch_op \<Rightarrow> kv_map \<Rightarrow> kv_map" where
  "apply_op (BSet k v) m = m(k \<mapsto> v)"
| "apply_op (BDelete k) m = m(k := None)"
| "apply_op (BDeleteRange lo hi) m = (\<lambda>k. if lo \<le> k \<and> k < hi then None else m k)"

definition apply_batch :: "batch \<Rightarrow> kv_map \<Rightarrow> kv_map" where
  "apply_batch b m = fold apply_op b m"

lemma apply_batch_Nil [simp]: "apply_batch [] m = m"
  by (simp add: apply_batch_def)

lemma apply_batch_Cons [simp]: "apply_batch (x # b) m = apply_batch b (apply_op x m)"
  by (simp add: apply_batch_def)

lemma apply_batch_append [simp]: "apply_batch (b @ b') m = apply_batch b' (apply_batch b m)"
  by (simp add: apply_batch_def)

text \<open>The listing of a mapping between two bounds: strictly ascending in the keys.\<close>

definition lists_range :: "kv_map \<Rightarrow> bytes \<Rightarrow> bytes \<Rightarrow> (bytes \<times> bytes) list \<Rightarrow> bool" where
  "lists_range m lo hi kvs \<longleftrightarrow>
     sorted_wrt (<) (map fst kvs)
     \<and> (\<forall>k v. (k, v) \<in> set kvs \<longleftrightarrow> lo \<le> k \<and> k < hi \<and> m k = Some v)"

definition pebble_ok :: "'db pebble \<Rightarrow> bool" where
  "pebble_ok P \<longleftrightarrow>
     (\<forall>d k r. pb_get P d k = Inr r \<longrightarrow> r = pb_view P d k)
     \<and> (\<forall>b x b'. pb_stage P b x = Inr b' \<longrightarrow> b' = b @ [x])
     \<and> (\<forall>d b d'. pb_commit P d b = Inr d' \<longrightarrow> pb_view P d' = apply_batch b (pb_view P d))
     \<and> (\<forall>d lo hi kvs err. pb_iter P d lo hi = Inr (kvs, err) \<longrightarrow>
          (\<exists>rest. lists_range (pb_view P d) lo hi (kvs @ rest) \<and> (err = None \<longrightarrow> rest = [])))
     \<and> (\<forall>d d'. pb_compact P d = Inr d' \<longrightarrow> pb_view P d' = pb_view P d)
     \<and> (\<forall>d d'. pb_open P d = Inr d' \<longrightarrow> pb_view P d' = pb_view P d)"

text \<open>A store on which no call fails, which is what a claim that an operation succeeds needs.\<close>

definition pebble_healthy :: "'db pebble \<Rightarrow> bool" where
  "pebble_healthy P \<longleftrightarrow>
     (\<forall>d k. \<exists>r. pb_get P d k = Inr r)
     \<and> (\<forall>b x. \<exists>b'. pb_stage P b x = Inr b')
     \<and> (\<forall>d b. \<exists>d'. pb_commit P d b = Inr d')
     \<and> (\<forall>d. pb_sync P d = None)
     \<and> (\<forall>d lo hi. \<exists>kvs. pb_iter P d lo hi = Inr (kvs, None))
     \<and> (\<forall>d. \<exists>d'. pb_compact P d = Inr d')
     \<and> (\<forall>d. pb_lock P d = None \<and> pb_close P d = None \<and> pb_unlock P d = None)
     \<and> (\<forall>d. \<exists>d'. pb_open P d = Inr d')"

lemma pb_getD: "pebble_ok P \<Longrightarrow> pb_get P d k = Inr r \<Longrightarrow> r = pb_view P d k"
  by (simp add: pebble_ok_def)

lemma pb_stageD: "pebble_ok P \<Longrightarrow> pb_stage P b x = Inr b' \<Longrightarrow> b' = b @ [x]"
  by (simp add: pebble_ok_def)

lemma pb_commitD: "pebble_ok P \<Longrightarrow> pb_commit P d b = Inr d' \<Longrightarrow> pb_view P d' = apply_batch b (pb_view P d)"
  by (simp add: pebble_ok_def)

lemma pb_compactD: "pebble_ok P \<Longrightarrow> pb_compact P d = Inr d' \<Longrightarrow> pb_view P d' = pb_view P d"
  by (simp add: pebble_ok_def)

lemma pb_openD: "pebble_ok P \<Longrightarrow> pb_open P d = Inr d' \<Longrightarrow> pb_view P d' = pb_view P d"
  by (simp add: pebble_ok_def)

lemma pb_iterD:
  assumes "pebble_ok P" "pb_iter P d lo hi = Inr (kvs, err)"
  obtains rest where "lists_range (pb_view P d) lo hi (kvs @ rest)" "err = None \<Longrightarrow> rest = []"
  using assms unfolding pebble_ok_def by blast

lemma pb_iter_NoneD:
  assumes "pebble_ok P" "pb_iter P d lo hi = Inr (kvs, None)"
  shows "lists_range (pb_view P d) lo hi kvs"
  using pb_iterD [OF assms] by force

lemma pebble_healthy_get:
  "pebble_ok P \<Longrightarrow> pebble_healthy P \<Longrightarrow> pb_get P d k = Inr (pb_view P d k)"
  by (metis pb_getD pebble_healthy_def)

lemma pebble_healthy_stage:
  "pebble_ok P \<Longrightarrow> pebble_healthy P \<Longrightarrow> pb_stage P b x = Inr (b @ [x])"
  by (metis pb_stageD pebble_healthy_def)

lemma pebble_healthy_commit:
  "pebble_healthy P \<Longrightarrow> \<exists>d'. pb_commit P d b = Inr d'"
  by (simp add: pebble_healthy_def)

lemma pebble_healthy_iter:
  "pebble_healthy P \<Longrightarrow> \<exists>kvs. pb_iter P d lo hi = Inr (kvs, None)"
  by (simp add: pebble_healthy_def)

lemma lists_range_distinct: "lists_range m lo hi kvs \<Longrightarrow> distinct kvs"
  by (metis distinct_map lists_range_def strict_sorted_iff)

lemma lists_range_unique:
  assumes "lists_range m lo hi xs" "lists_range m lo hi ys"
  shows "xs = ys"
proof -
  have fst: "fst ` set xs = fst ` set ys" and eq: "set xs = set ys"
    using assms by (auto simp: lists_range_def)
  have "map fst xs = map fst ys"
    using assms fst by (intro strict_sorted_equal) (auto simp: lists_range_def)
  moreover have "inj_on fst (set xs \<union> set ys)"
    using assms by (auto simp: lists_range_def inj_on_def)
  ultimately show ?thesis by (rule map_inj_on)
qed

section \<open>A reference store\<close>

type_synonym ref_db = "(bytes \<times> bytes) list"

fun ref_set :: "bytes \<Rightarrow> bytes \<Rightarrow> ref_db \<Rightarrow> ref_db" where
  "ref_set k v [] = [(k, v)]"
| "ref_set k v ((k', v') # d) =
     (if k < k' then (k, v) # (k', v') # d
      else if k = k' then (k, v) # d
      else (k', v') # ref_set k v d)"

fun ref_apply :: "batch_op \<Rightarrow> ref_db \<Rightarrow> ref_db" where
  "ref_apply (BSet k v) d = ref_set k v d"
| "ref_apply (BDelete k) d = filter (\<lambda>kv. fst kv \<noteq> k) d"
| "ref_apply (BDeleteRange lo hi) d = filter (\<lambda>kv. \<not> (lo \<le> fst kv \<and> fst kv < hi)) d"

text \<open>Stores that are not in key order stand for, and are committed as, their ordered form.\<close>

definition ref_norm :: "ref_db \<Rightarrow> ref_db" where
  "ref_norm d = (if sorted_wrt (<) (map fst d) then d else [])"

definition ref_pebble :: "ref_db pebble" where
  "ref_pebble =
     \<lparr>pb_view = (\<lambda>d. map_of (ref_norm d)),
      pb_get = (\<lambda>d k. Inr (map_of (ref_norm d) k)),
      pb_stage = (\<lambda>b x. Inr (b @ [x])),
      pb_commit = (\<lambda>d b. Inr (fold ref_apply b (ref_norm d))),
      pb_sync = (\<lambda>d. None),
      pb_iter = (\<lambda>d lo hi. Inr (filter (\<lambda>kv. lo \<le> fst kv \<and> fst kv < hi) (ref_norm d), None)),
      pb_compact = (\<lambda>d. Inr d),
      pb_lock = (\<lambda>d. None),
      pb_open = (\<lambda>d. Inr d),
      pb_close = (\<lambda>d. None),
      pb_unlock = (\<lambda>d. None)\<rparr>"

abbreviation ref_sorted :: "ref_db \<Rightarrow> bool" where
  "ref_sorted d \<equiv> sorted_wrt (<) (map fst d)"

lemma ref_sorted_norm [simp]: "ref_sorted (ref_norm d)"
  by (simp add: ref_norm_def)

lemma ref_norm_id [simp]: "ref_sorted d \<Longrightarrow> ref_norm d = d"
  by (simp add: ref_norm_def)

lemma set_ref_set: "fst ` set (ref_set k v d) = insert k (fst ` set d)"
  by (induction k v d rule: ref_set.induct) (simp_all add: insert_commute)

lemma ref_set_keys: "kv \<in> set (ref_set k v d) \<Longrightarrow> fst kv = k \<or> fst kv \<in> fst ` set d"
  using set_ref_set [of k v d] by (metis image_eqI insert_iff)

lemma ref_sorted_set: "ref_sorted d \<Longrightarrow> ref_sorted (ref_set k v d)"
proof (induction d)
  case (Cons kv d)
  obtain k' v' where kv: "kv = (k', v')" by (cases kv)
  show ?case
  proof (cases "k < k' \<or> k = k'")
    case True
    then show ?thesis using Cons.prems kv by (auto intro: less_trans)
  next
    case False
    then have "k' < k" by auto
    then have "\<forall>x \<in> set (ref_set k v d). k' < fst x"
      using Cons.prems kv by (auto dest!: ref_set_keys)
    then show ?thesis using False Cons kv by simp
  qed
qed simp

lemma ref_sorted_filter: "ref_sorted d \<Longrightarrow> ref_sorted (filter p d)"
  by (induction d) auto

lemma map_of_ref_set: "ref_sorted d \<Longrightarrow> map_of (ref_set k v d) = (map_of d)(k \<mapsto> v)"
  by (induction d) (auto simp: fun_eq_iff)

lemma map_of_filter_key: "map_of (filter (\<lambda>kv. p (fst kv)) d) k = (if p k then map_of d k else None)"
  by (induction d) auto

lemma ref_apply_sound:
  "ref_sorted d \<Longrightarrow> ref_sorted (ref_apply x d) \<and> map_of (ref_apply x d) = apply_op x (map_of d)"
  by (cases x) (simp_all add: ref_sorted_set ref_sorted_filter map_of_ref_set fun_eq_iff
      map_of_filter_key [of "\<lambda>k'. k' \<noteq> _"]
      map_of_filter_key [of "\<lambda>k'. _ \<le> k' \<longrightarrow> \<not> k' < _"])

lemma ref_commit_sound:
  "ref_sorted d \<Longrightarrow> ref_sorted (fold ref_apply b d) \<and> map_of (fold ref_apply b d) = apply_batch b (map_of d)"
  by (induction b arbitrary: d) (auto simp: ref_apply_sound)

lemma ref_iter_sound:
  assumes "ref_sorted d"
  shows "lists_range (map_of d) lo hi (filter (\<lambda>kv. lo \<le> fst kv \<and> fst kv < hi) d)"
proof -
  have "distinct (map fst d)" using assms by (simp add: strict_sorted_iff)
  then show ?thesis
    using assms ref_sorted_filter by (auto simp: lists_range_def map_of_eq_Some_iff)
qed

lemma pebble_ok_ref [simp]: "pebble_ok ref_pebble"
  using ref_commit_sound [OF ref_sorted_norm] ref_iter_sound [OF ref_sorted_norm]
  by (auto simp: pebble_ok_def ref_pebble_def)

lemma pebble_healthy_ref [simp]: "pebble_healthy ref_pebble"
  by (simp add: pebble_healthy_def ref_pebble_def)

end
