(* ===== verification/Index_Ops.thy ===== *)
theory Index_Ops
  imports Codec Kv_Store
begin

text \<open>
  \<^verbatim>\<open>internal/index/index.go\<close>: the operations of the action index over the key-value store \<open>P\<close>.
  A mutation reads what it needs, stages one batch, commits it, and only then moves the
  in-memory counters, exactly as the code does; a failure on the way returns the error and the
  index as it was. The mutex is not modelled: each operation here is one critical section.
\<close>

section \<open>State\<close>

text \<open>The part of the Go struct the operations read or write.\<close>

record 'db index =
  ix_db :: 'db
  ix_actions :: int
  ix_objects :: int
  ix_diskBytes :: int
  ix_zeroRefs :: int
  ix_closed :: bool
  ix_closeErr :: "error option"

section \<open>Reads\<close>

definition getCopy :: "'db pebble \<Rightarrow> 'db index \<Rightarrow> bytes \<Rightarrow> bytes option result" where
  "getCopy P ix key = pb_get P (ix_db ix) key"

definition loadEntry :: "'db pebble \<Rightarrow> 'db index \<Rightarrow> ActionID \<Rightarrow> Entry option result" where
  "loadEntry P ix a =
     rbind (getCopy P ix (entryKey a))
       (\<lambda>v. case v of
              None \<Rightarrow> Inr None
            | Some b \<Rightarrow> rbind (decodeEntry b) (\<lambda>e. Inr (Some e)))"

definition loadObjRef :: "'db pebble \<Rightarrow> 'db index \<Rightarrow> OutputID \<Rightarrow> objRef option result" where
  "loadObjRef P ix v =
     rbind (getCopy P ix (objKey v))
       (\<lambda>b. case b of
              None \<Rightarrow> Inr None
            | Some b \<Rightarrow> rbind (decodeObjRef b) (\<lambda>r. Inr (Some r)))"

definition Index_Get :: "'db pebble \<Rightarrow> 'db index \<Rightarrow> ActionID \<Rightarrow> Entry option result" where
  "Index_Get P ix a =
     (if ix_closed ix then Inl ErrClosed
      else rbind (getCopy P ix (entryKey a))
             (\<lambda>v. case v of
                    None \<Rightarrow> Inr None
                  | Some b \<Rightarrow> rbind (decodeEntry b) (\<lambda>e. Inr (Some e))))"

record Stats =
  st_Actions :: int
  st_Objects :: int
  st_DiskBytes :: int

definition Index_Stats :: "'db index \<Rightarrow> Stats result" where
  "Index_Stats ix =
     (if ix_closed ix then Inl ErrClosed
      else Inr \<lparr>st_Actions = ix_actions ix, st_Objects = ix_objects ix,
                st_DiskBytes = ix_diskBytes ix\<rparr>)"

text \<open>
  \<^verbatim>\<open>AgeSpan\<close> seeks the first and the last LRU key. An error the iterator met is reported when it
  is closed, so it wins over an answer. \<open>None\<close> is an empty index.
\<close>

definition Index_AgeSpan :: "'db pebble \<Rightarrow> 'db index \<Rightarrow> (int \<times> int) option result" where
  "Index_AgeSpan P ix =
     (if ix_closed ix then Inl ErrClosed
      else rbind (pb_iter P (ix_db ix) (fst (prefixRange prefixLRU)) (snd (prefixRange prefixLRU)))
        (\<lambda>(kvs, err).
           case kvs of
             [] \<Rightarrow> (case err of Some e \<Rightarrow> Inl e | None \<Rightarrow> Inr None)
           | kv # _ \<Rightarrow>
               rbind (parseLRUKey (fst kv)) (\<lambda>(oldest, _).
               (case err of
                  Some e \<Rightarrow> Inl e
                | None \<Rightarrow>
                    rbind (parseLRUKey (fst (last kvs))) (\<lambda>(newest, _).
                    Inr (Some (oldest, newest)))))))"

section \<open>Reference counts\<close>

text \<open>The flags are the Go results \<^verbatim>\<open>isNew\<close> and \<^verbatim>\<open>resurrected\<close>.\<close>

definition incRefLocked ::
  "'db pebble \<Rightarrow> 'db index \<Rightarrow> batch \<Rightarrow> OutputID \<Rightarrow> int \<Rightarrow> (bool \<times> bool \<times> batch) result" where
  "incRefLocked P ix b v diskBytes =
     rbind (loadObjRef P ix v)
       (\<lambda>r. case r of
              None \<Rightarrow>
                rbind (pb_stage P b (BSet (objKey v) (encodeObjRef \<lparr>Refs = 1, DiskBytes = diskBytes\<rparr>)))
                  (\<lambda>b. Inr (True, False, b))
            | Some r \<Rightarrow>
                rbind (pb_stage P b (BSet (objKey v) (encodeObjRef (r\<lparr>Refs := add64 (Refs r) 1\<rparr>))))
                  (\<lambda>b. Inr (False, Refs r = 0, b)))"

text \<open>The results are the Go results \<^verbatim>\<open>freed\<close> and \<^verbatim>\<open>hitZero\<close>.\<close>

definition decRefLocked ::
  "'db pebble \<Rightarrow> 'db index \<Rightarrow> batch \<Rightarrow> OutputID \<Rightarrow> bool \<Rightarrow> (int \<times> bool \<times> batch) result" where
  "decRefLocked P ix b v dropRecord =
     rbind (loadObjRef P ix v)
       (\<lambda>r. case r of
              None \<Rightarrow> Inr (0, False, b)
            | Some r0 \<Rightarrow>
                (let r = r0\<lparr>Refs := sub64 (Refs r0) 1\<rparr> in
                 if Refs r > 0 then
                   rbind (pb_stage P b (BSet (objKey v) (encodeObjRef r))) (\<lambda>b. Inr (0, False, b))
                 else if dropRecord then
                   rbind (pb_stage P b (BDelete (objKey v))) (\<lambda>b. Inr (DiskBytes r, True, b))
                 else
                   rbind (pb_stage P b (BSet (objKey v) (encodeObjRef (r\<lparr>Refs := 0\<rparr>))))
                     (\<lambda>b. Inr (0, True, b))))"

section \<open>Mutations\<close>

definition validateEntry :: "Entry \<Rightarrow> int \<Rightarrow> error option" where
  "validateEntry e diskBytes =
     (if CreatedAt e < 0 then Some (ErrNegative ''CreatedAt'' (CreatedAt e))
      else if LastUsedAt e < 0 then Some (ErrNegative ''LastUsedAt'' (LastUsedAt e))
      else if Size e < 0 then Some (ErrNegative ''Size'' (Size e))
      else if diskBytes < 0 then Some (ErrNegative ''diskBytes'' diskBytes)
      else None)"

text \<open>
  The batch \<^verbatim>\<open>Put\<close> stages, with the four counter deltas it accumulates beside it: \<^verbatim>\<open>dActions\<close>,
  \<^verbatim>\<open>dObjects\<close>, \<^verbatim>\<open>dDisk\<close> and \<^verbatim>\<open>dZero\<close>.
\<close>

definition putBatch ::
  "'db pebble \<Rightarrow> 'db index \<Rightarrow> ActionID \<Rightarrow> Entry \<Rightarrow> int \<Rightarrow> (batch \<times> int \<times> int \<times> int \<times> int) result" where
  "putBatch P ix a e diskBytes =
     rbind (loadEntry P ix a) (\<lambda>old.
     rbind (case old of
              Some e0 \<Rightarrow> rbind (pb_stage P [] (BDelete (lruKey (LastUsedAt e0) a))) (\<lambda>b. Inr (b, 0))
            | None \<Rightarrow> Inr ([], 1)) (\<lambda>(b, dActions).
     let sameOutput = (case old of Some e0 \<Rightarrow> OutputID e0 = OutputID e | None \<Rightarrow> False) in
     rbind (case old of
              Some e0 \<Rightarrow>
                (if sameOutput then Inr (b, 0)
                 else rbind (decRefLocked P ix b (OutputID e0) False)
                        (\<lambda>(_, becameZero, b). Inr (b, if becameZero then 1 else 0)))
            | None \<Rightarrow> Inr (b, 0)) (\<lambda>(b, dZero).
     rbind (if sameOutput then Inr (b, 0, 0, dZero)
            else rbind (incRefLocked P ix b (OutputID e) diskBytes)
                   (\<lambda>(isNew, resurrected, b).
                      Inr (b, if isNew then 1 else 0, if isNew then diskBytes else 0,
                           if resurrected then dZero - 1 else dZero)))
       (\<lambda>(b, dObjects, dDisk, dZero).
     rbind (pb_stage P b (BSet (entryKey a) (encodeEntry e))) (\<lambda>b.
     rbind (pb_stage P b (BSet (lruKey (LastUsedAt e) a) [])) (\<lambda>b.
     Inr (b, dActions, dObjects, dDisk, dZero)))))))"

text \<open>
  \<^verbatim>\<open>Put\<close> applies the batch and moves the counters under the lock, and waits for durability after
  releasing it: a failed wait is reported although the entry is recorded.
\<close>

definition Index_Put ::
  "'db pebble \<Rightarrow> 'db index \<Rightarrow> ActionID \<Rightarrow> Entry \<Rightarrow> int \<Rightarrow> error option \<times> 'db index" where
  "Index_Put P ix a e diskBytes =
     (if ix_closed ix then (Some ErrClosed, ix)
      else case validateEntry e diskBytes of
        Some err \<Rightarrow> (Some err, ix)
      | None \<Rightarrow>
          (case putBatch P ix a e diskBytes of
             Inl err \<Rightarrow> (Some err, ix)
           | Inr (b, dActions, dObjects, dDisk, dZero) \<Rightarrow>
               (case pb_commit P (ix_db ix) b of
                  Inl err \<Rightarrow> (Some err, ix)
                | Inr db \<Rightarrow>
                    (pb_sync P db,
                     ix\<lparr>ix_db := db,
                        ix_actions := add64 (ix_actions ix) dActions,
                        ix_objects := add64 (ix_objects ix) dObjects,
                        ix_diskBytes := add64 (ix_diskBytes ix) dDisk,
                        ix_zeroRefs := add64 (ix_zeroRefs ix) dZero\<rparr>))))"

text \<open>The loop of \<^verbatim>\<open>TouchMany\<close>: \<open>seen\<close>, the batch and \<^verbatim>\<open>touched\<close> are its variables.\<close>

fun touchLoop ::
  "'db pebble \<Rightarrow> 'db index \<Rightarrow> int \<Rightarrow> int \<Rightarrow> ActionID list \<Rightarrow> ActionID list \<Rightarrow> batch \<Rightarrow> int
     \<Rightarrow> (batch \<times> int) result" where
  "touchLoop P ix now g seen [] b touched = Inr (b, touched)"
| "touchLoop P ix now g seen (a # acts) b touched =
     (if a \<in> set seen then touchLoop P ix now g seen acts b touched
      else rbind (loadEntry P ix a) (\<lambda>old.
        case old of
          None \<Rightarrow> touchLoop P ix now g (a # seen) acts b touched
        | Some e \<Rightarrow>
            if now \<le> LastUsedAt e then touchLoop P ix now g (a # seen) acts b touched
            else if g > 0 \<and> sub64 now (LastUsedAt e) < g then
              touchLoop P ix now g (a # seen) acts b touched
            else
              rbind (pb_stage P b (BDelete (lruKey (LastUsedAt e) a))) (\<lambda>b.
              rbind (pb_stage P b (BSet (entryKey a) (encodeEntry (e\<lparr>LastUsedAt := now\<rparr>)))) (\<lambda>b.
              rbind (pb_stage P b (BSet (lruKey now a) [])) (\<lambda>b.
              touchLoop P ix now g (a # seen) acts b (touched + 1))))))"

definition Index_TouchMany ::
  "'db pebble \<Rightarrow> 'db index \<Rightarrow> ActionID list \<Rightarrow> int \<Rightarrow> int \<Rightarrow> int result \<times> 'db index" where
  "Index_TouchMany P ix actions now granularity =
     (if ix_closed ix then (Inl ErrClosed, ix)
      else if actions = [] then (Inr 0, ix)
      else case touchLoop P ix now granularity [] actions [] 0 of
        Inl err \<Rightarrow> (Inl err, ix)
      | Inr (b, touched) \<Rightarrow>
          (if touched = 0 then (Inr 0, ix)
           else case pb_commit P (ix_db ix) b of
             Inl err \<Rightarrow> (Inl err, ix)
           | Inr db \<Rightarrow> (Inr touched, ix\<lparr>ix_db := db\<rparr>)))"

definition Index_Touch ::
  "'db pebble \<Rightarrow> 'db index \<Rightarrow> ActionID \<Rightarrow> int \<Rightarrow> int \<Rightarrow> bool result \<times> 'db index" where
  "Index_Touch P ix a now granularity =
     (case Index_TouchMany P ix [a] now granularity of
        (r, ix') \<Rightarrow> (rbind r (\<lambda>n. Inr (n \<noteq> 0)), ix'))"

text \<open>The result is the output to remove from the body store, when there is one.\<close>

definition Index_Delete ::
  "'db pebble \<Rightarrow> 'db index \<Rightarrow> ActionID \<Rightarrow> OutputID option result \<times> 'db index" where
  "Index_Delete P ix a =
     (if ix_closed ix then (Inl ErrClosed, ix)
      else case loadEntry P ix a of
        Inl err \<Rightarrow> (Inl err, ix)
      | Inr None \<Rightarrow> (Inr None, ix)
      | Inr (Some e) \<Rightarrow>
          (case rbind (pb_stage P [] (BDelete (entryKey a))) (\<lambda>b.
                rbind (pb_stage P b (BDelete (lruKey (LastUsedAt e) a))) (\<lambda>b.
                decRefLocked P ix b (OutputID e) True)) of
             Inl err \<Rightarrow> (Inl err, ix)
           | Inr (freed, isOrphan, b) \<Rightarrow>
               (case pb_commit P (ix_db ix) b of
                  Inl err \<Rightarrow> (Inl err, ix)
                | Inr db \<Rightarrow>
                    (let ix1 = ix\<lparr>ix_db := db, ix_actions := add64 (ix_actions ix) (- 1)\<rparr> in
                     if isOrphan then
                       (Inr (Some (OutputID e)),
                        ix1\<lparr>ix_objects := add64 (ix_objects ix) (- 1),
                            ix_diskBytes := add64 (ix_diskBytes ix) (- freed)\<rparr>)
                     else (Inr None, ix1)))))"

definition Index_Compact :: "'db pebble \<Rightarrow> 'db index \<Rightarrow> error option \<times> 'db index" where
  "Index_Compact P ix =
     (if ix_closed ix then (Some ErrClosed, ix)
      else case pb_compact P (ix_db ix) of
        Inl err \<Rightarrow> (Some err, ix)
      | Inr db \<Rightarrow> (None, ix\<lparr>ix_db := db\<rparr>))"

end
