(* ===== verification/Index_Refine.thy ===== *)
theory Index_Refine
  imports Index_Spec Index_Ops
begin

text \<open>
  The index implements its specification. \<open>tables\<close> says how the three tables of the store encode
  an abstract state and \<open>repr\<close> adds the in-memory counters; each operation of
  \<^verbatim>\<open>internal/index/index.go\<close> is shown to take a representation of a state to a representation of
  the state its specification gives, and to leave the index alone when it fails.
\<close>

section \<open>The representation\<close>

definition key_known :: "bytes \<Rightarrow> bool" where
  "key_known k \<longleftrightarrow>
     (\<exists>a. k = entryKey a) \<or> (\<exists>v. k = objKey v) \<or> (\<exists>t a. in64 t \<and> k = lruKey t a)
     \<or> (\<exists>r. k = prefixMeta # r)"

definition obj_record :: "ispec \<Rightarrow> OutputID \<Rightarrow> objRef option" where
  "obj_record s v = map_option (\<lambda>c. \<lparr>Refs = refcount s v, DiskBytes = c\<rparr>) (cost s v)"

definition lru_at :: "ispec \<Rightarrow> int \<Rightarrow> ActionID \<Rightarrow> bool" where
  "lru_at s t a \<longleftrightarrow> map_option LastUsedAt (ents s a) = Some t"

definition tables :: "kv_map \<Rightarrow> ispec \<Rightarrow> bool" where
  "tables m s \<longleftrightarrow>
     (\<forall>a. m (entryKey a) = map_option encodeEntry (ents s a))
     \<and> (\<forall>v. m (objKey v) = map_option encodeObjRef (obj_record s v))
     \<and> (\<forall>t a. in64 t \<longrightarrow> m (lruKey t a) = (if lru_at s t a then Some [] else None))
     \<and> (\<forall>k. m k \<noteq> None \<longrightarrow> key_known k)"

definition counters_ok :: "'db index \<Rightarrow> ispec \<Rightarrow> bool" where
  "counters_ok ix s \<longleftrightarrow>
     ix_actions ix = int (card (dom (ents s)))
     \<and> ix_objects ix = wrap64 (int (card (dom (cost s))))
     \<and> ix_diskBytes ix = wrap64 (total_cost s)
     \<and> ix_zeroRefs ix = wrap64 (int (card (zero_objs s)))"

definition repr :: "'db pebble \<Rightarrow> 'db index \<Rightarrow> ispec \<Rightarrow> bool" where
  "repr P ix s \<longleftrightarrow> swf s \<and> tables (pb_view P (ix_db ix)) s \<and> counters_ok ix s"

lemma reprD:
  assumes "repr P ix s"
  shows "swf s" "tables (pb_view P (ix_db ix)) s" "counters_ok ix s"
  using assms by (simp_all add: repr_def)

lemma key_known_intros [simp]:
  "key_known (entryKey a)" "key_known (objKey v)" "in64 t \<Longrightarrow> key_known (lruKey t a)"
  "key_known (prefixMeta # r)" "key_known (metaKey n)"
  by (auto simp: key_known_def metaKey_def)

lemma tables_entry: "tables m s \<Longrightarrow> m (entryKey a) = map_option encodeEntry (ents s a)"
  by (simp add: tables_def)

lemma tables_obj: "tables m s \<Longrightarrow> m (objKey v) = map_option encodeObjRef (obj_record s v)"
  by (simp add: tables_def)

lemma tables_lru: "tables m s \<Longrightarrow> in64 t \<Longrightarrow> m (lruKey t a) = (if lru_at s t a then Some [] else None)"
  by (simp add: tables_def)

lemma swf_entry_ok: "swf s \<Longrightarrow> ents s a = Some e \<Longrightarrow> entry_ok e"
  by (simp add: swf_def)

lemma swf_cost: "swf s \<Longrightarrow> ents s a = Some e \<Longrightarrow> \<exists>c. cost s (OutputID e) = Some c"
  by (auto simp: swf_def)

lemma obj_record_wf: "swf s \<Longrightarrow> obj_record s v = Some r \<Longrightarrow> wf_objRef r"
  by (auto simp: obj_record_def wf_objRef_def) (simp add: swf_def)

lemma unknown_unused: "swf s \<Longrightarrow> cost s v = None \<Longrightarrow> refcount s v = 0"
  by (subst refcount_eq_0_iff) (force simp: swf_def users_def)+

lemma entry_ok_lru [simp]: "entry_ok e \<Longrightarrow> in64 (LastUsedAt e)"
  by (simp add: entry_ok_def)

text \<open>A state's tables depend only on the listed components, so the meta table is free.\<close>

lemma tables_cong_off_meta:
  assumes "tables m s" "\<And>k. \<nexists>r. k = prefixMeta # r \<Longrightarrow> m' k = m k"
  shows "tables m' s"
proof -
  have "m' (entryKey a) = m (entryKey a)" "m' (objKey a) = m (objKey a)" "m' (lruKey t a) = m (lruKey t a)"
    for a t
    by (rule assms(2); simp add: entryKey_def objKey_def lruKey_def prefix_defs)+
  moreover have "key_known k" if "m' k \<noteq> None" for k
    using that assms by (cases "\<exists>r. k = prefixMeta # r") (auto simp: tables_def)
  ultimately show ?thesis using assms(1) by (simp add: tables_def)
qed

section \<open>Reads\<close>

lemma loadEntry_ok:
  assumes "pebble_ok P" "swf s" "tables (pb_view P (ix_db ix)) s" "loadEntry P ix a = Inr r"
  shows "r = ents s a"
  using assms tables_entry [OF assms(3), of a]
  by (cases "ents s a")
     (auto simp: loadEntry_def getCopy_def result_simps ent.dec_enc swf_entry_ok
       dest!: pb_getD [OF assms(1)] split: option.splits)

lemma loadObjRef_ok:
  assumes "pebble_ok P" "swf s" "tables (pb_view P (ix_db ix)) s" "loadObjRef P ix v = Inr r"
  shows "r = obj_record s v"
  using assms tables_obj [OF assms(3), of v]
  by (cases "obj_record s v")
     (auto simp: loadObjRef_def getCopy_def result_simps obj.dec_enc obj_record_wf
       dest!: pb_getD [OF assms(1)] split: option.splits)

lemma loadEntry_healthy:
  assumes "pebble_ok P" "pebble_healthy P" "swf s" "tables (pb_view P (ix_db ix)) s"
  shows "loadEntry P ix a = Inr (ents s a)"
  using assms tables_entry [OF assms(4), of a]
  by (cases "ents s a")
     (auto simp: loadEntry_def getCopy_def pebble_healthy_get ent.dec_enc swf_entry_ok)

lemma loadObjRef_healthy:
  assumes "pebble_ok P" "pebble_healthy P" "swf s" "tables (pb_view P (ix_db ix)) s"
  shows "loadObjRef P ix v = Inr (obj_record s v)"
  using assms tables_obj [OF assms(4), of v]
  by (cases "obj_record s v")
     (auto simp: loadObjRef_def getCopy_def pebble_healthy_get obj.dec_enc obj_record_wf)

lemma Index_Get_loadEntry: "\<not> ix_closed ix \<Longrightarrow> Index_Get P ix a = loadEntry P ix a"
  by (simp add: Index_Get_def loadEntry_def)

section \<open>Put\<close>

lemma validateEntry_None_iff:
  "validateEntry e d = None \<longleftrightarrow> 0 \<le> CreatedAt e \<and> 0 \<le> LastUsedAt e \<and> 0 \<le> Size e \<and> 0 \<le> d"
  by (auto simp: validateEntry_def)

lemma validateEntry_ok:
  "wf_entry e \<Longrightarrow> in64 d \<Longrightarrow> validateEntry e d = None \<Longrightarrow> entry_ok e \<and> lru_time d"
  by (auto simp: validateEntry_None_iff entry_ok_def wf_entry_def lru_time_def in64_def)

lemma referenced_obj:
  assumes "swf s" "ents s a = Some e" "v = OutputID e"
  shows "1 \<le> refcount s v" "sub64 (refcount s v) 1 = refcount s v - 1"
proof -
  show "1 \<le> refcount s v" using refcount_pos assms by simp
  then show "sub64 (refcount s v) 1 = refcount s v - 1"
    using refcount_bounds [OF assms(1), of v] by (intro sub64_exact) (auto simp: in64_def)
qed

lemma decRef_keep:
  assumes "pebble_ok P" "swf s" "tables (pb_view P (ix_db ix)) s" "ents s a = Some e" "v = OutputID e"
    and "decRefLocked P ix b v False = Inr (freed, z, b')"
  shows "b' = b @ [BSet (objKey v) (encodeObjRef \<lparr>Refs = refcount s v - 1, DiskBytes = the (cost s v)\<rparr>)]
    \<and> (z \<longleftrightarrow> refcount s v = 1)"
proof -
  obtain c where c: "cost s v = Some c" using swf_cost assms by blast
  note ref = referenced_obj [OF assms(2,4,5)]
  have "loadObjRef P ix v = Inr (Some \<lparr>Refs = refcount s v, DiskBytes = c\<rparr>)"
    using assms(6) c loadObjRef_ok [OF assms(1-3), of v]
    by (auto simp: decRefLocked_def obj_record_def result_simps)
  with assms(6) show ?thesis using c ref
    by (auto simp: decRefLocked_def result_simps Let_def dest!: pb_stageD [OF assms(1)] split: if_splits)
qed

lemma decRef_drop:
  assumes "pebble_ok P" "swf s" "tables (pb_view P (ix_db ix)) s" "ents s a = Some e" "v = OutputID e"
    and "decRefLocked P ix b v True = Inr (freed, z, b')"
  shows "(z \<longleftrightarrow> refcount s v = 1) \<and> (z \<longrightarrow> freed = the (cost s v))
    \<and> b' = b @ [if z then BDelete (objKey v)
                else BSet (objKey v) (encodeObjRef \<lparr>Refs = refcount s v - 1, DiskBytes = the (cost s v)\<rparr>)]"
proof -
  obtain c where c: "cost s v = Some c" using swf_cost assms by blast
  note ref = referenced_obj [OF assms(2,4,5)]
  have "loadObjRef P ix v = Inr (Some \<lparr>Refs = refcount s v, DiskBytes = c\<rparr>)"
    using assms(6) c loadObjRef_ok [OF assms(1-3), of v]
    by (auto simp: decRefLocked_def obj_record_def result_simps)
  with assms(6) show ?thesis using c ref
    by (auto simp: decRefLocked_def result_simps Let_def dest!: pb_stageD [OF assms(1)] split: if_splits)
qed

lemma incRef_ok:
  assumes "pebble_ok P" "swf s" "tables (pb_view P (ix_db ix)) s" "refcount s v < 2 ^ 63 - 1"
    and "incRefLocked P ix b v d = Inr (isNew, res, b')"
  shows "(isNew \<longleftrightarrow> cost s v = None) \<and> (res \<longleftrightarrow> v \<in> zero_objs s)
    \<and> b' = b @ [BSet (objKey v) (encodeObjRef \<lparr>Refs = refcount s v + 1,
                   DiskBytes = (case cost s v of None \<Rightarrow> d | Some c \<Rightarrow> c)\<rparr>)]"
proof -
  have "add64 (refcount s v) 1 = refcount s v + 1"
    using assms(2,4) refcount_bounds [of s v] by (intro add64_exact) (auto simp: in64_def)
  moreover from assms(5) obtain r where "loadObjRef P ix v = Inr r"
    by (auto simp: incRefLocked_def result_simps)
  with loadObjRef_ok [OF assms(1-3)] have "loadObjRef P ix v = Inr (obj_record s v)" by auto
  ultimately show ?thesis using assms(5) unknown_unused [OF assms(2), of v] refcount_eq_0_iff [OF assms(2), of v]
    by (cases "cost s v")
       (auto simp: incRefLocked_def obj_record_def zero_objs_def result_simps dest!: pb_stageD [OF assms(1)])
qed

lemma card_users_bound: "swf s \<Longrightarrow> int (card (dom (ents s))) < n \<Longrightarrow> refcount s v < n"
  by (simp add: refcount_def) (metis card_mono le_less_trans of_nat_mono swf_def users_subset)

text \<open>The batch \<^verbatim>\<open>Put\<close> builds and the counter deltas, read off the abstract state.\<close>

definition moves_output :: "ispec \<Rightarrow> ActionID \<Rightarrow> Entry \<Rightarrow> bool" where
  "moves_output s a e \<longleftrightarrow> map_option OutputID (ents s a) \<noteq> Some (OutputID e)"

definition put_ops :: "ispec \<Rightarrow> ActionID \<Rightarrow> Entry \<Rightarrow> int \<Rightarrow> batch" where
  "put_ops s a e d =
     (case ents s a of
        None \<Rightarrow> []
      | Some e0 \<Rightarrow>
          BDelete (lruKey (LastUsedAt e0) a) #
          (if moves_output s a e
           then [BSet (objKey (OutputID e0)) (encodeObjRef \<lparr>Refs = refcount s (OutputID e0) - 1,
                                                DiskBytes = the (cost s (OutputID e0))\<rparr>)]
           else []))
     @ (if moves_output s a e
        then [BSet (objKey (OutputID e)) (encodeObjRef \<lparr>Refs = refcount s (OutputID e) + 1,
                DiskBytes = (case cost s (OutputID e) of None \<Rightarrow> d | Some c \<Rightarrow> c)\<rparr>)]
        else [])
     @ [BSet (entryKey a) (encodeEntry e), BSet (lruKey (LastUsedAt e) a) []]"

definition stranded_by_put :: "ispec \<Rightarrow> ActionID \<Rightarrow> Entry \<Rightarrow> bool" where
  "stranded_by_put s a e \<longleftrightarrow>
     (\<exists>e0. ents s a = Some e0 \<and> moves_output s a e \<and> users s (OutputID e0) = {a})"

lemma refcount_1_iff: "a \<in> users s v \<Longrightarrow> refcount s v = 1 \<longleftrightarrow> users s v = {a}"
  by (auto simp: refcount_def card_1_singleton_iff)

lemma putBatch_ok:
  assumes "pebble_ok P" "swf s" "tables (pb_view P (ix_db ix)) s" "int (card (dom (ents s))) < 2 ^ 63 - 1"
    and "putBatch P ix a e d = Inr (b, dA, dO, dD, dZ)"
  shows "b = put_ops s a e d
    \<and> dA = (if ents s a = None then 1 else 0)
    \<and> dO = (if cost s (OutputID e) = None then 1 else 0)
    \<and> dD = (if cost s (OutputID e) = None then d else 0)
    \<and> dZ = (if stranded_by_put s a e then 1 else 0) - (if moves_output s a e \<and> OutputID e \<in> zero_objs s then 1 else 0)"
proof -
  note stage = pb_stageD [OF assms(1)]
  note inc = incRef_ok [OF assms(1-3) card_users_bound [OF assms(2,4)]]
  from assms(5) obtain old where "loadEntry P ix a = Inr old" by (auto simp: putBatch_def result_simps)
  with loadEntry_ok [OF assms(1-3)] have old: "loadEntry P ix a = Inr (ents s a)" by auto
  show ?thesis
  proof (cases "ents s a")
    case None
    then show ?thesis using assms(5) old
      by (auto simp: putBatch_def put_ops_def moves_output_def stranded_by_put_def result_simps
          dest!: inc stage)
  next
    case (Some e0)
    then have u: "a \<in> users s (OutputID e0)" by (rule users_user)
    obtain c where c: "cost s (OutputID e0) = Some c" using swf_cost assms(2) Some by blast
    note dec = decRef_keep [OF assms(1-3) Some refl]
    show ?thesis
    proof (cases "OutputID e0 = OutputID e")
      case True
      then show ?thesis using assms(5) old Some c
        by (auto simp: putBatch_def put_ops_def moves_output_def stranded_by_put_def result_simps
            dest!: stage)
    next
      case False
      then show ?thesis using assms(5) old Some c refcount_1_iff [OF u]
        by (auto simp: putBatch_def put_ops_def moves_output_def stranded_by_put_def result_simps
            dest!: inc dec stage)
    qed
  qed
qed

lemma refcount_put:
  assumes "swf s"
  shows "refcount (spec_put a e d s) u =
    refcount s u + (if moves_output s a e \<and> u = OutputID e then 1 else 0)
      - (if moves_output s a e \<and> map_option OutputID (ents s a) = Some u then 1 else 0)"
proof -
  have fin: "finite (users s u)" using finite_users assms by blast
  have mem: "a \<in> users s u \<longleftrightarrow> map_option OutputID (ents s a) = Some u" by (auto simp: users_def)
  have pos: "a \<in> users s u \<Longrightarrow> 0 < card (users s u)" using fin by (auto simp: card_gt_0_iff)
  show ?thesis
    using fin mem pos by (auto simp: refcount_def users_put moves_output_def card_insert_if card_Diff_singleton_if)
qed

lemma cost_put:
  "cost (spec_put a e d s) u =
     (if u = OutputID e \<and> cost s u = None then Some d else cost s u)"
  by (auto simp: spec_put_def)

lemma ents_put [simp]: "ents (spec_put a e d s) = (ents s)(a \<mapsto> e)"
  by (simp add: spec_put_def)

lemma obj_record_put:
  assumes "swf s"
  shows "obj_record (spec_put a e d s) u =
    (if moves_output s a e \<and> u = OutputID e
     then Some \<lparr>Refs = refcount s u + 1, DiskBytes = (case cost s u of None \<Rightarrow> d | Some c \<Rightarrow> c)\<rparr>
     else if moves_output s a e \<and> map_option OutputID (ents s a) = Some u
     then Some \<lparr>Refs = refcount s u - 1, DiskBytes = the (cost s u)\<rparr>
     else obj_record s u)"
  using swf_cost [OF assms, of a] unknown_unused [OF assms, of u]
  by (cases "cost s u")
     (auto simp: obj_record_def refcount_put [OF assms] cost_put moves_output_def split: option.splits)

lemma lru_at_put: "lru_at (spec_put a e d s) t b \<longleftrightarrow> (if b = a then t = LastUsedAt e else lru_at s t b)"
  by (auto simp: lru_at_def)

lemma tables_put:
  assumes "swf s" "tables m s" "entry_ok e"
  shows "tables (apply_batch (put_ops s a e d) m) (spec_put a e d s)"
proof -
  let ?m = "apply_batch (put_ops s a e d) m"
  have in0: "in64 (LastUsedAt e)" and in1: "ents s a = Some e0 \<Longrightarrow> in64 (LastUsedAt e0)" for e0
    using assms swf_entry_ok by auto
  have "?m (entryKey b) = map_option encodeEntry (ents (spec_put a e d s) b)" for b
    using assms(2) by (auto simp: put_ops_def tables_entry split: option.splits)
  moreover have "?m (objKey v) = map_option encodeObjRef (obj_record (spec_put a e d s) v)" for v
    unfolding obj_record_put [OF assms(1)]
    using assms(2) by (cases "ents s a") (auto simp: put_ops_def moves_output_def tables_obj)
  moreover have "?m (lruKey t b) = (if lru_at (spec_put a e d s) t b then Some [] else None)" if "in64 t" for t b
    unfolding lru_at_put
    using that in0 in1 assms(2)
    by (cases "ents s a") (auto simp: put_ops_def moves_output_def tables_lru lruKey_eq_iff lru_at_def)
  moreover have "key_known k" if "?m k \<noteq> None" for k
    using that assms(2) in0
    by (cases "ents s a") (auto simp: put_ops_def tables_def split: if_splits)
  ultimately show ?thesis by (simp add: tables_def)
qed

lemma card_zero_put:
  assumes "swf s"
  shows "int (card (zero_objs (spec_put a e d s))) = int (card (zero_objs s))
    + ((if stranded_by_put s a e then 1 else 0)
       - (if moves_output s a e \<and> OutputID e \<in> zero_objs s then 1 else 0))"
proof -
  let ?Z = "zero_objs s" and ?Z' = "zero_objs (spec_put a e d s)" and ?v = "OutputID e"
  have fin: "finite ?Z" using finite_zero_objs assms by blast
  show ?thesis
  proof (cases "stranded_by_put s a e")
    case True
    then obtain e0 where e0: "ents s a = Some e0" "OutputID e0 \<noteq> ?v" "users s (OutputID e0) = {a}" "moves_output s a e"
      by (auto simp: stranded_by_put_def moves_output_def)
    then have new: "OutputID e0 \<notin> ?Z" by (simp add: zero_objs_def)
    have "?Z' = insert (OutputID e0) (?Z - {?v})"
      using e0 swf_cost [OF assms e0(1)] users_disjoint [of a s]
      by (auto simp: zero_objs_def users_put cost_put dom_def split: if_splits)
    then show ?thesis using True e0 fin new
      by (simp add: int_card_remove int_card_insert)
  next
    case False
    have "users s u = {}" if "u \<noteq> ?v" "users s u - {a} = {}" for u
    proof (rule ccontr)
      assume "users s u \<noteq> {}"
      then have "users s u = {a}" using that(2) by auto
      then show False using False that(1) by (auto simp: stranded_by_put_def moves_output_def users_def)
    qed
    then have "?Z' = ?Z - {?v}"
      by (auto simp: zero_objs_def users_put cost_put dom_def split: if_splits)
    moreover have "?v \<in> ?Z \<Longrightarrow> moves_output s a e"
      by (auto simp: zero_objs_def moves_output_def users_def)
    ultimately show ?thesis using False fin
      by (auto simp: int_card_remove)
  qed
qed

lemma total_cost_put:
  "swf s \<Longrightarrow> total_cost (spec_put a e d s) = total_cost s + (if cost s (OutputID e) = None then d else 0)"
  using total_cost_insert [of "s\<lparr>ents := (ents s)(a \<mapsto> e)\<rparr>" "OutputID e" d]
  by (auto simp: spec_put_def swf_def domIff)

lemma card_objs_put:
  "swf s \<Longrightarrow> int (card (dom (cost (spec_put a e d s)))) =
     int (card (dom (cost s))) + (if cost s (OutputID e) = None then 1 else 0)"
  by (auto simp: spec_put_def swf_def int_card_insert domIff)

lemma card_acts_put:
  "swf s \<Longrightarrow> int (card (dom (ents (spec_put a e d s)))) =
     int (card (dom (ents s))) + (if ents s a = None then 1 else 0)"
  by (auto simp: swf_def int_card_insert)

lemma add64_wrap: "add64 (wrap64 x) y = wrap64 (x + y)"
  by (simp add: add64_def wrap64_add_left)

lemma Index_Put_cases:
  assumes "Index_Put P ix a e d = (r, ix')"
  obtains (fail) "ix' = ix" "r \<noteq> None"
  | (commit) b dA dO dD dZ db where "\<not> ix_closed ix" "validateEntry e d = None"
      "putBatch P ix a e d = Inr (b, dA, dO, dD, dZ)"
      "pb_commit P (ix_db ix) b = Inr db" "r = pb_sync P db"
      "ix' = ix\<lparr>ix_db := db, ix_actions := add64 (ix_actions ix) dA,
                ix_objects := add64 (ix_objects ix) dO, ix_diskBytes := add64 (ix_diskBytes ix) dD,
                ix_zeroRefs := add64 (ix_zeroRefs ix) dZ\<rparr>"
proof (cases "ix_closed ix")
  case True
  then show thesis using assms by (intro fail) (auto simp: Index_Put_def)
next
  case open_ix: False
  show thesis
  proof (cases "validateEntry e d")
    case None
    note v = this
    show thesis
    proof (cases "putBatch P ix a e d")
      case (Inl err)
      then show thesis using assms open_ix v by (intro fail) (auto simp: Index_Put_def)
    next
      case (Inr x)
      obtain b dA dO dD dZ where x: "x = (b, dA, dO, dD, dZ)" by (cases x)
      show thesis
      proof (cases "pb_commit P (ix_db ix) b")
        case (Inl err)
        then show thesis using assms open_ix v Inr x by (intro fail) (auto simp: Index_Put_def)
      next
        case (Inr db)
        then show thesis using assms open_ix v \<open>putBatch P ix a e d = Inr x\<close> x
          by (intro commit) (auto simp: Index_Put_def)
      qed
    qed
  next
    case (Some err)
    then have "r = Some err" "ix' = ix" using assms open_ix by (auto simp: Index_Put_def)
    then show thesis by (intro fail) auto
  qed
qed

theorem Put_refines:
  assumes "pebble_ok P" "repr P ix s" "wf_entry e" "in64 d" "int (card (dom (ents s))) < 2 ^ 63 - 1"
    and "Index_Put P ix a e d = (r, ix')"
  shows "ix' = ix \<and> r \<noteq> None \<or> repr P ix' (spec_put a e d s) \<and> ix_closed ix' = ix_closed ix"
proof (cases rule: Index_Put_cases [OF assms(6)])
  case (2 b dA dO dD dZ db)
  note v = 2(2) and b = 2(3) and db = 2(4) and ix' = 2(6)
  note s = reprD [OF assms(2)] and ok = validateEntry_ok [OF assms(3,4) v]
  note B = putBatch_ok [OF assms(1) s(1,2) assms(5) b]
  have swf: "swf (spec_put a e d s)" using swf_put s(1) ok assms(5) by blast
  moreover have "tables (pb_view P db) (spec_put a e d s)"
    using tables_put [OF s(1,2)] ok B pb_commitD [OF assms(1) db] by simp
  moreover have "counters_ok ix' (spec_put a e d s)"
  proof -
    have "in64 (int (card (dom (ents s))) + dA)" using B assms(5) by (simp add: in64_def)
    then show ?thesis using s(3) B unfolding ix' counters_ok_def
      by (simp add: add64_wrap add64_exact total_cost_put [OF s(1)] card_objs_put [OF s(1)]
          card_acts_put [OF s(1)] card_zero_put [OF s(1)] del: ents_put)
  qed
  ultimately show ?thesis by (simp add: repr_def ix')
qed simp

section \<open>Delete\<close>

definition delete_ops :: "ispec \<Rightarrow> ActionID \<Rightarrow> Entry \<Rightarrow> batch" where
  "delete_ops s a e =
     [BDelete (entryKey a), BDelete (lruKey (LastUsedAt e) a),
      if users s (OutputID e) = {a} then BDelete (objKey (OutputID e))
      else BSet (objKey (OutputID e)) (encodeObjRef \<lparr>Refs = refcount s (OutputID e) - 1,
                                          DiskBytes = the (cost s (OutputID e))\<rparr>)]"

lemma orphans_on_delete_eq_Some_iff:
  "orphans_on_delete a s = Some v \<longleftrightarrow> (\<exists>e. ents s a = Some e \<and> OutputID e = v \<and> users s v = {a})"
  by (auto simp: orphans_on_delete_def split: option.splits)

lemma refcount_delete:
  "swf s \<Longrightarrow> refcount (spec_delete a s) u = refcount s u - (if a \<in> users s u then 1 else 0)"
  by (simp add: refcount_def users_delete int_card_remove finite_users)

lemma obj_record_delete:
  assumes "swf s" "ents s a = Some e"
  shows "obj_record (spec_delete a s) u =
    (if u = OutputID e
     then if users s u = {a} then None
          else Some \<lparr>Refs = refcount s u - 1, DiskBytes = the (cost s u)\<rparr>
     else obj_record s u)"
  using assms swf_cost [OF assms]
  by (auto simp: obj_record_def refcount_delete cost_delete orphans_on_delete_def users_def)

lemma tables_delete:
  assumes "swf s" "tables m s" "ents s a = Some e"
  shows "tables (apply_batch (delete_ops s a e) m) (spec_delete a s)"
proof -
  let ?m = "apply_batch (delete_ops s a e) m"
  have in1: "in64 (LastUsedAt e)" using assms swf_entry_ok by auto
  have "?m (entryKey b) = map_option encodeEntry (ents (spec_delete a s) b)" for b
    using assms(2) by (auto simp: delete_ops_def tables_entry)
  moreover have "?m (objKey v) = map_option encodeObjRef (obj_record (spec_delete a s) v)" for v
    unfolding obj_record_delete [OF assms(1,3)]
    using assms(2) by (auto simp: delete_ops_def tables_obj)
  moreover have "?m (lruKey t b) = (if lru_at (spec_delete a s) t b then Some [] else None)" if "in64 t" for t b
    using that in1 assms(2,3) by (auto simp: delete_ops_def tables_lru lruKey_eq_iff lru_at_def)
  moreover have "key_known k" if "?m k \<noteq> None" for k
    using that assms(2) by (auto simp: delete_ops_def tables_def split: if_splits)
  ultimately show ?thesis by (simp add: tables_def)
qed

lemma orphan_cost: "swf s \<Longrightarrow> orphans_on_delete a s = Some v \<Longrightarrow> \<exists>c. cost s v = Some c"
  using swf_cost by (auto simp: orphans_on_delete_eq_Some_iff)

lemma card_acts_delete:
  "swf s \<Longrightarrow> ents s a = Some e \<Longrightarrow> int (card (dom (ents (spec_delete a s)))) = int (card (dom (ents s))) - 1"
  using int_card_remove [of "dom (ents s)" a] by (simp add: swf_def domIff)

lemma card_objs_delete:
  "swf s \<Longrightarrow> int (card (dom (cost (spec_delete a s)))) =
     int (card (dom (cost s))) - (if orphans_on_delete a s = None then 0 else 1)"
  using int_card_pred [of "dom (cost s)"] orphan_cost [of s a]
  by (cases "orphans_on_delete a s") (auto simp: cost_delete swf_def domIff)

lemma total_cost_delete:
  "swf s \<Longrightarrow> total_cost (spec_delete a s) =
     total_cost s - (case orphans_on_delete a s of None \<Rightarrow> 0 | Some v \<Rightarrow> the (cost s v))"
  using orphan_cost [of s a] total_cost_forget [of "spec_remove a s"]
  by (cases "orphans_on_delete a s") (auto simp: spec_delete_def swf_def spec_remove_def)

lemma zero_objs_delete:
  assumes "swf s"
  shows "zero_objs (spec_delete a s) = zero_objs s"
proof -
  have "users s v = {}" if "users s v \<subseteq> {a}" "orphans_on_delete a s \<noteq> Some v" for v
  proof (rule ccontr)
    assume "users s v \<noteq> {}"
    then have "users s v = {a}" using that(1) by auto
    then show False using that(2) by (auto simp: orphans_on_delete_eq_Some_iff users_def)
  qed
  moreover have "users s v \<noteq> {}" if "orphans_on_delete a s = Some v" for v
    using that by (auto simp: orphans_on_delete_eq_Some_iff)
  ultimately show ?thesis
    by (cases "orphans_on_delete a s") (auto simp: zero_objs_def users_delete cost_delete dom_def)
qed

lemma delete_batch_ok:
  assumes "pebble_ok P" "swf s" "tables (pb_view P (ix_db ix)) s" "ents s a = Some e"
    and "rbind (pb_stage P [] (BDelete (entryKey a))) (\<lambda>b.
         rbind (pb_stage P b (BDelete (lruKey (LastUsedAt e) a))) (\<lambda>b.
         decRefLocked P ix b (OutputID e) True)) = Inr (freed, orphan, b)"
  shows "b = delete_ops s a e" "orphan \<longleftrightarrow> orphans_on_delete a s = Some (OutputID e)"
    "orphan \<Longrightarrow> freed = the (cost s (OutputID e))"
proof -
  have "decRefLocked P ix [BDelete (entryKey a), BDelete (lruKey (LastUsedAt e) a)] (OutputID e) True
      = Inr (freed, orphan, b)"
    using assms(5) by (auto simp: result_simps dest!: pb_stageD [OF assms(1)])
  from decRef_drop [OF assms(1-4) refl this] refcount_1_iff [OF users_user [OF assms(4)]] assms(4)
  show "b = delete_ops s a e" "orphan \<longleftrightarrow> orphans_on_delete a s = Some (OutputID e)"
    "orphan \<Longrightarrow> freed = the (cost s (OutputID e))"
    by (auto simp: delete_ops_def orphans_on_delete_eq_Some_iff)
qed

lemma Index_Delete_cases:
  assumes "Index_Delete P ix a = (r, ix')"
  obtains (fail) err where "ix' = ix" "r = Inl err"
  | (absent) "\<not> ix_closed ix" "ix' = ix" "r = Inr None" "loadEntry P ix a = Inr None"
  | (commit) e freed orphan b db where "\<not> ix_closed ix" "loadEntry P ix a = Inr (Some e)"
      "rbind (pb_stage P [] (BDelete (entryKey a))) (\<lambda>b.
         rbind (pb_stage P b (BDelete (lruKey (LastUsedAt e) a))) (\<lambda>b.
         decRefLocked P ix b (OutputID e) True)) = Inr (freed, orphan, b)"
      "pb_commit P (ix_db ix) b = Inr db"
      "r = Inr (if orphan then Some (OutputID e) else None)"
      "ix' = (if orphan
         then ix\<lparr>ix_db := db, ix_actions := add64 (ix_actions ix) (- 1),
                 ix_objects := add64 (ix_objects ix) (- 1), ix_diskBytes := add64 (ix_diskBytes ix) (- freed)\<rparr>
         else ix\<lparr>ix_db := db, ix_actions := add64 (ix_actions ix) (- 1)\<rparr>)"
proof (cases "ix_closed ix")
  case True
  then show thesis using assms by (intro fail) (auto simp: Index_Delete_def)
next
  case open_ix: False
  consider err where "loadEntry P ix a = Inl err" | "loadEntry P ix a = Inr None"
    | e where "loadEntry P ix a = Inr (Some e)"
    by (metis option.exhaust sumE)
  then show thesis
  proof cases
    case 1
    then show thesis using assms open_ix by (intro fail) (auto simp: Index_Delete_def)
  next
    case 2
    then show thesis using assms open_ix by (intro absent) (auto simp: Index_Delete_def)
  next
    case (3 e)
    let ?B = "rbind (pb_stage P [] (BDelete (entryKey a))) (\<lambda>b.
         rbind (pb_stage P b (BDelete (lruKey (LastUsedAt e) a))) (\<lambda>b.
         decRefLocked P ix b (OutputID e) True))"
    show thesis
    proof (cases ?B)
      case (Inl err)
      then show thesis using assms open_ix 3 by (intro fail) (auto simp: Index_Delete_def)
    next
      case (Inr x)
      obtain freed orphan b where x: "x = (freed, orphan, b)" by (cases x)
      show thesis
      proof (cases "pb_commit P (ix_db ix) b")
        case (Inl err)
        then show thesis using assms open_ix 3 x \<open>?B = Inr x\<close> by (intro fail) (auto simp: Index_Delete_def)
      next
        case (Inr db)
        show thesis
          by (rule commit [OF open_ix 3 _ Inr])
             (use assms open_ix 3 x \<open>?B = Inr x\<close> Inr in \<open>auto simp: Index_Delete_def Let_def\<close>)
      qed
    qed
  qed
qed

theorem Delete_refines:
  assumes "pebble_ok P" "repr P ix s" "Index_Delete P ix a = (Inr r, ix')"
  shows "repr P ix' (spec_delete a s) \<and> r = orphans_on_delete a s \<and> ix_closed ix' = ix_closed ix"
proof (cases rule: Index_Delete_cases [OF assms(3)])
  case 1
  then show ?thesis by simp
next
  case 2
  note s = reprD [OF assms(2)]
  have "ents s a = None" using loadEntry_ok [OF assms(1) s(1,2) 2(4)] by simp
  then have "spec_delete a s = s" "orphans_on_delete a s = None"
    by (auto simp: spec_delete_def orphans_on_delete_def spec_remove_def fun_upd_idem)
  then show ?thesis using 2 assms(2) by simp
next
  case (3 e freed orphan b db)
  note s = reprD [OF assms(2)]
  have e: "ents s a = Some e" using loadEntry_ok [OF assms(1) s(1,2) 3(2)] by simp
  note B = delete_batch_ok [OF assms(1) s(1,2) e 3(3)]
  have orph: "orphans_on_delete a s = (if orphan then Some (OutputID e) else None)"
    using B(2) e by (auto simp: orphans_on_delete_def split: if_splits)
  have card: "1 \<le> card (dom (ents s))" "int (card (dom (ents s))) < 2 ^ 63"
    using e s(1) by (auto simp: swf_def card_gt_0_iff Suc_le_eq)
  have "tables (pb_view P db) (spec_delete a s)"
    using tables_delete [OF s(1,2) e] B(1) pb_commitD [OF assms(1) 3(4)] by simp
  moreover have "counters_ok ix' (spec_delete a s)"
  proof -
    have "in64 (int (card (dom (ents s))) - 1)" using card by (simp add: in64_def)
    then show ?thesis using s(3) B(3) orph unfolding 3(6) counters_ok_def
      by (simp add: add64_wrap add64_exact total_cost_delete [OF s(1)] card_objs_delete [OF s(1)]
          card_acts_delete [OF s(1) e] zero_objs_delete [OF s(1)] del: ents_delete)
  qed
  ultimately show ?thesis using orph swf_delete [OF s(1)] 3(5,6) by (simp add: repr_def)
qed

lemma Delete_error: "Index_Delete P ix a = (Inl err, ix') \<Longrightarrow> ix' = ix"
  by (elim Index_Delete_cases) auto

section \<open>Touch\<close>

lemma touch_due_lru: "touch_due now g e \<Longrightarrow> entry_ok e \<Longrightarrow> in64 now \<Longrightarrow> lru_time now"
  by (auto simp: touch_due_def entry_ok_def lru_time_def in64_def)

lemma touch_due_code:
  assumes "entry_ok e" "in64 now"
  shows "touch_due now g e \<longleftrightarrow> \<not> now \<le> LastUsedAt e \<and> \<not> (g > 0 \<and> sub64 now (LastUsedAt e) < g)"
proof (cases "now \<le> LastUsedAt e")
  case False
  then have "sub64 now (LastUsedAt e) = now - LastUsedAt e"
    using assms by (intro sub64_exact) (auto simp: entry_ok_def lru_time_def in64_def)
  then show ?thesis using False by (auto simp: touch_due_def)
qed (auto simp: touch_due_def)

lemma spec_touch_swf: "swf s \<Longrightarrow> in64 now \<Longrightarrow> swf (spec_touch a now g s)"
proof (cases "\<exists>e. ents s a = Some e \<and> touch_due now g e")
  case True
  assume "swf s" "in64 now"
  then show ?thesis using True swf_touch swf_entry_ok touch_due_lru by blast
next
  case False
  assume "swf s"
  then show ?thesis using False by (auto simp: spec_touch_def split: option.splits)
qed

lemma spec_touch_other: "b \<noteq> a \<Longrightarrow> ents (spec_touch a now g s) b = ents s b"
  by (simp add: spec_touch_def split: option.splits)

lemma spec_touch_idem: "spec_touch a now g (spec_touch a now g s) = spec_touch a now g s"
  by (auto simp: spec_touch_def touch_due_def split: option.splits)

lemma spec_touch_commute: "spec_touch a now g (spec_touch b now g s) = spec_touch b now g (spec_touch a now g s)"
  by (cases "a = b") (auto simp: spec_touch_def fun_upd_twist split: option.splits)

lemma cost_touch [simp]: "cost (spec_touch a now g s) = cost s"
  by (simp add: spec_touch_def split: option.splits)

lemma dom_ents_touch [simp]: "dom (ents (spec_touch a now g s)) = dom (ents s)"
  by (auto simp: spec_touch_def split: option.splits)

lemma zero_objs_touch [simp]: "zero_objs (spec_touch a now g s) = zero_objs s"
  by (simp add: zero_objs_def)

definition touch_all :: "ActionID list \<Rightarrow> int \<Rightarrow> int \<Rightarrow> ispec \<Rightarrow> ispec" where
  "touch_all acts now g s = fold (\<lambda>a. spec_touch a now g) acts s"

lemma touch_all_simps [simp]:
  "touch_all [] now g s = s"
  "touch_all (a # acts) now g s = touch_all acts now g (spec_touch a now g s)"
  by (simp_all add: touch_all_def)

lemma touch_all_keeps:
  "cost (touch_all acts now g s) = cost s" "dom (ents (touch_all acts now g s)) = dom (ents s)"
  "users (touch_all acts now g s) v = users s v" "zero_objs (touch_all acts now g s) = zero_objs s"
  "total_cost (touch_all acts now g s) = total_cost s"
  by (induction acts arbitrary: s) simp_all

lemma touch_all_swf: "swf s \<Longrightarrow> in64 now \<Longrightarrow> swf (touch_all acts now g s)"
  by (induction acts arbitrary: s) (simp_all add: spec_touch_swf)

lemma tables_touch:
  assumes "swf s" "tables m s" "in64 now" "ents s a = Some e" "touch_due now g e"
  shows "tables (apply_batch [BDelete (lruKey (LastUsedAt e) a),
      BSet (entryKey a) (encodeEntry (e\<lparr>LastUsedAt := now\<rparr>)), BSet (lruKey now a) []] m) (spec_touch a now g s)"
    (is "tables ?m ?s")
proof -
  have in1: "in64 (LastUsedAt e)" using assms swf_entry_ok by auto
  have s': "ents ?s = (ents s)(a \<mapsto> e\<lparr>LastUsedAt := now\<rparr>)" using assms by (simp add: spec_touch_def)
  have "?m (entryKey b) = map_option encodeEntry (ents ?s b)" for b
    using assms(2) s' by (auto simp: tables_entry)
  moreover have "?m (objKey v) = map_option encodeObjRef (obj_record ?s v)" for v
    using assms(2) by (simp add: tables_obj obj_record_def refcount_def)
  moreover have "?m (lruKey t b) = (if lru_at ?s t b then Some [] else None)" if "in64 t" for t b
    using that in1 assms s' by (auto simp: tables_lru lruKey_eq_iff lru_at_def)
  moreover have "key_known k" if "?m k \<noteq> None" for k
    using that assms(2,3) by (auto simp: tables_def split: if_splits)
  ultimately show ?thesis by (simp add: tables_def)
qed

text \<open>How many of the listed actions a touch moves, counting each action once.\<close>

definition touched_actions :: "ispec \<Rightarrow> int \<Rightarrow> int \<Rightarrow> ActionID set \<Rightarrow> ActionID set" where
  "touched_actions s now g A = {a \<in> A. \<exists>e. ents s a = Some e \<and> touch_due now g e}"

lemma touched_actions_insert:
  "a \<notin> A \<Longrightarrow> finite A \<Longrightarrow> int (card (touched_actions s now g (insert a A))) =
     int (card (touched_actions s now g A)) + (if \<exists>e. ents s a = Some e \<and> touch_due now g e then 1 else 0)"
proof -
  assume "a \<notin> A" "finite A"
  moreover have "touched_actions s now g (insert a A) =
      (if \<exists>e. ents s a = Some e \<and> touch_due now g e then insert a (touched_actions s now g A)
       else touched_actions s now g A)"
    by (auto simp: touched_actions_def)
  ultimately show ?thesis by (auto simp: touched_actions_def int_card_insert)
qed

lemma touchLoop_ok:
  assumes "pebble_ok P" "swf s" "tables m s" "m = pb_view P (ix_db ix)" "in64 now"
    and "touchLoop P ix now g seen acts b n = Inr (b', n')"
    and "swf s1" "tables (apply_batch b m) s1"
    and "\<And>a. a \<notin> set seen \<Longrightarrow> ents s1 a = ents s a" "\<And>a. a \<in> set seen \<Longrightarrow> spec_touch a now g s1 = s1"
  shows "tables (apply_batch b' m) (touch_all acts now g s1)
    \<and> n' = n + int (card (touched_actions s now g (set acts - set seen)))"
  using assms(6-)
proof (induction acts arbitrary: seen b n s1)
  case Nil
  then show ?case by (simp add: touched_actions_def)
next
  case (Cons a acts)
  show ?case
  proof (cases "a \<in> set seen")
    case True
    then show ?thesis using Cons.IH [of seen b n s1] Cons.prems by (simp add: insert_absorb)
  next
    case False
    let ?s = "spec_touch a now g s1"
    have ea: "ents s1 a = ents s a" using Cons.prems(4) False by simp
    have seen: "ents ?s c = ents s c" if "c \<notin> set (a # seen)" for c
      using that Cons.prems(4) by (simp add: spec_touch_other)
    have idem: "spec_touch c now g ?s = ?s" if "c \<in> set (a # seen)" for c
      using that Cons.prems(5) by (metis set_ConsD spec_touch_commute spec_touch_idem)
    have IH: "tables (apply_batch b' m) (touch_all acts now g ?s)
        \<and> n' = k + int (card (touched_actions s now g (set acts - set (a # seen))))"
      if "touchLoop P ix now g (a # seen) acts bb k = Inr (b', n')" "tables (apply_batch bb m) ?s" for bb k
      by (rule Cons.IH [OF that(1) spec_touch_swf [OF Cons.prems(2) assms(5)] that(2) seen idem])
    have set: "set (a # acts) - set seen = insert a (set acts - set (a # seen))" using False by auto
    note cnt = touched_actions_insert [of a "set acts - set (a # seen)" s now g, folded set]
    obtain old where "loadEntry P ix a = Inr old" using Cons.prems(1) False by (auto simp: result_simps)
    then have old: "loadEntry P ix a = Inr (ents s a)" using loadEntry_ok assms(1-4) by metis
    show ?thesis
    proof (cases "\<exists>e. ents s a = Some e \<and> touch_due now g e")
      case True
      then obtain e where e: "ents s a = Some e" "touch_due now g e" by blast
      let ?ops = "[BDelete (lruKey (LastUsedAt e) a),
        BSet (entryKey a) (encodeEntry (e\<lparr>LastUsedAt := now\<rparr>)), BSet (lruKey now a) []]"
      have "touchLoop P ix now g (a # seen) acts (b @ ?ops) (n + 1) = Inr (b', n')"
        using Cons.prems(1) False old e touch_due_code [of e now g] swf_entry_ok [OF assms(2) e(1)] assms(5)
        by (auto simp: result_simps dest!: pb_stageD [OF assms(1)])
      moreover have "tables (apply_batch (b @ ?ops) m) ?s"
        using tables_touch [OF Cons.prems(2,3) assms(5)] e ea by simp
      ultimately show ?thesis using IH [of "b @ ?ops" "n + 1"] True cnt by simp
    next
      case undue: False
      then have "?s = s1" using ea by (auto simp: spec_touch_def split: option.splits)
      moreover have "touchLoop P ix now g (a # seen) acts b n = Inr (b', n')"
        using Cons.prems(1) False old undue touch_due_code [of _ now g] swf_entry_ok [OF assms(2)] assms(5)
        by (auto split: option.splits if_splits)
      ultimately show ?thesis using IH [of b n] undue cnt Cons.prems(3) by simp
    qed
  qed
qed

lemma touch_all_none: "touched_actions s now g (set acts) = {} \<Longrightarrow> touch_all acts now g s = s"
proof (induction acts)
  case (Cons a acts)
  then have "spec_touch a now g s = s" "touched_actions s now g (set acts) = {}"
    by (auto simp: touched_actions_def spec_touch_def split: option.splits)
  then show ?case using Cons by simp
qed simp

theorem TouchMany_refines:
  assumes "pebble_ok P" "repr P ix s" "in64 now" "Index_TouchMany P ix acts now g = (Inr n, ix')"
  shows "repr P ix' (touch_all acts now g s) \<and> n = int (card (touched_actions s now g (set acts)))
    \<and> ix_closed ix' = ix_closed ix"
proof (cases "acts = []")
  case True
  then show ?thesis using assms by (auto simp: Index_TouchMany_def touched_actions_def split: if_splits)
next
  case False
  note s = reprD [OF assms(2)]
  obtain b touched where L: "touchLoop P ix now g [] acts [] 0 = Inr (b, touched)"
    using assms(4) False by (auto simp: Index_TouchMany_def split: if_splits sum.splits)
  have B: "tables (apply_batch b (pb_view P (ix_db ix))) (touch_all acts now g s)"
    "touched = int (card (touched_actions s now g (set acts)))"
    using touchLoop_ok [OF assms(1) s(1,2) refl assms(3) L s(1)] s(2) by simp_all
  show ?thesis
  proof (cases "touched = 0")
    case True
    then have "touched_actions s now g (set acts) = {}" using B(2) by (simp add: touched_actions_def)
    then show ?thesis using True assms L False B(2) touch_all_none [of s now g acts]
      by (auto simp: Index_TouchMany_def split: if_splits)
  next
    case moved: False
    then obtain db where db: "pb_commit P (ix_db ix) b = Inr db" "n = touched" "ix' = ix\<lparr>ix_db := db\<rparr>"
      using assms(4) False L by (auto simp: Index_TouchMany_def split: if_splits sum.splits)
    then have "tables (pb_view P db) (touch_all acts now g s)" using B(1) pb_commitD [OF assms(1) db(1)] by simp
    moreover have "counters_ok ix' (touch_all acts now g s)"
      using s(3) db(3) by (simp add: counters_ok_def touch_all_keeps)
    ultimately show ?thesis using touch_all_swf [OF s(1) assms(3)] B(2) db by (simp add: repr_def)
  qed
qed

lemma TouchMany_error: "Index_TouchMany P ix acts now g = (Inl err, ix') \<Longrightarrow> ix' = ix"
  by (auto simp: Index_TouchMany_def split: if_splits sum.splits)

end
