(* ===== verification/Index_Scan.thy ===== *)
theory Index_Scan
  imports Index_Refine
begin

text \<open>
  What an iterator over one of the index's tables yields, in terms of the abstract state: the LRU
  table lists every action once, oldest first; the output table lists every known output with its
  reference count and cost; the entry table lists every action. The scans of \<^verbatim>\<open>AgeSpan\<close>,
  eviction, remeasuring and the counter rebuild rest on these lemmas.
\<close>

section \<open>The LRU table\<close>

lemma lru_range:
  "fst (prefixRange prefixLRU) \<le> k \<and> k < snd (prefixRange prefixLRU) \<longleftrightarrow> (\<exists>r. k = prefixLRU # r)"
  by (rule in_prefixRange_iff) (simp add: prefix_defs)

lemma obj_range:
  "fst (prefixRange prefixObj) \<le> k \<and> k < snd (prefixRange prefixObj) \<longleftrightarrow> (\<exists>r. k = prefixObj # r)"
  by (rule in_prefixRange_iff) (simp add: prefix_defs)

lemma entry_range:
  "fst (prefixRange prefixEntry) \<le> k \<and> k < snd (prefixRange prefixEntry) \<longleftrightarrow> (\<exists>r. k = prefixEntry # r)"
  by (rule in_prefixRange_iff) (simp add: prefix_defs)

abbreviation scan_of :: "kv_map \<Rightarrow> byte \<Rightarrow> (bytes \<times> bytes) list \<Rightarrow> bool" where
  "scan_of m p kvs \<equiv> lists_range m (fst (prefixRange p)) (snd (prefixRange p)) kvs"

text \<open>The keys of a table with a given prefix, by the table's constructor.\<close>

lemma tables_keys:
  assumes "tables m s" "m k \<noteq> None"
  shows "(\<exists>r. k = prefixLRU # r) \<longleftrightarrow> (\<exists>t a. in64 t \<and> k = lruKey t a)"
    and "(\<exists>r. k = prefixObj # r) \<longleftrightarrow> (\<exists>v. k = objKey v)"
    and "(\<exists>r. k = prefixEntry # r) \<longleftrightarrow> (\<exists>a. k = entryKey a)"
proof -
  have "key_known k" using assms by (simp add: tables_def)
  then show "(\<exists>r. k = prefixLRU # r) \<longleftrightarrow> (\<exists>t a. in64 t \<and> k = lruKey t a)"
    and "(\<exists>r. k = prefixObj # r) \<longleftrightarrow> (\<exists>v. k = objKey v)"
    and "(\<exists>r. k = prefixEntry # r) \<longleftrightarrow> (\<exists>a. k = entryKey a)"
    by (auto simp: key_known_def entryKey_def objKey_def lruKey_def prefix_defs)
qed

definition lru_row :: "int \<times> ActionID \<Rightarrow> bytes \<times> bytes" where
  "lru_row x = (lruKey (fst x) (snd x), [])"

lemma lru_order_mem: "x \<in> lru_order s \<longleftrightarrow> lru_at s (fst x) (snd x)"
  by (cases x) (auto simp: lru_order_def lru_at_def)

lemma lru_at_time: "swf s \<Longrightarrow> lru_at s t a \<Longrightarrow> lru_time t"
  by (auto simp: lru_at_def swf_def entry_ok_def)

lemma tables_lru_Some:
  "tables m s \<Longrightarrow> in64 t \<Longrightarrow> m (lruKey t a) = Some v \<longleftrightarrow> lru_at s t a \<and> v = []"
  by (auto simp: tables_lru)

lemma scan_lru_mem:
  assumes "swf s" "tables m s" "scan_of m prefixLRU kvs"
  shows "set kvs = lru_row ` lru_order s"
proof -
  have "(k, v) \<in> set kvs \<longleftrightarrow> (k, v) \<in> lru_row ` lru_order s" for k v
  proof -
    have "(k, v) \<in> set kvs \<longleftrightarrow> (\<exists>r. k = prefixLRU # r) \<and> m k = Some v"
      using assms(3) lru_range [of k] by (auto simp: lists_range_def)
    also have "\<dots> \<longleftrightarrow> (\<exists>t a. in64 t \<and> k = lruKey t a \<and> m k = Some v)"
      using tables_keys(1) [OF assms(2), of k] by auto
    also have "\<dots> \<longleftrightarrow> (\<exists>t a. k = lruKey t a \<and> lru_at s t a \<and> v = [])"
      using tables_lru_Some [OF assms(2)] lru_at_time [OF assms(1)] lru_time_in64 by metis
    also have "\<dots> \<longleftrightarrow> (k, v) \<in> lru_row ` lru_order s"
      by (auto simp: lru_row_def image_iff Bex_def lru_order_mem)
    finally show ?thesis .
  qed
  then show ?thesis by auto
qed

definition lru_sorted :: "(int \<times> ActionID) list \<Rightarrow> bool" where
  "lru_sorted L \<longleftrightarrow> sorted (map fst L) \<and> distinct (map snd L)"

definition parse_row :: "bytes \<times> bytes \<Rightarrow> int \<times> ActionID" where
  "parse_row kv = projr (parseLRUKey (fst kv))"

lemma parse_row_row [simp]: "in64 (fst x) \<Longrightarrow> parse_row (lru_row x) = x"
  by (simp add: parse_row_def lru_row_def parseLRUKey_lruKey)

lemma distinct_snd_lru:
  assumes "distinct L" "set L \<subseteq> lru_order s"
  shows "distinct (map snd L)"
proof -
  have "inj_on snd (lru_order s)" by (auto simp: inj_on_def lru_order_def)
  then show ?thesis using assms by (auto simp: distinct_map intro: inj_on_subset)
qed

text \<open>The one listing of a state's LRU table: its pairs in the order of their keys.\<close>

definition lru_listing :: "ispec \<Rightarrow> (int \<times> ActionID) list \<Rightarrow> bool" where
  "lru_listing s L \<longleftrightarrow>
     sorted_wrt (\<lambda>x y. lruKey (fst x) (snd x) < lruKey (fst y) (snd y)) L \<and> set L = lru_order s"

lemma lru_order_lru_time: "swf s \<Longrightarrow> x \<in> lru_order s \<Longrightarrow> lru_time (fst x)"
  using lru_at_time by (auto simp: lru_order_mem)

lemma lru_listing_distinct: "lru_listing s L \<Longrightarrow> distinct L"
  unfolding lru_listing_def distinct_conv_nth sorted_wrt_iff_nth_less
  by (metis less_irrefl linorder_neqE_nat)

lemma lru_listing_sorted:
  assumes "swf s" "lru_listing s L"
  shows "lru_sorted L"
proof -
  have "sorted_wrt (\<lambda>x y. fst x \<le> fst y) L"
  proof (rule sorted_wrt_mono_rel)
    show "sorted_wrt (\<lambda>x y. lruKey (fst x) (snd x) < lruKey (fst y) (snd y)) L"
      using assms(2) by (simp add: lru_listing_def)
    show "fst x \<le> fst y" if "x \<in> set L" "y \<in> set L" "lruKey (fst x) (snd x) < lruKey (fst y) (snd y)" for x y
      using that assms lru_order_lru_time lruKey_less_imp_le unfolding lru_listing_def by metis
  qed
  then show ?thesis
    using assms distinct_snd_lru [OF lru_listing_distinct [OF assms(2)], of s]
    by (simp add: lru_sorted_def sorted_wrt_map lru_listing_def)
qed

lemma lru_listing_unique:
  assumes "swf s" "lru_listing s L" "lru_listing s L'"
  shows "L = L'"
proof -
  let ?k = "\<lambda>x. lruKey (fst x) (snd x)"
  have set: "set L = lru_order s" "set L' = lru_order s" using assms by (simp_all add: lru_listing_def)
  have "inj_on ?k (lru_order s)"
    using lru_order_lru_time [OF assms(1)] by (auto simp: inj_on_def lruKey_eq_iff prod_eq_iff)
  moreover have "map ?k L = map ?k L'"
    using assms set by (intro strict_sorted_equal) (simp_all add: lru_listing_def sorted_wrt_map)
  ultimately show ?thesis using set by (intro map_inj_on [of ?k]) simp_all
qed

lemma lru_listing_exists:
  assumes "swf s"
  shows "\<exists>L. lru_listing s L"
proof -
  let ?k = "\<lambda>x. lruKey (fst x) (snd x)"
  have fin: "finite (lru_order s)"
  proof -
    have "lru_order s \<subseteq> (\<lambda>a. (LastUsedAt (the (ents s a)), a)) ` dom (ents s)"
      by (force simp: lru_order_def)
    then show ?thesis using assms by (meson finite_imageI finite_subset swf_def)
  qed
  let ?ks = "sorted_list_of_set (?k ` lru_order s)"
  let ?L = "map (\<lambda>k. projr (parseLRUKey k)) ?ks"
  have inv: "projr (parseLRUKey (?k x)) = x" if "x \<in> lru_order s" for x
    using that lru_order_lru_time [OF assms] by (simp add: parseLRUKey_lruKey)
  have "set ?L = lru_order s" using fin inv by (force simp: image_iff)
  moreover have "map ?k ?L = ?ks"
    using fin inv by (auto intro!: map_idI)
  then have "sorted_wrt (<) (map ?k ?L)" by simp
  ultimately have "lru_listing s ?L" by (simp only: lru_listing_def sorted_wrt_map)
  then show ?thesis ..
qed

lemma scan_lru:
  assumes "swf s" "tables m s" "scan_of m prefixLRU kvs"
  obtains L where "kvs = map lru_row L" "lru_listing s L"
proof -
  let ?L = "map parse_row kvs"
  note mem = scan_lru_mem [OF assms] and t = lru_order_lru_time [OF assms(1)]
  have kvs: "kvs = map lru_row ?L"
    using mem t by (auto intro!: map_idI [symmetric])
  have "sorted_wrt (\<lambda>x y. fst x < fst y) (map lru_row ?L)"
    using assms(3) kvs by (simp add: lists_range_def sorted_wrt_map)
  then have "sorted_wrt (\<lambda>x y. lruKey (fst x) (snd x) < lruKey (fst y) (snd y)) ?L"
    by (simp add: sorted_wrt_map lru_row_def)
  moreover have "set ?L = lru_order s" using mem t by (force simp: image_iff)
  ultimately show thesis by (intro that [OF kvs]) (simp only: lru_listing_def simp_thms)
qed

section \<open>The output table\<close>

definition obj_row :: "ispec \<Rightarrow> OutputID \<Rightarrow> bytes \<times> bytes" where
  "obj_row s v = (objKey v, encodeObjRef (the (obj_record s v)))"

lemma obj_record_dom: "obj_record s v \<noteq> None \<longleftrightarrow> v \<in> dom (cost s)"
  by (auto simp: obj_record_def)

lemma scan_obj_mem:
  assumes "tables m s" "scan_of m prefixObj kvs"
  shows "set kvs = obj_row s ` dom (cost s)"
proof -
  have "(k, b) \<in> set kvs \<longleftrightarrow> (k, b) \<in> obj_row s ` dom (cost s)" for k b
  proof -
    have "(k, b) \<in> set kvs \<longleftrightarrow> (\<exists>r. k = prefixObj # r) \<and> m k = Some b"
      using assms(2) obj_range [of k] by (auto simp: lists_range_def)
    also have "\<dots> \<longleftrightarrow> (\<exists>v. k = objKey v \<and> m (objKey v) = Some b)"
      using tables_keys(2) [OF assms(1), of k] by auto
    also have "\<dots> \<longleftrightarrow> (k, b) \<in> obj_row s ` dom (cost s)"
      using tables_obj [OF assms(1)] by (auto simp: obj_row_def image_iff obj_record_def)
    finally show ?thesis .
  qed
  then show ?thesis by auto
qed

lemma scan_obj:
  assumes "tables m s" "scan_of m prefixObj kvs"
  obtains V where "kvs = map (obj_row s) V" "set V = dom (cost s)" "distinct V"
proof -
  let ?V = "map (\<lambda>kv. the (outputIDFromObjKey (fst kv))) kvs"
  note mem = scan_obj_mem [OF assms]
  have kvs: "kvs = map (obj_row s) ?V"
    using mem by (auto intro!: map_idI [symmetric] simp: obj_row_def)
  moreover have "set ?V = dom (cost s)" using mem by (force simp: image_iff obj_row_def)
  moreover have "distinct ?V" using lists_range_distinct [OF assms(2)] kvs by (metis distinct_map)
  ultimately show thesis using that by blast
qed

end
