(* ===== verification/Index_Evict.thy ===== *)
theory Index_Evict
  imports Index_Scan
begin

text \<open>
  \<^verbatim>\<open>internal/index/evict.go\<close>: eviction in bounded chunks. A chunk scans the LRU table from its oldest
  key, stages the removals in one batch while tracking the reference counts the batch has already
  moved, and commits; the bodies it orphaned are then handed to the caller's callback, outside the
  lock. Every chunk is one critical section. The callback and the cancellation of the context
  belong to the caller: they are parameters, over a state \<open>'w\<close> of the caller's. Both loops take
  fuel; the theorems give an amount that is enough.
\<close>

definition evictChunkSize :: int where "evictChunkSize = 1000"

record EvictResult =
  ActionsPruned :: int
  ObjectsPruned :: int
  BytesFreed :: int

definition empty_EvictResult :: EvictResult where
  "empty_EvictResult = \<lparr>ActionsPruned = 0, ObjectsPruned = 0, BytesFreed = 0\<rparr>"

section \<open>evictChunk\<close>

text \<open>The variables of the loop: the batch, the in-flight counts, the released outputs, the tallies.\<close>

record chunk =
  ck_b :: batch
  ck_pending :: "OutputID \<Rightarrow> objRef option"
  ck_dropped :: "OutputID list"
  ck_nActions :: int
  ck_nObjects :: int
  ck_freed :: int
  ck_stale :: int
  ck_orphans :: "OutputID list"

definition empty_chunk :: chunk where
  "empty_chunk = \<lparr>ck_b = [], ck_pending = Map.empty, ck_dropped = [], ck_nActions = 0, ck_nObjects = 0,
                  ck_freed = 0, ck_stale = 0, ck_orphans = []\<rparr>"

text \<open>The body of the loop from the reference count of the entry's output on.\<close>

definition evictRelease ::
  "'db pebble \<Rightarrow> 'db index \<Rightarrow> OutputID \<Rightarrow> chunk \<Rightarrow> chunk result" where
  "evictRelease P ix v c =
     (if v \<in> set (ck_dropped c) then Inr c
      else rbind (case ck_pending c v of
                    Some r \<Rightarrow> Inr (Some r)
                  | None \<Rightarrow> loadObjRef P ix v)
        (\<lambda>r. case r of
           None \<Rightarrow> Inr c
         | Some r0 \<Rightarrow>
             (let r = r0\<lparr>Refs := sub64 (Refs r0) 1\<rparr> in
              if Refs r > 0 then
                rbind (pb_stage P (ck_b c) (BSet (objKey v) (encodeObjRef r))) (\<lambda>b.
                Inr (c\<lparr>ck_b := b, ck_pending := (ck_pending c)(v \<mapsto> r)\<rparr>))
              else
                rbind (pb_stage P (ck_b c) (BDelete (objKey v))) (\<lambda>b.
                Inr (c\<lparr>ck_b := b, ck_pending := (ck_pending c)(v := None),
                       ck_dropped := v # ck_dropped c,
                       ck_freed := add64 (ck_freed c) (DiskBytes r),
                       ck_nObjects := ck_nObjects c + 1,
                       ck_orphans := ck_orphans c @ [v]\<rparr>)))))"

definition evictEntry ::
  "'db pebble \<Rightarrow> 'db index \<Rightarrow> ActionID \<Rightarrow> Entry \<Rightarrow> chunk \<Rightarrow> chunk result" where
  "evictEntry P ix a e c =
     rbind (pb_stage P (ck_b c) (BDelete (entryKey a))) (\<lambda>b.
     rbind (pb_stage P b (BDelete (lruKey (LastUsedAt e) a))) (\<lambda>b.
     evictRelease P ix (OutputID e) (c\<lparr>ck_b := b, ck_nActions := ck_nActions c + 1\<rparr>)))"

text \<open>
  The loop. \<open>err\<close> is the error the iterator stops with when its keys run out; a loop that breaks
  earlier has not met it.
\<close>

fun evictScan ::
  "'db pebble \<Rightarrow> 'db index \<Rightarrow> bool \<Rightarrow> int \<Rightarrow> int \<Rightarrow> int \<Rightarrow> error option \<Rightarrow> (bytes \<times> bytes) list
     \<Rightarrow> chunk \<Rightarrow> chunk result" where
  "evictScan P ix ttlEnabled ttlCutoff maxBytes disk err [] c =
     (case err of Some e \<Rightarrow> Inl e | None \<Rightarrow> Inr c)"
| "evictScan P ix ttlEnabled ttlCutoff maxBytes disk err (kv # kvs) c =
     (if ck_nActions c + ck_stale c \<ge> evictChunkSize then Inr c
      else rbind (parseLRUKey (fst kv)) (\<lambda>(ts, a).
        let needTTL = (ttlEnabled \<and> ts < ttlCutoff);
            needSize = (maxBytes > 0 \<and> sub64 disk (ck_freed c) > maxBytes) in
        if \<not> needTTL \<and> \<not> needSize then Inr c
        else rbind (loadEntry P ix a) (\<lambda>old.
          case old of
            None \<Rightarrow>
              rbind (pb_stage P (ck_b c) (BDelete (lruKey ts a))) (\<lambda>b.
              evictScan P ix ttlEnabled ttlCutoff maxBytes disk err kvs
                (c\<lparr>ck_b := b, ck_stale := ck_stale c + 1\<rparr>))
          | Some e \<Rightarrow>
              rbind (evictEntry P ix a e c)
                (evictScan P ix ttlEnabled ttlCutoff maxBytes disk err kvs))))"

type_synonym 'db chunk_out = "(OutputID list \<times> bool) result \<times> 'db index \<times> EvictResult"

definition evictChunk ::
  "'db pebble \<Rightarrow> 'db index \<Rightarrow> bool \<Rightarrow> int \<Rightarrow> int \<Rightarrow> EvictResult \<Rightarrow> 'db chunk_out" where
  "evictChunk P ix ttlEnabled ttlCutoff maxBytes res =
     (case rbind (pb_iter P (ix_db ix) (fst (prefixRange prefixLRU)) (snd (prefixRange prefixLRU)))
             (\<lambda>(kvs, err). evictScan P ix ttlEnabled ttlCutoff maxBytes (ix_diskBytes ix) err kvs
                             empty_chunk) of
        Inl err \<Rightarrow> (Inl err, ix, res)
      | Inr c \<Rightarrow>
          (if ck_nActions c = 0 \<and> ck_stale c = 0 then (Inr ([], False), ix, res)
           else case pb_commit P (ix_db ix) (ck_b c) of
             Inl err \<Rightarrow> (Inl err, ix, res)
           | Inr db \<Rightarrow>
               (Inr (ck_orphans c, True),
                ix\<lparr>ix_db := db,
                   ix_actions := add64 (ix_actions ix) (- ck_nActions c),
                   ix_objects := add64 (ix_objects ix) (- ck_nObjects c),
                   ix_diskBytes := add64 (ix_diskBytes ix) (- ck_freed c)\<rparr>,
                res\<lparr>ActionsPruned := add64 (ActionsPruned res) (ck_nActions c),
                    ObjectsPruned := add64 (ObjectsPruned res) (ck_nObjects c),
                    BytesFreed := add64 (BytesFreed res) (ck_freed c)\<rparr>)))"

section \<open>reapChunk\<close>

text \<open>The loop of \<^verbatim>\<open>reapChunk\<close>: the batch, \<^verbatim>\<open>freed\<close>, the orphans (\<^verbatim>\<open>nObjects\<close> of them) and \<^verbatim>\<open>hitLimit\<close>.\<close>

fun reapScan ::
  "'db pebble \<Rightarrow> error option \<Rightarrow> (bytes \<times> bytes) list \<Rightarrow> batch \<Rightarrow> int \<Rightarrow> int \<Rightarrow> OutputID list
     \<Rightarrow> (batch \<times> int \<times> int \<times> OutputID list \<times> bool) result" where
  "reapScan P err [] b nObjects freed orphans =
     (case err of Some e \<Rightarrow> Inl e | None \<Rightarrow> Inr (b, nObjects, freed, orphans, False))"
| "reapScan P err (kv # kvs) b nObjects freed orphans =
     (if nObjects \<ge> evictChunkSize then Inr (b, nObjects, freed, orphans, True)
      else rbind (decodeObjRef (snd kv)) (\<lambda>r.
        if Refs r \<noteq> 0 then reapScan P err kvs b nObjects freed orphans
        else let v = copy_id (drop 1 (fst kv)) in
          rbind (pb_stage P b (BDelete (objKey v))) (\<lambda>b.
          reapScan P err kvs b (nObjects + 1) (add64 freed (DiskBytes r)) (orphans @ [v]))))"

definition reapChunk :: "'db pebble \<Rightarrow> 'db index \<Rightarrow> EvictResult \<Rightarrow> 'db chunk_out" where
  "reapChunk P ix res =
     (case rbind (pb_iter P (ix_db ix) (fst (prefixRange prefixObj)) (snd (prefixRange prefixObj)))
             (\<lambda>(kvs, err). reapScan P err kvs [] 0 0 []) of
        Inl err \<Rightarrow> (Inl err, ix, res)
      | Inr (b, nObjects, freed, orphans, hitLimit) \<Rightarrow>
          (case (if nObjects > 0
                 then rbind (pb_commit P (ix_db ix) b) (\<lambda>db.
                   Inr (ix\<lparr>ix_db := db,
                           ix_objects := add64 (ix_objects ix) (- nObjects),
                           ix_diskBytes := add64 (ix_diskBytes ix) (- freed)\<rparr>,
                        res\<lparr>ObjectsPruned := add64 (ObjectsPruned res) nObjects,
                            BytesFreed := add64 (BytesFreed res) freed\<rparr>))
                 else Inr (ix, res)) of
             Inl err \<Rightarrow> (Inl err, ix, res)
           | Inr (ix', res') \<Rightarrow>
               (if hitLimit
                then (Inr (orphans, True), ix'\<lparr>ix_zeroRefs := add64 (ix_zeroRefs ix') (- nObjects)\<rparr>, res')
                else (Inr (orphans, False), ix'\<lparr>ix_zeroRefs := 0\<rparr>, res'))))"

section \<open>The loops over chunks\<close>

text \<open>
  The callback may fail; the outputs after the failing one are not reported. \<open>ctx_err w\<close> is what
  \<^verbatim>\<open>ctx.Err()\<close> answers in the caller's state \<open>w\<close>.
\<close>

record 'w evict_env =
  ctx_err :: "'w \<Rightarrow> error option"
  onOrphan :: "OutputID \<Rightarrow> 'w \<Rightarrow> error option \<times> 'w"

fun report :: "'w evict_env \<Rightarrow> OutputID list \<Rightarrow> 'w \<Rightarrow> error option \<times> 'w" where
  "report E [] w = (None, w)"
| "report E (v # vs) w =
     (case onOrphan E v w of
        (Some err, w') \<Rightarrow> (Some err, w')
      | (None, w') \<Rightarrow> report E vs w')"

type_synonym ('db, 'w) pass_out = "(error option \<times> 'db index \<times> EvictResult \<times> 'w) option"

fun reapZeroRefs ::
  "nat \<Rightarrow> 'db pebble \<Rightarrow> 'w evict_env \<Rightarrow> 'db index \<Rightarrow> EvictResult \<Rightarrow> 'w \<Rightarrow> ('db, 'w) pass_out" where
  "reapZeroRefs 0 P E ix res w = None"
| "reapZeroRefs (Suc fuel) P E ix res w =
     (case ctx_err E w of
        Some err \<Rightarrow> Some (Some err, ix, res, w)
      | None \<Rightarrow>
          (case reapChunk P ix res of
             (Inl err, ix', res') \<Rightarrow> Some (Some err, ix', res', w)
           | (Inr (orphans, again), ix', res') \<Rightarrow>
               (case report E orphans w of
                  (Some err, w') \<Rightarrow> Some (Some err, ix', res', w')
                | (None, w') \<Rightarrow>
                    (if \<not> again then Some (None, ix', res', w')
                     else reapZeroRefs fuel P E ix' res' w'))))"

fun evictPass ::
  "nat \<Rightarrow> 'db pebble \<Rightarrow> 'w evict_env \<Rightarrow> bool \<Rightarrow> int \<Rightarrow> int \<Rightarrow> 'db index \<Rightarrow> EvictResult \<Rightarrow> 'w
     \<Rightarrow> ('db, 'w) pass_out" where
  "evictPass 0 P E ttlEnabled ttlCutoff maxBytes ix res w = None"
| "evictPass (Suc fuel) P E ttlEnabled ttlCutoff maxBytes ix res w =
     (case ctx_err E w of
        Some err \<Rightarrow> Some (Some err, ix, res, w)
      | None \<Rightarrow>
          (case evictChunk P ix ttlEnabled ttlCutoff maxBytes res of
             (Inl err, ix', res') \<Rightarrow> Some (Some err, ix', res', w)
           | (Inr (orphans, progressed), ix', res') \<Rightarrow>
               (case report E orphans w of
                  (Some err, w') \<Rightarrow> Some (Some err, ix', res', w')
                | (None, w') \<Rightarrow>
                    (if \<not> progressed then Some (None, ix', res', w')
                     else evictPass fuel P E ttlEnabled ttlCutoff maxBytes ix' res' w'))))"

definition Index_Evict ::
  "nat \<Rightarrow> 'db pebble \<Rightarrow> 'w evict_env \<Rightarrow> 'db index \<Rightarrow> int \<Rightarrow> int \<Rightarrow> int \<Rightarrow> 'w \<Rightarrow> ('db, 'w) pass_out" where
  "Index_Evict fuel P E ix maxBytes ttl now w =
     (if ix_closed ix then Some (Some ErrClosed, ix, empty_EvictResult, w)
      else
        (let ttlEnabled = ttl > 0;
             ttlCutoff = (if ttlEnabled then sub64 now ttl else 0) in
         case (if ix_zeroRefs ix > 0 then reapZeroRefs fuel P E ix empty_EvictResult w
               else Some (None, ix, empty_EvictResult, w)) of
           None \<Rightarrow> None
         | Some (Some err, ix', res', w') \<Rightarrow> Some (Some err, ix', res', w')
         | Some (None, ix', res', w') \<Rightarrow> evictPass fuel P E ttlEnabled ttlCutoff maxBytes ix' res' w'))"

end
