(* ===== verification/Evict_Refine.thy ===== *)
theory Evict_Refine
  imports Index_Evict
begin

text \<open>
  Chunked eviction against its specification. \<open>victims\<close> walks the actions oldest first and selects
  while a constraint is violated; one chunk of the code removes exactly the first thousand
  victims, with the in-flight reference counts giving the same result as deleting one action at a
  time, and the chunks of a pass together remove exactly the victims of one unbounded walk.
\<close>

section \<open>Which actions have to go\<close>

definition must_go :: "bool \<Rightarrow> int \<Rightarrow> int \<Rightarrow> int \<Rightarrow> ispec \<Rightarrow> bool" where
  "must_go ttlEnabled cutoff maxBytes t s \<longleftrightarrow>
     ttlEnabled \<and> t < cutoff \<or> maxBytes > 0 \<and> total_cost s > maxBytes"

fun victims :: "(int \<Rightarrow> ispec \<Rightarrow> bool) \<Rightarrow> nat \<Rightarrow> (int \<times> ActionID) list \<Rightarrow> ispec \<Rightarrow> ActionID list" where
  "victims go n [] s = []"
| "victims go 0 (x # L) s = []"
| "victims go (Suc n) (x # L) s =
     (if go (fst x) s then snd x # victims go n L (spec_delete (snd x) s) else [])"

definition delete_all :: "ActionID list \<Rightarrow> ispec \<Rightarrow> ispec" where
  "delete_all as s = fold spec_delete as s"

fun orphan_list :: "ActionID list \<Rightarrow> ispec \<Rightarrow> OutputID list" where
  "orphan_list [] s = []"
| "orphan_list (a # as) s =
     (case orphans_on_delete a s of None \<Rightarrow> [] | Some v \<Rightarrow> [v]) @ orphan_list as (spec_delete a s)"

lemma delete_all_simps [simp]:
  "delete_all [] s = s" "delete_all (a # as) s = delete_all as (spec_delete a s)"
  "delete_all (as @ bs) s = delete_all bs (delete_all as s)"
  by (simp_all add: delete_all_def)

lemma ents_delete_all: "ents (delete_all as s) a = (if a \<in> set as then None else ents s a)"
  by (induction as arbitrary: s) auto

lemma swf_delete_all: "swf s \<Longrightarrow> swf (delete_all as s)"
  by (induction as arbitrary: s) (simp_all add: swf_delete)

lemma zero_objs_delete_all: "swf s \<Longrightarrow> zero_objs (delete_all as s) = zero_objs s"
  by (induction as arbitrary: s) (simp_all add: swf_delete zero_objs_delete)

lemma orphan_list_append [simp]:
  "orphan_list (as @ bs) s = orphan_list as s @ orphan_list bs (delete_all as s)"
  by (induction as arbitrary: s) simp_all

section \<open>One chunk\<close>

text \<open>
  The chunk variables \<open>c\<close> after the loop has removed some actions from the committed state \<open>s\<close>,
  leaving \<open>s1\<close>: the batch leads from one to the other, and \<open>pending\<close> and \<open>dropped\<close> correct the
  committed counts to those of \<open>s1\<close>.
\<close>

definition chunk_inv :: "kv_map \<Rightarrow> ispec \<Rightarrow> chunk \<Rightarrow> ispec \<Rightarrow> bool" where
  "chunk_inv m s c s1 \<longleftrightarrow>
     swf s1 \<and> tables (apply_batch (ck_b c) m) s1
     \<and> (\<forall>v r. ck_pending c v = Some r \<longrightarrow> obj_record s1 v = Some r)
     \<and> (\<forall>v. ck_pending c v = None \<longrightarrow> v \<notin> set (ck_dropped c) \<longrightarrow> obj_record s1 v = obj_record s v)
     \<and> (\<forall>v \<in> set (ck_dropped c). cost s1 v = None)
     \<and> ck_freed c = total_cost s - total_cost s1
     \<and> ck_nObjects c = int (card (dom (cost s))) - int (card (dom (cost s1)))
     \<and> ck_nActions c = int (card (dom (ents s))) - int (card (dom (ents s1)))
     \<and> ck_stale c = 0 \<and> 0 \<le> ck_freed c"

lemma chunk_invD:
  assumes "chunk_inv m s c s1"
  shows "swf s1" "tables (apply_batch (ck_b c) m) s1"
    "\<And>v r. ck_pending c v = Some r \<Longrightarrow> obj_record s1 v = Some r"
    "\<And>v. ck_pending c v = None \<Longrightarrow> v \<notin> set (ck_dropped c) \<Longrightarrow> obj_record s1 v = obj_record s v"
    "\<And>v. v \<in> set (ck_dropped c) \<Longrightarrow> cost s1 v = None"
    "ck_freed c = total_cost s - total_cost s1"
    "ck_nObjects c = int (card (dom (cost s))) - int (card (dom (cost s1)))"
    "ck_nActions c = int (card (dom (ents s))) - int (card (dom (ents s1)))"
    "ck_stale c = 0" "0 \<le> ck_freed c"
  using assms by (simp_all add: chunk_inv_def)

lemma chunk_inv_empty: "swf s \<Longrightarrow> tables m s \<Longrightarrow> chunk_inv m s empty_chunk s"
  by (simp add: chunk_inv_def empty_chunk_def)

text \<open>The reference count the loop works on is the one of the current state, not the committed one.\<close>

lemma evict_not_dropped: "chunk_inv m s c s1 \<Longrightarrow> ents s1 a = Some e \<Longrightarrow> OutputID e \<notin> set (ck_dropped c)"
  using chunk_invD(1,5) [of m s c s1] swf_cost [of s1 a e] by force

lemma evict_current_count:
  assumes "pebble_ok P" "swf s" "tables (pb_view P (ix_db ix)) s" "chunk_inv (pb_view P (ix_db ix)) s c s1"
    and "ents s1 a = Some e" "v = OutputID e"
    and "(case ck_pending c v of Some r \<Rightarrow> Inr (Some r) | None \<Rightarrow> loadObjRef P ix v) = Inr r"
  shows "r = obj_record s1 v"
proof (cases "ck_pending c v")
  case None
  then show ?thesis
    using assms(6,7) loadObjRef_ok [OF assms(1-3)] chunk_invD(4) [OF assms(4)] evict_not_dropped [OF assms(4,5)]
    by simp
next
  case (Some q)
  then show ?thesis using assms(7) chunk_invD(3) [OF assms(4) Some] by simp
qed

definition chunk_gain :: "ispec \<Rightarrow> ActionID \<Rightarrow> Entry \<Rightarrow> chunk \<Rightarrow> chunk" where
  "chunk_gain s1 a e c =
     (let v = OutputID e in
      if users s1 v = {a} then
        c\<lparr>ck_b := ck_b c @ delete_ops s1 a e, ck_nActions := ck_nActions c + 1,
          ck_pending := (ck_pending c)(v := None), ck_dropped := v # ck_dropped c,
          ck_freed := ck_freed c + the (cost s1 v), ck_nObjects := ck_nObjects c + 1,
          ck_orphans := ck_orphans c @ [v]\<rparr>
      else
        c\<lparr>ck_b := ck_b c @ delete_ops s1 a e, ck_nActions := ck_nActions c + 1,
          ck_pending := (ck_pending c)(v \<mapsto> \<lparr>Refs = refcount s1 v - 1, DiskBytes = the (cost s1 v)\<rparr>)\<rparr>)"

lemma evictEntry_gain:
  assumes "pebble_ok P" "swf s" "tables (pb_view P (ix_db ix)) s" "chunk_inv (pb_view P (ix_db ix)) s c s1"
    and "total_cost s < 2 ^ 63" "ents s1 a = Some e" "evictEntry P ix a e c = Inr c'"
  shows "c' = chunk_gain s1 a e c"
proof -
  let ?v = "OutputID e" and ?b = "ck_b c @ [BDelete (entryKey a), BDelete (lruKey (LastUsedAt e) a)]"
  note I = chunk_invD [OF assms(4)]
  obtain d where d: "cost s1 ?v = Some d" using swf_cost [OF I(1) assms(6)] by blast
  have rel: "evictRelease P ix ?v (c\<lparr>ck_b := ?b, ck_nActions := ck_nActions c + 1\<rparr>) = Inr c'"
    using assms(7) by (auto simp: evictEntry_def result_simps dest!: pb_stageD [OF assms(1)])
  note cur = evict_current_count [OF assms(1-4,6) refl] and nd = evict_not_dropped [OF assms(4,6)]
  have load: "(case ck_pending c ?v of Some r \<Rightarrow> Inr (Some r) | None \<Rightarrow> loadObjRef P ix ?v)
      = Inr (Some \<lparr>Refs = refcount s1 ?v, DiskBytes = d\<rparr>)"
    using rel cur d nd unfolding evictRelease_def
    by (cases "case ck_pending c ?v of Some r \<Rightarrow> Inr (Some r) | None \<Rightarrow> loadObjRef P ix ?v")
       (auto simp: obj_record_def split: if_splits)
  note ref = referenced_obj [OF I(1) assms(6) refl] and one = refcount_1_iff [OF users_user [OF assms(6)]]
  have freed: "add64 (ck_freed c) d = ck_freed c + d" if "users s1 ?v = {a}"
  proof (rule add64_exact)
    have "orphans_on_delete a s1 = Some ?v" using that assms(6) by (simp add: orphans_on_delete_def)
    then have "total_cost (spec_delete a s1) = total_cost s1 - d"
      using total_cost_delete [OF I(1), of a] d by simp
    then have "d \<le> total_cost s1" using total_cost_nonneg [OF swf_delete [OF I(1)], of a] by simp
    moreover have "0 \<le> d" using d I(1) by (auto simp: swf_def lru_time_def)
    ultimately show "in64 (ck_freed c + d)"
      using I(6,10) assms(5)
      unfolding in64_def by linarith
  qed
  from rel show ?thesis
    using nd load d ref one freed
    by (auto simp: evictRelease_def chunk_gain_def delete_ops_def result_simps Let_def
        dest!: pb_stageD [OF assms(1)] split: if_splits)
qed

lemma chunk_inv_gain:
  assumes "chunk_inv m s c s1" "ents s1 a = Some e"
  shows "chunk_inv m s (chunk_gain s1 a e c) (spec_delete a s1)"
proof -
  let ?v = "OutputID e" and ?c = "chunk_gain s1 a e c" and ?s = "spec_delete a s1"
  note I = chunk_invD [OF assms(1)]
  obtain d where d: "cost s1 ?v = Some d" using swf_cost [OF I(1) assms(2)] by blast
  have d0: "0 \<le> d" using d I(1) by (auto simp: swf_def lru_time_def)
  have orph: "orphans_on_delete a s1 = (if users s1 ?v = {a} then Some ?v else None)"
    using assms(2) by (simp add: orphans_on_delete_def)
  note rec = obj_record_delete [OF I(1) assms(2)]
  have "tables (apply_batch (ck_b ?c) m) ?s"
    using tables_delete [OF I(1,2) assms(2)] by (simp add: chunk_gain_def Let_def)
  moreover have "ck_pending ?c u = Some r \<Longrightarrow> obj_record ?s u = Some r" for u r
    using I(3) unfolding rec by (auto simp: chunk_gain_def Let_def split: if_splits)
  moreover have "ck_pending ?c u = None \<Longrightarrow> u \<notin> set (ck_dropped ?c) \<Longrightarrow> obj_record ?s u = obj_record s u" for u
    using I(4) unfolding rec by (auto simp: chunk_gain_def Let_def split: if_splits)
  moreover have "u \<in> set (ck_dropped ?c) \<Longrightarrow> cost ?s u = None" for u
    using I(5) by (auto simp: chunk_gain_def Let_def cost_delete orph split: if_splits)
  moreover have "ck_freed ?c = total_cost s - total_cost ?s" "0 \<le> ck_freed ?c"
    "ck_nObjects ?c = int (card (dom (cost s))) - int (card (dom (cost ?s)))"
    "ck_nActions ?c = int (card (dom (ents s))) - int (card (dom (ents ?s)))" "ck_stale ?c = 0"
    using I(6-10) d d0 unfolding total_cost_delete [OF I(1)] card_objs_delete [OF I(1)] card_acts_delete [OF I(1) assms(2)]
    by (auto simp: chunk_gain_def Let_def orph)
  ultimately show ?thesis using swf_delete [OF I(1)] unfolding chunk_inv_def by blast
qed

lemma ck_orphans_gain:
  "ents s1 a = Some e \<Longrightarrow> ck_orphans (chunk_gain s1 a e c) =
     ck_orphans c @ (case orphans_on_delete a s1 of None \<Rightarrow> [] | Some v \<Rightarrow> [v])"
  by (simp add: chunk_gain_def Let_def orphans_on_delete_def)

lemma ck_nActions_gain: "ck_nActions (chunk_gain s1 a e c) = ck_nActions c + 1"
  by (simp add: chunk_gain_def Let_def)

lemma evictScan_ok:
  assumes "pebble_ok P" "swf s" "tables (pb_view P (ix_db ix)) s" "total_cost s < 2 ^ 63"
    and "disk = total_cost s" "err = None \<Longrightarrow> L2 = []"
    and "evictScan P ix ttl cutoff maxB disk err (map lru_row L) c = Inr c'"
    and "chunk_inv (pb_view P (ix_db ix)) s c s1" "ck_nActions c + int n = evictChunkSize"
    and "\<And>x. x \<in> set L \<Longrightarrow> lru_at s1 (fst x) (snd x) \<and> ents s1 (snd x) = ents s (snd x)"
    and "distinct (map snd L)" "vs = victims (must_go ttl cutoff maxB) n (L @ L2) s1"
  shows "chunk_inv (pb_view P (ix_db ix)) s c' (delete_all vs s1)
    \<and> ck_orphans c' = ck_orphans c @ orphan_list vs s1 \<and> ck_nActions c' = ck_nActions c + int (length vs)"
  using assms(7-)
proof (induction L arbitrary: c s1 n vs)
  case Nil
  then show ?case using assms(6) by (simp split: option.splits)
next
  case (Cons x L)
  note I = chunk_invD [OF Cons.prems(2)]
  obtain ts a where x: "x = (ts, a)" by (cases x)
  have at: "lru_at s1 ts a" "ents s1 a = ents s a" using Cons.prems(4) [of x] x by simp_all
  then obtain e where e: "ents s1 a = Some e" "LastUsedAt e = ts" by (auto simp: lru_at_def)
  have parse: "parseLRUKey (fst (lru_row x)) = Inr (ts, a)"
    using x lru_at_time [OF I(1) at(1)] by (simp add: lru_row_def parseLRUKey_lruKey)
  have "total_cost s1 < 2 ^ 63" using I(6,10) assms(4) by simp
  then have sub: "sub64 disk (ck_freed c) = total_cost s1"
    using I(6) assms(5) total_cost_nonneg [OF I(1)] by (simp add: sub64_exact in64_def)
  show ?case
  proof (cases "n \<noteq> 0 \<and> must_go ttl cutoff maxB ts s1")
    case False
    then have "c' = c" "vs = []"
      using Cons.prems(1,3,6) I(9) parse sub x by (cases n; auto simp: must_go_def Let_def split: if_splits)+
    then show ?thesis using Cons.prems(2) by simp
  next
    case True
    then obtain k where n: "n = Suc k" by (cases n) auto
    let ?rest = "victims (must_go ttl cutoff maxB) k (L @ L2) (spec_delete a s1)"
    have vs: "vs = a # ?rest" using Cons.prems(6) n True x by simp
    have lim: "\<not> ck_nActions c + ck_stale c \<ge> evictChunkSize" using Cons.prems(3) I(9) n by simp
    have need: "ttl \<and> ts < cutoff \<or> maxB > 0 \<and> sub64 disk (ck_freed c) > maxB"
      using True sub by (simp add: must_go_def)
    have "\<exists>old. loadEntry P ix a = Inr old"
      using Cons.prems(1) lim need parse by (auto simp: Let_def result_simps)
    then have "loadEntry P ix a = Inr (Some e)" using loadEntry_ok [OF assms(1-3)] at e by metis
    then obtain c1 where c1: "evictEntry P ix a e c = Inr c1"
      and rest: "evictScan P ix ttl cutoff maxB disk err (map lru_row L) c1 = Inr c'"
      using Cons.prems(1) lim need parse by (auto simp: Let_def result_simps)
    have g: "c1 = chunk_gain s1 a e c"
      by (rule evictEntry_gain [OF assms(1-3) Cons.prems(2) assms(4) e(1) c1])
    have inv: "chunk_inv (pb_view P (ix_db ix)) s c1 (spec_delete a s1)"
      using chunk_inv_gain [OF Cons.prems(2) e(1)] g by simp
    have later: "lru_at (spec_delete a s1) (fst y) (snd y) \<and> ents (spec_delete a s1) (snd y) = ents s (snd y)"
      if "y \<in> set L" for y
      using that Cons.prems(4) [of y] Cons.prems(5) x by (auto simp: lru_at_def)
    have "ck_nActions c1 + int k = evictChunkSize" using g Cons.prems(3) n by (simp add: ck_nActions_gain)
    from Cons.IH [OF rest inv this later] Cons.prems(5) vs g e(1) show ?thesis
      by (simp add: ck_orphans_gain ck_nActions_gain)
  qed
qed

lemma card_orphan_list:
  "swf s \<Longrightarrow> int (card (dom (cost (delete_all as s)))) = int (card (dom (cost s))) - int (length (orphan_list as s))"
  by (induction as arbitrary: s) (auto simp: swf_delete card_objs_delete split: option.splits)

lemma victims_prefix: "\<exists>n. victims go k L s = map snd (take n L)"
proof (induction go k L s rule: victims.induct)
  case (3 go n x L s)
  then obtain j where "go (fst x) s \<Longrightarrow> victims go n L (spec_delete (snd x) s) = map snd (take j L)" by blast
  then show ?case by (cases "go (fst x) s") (auto intro: exI [of _ "Suc j"] exI [of _ 0])
qed simp_all

text \<open>What a pass adds to its report when it removes \<open>vs\<close>.\<close>

definition tally :: "ActionID list \<Rightarrow> ispec \<Rightarrow> EvictResult \<Rightarrow> EvictResult" where
  "tally vs s res =
     res\<lparr>ActionsPruned := add64 (ActionsPruned res) (int (length vs)),
         ObjectsPruned := add64 (ObjectsPruned res) (int (length (orphan_list vs s))),
         BytesFreed := add64 (BytesFreed res) (total_cost s - total_cost (delete_all vs s))\<rparr>"

lemma evictChunk_scan:
  assumes "pebble_ok P" "repr P ix s" "total_cost s < 2 ^ 63" "lru_listing s L"
    and "vs = victims (must_go ttl cutoff maxB) 1000 L s"
    and "rbind (pb_iter P (ix_db ix) (fst (prefixRange prefixLRU)) (snd (prefixRange prefixLRU)))
           (\<lambda>(kvs, err). evictScan P ix ttl cutoff maxB (ix_diskBytes ix) err kvs empty_chunk) = Inr c"
  shows "chunk_inv (pb_view P (ix_db ix)) s c (delete_all vs s)"
    "ck_orphans c = orphan_list vs s" "ck_nActions c = int (length vs)"
proof -
  note s = reprD [OF assms(2)]
  obtain kvs err where it: "pb_iter P (ix_db ix) (fst (prefixRange prefixLRU)) (snd (prefixRange prefixLRU)) = Inr (kvs, err)"
    and sc: "evictScan P ix ttl cutoff maxB (ix_diskBytes ix) err kvs empty_chunk = Inr c"
    using assms(6) by (auto simp: result_simps)
  obtain rest where rest: "scan_of (pb_view P (ix_db ix)) prefixLRU (kvs @ rest)" "err = None \<Longrightarrow> rest = []"
    using pb_iterD [OF assms(1) it] by blast
  obtain L' where L': "kvs @ rest = map lru_row L'" "lru_listing s L'" using scan_lru [OF s(1,2) rest(1)] .
  have "L' = L" using lru_listing_unique [OF s(1) L'(2) assms(4)] .
  then obtain L1 L2 where L: "L = L1 @ L2" "kvs = map lru_row L1" "rest = map lru_row L2"
    using L'(1) by (metis append_eq_map_conv)
  have disk: "ix_diskBytes ix = total_cost s"
    using s(3) assms(3) total_cost_nonneg [OF s(1)] by (simp add: counters_ok_def wrap64_id in64_def)
  have at: "lru_at s (fst x) (snd x) \<and> ents s (snd x) = ents s (snd x)" if "x \<in> set L1" for x
    using that assms(4) L(1) by (auto simp: lru_listing_def lru_order_mem)
  have dist: "distinct (map snd L1)"
    using lru_listing_sorted [OF s(1) assms(4)] L(1) by (simp add: lru_sorted_def)
  have vs: "vs = victims (must_go ttl cutoff maxB) 1000 (L1 @ L2) s" using assms(5) L(1) by simp
  have "err = None \<Longrightarrow> L2 = []" using rest(2) L(3) by simp
  from evictScan_ok [OF assms(1) s(1,2) assms(3) disk this sc [unfolded L(2)] chunk_inv_empty [OF s(1,2)] _ at dist vs]
  show "chunk_inv (pb_view P (ix_db ix)) s c (delete_all vs s)"
    "ck_orphans c = orphan_list vs s" "ck_nActions c = int (length vs)"
    by (simp_all add: empty_chunk_def evictChunkSize_def)
qed

theorem evictChunk_refines:
  assumes "pebble_ok P" "repr P ix s" "total_cost s < 2 ^ 63" "lru_listing s L"
    and "vs = victims (must_go ttl cutoff maxB) 1000 L s"
    and "evictChunk P ix ttl cutoff maxB res = (Inr (orphans, progressed), ix', res')"
  shows "repr P ix' (delete_all vs s)" "ix_closed ix' = ix_closed ix"
    "orphans = orphan_list vs s" "progressed \<longleftrightarrow> vs \<noteq> []"
    "progressed \<Longrightarrow> res' = tally vs s res" "\<not> progressed \<Longrightarrow> res' = res"
proof -
  note s = reprD [OF assms(2)]
  obtain c where c: "rbind (pb_iter P (ix_db ix) (fst (prefixRange prefixLRU)) (snd (prefixRange prefixLRU)))
           (\<lambda>(kvs, err). evictScan P ix ttl cutoff maxB (ix_diskBytes ix) err kvs empty_chunk) = Inr c"
    using assms(6) by (auto simp: evictChunk_def split: sum.splits)
  note C = evictChunk_scan [OF assms(1-5) c] and I = chunk_invD [OF C(1)]
  have "(repr P ix' (delete_all vs s) \<and> ix_closed ix' = ix_closed ix) \<and> orphans = orphan_list vs s
    \<and> (progressed \<longleftrightarrow> vs \<noteq> []) \<and> res' = (if vs \<noteq> [] then tally vs s res else res)"
  proof (cases "vs = []")
    case True
    then show ?thesis using assms(2,6) c C I(9) by (auto simp: evictChunk_def split: sum.splits)
  next
    case False
    then obtain db where db: "pb_commit P (ix_db ix) (ck_b c) = Inr db"
      and out: "orphans = ck_orphans c" "progressed"
      and ix': "ix' = ix\<lparr>ix_db := db, ix_actions := add64 (ix_actions ix) (- ck_nActions c),
           ix_objects := add64 (ix_objects ix) (- ck_nObjects c),
           ix_diskBytes := add64 (ix_diskBytes ix) (- ck_freed c)\<rparr>"
      and res': "res' = res\<lparr>ActionsPruned := add64 (ActionsPruned res) (ck_nActions c),
                    ObjectsPruned := add64 (ObjectsPruned res) (ck_nObjects c),
                    BytesFreed := add64 (BytesFreed res) (ck_freed c)\<rparr>"
      using assms(6) c C(3) by (auto simp: evictChunk_def split: sum.splits if_splits)
    have "in64 (int (card (dom (ents (delete_all vs s)))))" using I(1) by (auto simp: swf_def in64_def)
    then have "counters_ok ix' (delete_all vs s)"
      using s(3) I(6-8) unfolding ix' counters_ok_def
      by (simp add: add64_wrap add64_exact zero_objs_delete_all [OF s(1)])
    moreover have "tables (pb_view P db) (delete_all vs s)"
      using I(2) pb_commitD [OF assms(1) db] by simp
    moreover have "res' = tally vs s res"
      using res' C(3) I(6,7) card_orphan_list [OF s(1), of vs] by (simp add: tally_def)
    ultimately show ?thesis using I(1) False out C(2) by (simp add: repr_def ix')
  qed
  then show "repr P ix' (delete_all vs s)" "ix_closed ix' = ix_closed ix"
    "orphans = orphan_list vs s" "progressed \<longleftrightarrow> vs \<noteq> []"
    "progressed \<Longrightarrow> res' = tally vs s res" "\<not> progressed \<Longrightarrow> res' = res"
    by auto
qed

lemma evictChunk_error: "evictChunk P ix ttl cutoff maxB res = (Inl err, ix', res') \<Longrightarrow> ix' = ix \<and> res' = res"
  by (auto simp: evictChunk_def split: sum.splits if_splits)

end
