(* ===== verification/Evict_Pass.thy ===== *)
theory Evict_Pass
  imports Evict_Refine
begin

text \<open>
  The two loops of \<^verbatim>\<open>evict.go\<close> that run chunks until one reports that nothing is left. They have
  the same shape, so what follows from it is proved once, in the locale \<open>chunk_loop\<close>, and
  interpreted for \<^verbatim>\<open>reapZeroRefs\<close> and for the main loop of \<^verbatim>\<open>Evict\<close>.
\<close>

section \<open>Reporting orphans\<close>

lemma report_append:
  "report E (us @ vs) w =
     (case report E us w of (Some err, w') \<Rightarrow> (Some err, w') | (None, w') \<Rightarrow> report E vs w')"
  by (induction us arbitrary: w) (auto split: prod.splits option.splits)

definition env_quiet :: "'w evict_env \<Rightarrow> bool" where
  "env_quiet E \<longleftrightarrow> (\<forall>w. ctx_err E w = None) \<and> (\<forall>v w. fst (onOrphan E v w) = None)"

lemma report_quiet: "env_quiet E \<Longrightarrow> fst (report E vs w) = None"
proof (induction vs arbitrary: w)
  case (Cons v vs)
  then have "fst (onOrphan E v w) = None" by (simp add: env_quiet_def)
  then show ?case using Cons by (auto split: prod.splits option.splits)
qed simp

section \<open>The loop over chunks\<close>

text \<open>
  \<open>good ix res s\<close> relates the index and the report so far to a state of the specification, of which
  one chunk makes \<open>nxt s\<close> and reports \<open>orph s\<close>; \<open>fin\<close>, \<open>all\<close> and \<open>left\<close> are where the loop ends, what
  it reports altogether, and a bound on the chunks to come.
\<close>

locale chunk_loop =
  fixes E :: "'w evict_env"
    and chunk :: "'db index \<Rightarrow> EvictResult \<Rightarrow> 'db chunk_out"
    and loop :: "nat \<Rightarrow> 'db index \<Rightarrow> EvictResult \<Rightarrow> 'w \<Rightarrow> ('db, 'w) pass_out"
    and good :: "'db index \<Rightarrow> EvictResult \<Rightarrow> 's \<Rightarrow> bool"
    and nxt :: "'s \<Rightarrow> 's"
    and orph :: "'s \<Rightarrow> OutputID list"
    and fin :: "'s \<Rightarrow> 's"
    and all_orph :: "'s \<Rightarrow> OutputID list"
    and left :: "'s \<Rightarrow> nat"
  assumes loop_0: "loop 0 ix res w = None"
    and loop_Suc: "loop (Suc n) ix res w =
      (case ctx_err E w of
         Some err \<Rightarrow> Some (Some err, ix, res, w)
       | None \<Rightarrow>
           (case chunk ix res of
              (Inl err, ix', res') \<Rightarrow> Some (Some err, ix', res', w)
            | (Inr (orphans, again), ix', res') \<Rightarrow>
                (case report E orphans w of
                   (Some err, w') \<Rightarrow> Some (Some err, ix', res', w')
                 | (None, w') \<Rightarrow>
                     (if \<not> again then Some (None, ix', res', w') else loop n ix' res' w'))))"
    and chunk_error: "chunk ix res = (Inl err, ix', res') \<Longrightarrow> ix' = ix \<and> res' = res"
    and chunk_good: "good ix res s \<Longrightarrow> chunk ix res = (Inr (vs, again), ix', res') \<Longrightarrow>
      good ix' res' (nxt s) \<and> vs = orph s"
    and chunk_again: "good ix res s \<Longrightarrow> chunk ix res = (Inr (vs, True), ix', res') \<Longrightarrow>
      left (nxt s) < left s \<and> fin (nxt s) = fin s \<and> all_orph s = orph s @ all_orph (nxt s)"
    and chunk_stop: "good ix res s \<Longrightarrow> chunk ix res = (Inr (vs, False), ix', res') \<Longrightarrow>
      fin s = nxt s \<and> all_orph s = orph s"
begin

lemma loop_total:
  "good ix res s \<Longrightarrow> left s < n \<Longrightarrow> loop n ix res w \<noteq> None"
proof (induction n arbitrary: ix res s w)
  case (Suc n)
  have "loop n ix' res' w' \<noteq> None" if "chunk ix res = (Inr (vs, True), ix', res')" for vs ix' res' w'
    using Suc.IH [of ix' res' "nxt s" w'] chunk_good [OF Suc.prems(1) that] chunk_again [OF Suc.prems(1) that]
      Suc.prems(2) by linarith
  then show ?case by (auto simp: loop_Suc split: option.splits sum.splits prod.splits)
qed simp

lemma loop_done:
  "good ix res s \<Longrightarrow> loop n ix res w = Some (None, ix', res', w') \<Longrightarrow>
     good ix' res' (fin s) \<and> report E (all_orph s) w = (None, w')"
proof (induction n arbitrary: ix res s w)
  case 0
  then show ?case by (simp add: loop_0)
next
  case (Suc n)
  obtain vs again ix1 res1 w1 where c: "chunk ix res = (Inr (vs, again), ix1, res1)"
    and r: "report E vs w = (None, w1)"
    and k: "if \<not> again then (ix', res', w') = (ix1, res1, w1) else loop n ix1 res1 w1 = Some (None, ix', res', w')"
    using Suc.prems(2) by (auto simp: loop_Suc split: option.splits sum.splits prod.splits if_splits)
  note g = chunk_good [OF Suc.prems(1) c]
  show ?case
  proof (cases again)
    case False
    then show ?thesis using g k r chunk_stop [OF Suc.prems(1)] c by auto
  next
    case True
    then have "good ix' res' (fin (nxt s)) \<and> report E (all_orph (nxt s)) w1 = (None, w')"
      using Suc.IH [of ix1 res1 "nxt s" w1] g k by simp
    then show ?thesis using True g r chunk_again [OF Suc.prems(1)] c by (simp add: report_append)
  qed
qed

text \<open>A loop that stops early has still run whole chunks only.\<close>

lemma loop_error:
  "good ix res s \<Longrightarrow> loop n ix res w = Some (Some err, ix', res', w') \<Longrightarrow> \<exists>k. good ix' res' ((nxt ^^ k) s)"
proof (induction n arbitrary: ix res s w)
  case 0
  then show ?case by (simp add: loop_0)
next
  case (Suc n)
  show ?case
  proof (cases "ix' = ix \<and> res' = res")
    case True
    then show ?thesis using Suc.prems(1) by (intro exI [of _ 0]) simp
  next
    case False
    then obtain vs again ix1 res1 w1 where c: "chunk ix res = (Inr (vs, again), ix1, res1)"
      and k: "ix' = ix1 \<and> res' = res1 \<or> loop n ix1 res1 w1 = Some (Some err, ix', res', w')"
      using Suc.prems(2)
      by (auto simp: loop_Suc dest: chunk_error split: option.splits sum.splits prod.splits if_splits)
    then show ?thesis
    proof (cases "ix' = ix1 \<and> res' = res1")
      case True
      then show ?thesis using chunk_good [OF Suc.prems(1) c] by (intro exI [of _ 1]) simp
    next
      case False
      then obtain j where "good ix' res' ((nxt ^^ j) (nxt s))"
        using Suc.IH [of ix1 res1 "nxt s" w1] chunk_good [OF Suc.prems(1) c] k by blast
      then show ?thesis by (intro exI [of _ "Suc j"]) (simp add: funpow_swap1)
    qed
  qed
qed

text \<open>What every chunk and the report after it keep, the loop keeps, whichever way it ends.\<close>

lemma loop_inv:
  assumes step: "\<And>ix res w vs again ix' res' e w'. J ix res w \<Longrightarrow> chunk ix res = (Inr (vs, again), ix', res') \<Longrightarrow>
      report E vs w = (e, w') \<Longrightarrow> J ix' res' w'"
  shows "J ix res w \<Longrightarrow> loop n ix res w = Some (e, ix', res', w') \<Longrightarrow> J ix' res' w'"
proof (induction n arbitrary: ix res w)
  case 0
  then show ?case by (simp add: loop_0)
next
  case (Suc n)
  show ?case
  proof (cases "(ix', res', w') = (ix, res, w)")
    case True
    then show ?thesis using Suc.prems(1) by simp
  next
    case False
    then obtain vs again ix1 res1 e1 w1 where c: "chunk ix res = (Inr (vs, again), ix1, res1)"
      and r: "report E vs w = (e1, w1)"
      and k: "(ix', res', w') = (ix1, res1, w1) \<or> loop n ix1 res1 w1 = Some (e, ix', res', w')"
      using Suc.prems(2)
      by (auto simp: loop_Suc dest: chunk_error split: option.splits sum.splits prod.splits if_splits)
    then show ?thesis using Suc.IH step [OF Suc.prems(1) c r] by blast
  qed
qed

lemma loop_succeeds:
  assumes "env_quiet E" "\<And>ix res s. good ix res s \<Longrightarrow> \<exists>x ix' res'. chunk ix res = (Inr x, ix', res')"
  shows "good ix res s \<Longrightarrow> left s < n \<Longrightarrow> \<exists>ix' res' w'. loop n ix res w = Some (None, ix', res', w')"
proof (induction n arbitrary: ix res s w)
  case (Suc n)
  obtain vs again ix1 res1 where c: "chunk ix res = (Inr (vs, again), ix1, res1)"
    using assms(2) [OF Suc.prems(1)] by (metis surj_pair)
  obtain w1 where r: "report E vs w = (None, w1)"
    using report_quiet [OF assms(1)] by (metis prod.collapse)
  have ctx: "ctx_err E w = None" using assms(1) by (simp add: env_quiet_def)
  show ?case
  proof (cases again)
    case True
    then have "left (nxt s) < n" using chunk_again [OF Suc.prems(1)] c Suc.prems(2) by fastforce
    then show ?thesis using Suc.IH [of ix1 res1 "nxt s" w1] chunk_good [OF Suc.prems(1) c] c r ctx True
      by (simp add: loop_Suc)
  qed (use c r ctx in \<open>simp add: loop_Suc\<close>)
qed simp

end

section \<open>The main loop\<close>

lemma victims_limit: "length L \<le> m \<Longrightarrow> length L \<le> n \<Longrightarrow> victims go m L s = victims go n L s"
proof (induction L arbitrary: m n s)
  case (Cons x L)
  then obtain i j where mn: "m = Suc i" "n = Suc j" by (metis Suc_le_D length_Cons)
  then have "victims go i L (spec_delete (snd x) s) = victims go j L (spec_delete (snd x) s)"
    using Cons.prems by (intro Cons.IH) simp_all
  then show ?case using mn by simp
qed simp

lemma victims_split:
  "length L \<le> m \<Longrightarrow> vs = victims go k L s \<Longrightarrow>
     victims go m L s = vs @ victims go m (drop (length vs) L) (delete_all vs s)"
proof (induction go k L s arbitrary: m vs rule: victims.induct)
  case (3 go n x L s)
  then obtain j where m: "m = Suc j" by (cases m) auto
  show ?case
  proof (cases "go (fst x) s")
    case True
    let ?us = "victims go n L (spec_delete (snd x) s)"
    have "length (drop (length ?us) L) \<le> j" using 3(2) m by simp
    then have "victims go j (drop (length ?us) L) u = victims go m (drop (length ?us) L) u" for u
      using m by (intro victims_limit) auto
    then show ?thesis using True 3 m by simp
  qed (use 3 m in simp)
qed simp_all

definition evict_rest :: "(int \<Rightarrow> ispec \<Rightarrow> bool) \<Rightarrow> nat \<Rightarrow> ispec \<times> (int \<times> ActionID) list
    \<Rightarrow> ispec \<times> (int \<times> ActionID) list" where
  "evict_rest go k = (\<lambda>(s, L). let vs = victims go k L s in (delete_all vs s, drop (length vs) L))"

definition all_victims :: "(int \<Rightarrow> ispec \<Rightarrow> bool) \<Rightarrow> ispec \<times> (int \<times> ActionID) list \<Rightarrow> ActionID list" where
  "all_victims go = (\<lambda>(s, L). victims go (length L) L s)"

definition evict_good :: "'db pebble \<Rightarrow> 'db index \<Rightarrow> EvictResult \<Rightarrow> ispec \<times> (int \<times> ActionID) list \<Rightarrow> bool" where
  "evict_good P ix res = (\<lambda>(s, L). repr P ix s \<and> total_cost s < 2 ^ 63 \<and> lru_listing s L)"

lemma lru_listing_after:
  assumes "swf s" "lru_listing s L" "vs = victims go k L s"
  shows "lru_listing (delete_all vs s) (drop (length vs) L)"
proof -
  obtain n where n: "vs = map snd (take n L)" using victims_prefix assms(3) by blast
  have len: "drop (length vs) L = drop n L" using n by (cases "n \<le> length L") auto
  have d: "distinct (map snd L)" using lru_listing_sorted [OF assms(1,2)] by (simp add: lru_sorted_def)
  have "x \<in> set (drop n L) \<longleftrightarrow> x \<in> lru_order (delete_all vs s)" for x
  proof -
    have "snd ` set (take n L) \<inter> snd ` set (drop n L) = {}"
      using d by (metis append_take_drop_id distinct_append map_append set_map)
    then have "x \<in> set (drop n L) \<longleftrightarrow> x \<in> set L \<and> snd x \<notin> set vs"
      using n set_append [of "take n L" "drop n L"] by auto
    then show ?thesis using assms(2) by (auto simp: lru_listing_def lru_order_def ents_delete_all)
  qed
  moreover have "sorted_wrt (\<lambda>x y. lruKey (fst x) (snd x) < lruKey (fst y) (snd y)) (drop n L)"
    using assms(2) by (simp add: lru_listing_def sorted_wrt_drop)
  ultimately show ?thesis unfolding lru_listing_def len by blast
qed

lemma total_cost_delete_le: "swf s \<Longrightarrow> total_cost (spec_delete a s) \<le> total_cost s"
  using orphan_cost [of s a]
  by (auto simp: total_cost_delete swf_def lru_time_def split: option.splits)

lemma total_cost_delete_all_le: "swf s \<Longrightarrow> total_cost (delete_all as s) \<le> total_cost s"
proof (induction as arbitrary: s)
  case (Cons a as)
  then have "total_cost (delete_all as (spec_delete a s)) \<le> total_cost (spec_delete a s)"
    by (simp add: swf_delete)
  also have "\<dots> \<le> total_cost s" by (rule total_cost_delete_le [OF Cons.prems])
  finally show ?case by simp
qed simp

lemma victims_none: "victims go (Suc k) L s = [] \<Longrightarrow> victims go n L s = []"
  by (cases L; cases n) (auto split: if_splits)

lemma victims_nonempty: "victims go k L s \<noteq> [] \<Longrightarrow> L \<noteq> []"
  by (cases L) auto

lemma evict_rest_rest:
  "evict_rest go (length (snd (evict_rest go k (s, L)))) (evict_rest go k (s, L)) = evict_rest go (length L) (s, L)"
  "all_victims go (s, L) = victims go k L s @ all_victims go (evict_rest go k (s, L))"
proof -
  let ?vs = "victims go k L s"
  let ?L = "drop (length ?vs) L" and ?s = "delete_all ?vs s"
  have "victims go (length L) ?L ?s = victims go (length ?L) ?L ?s" by (rule victims_limit) simp_all
  then have "victims go (length L) L s = ?vs @ victims go (length ?L) ?L ?s"
    using victims_split [of L "length L" ?vs go k s] by simp
  then show "evict_rest go (length (snd (evict_rest go k (s, L)))) (evict_rest go k (s, L)) = evict_rest go (length L) (s, L)"
    "all_victims go (s, L) = victims go k L s @ all_victims go (evict_rest go k (s, L))"
    by (simp_all add: evict_rest_def all_victims_def Let_def add.commute)
qed

lemma evict_good_chunk:
  assumes "pebble_ok P" "evict_good P ix res (s, L)" "vs = victims (must_go ttl cutoff maxB) 1000 L s"
    and "evictChunk P ix ttl cutoff maxB res = (Inr (orphans, again), ix', res')"
  shows "evict_good P ix' res' (evict_rest (must_go ttl cutoff maxB) 1000 (s, L))"
    "orphans = orphan_list vs s" "again \<longleftrightarrow> vs \<noteq> []"
proof -
  have g: "repr P ix s" "total_cost s < 2 ^ 63" "lru_listing s L"
    using assms(2) by (simp_all add: evict_good_def)
  note R = evictChunk_refines [OF assms(1) g assms(3,4)] and swf = reprD(1) [OF g(1)]
  have "total_cost (delete_all vs s) < 2 ^ 63" using total_cost_delete_all_le [OF swf, of vs] g(2) by linarith
  then show "evict_good P ix' res' (evict_rest (must_go ttl cutoff maxB) 1000 (s, L))"
    using R(1) lru_listing_after [OF swf g(3) assms(3)] assms(3) by (simp add: evict_good_def evict_rest_def Let_def)
  show "orphans = orphan_list vs s" "again \<longleftrightarrow> vs \<noteq> []" using R by simp_all
qed

interpretation evl: chunk_loop E "\<lambda>ix res. evictChunk P ix ttl cutoff maxB res"
  "\<lambda>n ix res w. evictPass n P E ttl cutoff maxB ix res w"
  "\<lambda>ix res st. pebble_ok P \<and> evict_good P ix res st"
  "evict_rest (must_go ttl cutoff maxB) 1000"
  "\<lambda>st. orphan_list (victims (must_go ttl cutoff maxB) 1000 (snd st) (fst st)) (fst st)"
  "\<lambda>st. evict_rest (must_go ttl cutoff maxB) (length (snd st)) st"
  "\<lambda>st. orphan_list (all_victims (must_go ttl cutoff maxB) st) (fst st)"
  "\<lambda>st. length (snd st)"
  for P E ttl cutoff maxB
proof
  let ?go = "must_go ttl cutoff maxB"
  fix ix ix' :: "'b index" and res res' vs again and st :: "ispec \<times> (int \<times> ActionID) list"
  obtain s L where st: "st = (s, L)" by (cases st)
  assume g: "pebble_ok P \<and> evict_good P ix res st"
  note G = evict_good_chunk [OF conjunct1 [OF g] conjunct2 [OF g, unfolded st] refl]
  show "(pebble_ok P \<and> evict_good P ix' res' (evict_rest ?go 1000 st))
      \<and> vs = orphan_list (victims ?go 1000 (snd st) (fst st)) (fst st)"
    if "evictChunk P ix ttl cutoff maxB res = (Inr (vs, again), ix', res')"
    using G [OF that] g st by simp
  show "length (snd (evict_rest ?go 1000 st)) < length (snd st)
      \<and> evict_rest ?go (length (snd (evict_rest ?go 1000 st))) (evict_rest ?go 1000 st) = evict_rest ?go (length (snd st)) st
      \<and> orphan_list (all_victims ?go st) (fst st) =
          orphan_list (victims ?go 1000 (snd st) (fst st)) (fst st)
          @ orphan_list (all_victims ?go (evict_rest ?go 1000 st)) (fst (evict_rest ?go 1000 st))"
    if "evictChunk P ix ttl cutoff maxB res = (Inr (vs, True), ix', res')"
  proof -
    have "victims ?go 1000 L s \<noteq> []" using G(3) [OF that] by simp
    then have "length (snd (evict_rest ?go 1000 (s, L))) < length L"
      using victims_nonempty by (fastforce simp: evict_rest_def Let_def)
    moreover have "fst (evict_rest ?go 1000 (s, L)) = delete_all (victims ?go 1000 L s) s"
      by (simp add: evict_rest_def Let_def)
    ultimately show ?thesis
      using evict_rest_rest(1) [of ?go 1000 s L] evict_rest_rest(2) [of ?go s L 1000] st by simp
  qed
  show "evict_rest ?go (length (snd st)) st = evict_rest ?go 1000 st
      \<and> orphan_list (all_victims ?go st) (fst st) = orphan_list (victims ?go 1000 (snd st) (fst st)) (fst st)"
    if "evictChunk P ix ttl cutoff maxB res = (Inr (vs, False), ix', res')"
  proof -
    have "victims ?go (Suc 999) L s = []" using G(3) [OF that] by simp
    then have "victims ?go n L s = []" for n by (rule victims_none)
    then show ?thesis using st by (simp add: evict_rest_def all_victims_def)
  qed
qed (auto dest: evictChunk_error)

end
