(* ===== verification/Evict_Reap.thy ===== *)
theory Evict_Reap
  imports Evict_Pass
begin

text \<open>
  Reaping the outputs no action references (\<^verbatim>\<open>reapChunk\<close>, \<^verbatim>\<open>reapZeroRefs\<close>), as a second instance
  of \<open>chunk_loop\<close>: a chunk forgets the next thousand unreferenced outputs in key order, and the loop
  forgets them all.
\<close>

section \<open>Forgetting unreferenced outputs\<close>

definition forget_all :: "OutputID list \<Rightarrow> ispec \<Rightarrow> ispec" where
  "forget_all vs s = fold spec_forget vs s"

lemma forget_all_simps [simp]:
  "forget_all [] s = s" "forget_all (v # vs) s = forget_all vs (spec_forget v s)"
  "forget_all (us @ vs) s = forget_all vs (forget_all us s)"
  by (simp_all add: forget_all_def)

lemma forget_all_ents [simp]: "ents (forget_all vs s) = ents s"
  by (induction vs arbitrary: s) (simp_all add: spec_forget_def)

lemma forget_all_users [simp]: "users (forget_all vs s) v = users s v"
  by (simp add: users_def)

lemma forget_all_cost: "cost (forget_all vs s) v = (if v \<in> set vs then None else cost s v)"
  by (induction vs arbitrary: s) (auto simp: spec_forget_def)

lemma zero_objs_forget_all: "zero_objs (forget_all vs s) = zero_objs s - set vs"
  by (auto simp: zero_objs_def forget_all_cost dom_def)

lemma swf_forget_all: "swf s \<Longrightarrow> set vs \<subseteq> zero_objs s \<Longrightarrow> swf (forget_all vs s)"
proof (induction vs rule: rev_induct)
  case (snoc v vs)
  then have "users (forget_all vs s) v = {}" by (simp add: zero_objs_def)
  then show ?case using snoc swf_forget by simp
qed simp

lemma forget_all_reap: "set vs = zero_objs s \<Longrightarrow> forget_all vs s = spec_reap s"
  by (intro ispec.equality) (auto simp: spec_reap_def forget_all_cost restrict_map_def fun_eq_iff)

lemma card_forget_all:
  "finite (dom (cost s)) \<Longrightarrow> set vs \<subseteq> dom (cost s) \<Longrightarrow> distinct vs \<Longrightarrow>
     int (card (dom (cost (forget_all vs s)))) = int (card (dom (cost s))) - int (length vs)"
proof -
  assume *: "finite (dom (cost s))" "set vs \<subseteq> dom (cost s)" "distinct vs"
  have "dom (cost (forget_all vs s)) = dom (cost s) - set vs" by (auto simp: forget_all_cost dom_def)
  moreover have "card (set vs) \<le> card (dom (cost s))" using * by (simp add: card_mono)
  ultimately show ?thesis using * by (simp add: card_Diff_subset distinct_card of_nat_diff)
qed

lemma card_zero_forget_all:
  "swf s \<Longrightarrow> set vs \<subseteq> zero_objs s \<Longrightarrow> distinct vs \<Longrightarrow>
     int (card (zero_objs (forget_all vs s))) = int (card (zero_objs s)) - int (length vs)"
proof -
  assume *: "swf s" "set vs \<subseteq> zero_objs s" "distinct vs"
  have "card (set vs) \<le> card (zero_objs s)" using * finite_zero_objs by (simp add: card_mono)
  then show ?thesis using * by (simp add: zero_objs_forget_all card_Diff_subset distinct_card of_nat_diff)
qed

lemma tables_forget:
  assumes "tables m s"
  shows "tables (apply_op (BDelete (objKey v)) m) (spec_forget v s)"
  using assms
  by (auto simp: tables_def obj_record_def refcount_def lru_at_def spec_forget_def users_def)

lemma tables_forget_all:
  "tables m s \<Longrightarrow> tables (apply_batch (map (\<lambda>v. BDelete (objKey v)) vs) m) (forget_all vs s)"
  by (induction vs arbitrary: m s) (simp_all add: tables_forget del: apply_op.simps)

section \<open>One chunk\<close>

definition unused :: "ispec \<Rightarrow> OutputID list \<Rightarrow> OutputID list" where
  "unused s V = filter (\<lambda>v. users s v = {}) V"

lemma unused_simps [simp]:
  "unused s [] = []" "unused s (v # V) = (if users s v = {} then v # unused s V else unused s V)"
  by (simp_all add: unused_def)

lemma reapScan_ok:
  assumes "pebble_ok P" "swf s" "err = None \<Longrightarrow> V2 = []"
    and "reapScan P err (map (obj_row s) V) b n f vs = Inr (b', n', f', vs', hit)"
    and "set V \<subseteq> dom (cost s)" "n + int k = evictChunkSize"
  shows "vs' = vs @ take k (unused s (V @ V2)) \<and> n' = n + int (length (take k (unused s (V @ V2))))
    \<and> b' = b @ map (\<lambda>v. BDelete (objKey v)) (take k (unused s (V @ V2)))
    \<and> wrap64 f' = wrap64 (f + (\<Sum>v\<leftarrow>take k (unused s (V @ V2)). the (cost s v)))
    \<and> (hit \<longrightarrow> n' = evictChunkSize) \<and> (\<not> hit \<longrightarrow> length (unused s (V @ V2)) \<le> k)"
  using assms(4-)
proof (induction V arbitrary: b n f vs k)
  case Nil
  then show ?case using assms(3) by (auto split: option.splits)
next
  case (Cons v V)
  show ?case
  proof (cases "k = 0")
    case True
    then show ?thesis using Cons.prems by simp
  next
    case False
    obtain j where k: "k = Suc j" using False by (cases k) auto
    obtain c where c: "cost s v = Some c" using Cons.prems(2) by auto
    have row: "decodeObjRef (snd (obj_row s v)) = Inr \<lparr>Refs = refcount s v, DiskBytes = c\<rparr>"
      using obj_record_wf [OF assms(2), of v] c by (simp add: obj_row_def obj_record_def obj.dec_enc)
    have id: "copy_id (drop (Suc 0) (fst (obj_row s v))) = v" by (simp add: obj_row_def)
    note z = refcount_eq_0_iff [OF assms(2), of v]
    have lim: "\<not> n \<ge> evictChunkSize" using Cons.prems(3) k by simp
    show ?thesis
    proof (cases "users s v = {}")
      case False
      then have "reapScan P err (map (obj_row s) V) b n f vs = Inr (b', n', f', vs', hit)"
        using Cons.prems(1) lim row z by simp
      from Cons.IH [OF this _ Cons.prems(3)] Cons.prems(2) False show ?thesis by auto
    next
      case True
      then have "reapScan P err (map (obj_row s) V) (b @ [BDelete (objKey v)]) (n + 1) (add64 f c) (vs @ [v])
          = Inr (b', n', f', vs', hit)"
        using Cons.prems(1) lim row z id by (auto simp: Let_def result_simps dest!: pb_stageD [OF assms(1)])
      from Cons.IH [OF this, of j] Cons.prems(2,3) True k c show ?thesis
        by (auto simp: add64_def wrap64_add_left add.assoc)
    qed
  qed
qed

text \<open>The unreferenced outputs in key order.\<close>

definition zero_listing :: "ispec \<Rightarrow> OutputID list \<Rightarrow> bool" where
  "zero_listing s Z \<longleftrightarrow> sorted_wrt (\<lambda>u v. objKey u < objKey v) Z \<and> set Z = zero_objs s"

lemma zero_listing_distinct: "zero_listing s Z \<Longrightarrow> distinct Z"
  unfolding zero_listing_def distinct_conv_nth sorted_wrt_iff_nth_less
  by (metis less_irrefl linorder_neqE_nat)

lemma zero_listing_unique:
  assumes "zero_listing s Z" "zero_listing s Z'"
  shows "Z = Z'"
proof -
  have "map objKey Z = map objKey Z'"
    using assms by (intro strict_sorted_equal) (auto simp: zero_listing_def sorted_wrt_map)
  moreover have "inj objKey" by (simp add: inj_def)
  ultimately show ?thesis by (metis inj_map_eq_map)
qed

lemma zero_listing_exists:
  assumes "swf s"
  shows "\<exists>Z. zero_listing s Z"
proof -
  let ?ks = "sorted_list_of_set (objKey ` zero_objs s)"
  let ?Z = "map (\<lambda>k. the (outputIDFromObjKey k)) ?ks"
  have fin: "finite (zero_objs s)" using finite_zero_objs assms by blast
  then have "map objKey ?Z = ?ks" by (auto intro!: map_idI)
  then have "sorted_wrt (<) (map objKey ?Z)" by simp
  moreover have "set ?Z = zero_objs s" using fin by (force simp: image_iff)
  ultimately have "zero_listing s ?Z" by (simp only: zero_listing_def sorted_wrt_map)
  then show ?thesis ..
qed

lemma scan_obj_sorted:
  assumes "scan_of m prefixObj (map (obj_row s) V)"
  shows "sorted_wrt (\<lambda>u v. objKey u < objKey v) V"
  using assms by (simp add: lists_range_def sorted_wrt_map obj_row_def)

lemma unused_listing:
  "sorted_wrt (\<lambda>u v. objKey u < objKey v) V \<Longrightarrow> set V = dom (cost s) \<Longrightarrow> zero_listing s (unused s V)"
  by (auto simp: zero_listing_def unused_def zero_objs_def sorted_wrt_filter)

lemma sum_list_forget:
  "finite (dom (cost s)) \<Longrightarrow> set vs \<subseteq> dom (cost s) \<Longrightarrow> distinct vs \<Longrightarrow>
     total_cost (forget_all vs s) = total_cost s - (\<Sum>v\<leftarrow>vs. the (cost s v))"
proof (induction vs rule: rev_induct)
  case (snoc v vs)
  then obtain c where c: "cost s v = Some c" by auto
  let ?s = "forget_all vs s"
  have "finite (dom (cost ?s))"
    using snoc.prems(1) by (rule rev_finite_subset) (auto simp: forget_all_cost dom_def)
  moreover have "cost ?s v = Some c" using c snoc.prems by (simp add: forget_all_cost)
  ultimately have "total_cost (spec_forget v ?s) = total_cost ?s - c" by (rule total_cost_forget)
  then show ?case using snoc c by simp
qed simp

lemma reapChunk_scan:
  assumes "pebble_ok P" "repr P ix s" "zero_listing s Z"
    and "rbind (pb_iter P (ix_db ix) (fst (prefixRange prefixObj)) (snd (prefixRange prefixObj)))
           (\<lambda>(kvs, err). reapScan P err kvs [] 0 0 []) = Inr (b, n, f, vs, hit)"
  shows "vs = take 1000 Z" "n = int (length (take 1000 Z))"
    "b = map (\<lambda>v. BDelete (objKey v)) (take 1000 Z)"
    "wrap64 f = wrap64 (total_cost s - total_cost (forget_all (take 1000 Z) s))"
    "hit \<Longrightarrow> 1000 \<le> length Z" "\<not> hit \<Longrightarrow> length Z \<le> 1000"
proof -
  note s = reprD [OF assms(2)]
  obtain kvs err where it: "pb_iter P (ix_db ix) (fst (prefixRange prefixObj)) (snd (prefixRange prefixObj)) = Inr (kvs, err)"
    and sc: "reapScan P err kvs [] 0 0 [] = Inr (b, n, f, vs, hit)"
    using assms(4) by (auto simp: result_simps)
  obtain rest where rest: "scan_of (pb_view P (ix_db ix)) prefixObj (kvs @ rest)" "err = None \<Longrightarrow> rest = []"
    using pb_iterD [OF assms(1) it] by blast
  obtain V where V: "kvs @ rest = map (obj_row s) V" "set V = dom (cost s)" using scan_obj [OF s(2) rest(1)] .
  have sorted: "sorted_wrt (\<lambda>u v. objKey u < objKey v) V" using rest(1) scan_obj_sorted V(1) by metis
  have Z: "unused s V = Z" using zero_listing_unique [OF unused_listing [OF sorted V(2)] assms(3)] .
  obtain V1 V2 where L: "V = V1 @ V2" "kvs = map (obj_row s) V1" "rest = map (obj_row s) V2"
    using V(1) by (metis append_eq_map_conv)
  have e: "err = None \<Longrightarrow> V2 = []" using rest(2) L(3) by simp
  have V1: "set V1 \<subseteq> dom (cost s)" using V(2) L(1) by auto
  have taken: "set (take 1000 Z) \<subseteq> dom (cost s)" "distinct (take 1000 Z)"
    using assms(3) zero_listing_distinct [OF assms(3)] set_take_subset [of 1000 Z]
    by (auto simp: zero_listing_def zero_objs_def)
  have "finite (dom (cost s))" using s(1) by (simp add: swf_def)
  note tc = sum_list_forget [OF this taken]
  from reapScan_ok [OF assms(1) s(1) e sc [unfolded L(2)] V1, of 1000] Z L(1) tc
  show "vs = take 1000 Z" "n = int (length (take 1000 Z))"
    "b = map (\<lambda>v. BDelete (objKey v)) (take 1000 Z)"
    "wrap64 f = wrap64 (total_cost s - total_cost (forget_all (take 1000 Z) s))"
    "hit \<Longrightarrow> 1000 \<le> length Z" "\<not> hit \<Longrightarrow> length Z \<le> 1000"
    by (auto simp: evictChunkSize_def)
qed

theorem reapChunk_refines:
  assumes "pebble_ok P" "repr P ix s" "zero_listing s Z"
    and "reapChunk P ix res = (Inr (vs, again), ix', res')"
  shows "repr P ix' (forget_all (take 1000 Z) s)" "vs = take 1000 Z" "ix_closed ix' = ix_closed ix"
    "again \<Longrightarrow> 1000 \<le> length Z" "\<not> again \<Longrightarrow> length Z \<le> 1000"
proof -
  note s = reprD [OF assms(2)]
  let ?vs = "take 1000 Z"
  let ?s = "forget_all ?vs s"
  obtain b n f us hit where sc: "rbind (pb_iter P (ix_db ix) (fst (prefixRange prefixObj)) (snd (prefixRange prefixObj)))
           (\<lambda>(kvs, err). reapScan P err kvs [] 0 0 []) = Inr (b, n, f, us, hit)"
    using assms(4) by (auto simp: reapChunk_def split: sum.splits)
  note R = reapChunk_scan [OF assms(1-3) sc]
  have sub: "set ?vs \<subseteq> zero_objs s" "distinct ?vs"
    using assms(3) zero_listing_distinct [OF assms(3)] set_take_subset [of 1000 Z] by (auto simp: zero_listing_def)
  have swf: "swf ?s" by (rule swf_forget_all [OF s(1) sub(1)])
  have objs: "int (card (dom (cost ?s))) = int (card (dom (cost s))) - n"
    using card_forget_all [of s ?vs] s(1) sub R(2) by (auto simp: swf_def zero_objs_def)
  have zero: "int (card (zero_objs ?s)) = int (card (zero_objs s)) - n"
    using card_zero_forget_all [OF s(1) sub] R(2) by simp
  have none: "zero_objs ?s = {}" if "\<not> hit"
    using R(6) [OF that] assms(3) by (auto simp: zero_objs_forget_all zero_listing_def)
  have disk: "add64 (wrap64 (total_cost s)) (- f) = wrap64 (total_cost ?s)"
  proof -
    have "add64 (wrap64 (total_cost s)) (- f) = wrap64 (total_cost s - wrap64 f)"
      by (simp add: add64_wrap wrap64_diff_right)
    then show ?thesis by (simp add: R(4) wrap64_diff_right)
  qed
  have "again = hit \<and> vs = us \<and> repr P ix' ?s \<and> ix_closed ix' = ix_closed ix"
  proof (cases "n > 0")
    case True
    then obtain db where db: "pb_commit P (ix_db ix) b = Inr db" and o: "again = hit" "vs = us"
      and ix': "ix' = ix\<lparr>ix_db := db, ix_objects := add64 (ix_objects ix) (- n),
                         ix_diskBytes := add64 (ix_diskBytes ix) (- f),
                         ix_zeroRefs := (if hit then add64 (ix_zeroRefs ix) (- n) else 0)\<rparr>"
      using assms(4) sc
      by (cases "pb_commit P (ix_db ix) b") (auto simp: reapChunk_def split: if_splits)
    have "tables (pb_view P db) ?s"
      using tables_forget_all [OF s(2), of ?vs] pb_commitD [OF assms(1) db] R(3) by simp
    moreover have "counters_ok ix' ?s"
      using s(3) objs zero none disk unfolding ix' counters_ok_def by (auto simp: add64_wrap wrap64_id)
    ultimately show ?thesis using swf o by (simp add: repr_def ix')
  next
    case False
    then have Z: "?vs = []" using R(2) by simp
    then have "\<not> hit" using R(5) by auto
    then have o: "again = hit" "vs = us" "ix' = ix\<lparr>ix_zeroRefs := 0\<rparr>"
      using assms(4) sc False by (auto simp: reapChunk_def split: if_splits)
    then show ?thesis using s Z none \<open>\<not> hit\<close> by (simp add: repr_def counters_ok_def wrap64_id)
  qed
  then show "repr P ix' (forget_all (take 1000 Z) s)" "vs = take 1000 Z" "ix_closed ix' = ix_closed ix"
    "again \<Longrightarrow> 1000 \<le> length Z" "\<not> again \<Longrightarrow> length Z \<le> 1000"
    using R by simp_all
qed

lemma reapChunk_error: "reapChunk P ix res = (Inl err, ix', res') \<Longrightarrow> ix' = ix \<and> res' = res"
  by (auto simp: reapChunk_def split: sum.splits if_splits)

section \<open>The loop\<close>

definition reap_good :: "'db pebble \<Rightarrow> 'db index \<Rightarrow> EvictResult \<Rightarrow> ispec \<times> OutputID list \<Rightarrow> bool" where
  "reap_good P ix res = (\<lambda>(s, Z). pebble_ok P \<and> repr P ix s \<and> zero_listing s Z)"

definition reap_rest :: "ispec \<times> OutputID list \<Rightarrow> ispec \<times> OutputID list" where
  "reap_rest = (\<lambda>(s, Z). (forget_all (take 1000 Z) s, drop 1000 Z))"

lemma zero_listing_after: "zero_listing s Z \<Longrightarrow> zero_listing (forget_all (take n Z) s) (drop n Z)"
proof -
  assume *: "zero_listing s Z"
  have "set (take n Z) \<inter> set (drop n Z) = {}"
    using zero_listing_distinct [OF *] by (metis append_take_drop_id distinct_append)
  moreover have "set Z = set (take n Z) \<union> set (drop n Z)" by (metis append_take_drop_id set_append)
  ultimately show ?thesis
    using * by (auto simp: zero_listing_def zero_objs_forget_all sorted_wrt_drop)
qed

interpretation rpl: chunk_loop E "\<lambda>ix res. reapChunk P ix res"
  "\<lambda>n ix res w. reapZeroRefs n P E ix res w"
  "reap_good P" reap_rest "\<lambda>st. take 1000 (snd st)"
  "\<lambda>st. (forget_all (snd st) (fst st), [])" snd "\<lambda>st. length (snd st)"
  for P E
proof
  fix ix ix' :: "'b index" and res res' vs again and st :: "ispec \<times> OutputID list"
  obtain s Z where st: "st = (s, Z)" by (cases st)
  assume g: "reap_good P ix res st"
  then have "pebble_ok P" "repr P ix s" "zero_listing s Z" by (simp_all add: reap_good_def st)
  note G = reapChunk_refines [OF this] and Z = zero_listing_after [OF this(3)]
  show "reap_good P ix' res' (reap_rest st) \<and> vs = take 1000 (snd st)"
    if "reapChunk P ix res = (Inr (vs, again), ix', res')"
    using G [OF that] g Z by (simp add: reap_good_def reap_rest_def st)
  show "length (snd (reap_rest st)) < length (snd st)
      \<and> (forget_all (snd (reap_rest st)) (fst (reap_rest st)), []) = (forget_all (snd st) (fst st), [])
      \<and> snd st = take 1000 (snd st) @ snd (reap_rest st)"
    if "reapChunk P ix res = (Inr (vs, True), ix', res')"
  proof -
    have "forget_all (drop 1000 Z) (forget_all (take 1000 Z) s) = forget_all Z s"
      by (metis append_take_drop_id forget_all_simps(3))
    then show ?thesis using G(4) [OF that] by (simp add: reap_rest_def st)
  qed
  show "(forget_all (snd st) (fst st), []) = reap_rest st \<and> snd st = take 1000 (snd st)"
    if "reapChunk P ix res = (Inr (vs, False), ix', res')"
    using G(5) [OF that] by (simp add: reap_rest_def st)
qed (auto dest: reapChunk_error)

end
