(* ===== verification/Index_Theorems.thy ===== *)
theory Index_Theorems
  imports Index_Scan
begin

text \<open>
  The operations of the index succeed on a healthy store, a look-up after a mutation sees it, and
  the age span is that of the oldest and the newest entry. The demonstration state at the end of
  the theory is a small index built by the code itself on the reference store; the witnesses of
  the theories above use it.
\<close>

section \<open>Success on a healthy store\<close>

lemma decRef_healthy:
  assumes "pebble_ok P" "pebble_healthy P" "swf s" "tables (pb_view P (ix_db ix)) s"
  shows "\<exists>x. decRefLocked P ix b v d = Inr x"
  using loadObjRef_healthy [OF assms, of v]
  by (auto simp: decRefLocked_def Let_def pebble_healthy_stage [OF assms(1,2)] split: option.splits)

lemma incRef_healthy:
  assumes "pebble_ok P" "pebble_healthy P" "swf s" "tables (pb_view P (ix_db ix)) s"
  shows "\<exists>x. incRefLocked P ix b v d = Inr x"
  using loadObjRef_healthy [OF assms, of v]
  by (auto simp: incRefLocked_def pebble_healthy_stage [OF assms(1,2)] split: option.splits)

lemma putBatch_healthy:
  assumes "pebble_ok P" "pebble_healthy P" "swf s" "tables (pb_view P (ix_db ix)) s"
  shows "\<exists>x. putBatch P ix a e d = Inr x"
proof -
  note st = pebble_healthy_stage [OF assms(1,2)] and ld = loadEntry_healthy [OF assms]
  have dec: "\<exists>f z b'. decRefLocked P ix b v False = Inr (f, z, b')" for b v
    using decRef_healthy [OF assms] by (metis surj_pair)
  have inc: "\<exists>f z b'. incRefLocked P ix b v d = Inr (f, z, b')" for b v
    using incRef_healthy [OF assms] by (metis surj_pair)
  show ?thesis
  proof (cases "ents s a")
    case None
    obtain f z b' where "incRefLocked P ix [] (OutputID e) d = Inr (f, z, b')" using inc by blast
    then show ?thesis using None by (simp add: putBatch_def ld st)
  next
    case (Some e0)
    obtain f z b1 where d: "decRefLocked P ix [BDelete (lruKey (LastUsedAt e0) a)] (OutputID e0) False = Inr (f, z, b1)"
      using dec by blast
    obtain g y b2 where i: "incRefLocked P ix b1 (OutputID e) d = Inr (g, y, b2)" using inc by blast
    show ?thesis using Some d i by (cases "OutputID e0 = OutputID e") (simp_all add: putBatch_def ld st)
  qed
qed

lemma Put_healthy:
  assumes "pebble_ok P" "pebble_healthy P" "repr P ix s" "\<not> ix_closed ix" "validateEntry e d = None"
  shows "fst (Index_Put P ix a e d) = None"
proof -
  note s = reprD [OF assms(3)]
  obtain b dA dO dD dZ where b: "putBatch P ix a e d = Inr (b, dA, dO, dD, dZ)"
    using putBatch_healthy [OF assms(1,2) s(1,2)] by (metis surj_pair)
  obtain db where "pb_commit P (ix_db ix) b = Inr db" using pebble_healthy_commit [OF assms(2)] by blast
  then show ?thesis using assms b by (simp add: Index_Put_def pebble_healthy_def)
qed

lemma Put_healthy_refines:
  assumes "pebble_ok P" "pebble_healthy P" "repr P ix s" "\<not> ix_closed ix"
    and "wf_entry e" "in64 d" "validateEntry e d = None" "int (card (dom (ents s))) < 2 ^ 63 - 1"
  shows "repr P (snd (Index_Put P ix a e d)) (spec_put a e d s) \<and> \<not> ix_closed (snd (Index_Put P ix a e d))"
  using Put_refines [OF assms(1,3,5,6,8), of a] Put_healthy [OF assms(1-4,7), of a] assms(4)
  by (cases "Index_Put P ix a e d") auto

lemma Delete_healthy:
  assumes "pebble_ok P" "pebble_healthy P" "repr P ix s" "\<not> ix_closed ix"
  shows "\<exists>r ix'. Index_Delete P ix a = (Inr r, ix')"
proof -
  note s = reprD [OF assms(3)]
  show ?thesis
  proof (cases "ents s a")
    case None
    then show ?thesis using assms(4) by (simp add: Index_Delete_def loadEntry_healthy [OF assms(1,2) s(1,2)])
  next
    case (Some e)
    obtain f z b where d: "decRefLocked P ix [BDelete (entryKey a), BDelete (lruKey (LastUsedAt e) a)] (OutputID e) True
        = Inr (f, z, b)"
      using decRef_healthy [OF assms(1,2) s(1,2)] by (metis surj_pair)
    obtain db where "pb_commit P (ix_db ix) b = Inr db" using pebble_healthy_commit [OF assms(2)] by blast
    then show ?thesis using assms(4) Some d
      by (simp add: Index_Delete_def loadEntry_healthy [OF assms(1,2) s(1,2)] pebble_healthy_stage [OF assms(1,2)] Let_def)
  qed
qed

lemma touchLoop_healthy:
  assumes "pebble_ok P" "pebble_healthy P" "swf s" "tables (pb_view P (ix_db ix)) s"
  shows "\<exists>x. touchLoop P ix now g seen acts b n = Inr x"
proof (induction acts arbitrary: seen b n)
  case (Cons a acts)
  then show ?case
    by (auto simp: loadEntry_healthy [OF assms] pebble_healthy_stage [OF assms(1,2)] split: option.splits)
qed simp

lemma TouchMany_healthy:
  assumes "pebble_ok P" "pebble_healthy P" "repr P ix s" "\<not> ix_closed ix"
  shows "\<exists>n ix'. Index_TouchMany P ix acts now g = (Inr n, ix')"
proof -
  note s = reprD [OF assms(3)]
  obtain b n where l: "touchLoop P ix now g [] acts [] 0 = Inr (b, n)"
    using touchLoop_healthy [OF assms(1,2) s(1,2)] by (metis surj_pair)
  obtain db where "pb_commit P (ix_db ix) b = Inr db" using pebble_healthy_commit [OF assms(2)] by blast
  then show ?thesis using assms(4) l by (simp add: Index_TouchMany_def)
qed

section \<open>Reads\<close>

lemma Get_refines:
  "pebble_ok P \<Longrightarrow> repr P ix s \<Longrightarrow> Index_Get P ix a = Inr r \<Longrightarrow> r = ents s a"
  using loadEntry_ok [of P s ix a r] reprD [of P ix s]
  by (cases "ix_closed ix") (simp_all add: Index_Get_def loadEntry_def)

lemma Get_healthy:
  "pebble_ok P \<Longrightarrow> pebble_healthy P \<Longrightarrow> repr P ix s \<Longrightarrow> \<not> ix_closed ix \<Longrightarrow> Index_Get P ix a = Inr (ents s a)"
  using loadEntry_healthy [of P s ix a] reprD [of P ix s] by (simp add: Index_Get_loadEntry)

definition age_span :: "ispec \<Rightarrow> (int \<times> int) option \<Rightarrow> bool" where
  "age_span s r \<longleftrightarrow>
     (case r of
        None \<Rightarrow> dom (ents s) = {}
      | Some (old, new) \<Rightarrow>
          (\<exists>a e. ents s a = Some e \<and> LastUsedAt e = old) \<and> (\<exists>a e. ents s a = Some e \<and> LastUsedAt e = new)
          \<and> (\<forall>a e. ents s a = Some e \<longrightarrow> old \<le> LastUsedAt e \<and> LastUsedAt e \<le> new))"

lemma age_span_listing:
  assumes "swf s" "lru_listing s L"
  shows "age_span s (case L of [] \<Rightarrow> None | x # _ \<Rightarrow> Some (fst x, fst (last L)))"
proof (cases L)
  case Nil
  then have "lru_order s = {}" using assms(2) by (simp add: lru_listing_def)
  then have "ents s a = None" for a by (cases "ents s a") (auto simp: lru_order_def)
  then show ?thesis using Nil by (auto simp: age_span_def)
next
  case (Cons x M)
  have sorted: "sorted (map fst L)" using lru_listing_sorted [OF assms] by (simp add: lru_sorted_def)
  have mem: "(\<exists>a e. ents s a = Some e \<and> LastUsedAt e = t) \<longleftrightarrow> t \<in> set (map fst L)" for t
  proof -
    have "t \<in> fst ` set L \<longleftrightarrow> t \<in> fst ` lru_order s" using assms(2) by (simp add: lru_listing_def)
    also have "\<dots> \<longleftrightarrow> (\<exists>a e. ents s a = Some e \<and> LastUsedAt e = t)"
      unfolding lru_order_def image_iff by auto
    finally show ?thesis by simp
  qed
  have bounds: "fst x \<le> t \<and> t \<le> fst (last L)" if t: "t \<in> set (map fst L)" for t
  proof -
    have ne: "map fst L \<noteq> []" using that by auto
    obtain i where i: "i < length (map fst L)" "map fst L ! i = t" using t by (metis in_set_conv_nth)
    have "map fst L ! 0 \<le> map fst L ! i" "map fst L ! i \<le> map fst L ! (length (map fst L) - 1)"
      using sorted i(1) by (intro sorted_nth_mono; simp)+
    moreover have "map fst L ! 0 = fst x" using Cons by simp
    moreover have "map fst L ! (length (map fst L) - 1) = fst (last L)"
      using ne by (metis last_conv_nth last_map map_is_Nil_conv)
    ultimately show ?thesis using i(2) by simp
  qed
  have "\<exists>a e. ents s a = Some e \<and> LastUsedAt e = fst x" "\<exists>a e. ents s a = Some e \<and> LastUsedAt e = fst (last L)"
    unfolding mem using Cons by simp_all
  moreover have "fst x \<le> LastUsedAt e \<and> LastUsedAt e \<le> fst (last L)" if "ents s a = Some e" for a e
    using bounds mem that by blast
  ultimately show ?thesis unfolding age_span_def by (simp only: Cons list.case option.case prod.case) blast
qed

lemma AgeSpan_refines:
  assumes "pebble_ok P" "repr P ix s" "Index_AgeSpan P ix = Inr r"
  shows "age_span s r"
proof -
  note s = reprD [OF assms(2)]
  obtain kvs where it: "pb_iter P (ix_db ix) (fst (prefixRange prefixLRU)) (snd (prefixRange prefixLRU)) = Inr (kvs, None)"
  proof -
    obtain kvs err where it: "pb_iter P (ix_db ix) (fst (prefixRange prefixLRU)) (snd (prefixRange prefixLRU)) = Inr (kvs, err)"
      using assms(3) by (auto simp: Index_AgeSpan_def result_simps split: if_splits)
    then have "err = None"
      using assms(3) by (cases kvs; cases err) (auto simp: Index_AgeSpan_def result_simps split: if_splits)
    then show thesis using it that by simp
  qed
  obtain L where L: "kvs = map lru_row L" "lru_listing s L"
    using scan_lru [OF s(1,2) pb_iter_NoneD [OF assms(1) it]] .
  have p: "parseLRUKey (fst (lru_row x)) = Inr x" if "x \<in> set L" for x
    using that L(2) lru_order_lru_time [OF s(1)] by (simp add: lru_listing_def lru_row_def parseLRUKey_lruKey)
  have "r = (case L of [] \<Rightarrow> None | x # _ \<Rightarrow> Some (fst x, fst (last L)))"
  proof (cases L)
    case (Cons x M)
    then show ?thesis using assms(3) it L(1) p [of x] p [of "last L"]
      by (auto simp: Index_AgeSpan_def last_map split: if_splits prod.splits)
  qed (use assms(3) it L(1) in \<open>auto simp: Index_AgeSpan_def split: if_splits\<close>)
  then show ?thesis using age_span_listing [OF s(1) L(2)] by simp
qed

section \<open>A demonstration state\<close>

definition empty_index :: "ref_db index" where
  "empty_index = \<lparr>ix_db = [], ix_actions = 0, ix_objects = 0, ix_diskBytes = 0, ix_zeroRefs = 0, ix_closed = False,
     ix_closeErr = None\<rparr>"

lemma repr_empty: "repr ref_pebble empty_index empty_spec"
  by (auto simp: repr_def tables_def counters_ok_def empty_index_def empty_spec_def ref_pebble_def ref_norm_def
      obj_record_def lru_at_def zero_objs_def total_cost_def swf_def wrap64_id)

definition demo_id :: "nat \<Rightarrow> id32" where
  "demo_id n = copy_id [of_nat n]"

definition demo_entry :: "nat \<Rightarrow> int \<Rightarrow> Entry" where
  "demo_entry n t = \<lparr>OutputID = demo_id n, Size = 5, CreatedAt = 10, LastUsedAt = t\<rparr>"

text \<open>One action at time 20 whose output takes 4096 bytes.\<close>

definition demo_index :: "ref_db index" where
  "demo_index = snd (Index_Put ref_pebble empty_index (demo_id 1) (demo_entry 7 20) 4096)"

definition demo_spec :: ispec where
  "demo_spec = spec_put (demo_id 1) (demo_entry 7 20) 4096 empty_spec"

lemma demo_entry_ok:
  "in64 t \<Longrightarrow> wf_entry (demo_entry n t)" "0 \<le> t \<Longrightarrow> validateEntry (demo_entry n t) 4096 = None"
  by (simp_all add: wf_entry_def demo_entry_def in64_def validateEntry_def)

lemma repr_demo: "repr ref_pebble demo_index demo_spec" and demo_open: "\<not> ix_closed demo_index"
proof -
  have "in64 20" "in64 4096" "int (card (dom (ents empty_spec))) < 2 ^ 63 - 1" "\<not> ix_closed empty_index"
    by (simp_all add: in64_def empty_spec_def empty_index_def)
  from Put_healthy_refines [OF pebble_ok_ref pebble_healthy_ref repr_empty this(4) demo_entry_ok(1) [OF this(1)] this(2)
      demo_entry_ok(2) this(3), where a = "demo_id 1"]
  show "repr ref_pebble demo_index demo_spec" "\<not> ix_closed demo_index"
    by (simp_all add: demo_index_def demo_spec_def)
qed

lemma demo_ents [simp]: "ents demo_spec = [demo_id 1 \<mapsto> demo_entry 7 20]"
  by (simp add: demo_spec_def empty_spec_def)

lemma demo_cost [simp]: "cost demo_spec = [demo_id 7 \<mapsto> 4096]"
  by (simp add: demo_spec_def spec_put_def empty_spec_def demo_entry_def)

lemma demo_total [simp]: "total_cost demo_spec = 4096"
  by (simp add: total_cost_def)

section \<open>Properties\<close>



text \<open>
  A look-up sees the last \<^verbatim>\<open>Put\<close>: on a store whose calls succeed, \<^verbatim>\<open>Put\<close> of a valid entry reports
  success, and \<^verbatim>\<open>Get\<close> afterwards returns that entry for the action and what it returned before for
  every other.
\<close>
theorem Index_Get_after_Put:
  assumes "pebble_ok P" "pebble_healthy P" "repr P ix s" "\<not> ix_closed ix" "wf_entry e" "in64 d"
    and "validateEntry e d = None" "int (card (dom (ents s))) < 2 ^ 63 - 1"
  shows "fst (Index_Put P ix a e d) = None
    \<and> Index_Get P (snd (Index_Put P ix a e d)) b = (if b = a then Inr (Some e) else Index_Get P ix b)"
  using Put_healthy [OF assms(1-4,7), of a] Put_healthy_refines [OF assms, of a]
    Get_healthy [OF assms(1-4), of b] Get_healthy [OF assms(1,2), of "snd (Index_Put P ix a e d)" _ b]
  by auto

lemma Index_Get_after_Put_witness:
  "fst (Index_Put ref_pebble demo_index (demo_id 2) (demo_entry 7 30) 4096) = None
   \<and> Index_Get ref_pebble (snd (Index_Put ref_pebble demo_index (demo_id 2) (demo_entry 7 30) 4096)) (demo_id 2)
       = (if demo_id 2 = demo_id 2 then Inr (Some (demo_entry 7 30)) else Index_Get ref_pebble demo_index (demo_id 2))"
  by (rule Index_Get_after_Put [OF pebble_ok_ref pebble_healthy_ref repr_demo demo_open])
     (simp_all add: demo_entry_ok in64_def)

text \<open>
  C25. \<^verbatim>\<open>Delete\<close> removes exactly the action, forgets its output when no other action references it,
  reports that output to the caller in exactly that case, and keeps the counters in step.
\<close>
theorem Index_Delete_refines:
  assumes "pebble_ok P" "pebble_healthy P" "repr P ix s" "\<not> ix_closed ix"
  shows "\<exists>ix'. Index_Delete P ix a = (Inr (orphans_on_delete a s), ix') \<and> repr P ix' (spec_delete a s)"
  using Delete_healthy [OF assms, of a] Delete_refines [OF assms(1,3)] by blast

lemma Index_Delete_refines_witness:
  "\<exists>ix'. Index_Delete ref_pebble demo_index (demo_id 1) = (Inr (orphans_on_delete (demo_id 1) demo_spec), ix')
     \<and> repr ref_pebble ix' (spec_delete (demo_id 1) demo_spec)"
  by (rule Index_Delete_refines) (simp_all add: repr_demo demo_open)

text \<open>
  \<^verbatim>\<open>TouchMany\<close> moves each listed entry that is due to the new time, once, leaves the others (an
  absent one, one newer than \<open>now\<close>, one within the granularity) alone, and returns how many moved.
\<close>
theorem Index_TouchMany_refines:
  assumes "pebble_ok P" "pebble_healthy P" "repr P ix s" "\<not> ix_closed ix" "in64 now"
  shows "\<exists>ix'. Index_TouchMany P ix acts now g = (Inr (int (card (touched_actions s now g (set acts)))), ix')
    \<and> repr P ix' (touch_all acts now g s)"
  using TouchMany_healthy [OF assms(1-4), of acts now g] TouchMany_refines [OF assms(1,3,5)] by blast

lemma Index_TouchMany_refines_witness:
  "\<exists>ix'. Index_TouchMany ref_pebble demo_index [demo_id 1, demo_id 3, demo_id 1] 50 10
       = (Inr (int (card (touched_actions demo_spec 50 10 (set [demo_id 1, demo_id 3, demo_id 1])))), ix')
     \<and> repr ref_pebble ix' (touch_all [demo_id 1, demo_id 3, demo_id 1] 50 10 demo_spec)"
  by (rule Index_TouchMany_refines) (simp_all add: repr_demo demo_open in64_def)

text \<open>
  \<^verbatim>\<open>AgeSpan\<close> returns the smallest and the largest last-use time over all entries, and nothing
  exactly when the index is empty.
\<close>
theorem Index_AgeSpan_span:
  assumes "pebble_ok P" "repr P ix s" "Index_AgeSpan P ix = Inr r"
  shows "age_span s r"
  using AgeSpan_refines assms .

lemma Index_AgeSpan_span_witness: "age_span empty_spec None"
  by (rule Index_AgeSpan_span [OF pebble_ok_ref repr_empty])
     (simp add: Index_AgeSpan_def empty_index_def ref_pebble_def ref_norm_def)

end
