(* ===== verification/Evict_Theorems.thy ===== *)
theory Evict_Theorems
  imports Evict_Reap Index_Theorems
begin

text \<open>
  What an eviction pass achieves: the two constraints hold afterwards, the actions removed are the
  oldest ones and each was in violation when it was removed, the outputs reported to the caller
  are exactly those the index forgot, and a pass that fails part-way leaves a consistent index.
\<close>

section \<open>The victims of a walk\<close>

lemma victims_stop:
  assumes "length (victims go n L s) \<noteq> length L" "length L \<le> n"
  shows "\<not> go (fst (L ! length (victims go n L s))) (delete_all (victims go n L s) s)"
  using assms by (induction go n L s rule: victims.induct) auto

lemma length_victims_le: "length (victims go n L s) \<le> length L"
  by (induction go n L s rule: victims.induct) auto

lemma victims_violate:
  "victims go n L s = us @ a # ws \<Longrightarrow> \<exists>x \<in> set L. snd x = a \<and> go (fst x) (delete_all us s)"
proof (induction go n L s arbitrary: us rule: victims.induct)
  case (3 go n x L s)
  then show ?case by (cases us) (auto split: if_splits)
qed simp_all

lemma orphan_list_cost:
  "swf s \<Longrightarrow> cost (delete_all as s) v = (if v \<in> set (orphan_list as s) then None else cost s v)"
  by (induction as arbitrary: s) (auto simp: swf_delete cost_delete split: option.splits)

lemma orphan_list_subset: "swf s \<Longrightarrow> set (orphan_list as s) \<subseteq> dom (cost s)"
proof (induction as arbitrary: s)
  case (Cons a as)
  have "dom (cost (spec_delete a s)) \<subseteq> dom (cost s)"
    by (auto simp: cost_delete split: option.splits if_splits)
  then show ?case using Cons.IH [OF swf_delete [OF Cons.prems]] orphan_cost [OF Cons.prems, of a]
    by (fastforce split: option.splits)
qed simp

lemma orphan_list_distinct: "swf s \<Longrightarrow> distinct (orphan_list as s)"
proof (induction as arbitrary: s)
  case (Cons a as)
  have "v \<notin> set (orphan_list as (spec_delete a s))" if "orphans_on_delete a s = Some v" for v
    using orphan_list_subset [OF swf_delete [OF Cons.prems], of as a] that by (auto simp: cost_delete)
  then show ?case using Cons by (auto simp: swf_delete split: option.splits)
qed simp

text \<open>A whole walk: from \<open>s\<close>, listed by \<open>L\<close>, it removes \<open>vs\<close> and leaves \<open>s'\<close>.\<close>

definition evict_walk :: "bool \<Rightarrow> int \<Rightarrow> int \<Rightarrow> ispec \<Rightarrow> (int \<times> ActionID) list \<Rightarrow> ActionID list \<Rightarrow> ispec \<Rightarrow> bool" where
  "evict_walk ttl cutoff maxB s L vs s' \<longleftrightarrow>
     swf s \<and> lru_listing s L \<and> vs = all_victims (must_go ttl cutoff maxB) (s, L) \<and> s' = delete_all vs s"

lemma evict_walkD:
  assumes "evict_walk ttl cutoff maxB s L vs s'"
  shows "swf s" "lru_listing s L" "vs = victims (must_go ttl cutoff maxB) (length L) L s" "s' = delete_all vs s"
    "lru_listing s' (drop (length vs) L)" "sorted (map fst L)" "vs = map snd (take (length vs) L)"
proof -
  show d: "swf s" "lru_listing s L" "vs = victims (must_go ttl cutoff maxB) (length L) L s" "s' = delete_all vs s"
    using assms by (simp_all add: evict_walk_def all_victims_def)
  show "lru_listing s' (drop (length vs) L)" using lru_listing_after [OF d(1-3)] d(4) by simp
  show "sorted (map fst L)" using lru_listing_sorted [OF d(1,2)] by (simp add: lru_sorted_def)
  obtain n where "vs = map snd (take n L)" using victims_prefix d(3) by blast
  then show "vs = map snd (take (length vs) L)" by (cases "n \<le> length L") auto
qed

lemma walk_survivors:
  "evict_walk ttl cutoff maxB s L vs s' \<Longrightarrow> ents s' a = Some e \<Longrightarrow> (LastUsedAt e, a) \<in> set (drop (length vs) L)"
  using evict_walkD(5) by (fastforce simp: lru_listing_def lru_order_def)

lemma walk_keeps: "evict_walk ttl cutoff maxB s L vs s' \<Longrightarrow> ents s' a = (if a \<in> set vs then None else ents s a)"
  by (auto dest: evict_walkD(4) simp: ents_delete_all)

lemma walk_not_violated:
  assumes "evict_walk ttl cutoff maxB s L vs s'" "ents s' a = Some e"
  shows "\<not> must_go ttl cutoff maxB (LastUsedAt e) s'"
proof -
  let ?n = "length vs"
  note W = evict_walkD [OF assms(1)]
  have mem: "(LastUsedAt e, a) \<in> set (drop ?n L)" using walk_survivors [OF assms] .
  then have n: "?n < length L" by (metis drop_all empty_iff empty_set not_le_imp_less)
  then have "\<not> must_go ttl cutoff maxB (fst (L ! ?n)) s'"
    using victims_stop [of "must_go ttl cutoff maxB" "length L" L s, folded W(3)] W(4) by simp
  moreover obtain j where "j < length (drop ?n L)" "drop ?n L ! j = (LastUsedAt e, a)"
    using mem by (metis in_set_conv_nth)
  then have j: "?n + j < length L" "fst (L ! (?n + j)) = LastUsedAt e" by (simp_all add: less_diff_conv)
  have "map fst L ! ?n \<le> map fst L ! (?n + j)" using W(6) j(1) by (intro sorted_nth_mono) auto
  then have "fst (L ! ?n) \<le> LastUsedAt e" using n j by simp
  ultimately show ?thesis by (auto simp: must_go_def)
qed

lemma walk_size:
  assumes "evict_walk ttl cutoff maxB s L vs s'" "zero_objs s = {}" "maxB > 0"
  shows "total_cost s' \<le> maxB"
proof (cases "\<exists>a e. ents s' a = Some e")
  case True
  then show ?thesis using walk_not_violated [OF assms(1)] assms(3) by (force simp: must_go_def)
next
  case False
  note W = evict_walkD [OF assms(1)]
  have "users s' v = {}" for v using False by (auto simp: users_def)
  moreover have "zero_objs s' = {}" using zero_objs_delete_all [OF W(1)] assms(2) W(4) by simp
  ultimately have "dom (cost s') = {}" by (auto simp: zero_objs_def)
  then show ?thesis using assms(3) by (simp add: total_cost_def)
qed

lemma walk_oldest_first:
  assumes "evict_walk ttl cutoff maxB s L vs s'"
    and "a \<in> set vs" "ents s a = Some e" "ents s' b = Some f"
  shows "LastUsedAt e \<le> LastUsedAt f"
proof -
  note W = evict_walkD [OF assms(1)]
  obtain t where t: "(t, a) \<in> set (take (length vs) L)"
    using assms(2) W(7) by (metis imageE set_map prod.collapse)
  then have "(t, a) \<in> lru_order s" using W(2) by (auto simp: lru_listing_def dest: in_set_takeD)
  then have te: "t = LastUsedAt e" using assms(3) by (simp add: lru_order_def)
  have "sorted (map fst (take (length vs) L @ drop (length vs) L))" using W(6) by simp
  then show ?thesis
    using t te walk_survivors [OF assms(1,4)] unfolding map_append sorted_append by force
qed

lemma walk_in_violation:
  assumes "evict_walk ttl cutoff maxB s L vs s'" "vs = us @ a # ws"
  shows "\<exists>e. ents s a = Some e \<and> must_go ttl cutoff maxB (LastUsedAt e) (delete_all us s)"
proof -
  note W = evict_walkD [OF assms(1)]
  obtain x where x: "x \<in> set L" "snd x = a" "must_go ttl cutoff maxB (fst x) (delete_all us s)"
    using victims_violate W(3) assms(2) by metis
  then have "lru_at s (fst x) a" using W(2) by (auto simp: lru_listing_def lru_order_mem)
  then show ?thesis using x(3) by (auto simp: lru_at_def)
qed

section \<open>A healthy store\<close>

lemma evictRelease_healthy:
  assumes "pebble_ok P" "pebble_healthy P" "swf s" "tables (pb_view P (ix_db ix)) s"
  shows "\<exists>c'. evictRelease P ix v c = Inr c'"
  using loadObjRef_healthy [OF assms, of v]
  by (auto simp: evictRelease_def Let_def pebble_healthy_stage [OF assms(1,2)] split: option.splits)

lemma evictScan_healthy:
  assumes "pebble_ok P" "pebble_healthy P" "swf s" "tables (pb_view P (ix_db ix)) s"
  shows "(\<And>x. x \<in> set L \<Longrightarrow> in64 (fst x)) \<Longrightarrow>
    \<exists>c'. evictScan P ix ttl cutoff maxB disk None (map lru_row L) c = Inr c'"
proof (induction L arbitrary: c)
  case (Cons x L)
  have IH: "\<exists>c'. evictScan P ix ttl cutoff maxB disk None (map lru_row L) c1 = Inr c'" for c1
    using Cons by simp
  have p: "parseLRUKey (fst (lru_row x)) = Inr x"
    using Cons.prems [of x] by (simp add: lru_row_def parseLRUKey_lruKey)
  show ?case
  proof (cases "ents s (snd x)")
    case None
    then show ?thesis using IH p
      by (auto simp: loadEntry_healthy [OF assms] pebble_healthy_stage [OF assms(1,2)] Let_def split: prod.splits)
  next
    case (Some e)
    obtain c1 where "evictEntry P ix (snd x) e c = Inr c1"
      using evictRelease_healthy [OF assms] by (auto simp: evictEntry_def pebble_healthy_stage [OF assms(1,2)])
    then show ?thesis using IH p Some
      by (auto simp: loadEntry_healthy [OF assms] Let_def split: prod.splits)
  qed
qed simp

lemma evictChunk_healthy:
  assumes "pebble_ok P" "pebble_healthy P" "repr P ix s"
  shows "\<exists>x ix' res'. evictChunk P ix ttl cutoff maxB res = (Inr x, ix', res')"
proof -
  note s = reprD [OF assms(3)]
  obtain kvs where it: "pb_iter P (ix_db ix) (fst (prefixRange prefixLRU)) (snd (prefixRange prefixLRU)) = Inr (kvs, None)"
    using pebble_healthy_iter [OF assms(2)] by blast
  obtain L where L: "kvs = map lru_row L" "lru_listing s L"
    using scan_lru [OF s(1,2) pb_iter_NoneD [OF assms(1) it]] .
  have t: "in64 (fst x)" if "x \<in> set L" for x
    using that L(2) lru_order_lru_time [OF s(1)] by (simp add: lru_listing_def)
  obtain c where c: "evictScan P ix ttl cutoff maxB (ix_diskBytes ix) None (map lru_row L) empty_chunk = Inr c"
    using evictScan_healthy [OF assms(1,2) s(1,2) t] by blast
  obtain db where db: "pb_commit P (ix_db ix) (ck_b c) = Inr db" using pebble_healthy_commit [OF assms(2)] by blast
  show ?thesis using it L(1) c db by (auto simp: evictChunk_def)
qed

lemma reapScan_healthy:
  assumes "pebble_ok P" "pebble_healthy P" "swf s"
  shows "set V \<subseteq> dom (cost s) \<Longrightarrow> \<exists>x. reapScan P None (map (obj_row s) V) b n f vs = Inr x"
proof (induction V arbitrary: b n f vs)
  case (Cons v V)
  then obtain r where r: "obj_record s v = Some r" using obj_record_dom [of s v] by auto
  then have "decodeObjRef (snd (obj_row s v)) = Inr r"
    using obj_record_wf [OF assms(3) r] by (simp add: obj_row_def obj.dec_enc)
  then show ?case using Cons by (auto simp: Let_def pebble_healthy_stage [OF assms(1,2)])
qed auto

lemma reapChunk_healthy:
  assumes "pebble_ok P" "pebble_healthy P" "repr P ix s"
  shows "\<exists>x ix' res'. reapChunk P ix res = (Inr x, ix', res')"
proof -
  note s = reprD [OF assms(3)]
  obtain kvs where it: "pb_iter P (ix_db ix) (fst (prefixRange prefixObj)) (snd (prefixRange prefixObj)) = Inr (kvs, None)"
    using pebble_healthy_iter [OF assms(2)] by blast
  obtain V where V: "kvs = map (obj_row s) V" "set V = dom (cost s)"
    using scan_obj [OF s(2) pb_iter_NoneD [OF assms(1) it]] .
  obtain b n f vs hit where c: "reapScan P None (map (obj_row s) V) [] 0 0 [] = Inr (b, n, f, vs, hit)"
    using reapScan_healthy [OF assms(1,2) s(1), of V] V(2) by (metis order_refl surj_pair)
  obtain db where db: "pb_commit P (ix_db ix) b = Inr db" using pebble_healthy_commit [OF assms(2)] by blast
  show ?thesis using it V(1) c db by (auto simp: reapChunk_def)
qed

section \<open>A whole pass\<close>

text \<open>What \<^verbatim>\<open>Evict\<close> makes of a state: reap, then walk.\<close>

definition evict_outcome :: "int \<Rightarrow> int \<Rightarrow> int \<Rightarrow> ispec \<Rightarrow> OutputID list \<Rightarrow> ispec \<Rightarrow> bool" where
  "evict_outcome maxB ttl now s vs s' \<longleftrightarrow>
     (\<exists>Z L us. zero_listing s Z \<and> evict_walk (ttl > 0) (now - ttl) maxB (spec_reap s) L us s'
        \<and> vs = Z @ orphan_list us (spec_reap s))"

lemma zero_objs_reap [simp]: "zero_objs (spec_reap s) = {}"
  by (auto simp: zero_objs_def spec_reap_def users_def restrict_map_def split: if_splits)

lemma total_cost_forget_all_le:
  "swf s \<Longrightarrow> set vs \<subseteq> zero_objs s \<Longrightarrow> distinct vs \<Longrightarrow> total_cost (forget_all vs s) \<le> total_cost s"
proof -
  assume *: "swf s" "set vs \<subseteq> zero_objs s" "distinct vs"
  then have "\<forall>v \<in> set vs. 0 \<le> the (cost s v)" by (fastforce simp: swf_def zero_objs_def lru_time_def)
  then have "0 \<le> (\<Sum>v\<leftarrow>vs. the (cost s v))" by (intro sum_list_nonneg) auto
  moreover have "set vs \<subseteq> dom (cost s)" using * by (auto simp: zero_objs_def)
  ultimately show ?thesis using * sum_list_forget [of s vs] by (simp add: swf_def)
qed

lemma length_lru_listing: "swf s \<Longrightarrow> lru_listing s L \<Longrightarrow> length L = card (dom (ents s))"
proof -
  assume *: "swf s" "lru_listing s L"
  have "set (map snd L) = dom (ents s)" using *(2) by (force simp: lru_listing_def lru_order_def)
  moreover have "distinct (map snd L)" using lru_listing_sorted [OF *] by (simp add: lru_sorted_def)
  ultimately show ?thesis by (metis distinct_card length_map)
qed

lemma length_zero_listing: "swf s \<Longrightarrow> zero_listing s Z \<Longrightarrow> length Z = card (zero_objs s)"
  using zero_listing_distinct [of s Z] by (simp add: zero_listing_def distinct_card [symmetric])

text \<open>The first stage: whether or not the counter asks for it, nothing unreferenced is left.\<close>

lemma reap_stage:
  assumes "pebble_ok P" "repr P ix s" "int (card (dom (cost s))) < 2 ^ 63" "zero_listing s Z"
    and "(if ix_zeroRefs ix > 0 then reapZeroRefs fuel P E ix res w else Some (None, ix, res, w))
           = Some (None, ix', res', w')"
  shows "repr P ix' (spec_reap s) \<and> report E Z w = (None, w')"
proof (cases "ix_zeroRefs ix > 0")
  case True
  then show ?thesis
    using rpl.loop_done [of P ix res "(s, Z)" fuel E w ix' res' w'] assms forget_all_reap [of Z s]
    by (simp add: reap_good_def zero_listing_def)
next
  case False
  note s = reprD [OF assms(2)]
  have "card (zero_objs s) \<le> card (dom (cost s))"
    using s(1) by (intro card_mono) (auto simp: zero_objs_def swf_def)
  then have "ix_zeroRefs ix = int (card (zero_objs s))"
    using s(3) assms(3) by (simp add: counters_ok_def wrap64_id in64_def)
  then have none: "zero_objs s = {}" using False finite_zero_objs [OF s(1)] by simp
  then have "Z = []" "spec_reap s = s" using assms(4) forget_all_reap [of "[]" s] by (simp_all add: zero_listing_def)
  then show ?thesis using False assms(2,5) by auto
qed

lemma must_go_cutoff:
  "in64 (now - ttl) \<Longrightarrow>
     must_go (ttl > 0) (if ttl > 0 then sub64 now ttl else 0) maxB = must_go (ttl > 0) (now - ttl) maxB"
  by (auto simp: must_go_def sub64_exact fun_eq_iff)

lemma Evict_done:
  assumes "pebble_ok P" "repr P ix s" "\<not> ix_closed ix" "total_cost s < 2 ^ 63" "int (card (dom (cost s))) < 2 ^ 63"
    and "in64 (now - ttl)" "Index_Evict fuel P E ix maxB ttl now w = Some (None, ix', res, w')"
  shows "\<exists>vs s'. evict_outcome maxB ttl now s vs s' \<and> repr P ix' s' \<and> report E vs w = (None, w')"
proof -
  note s = reprD [OF assms(2)]
  let ?cut = "if ttl > 0 then sub64 now ttl else 0" and ?go = "must_go (ttl > 0) (now - ttl) maxB"
  obtain Z where Z: "zero_listing s Z" using zero_listing_exists [OF s(1)] ..
  obtain ix1 res1 w1 where r: "(if ix_zeroRefs ix > 0 then reapZeroRefs fuel P E ix empty_EvictResult w
        else Some (None, ix, empty_EvictResult, w)) = Some (None, ix1, res1, w1)"
    and p: "evictPass fuel P E (ttl > 0) ?cut maxB ix1 res1 w1 = Some (None, ix', res, w')"
    using assms(3,7) by (auto simp: Index_Evict_def Let_def split: option.splits if_splits)
  note R = reap_stage [OF assms(1,2,5) Z r]
  then have swf: "swf (spec_reap s)" using reprD(1) by blast
  obtain L where L: "lru_listing (spec_reap s) L" using lru_listing_exists [OF swf] ..
  have "total_cost (spec_reap s) \<le> total_cost s"
    using total_cost_forget_all_le [OF s(1), of Z] Z zero_listing_distinct [OF Z] forget_all_reap [of Z s]
    by (simp add: zero_listing_def)
  then have good: "pebble_ok P \<and> evict_good P ix1 res1 (spec_reap s, L)"
    using assms(1,4) R L by (simp add: evict_good_def)
  define us where "us = all_victims ?go (spec_reap s, L)"
  have "repr P ix' (delete_all us (spec_reap s))" "report E (orphan_list us (spec_reap s)) w1 = (None, w')"
    using evl.loop_done [OF good p] must_go_cutoff [OF assms(6), of maxB]
    by (simp_all add: us_def evict_good_def evict_rest_def all_victims_def Let_def)
  then show ?thesis
    using swf L us_def Z R unfolding evict_outcome_def evict_walk_def
    by (intro exI [of _ "Z @ orphan_list us (spec_reap s)"] exI [of _ "delete_all us (spec_reap s)"])
       (auto simp: report_append)
qed

lemma Evict_total:
  assumes "pebble_ok P" "repr P ix s" "total_cost s < 2 ^ 63" "int (card (dom (cost s))) < 2 ^ 63"
    and "card (dom (ents s)) < fuel" "card (dom (cost s)) < fuel"
  shows "Index_Evict fuel P E ix maxB ttl now w \<noteq> None"
proof (cases "ix_closed ix")
  case False
  note s = reprD [OF assms(2)]
  let ?cut = "if ttl > 0 then sub64 now ttl else 0"
  obtain Z where Z: "zero_listing s Z" using zero_listing_exists [OF s(1)] ..
  have le: "length Z < fuel"
    using length_zero_listing [OF s(1) Z] card_mono [of "dom (cost s)" "zero_objs s"] s(1) assms(6)
    by (fastforce simp: zero_objs_def swf_def)
  have "reapZeroRefs fuel P E ix empty_EvictResult w \<noteq> None"
    using rpl.loop_total [of P ix empty_EvictResult "(s, Z)" fuel E w] assms(1,2) Z le by (simp add: reap_good_def)
  moreover have "evictPass fuel P E (ttl > 0) ?cut maxB ix1 res1 w1 \<noteq> None"
    if r: "(if ix_zeroRefs ix > 0 then reapZeroRefs fuel P E ix empty_EvictResult w
        else Some (None, ix, empty_EvictResult, w)) = Some (None, ix1, res1, w1)" for ix1 res1 w1
  proof -
    note R = reap_stage [OF assms(1,2,4) Z r]
    then have swf: "swf (spec_reap s)" using reprD(1) by blast
    obtain L where L: "lru_listing (spec_reap s) L" using lru_listing_exists [OF swf] ..
    have "total_cost (spec_reap s) \<le> total_cost s"
      using total_cost_forget_all_le [OF s(1), of Z] Z zero_listing_distinct [OF Z] forget_all_reap [of Z s]
      by (simp add: zero_listing_def)
    then have good: "pebble_ok P \<and> evict_good P ix1 res1 (spec_reap s, L)"
      using assms(1,3) R L by (simp add: evict_good_def)
    have "length (snd (spec_reap s, L)) < fuel"
      using length_lru_listing [OF swf L] assms(5) by (simp add: spec_reap_def)
    then show ?thesis by (rule evl.loop_total [OF good])
  qed
  ultimately show ?thesis using False by (auto simp: Index_Evict_def Let_def split: option.splits)
qed (simp add: Index_Evict_def)

lemma Evict_healthy:
  assumes "pebble_ok P" "pebble_healthy P" "env_quiet E" "repr P ix s" "\<not> ix_closed ix"
    and "total_cost s < 2 ^ 63" "int (card (dom (cost s))) < 2 ^ 63"
    and "card (dom (ents s)) < fuel" "card (dom (cost s)) < fuel"
  shows "\<exists>ix' res w'. Index_Evict fuel P E ix maxB ttl now w = Some (None, ix', res, w')"
proof -
  note s = reprD [OF assms(4)]
  let ?cut = "if ttl > 0 then sub64 now ttl else 0"
  obtain Z where Z: "zero_listing s Z" using zero_listing_exists [OF s(1)] ..
  have le: "length Z < fuel"
    using length_zero_listing [OF s(1) Z] card_mono [of "dom (cost s)" "zero_objs s"] s(1) assms(9)
    by (fastforce simp: zero_objs_def swf_def)
  have chunk_ok: "\<exists>x ix' res'. reapChunk P ix res = (Inr x, ix', res')" if "reap_good P ix res st" for ix res st
    using that reapChunk_healthy [OF assms(1,2)] by (auto simp: reap_good_def split: prod.splits)
  have rg: "reap_good P ix empty_EvictResult (s, Z)" using assms(1,4) Z by (simp add: reap_good_def)
  have "\<exists>ix' res' w'. reapZeroRefs fuel P E ix empty_EvictResult w = Some (None, ix', res', w')"
    by (rule rpl.loop_succeeds [OF assms(3) chunk_ok rg]) (use le in simp_all)
  then obtain ix1 res1 w1 where r: "(if ix_zeroRefs ix > 0 then reapZeroRefs fuel P E ix empty_EvictResult w
        else Some (None, ix, empty_EvictResult, w)) = Some (None, ix1, res1, w1)"
    by (cases "ix_zeroRefs ix > 0") auto
  note R = reap_stage [OF assms(1,4,7) Z r]
  then have swf: "swf (spec_reap s)" using reprD(1) by blast
  obtain L where L: "lru_listing (spec_reap s) L" using lru_listing_exists [OF swf] ..
  have "total_cost (spec_reap s) \<le> total_cost s"
    using total_cost_forget_all_le [OF s(1), of Z] Z zero_listing_distinct [OF Z] forget_all_reap [of Z s]
    by (simp add: zero_listing_def)
  then have good: "pebble_ok P \<and> evict_good P ix1 res1 (spec_reap s, L)"
    using assms(1,6) R L by (simp add: evict_good_def)
  have len: "length (snd (spec_reap s, L)) < fuel" using length_lru_listing [OF swf L] assms(8) by (simp add: spec_reap_def)
  have ev_ok: "\<exists>x ix' res'. evictChunk P ix (ttl > 0) ?cut maxB res = (Inr x, ix', res')"
    if "pebble_ok P \<and> evict_good P ix res st" for ix res st
    using that evictChunk_healthy [OF assms(1,2)] by (auto simp: evict_good_def split: prod.splits)
  have "\<exists>ix' res w'. evictPass fuel P E (ttl > 0) ?cut maxB ix1 res1 w1 = Some (None, ix', res, w')"
    by (rule evl.loop_succeeds [OF assms(3) ev_ok good len])
  then show ?thesis using r assms(5) by (auto simp: Index_Evict_def Let_def)
qed

text \<open>A pass that fails has committed whole chunks: some outputs reaped, some actions deleted.\<close>

lemma reap_rest_iter:
  "\<exists>vs. (reap_rest ^^ k) (s, Z) = (forget_all vs s, drop (1000 * k) Z) \<and> vs = take (1000 * k) Z"
proof (induction k)
  case (Suc k)
  have "take (1000 * Suc k) Z = take (1000 * k) Z @ take 1000 (drop (1000 * k) Z)"
    by (simp add: take_add [symmetric] add.commute)
  then show ?case using Suc by (simp add: reap_rest_def add.commute)
qed simp

lemma evict_rest_iter: "\<exists>us. fst ((evict_rest go n ^^ k) (s, L)) = delete_all us s"
proof (induction k)
  case 0
  then show ?case by (intro exI [of _ "[]"]) simp
next
  case (Suc k)
  then obtain us M where "(evict_rest go n ^^ k) (s, L) = (delete_all us s, M)" by (metis prod.collapse)
  then show ?case by (auto simp: evict_rest_def Let_def intro: exI [of _ "us @ victims go n M (delete_all us s)"])
qed

lemma Evict_failed:
  assumes "pebble_ok P" "repr P ix s" "total_cost s < 2 ^ 63" "int (card (dom (cost s))) < 2 ^ 63"
    and "Index_Evict fuel P E ix maxB ttl now w = Some (Some err, ix', res, w')"
  shows "\<exists>vs us. set vs \<subseteq> zero_objs s \<and> repr P ix' (delete_all us (forget_all vs s))"
proof (cases "ix_closed ix")
  case True
  then show ?thesis using assms by (intro exI [of _ "[]"] exI [of _ "[]"]) (simp add: Index_Evict_def)
next
  case False
  note s = reprD [OF assms(2)]
  let ?cut = "if ttl > 0 then sub64 now ttl else 0"
  obtain Z where Z: "zero_listing s Z" using zero_listing_exists [OF s(1)] ..
  consider (reap) "reapZeroRefs fuel P E ix empty_EvictResult w = Some (Some err, ix', res, w')"
    | (pass) ix1 res1 w1 where "(if ix_zeroRefs ix > 0 then reapZeroRefs fuel P E ix empty_EvictResult w
        else Some (None, ix, empty_EvictResult, w)) = Some (None, ix1, res1, w1)"
      "evictPass fuel P E (ttl > 0) ?cut maxB ix1 res1 w1 = Some (Some err, ix', res, w')"
    using False assms(5) by (auto simp: Index_Evict_def Let_def split: option.splits if_splits)
  then show ?thesis
  proof cases
    case reap
    have "reap_good P ix empty_EvictResult (s, Z)" using assms(1,2) Z by (simp add: reap_good_def)
    from rpl.loop_error [OF this reap] obtain k where "reap_good P ix' res ((reap_rest ^^ k) (s, Z))" ..
    then have "repr P ix' (forget_all (take (1000 * k) Z) s)"
      using reap_rest_iter [of k s Z] by (auto simp: reap_good_def)
    moreover have "set (take (1000 * k) Z) \<subseteq> zero_objs s"
      using Z set_take_subset [of "1000 * k" Z] by (simp add: zero_listing_def)
    ultimately show ?thesis by (intro exI [of _ "take (1000 * k) Z"] exI [of _ "[]"]) simp
  next
    case pass
    note R = reap_stage [OF assms(1,2,4) Z pass(1)]
    then have swf: "swf (spec_reap s)" using reprD(1) by blast
    obtain L where L: "lru_listing (spec_reap s) L" using lru_listing_exists [OF swf] ..
    have reap: "spec_reap s = forget_all Z s" using forget_all_reap [of Z s] Z by (simp add: zero_listing_def)
    have "total_cost (spec_reap s) \<le> total_cost s"
      using total_cost_forget_all_le [OF s(1), of Z] Z zero_listing_distinct [OF Z] reap by (simp add: zero_listing_def)
    then have good: "pebble_ok P \<and> evict_good P ix1 res1 (spec_reap s, L)"
      using assms(1,3) R L by (simp add: evict_good_def)
    from evl.loop_error [OF good pass(2)] evict_rest_iter obtain us where "repr P ix' (delete_all us (forget_all Z s))"
      unfolding evict_good_def reap by (metis (no_types, lifting) case_prod_unfold)
    then show ?thesis using Z by (intro exI [of _ Z] exI [of _ us]) (simp add: zero_listing_def)
  qed
qed

section \<open>What the outcome is\<close>

lemma outcome_limits:
  assumes "evict_outcome maxB ttl now s vs s'"
  shows "ttl > 0 \<Longrightarrow> ents s' a = Some e \<Longrightarrow> now - ttl \<le> LastUsedAt e" "maxB > 0 \<Longrightarrow> total_cost s' \<le> maxB"
proof -
  obtain Z L us where w: "evict_walk (ttl > 0) (now - ttl) maxB (spec_reap s) L us s'"
    using assms by (auto simp: evict_outcome_def)
  show "now - ttl \<le> LastUsedAt e" if "ttl > 0" "ents s' a = Some e"
    using walk_not_violated [OF w that(2)] that(1) by (auto simp: must_go_def)
  show "total_cost s' \<le> maxB" if "maxB > 0" by (rule walk_size [OF w _ that]) simp
qed

lemma outcome_reported:
  assumes "swf s" "evict_outcome maxB ttl now s vs s'"
  shows "distinct vs" "set vs = dom (cost s) - dom (cost s')" "cost s' v = Some c \<Longrightarrow> cost s v = Some c"
proof -
  obtain Z L us where Z: "zero_listing s Z" and w: "evict_walk (ttl > 0) (now - ttl) maxB (spec_reap s) L us s'"
    and vs: "vs = Z @ orphan_list us (spec_reap s)"
    using assms(2) by (auto simp: evict_outcome_def)
  note W = evict_walkD(1,4) [OF w]
  have reap: "cost (spec_reap s) v = (if v \<in> set Z then None else cost s v)" for v
    using Z by (auto simp: spec_reap_def zero_listing_def restrict_map_def)
  have cost': "cost s' v = (if v \<in> set vs then None else cost s v)" for v
    using orphan_list_cost [OF W(1), of us v] reap W(2) vs by auto
  have sub: "set (orphan_list us (spec_reap s)) \<subseteq> dom (cost s) - set Z"
    using orphan_list_subset [OF W(1), of us] reap by (auto split: if_splits)
  then show "distinct vs"
    using vs zero_listing_distinct [OF Z] orphan_list_distinct [OF W(1), of us] by auto
  have "set Z \<subseteq> dom (cost s)" using Z by (auto simp: zero_listing_def zero_objs_def)
  then have "set vs \<subseteq> dom (cost s)" using sub vs by auto
  then show "set vs = dom (cost s) - dom (cost s')" using cost' by (auto split: if_splits)
  show "cost s' v = Some c \<Longrightarrow> cost s v = Some c" using cost' by (simp split: if_splits)
qed

lemma outcome_removed:
  assumes "evict_outcome maxB ttl now s vs s'" "ents s a = Some e"
  shows "ents s' a = Some e \<or>
    ents s' a = None \<and> (\<forall>b f. ents s' b = Some f \<longrightarrow> LastUsedAt e \<le> LastUsedAt f)
      \<and> (\<exists>us. must_go (ttl > 0) (now - ttl) maxB (LastUsedAt e) (delete_all us (spec_reap s))
               \<and> a \<notin> set us \<and> (\<forall>b\<in>set us. ents s' b = None))"
proof -
  obtain Z L us where w: "evict_walk (ttl > 0) (now - ttl) maxB (spec_reap s) L us s'"
    using assms by (auto simp: evict_outcome_def)
  have e: "ents (spec_reap s) a = Some e" using assms(2) by (simp add: spec_reap_def)
  show ?thesis
  proof (cases "a \<in> set us")
    case True
    then obtain xs ys where us: "us = xs @ a # ys" by (meson split_list)
    have "distinct (map snd L)"
      using lru_listing_sorted evict_walkD(1,2) [OF w] by (auto simp: lru_sorted_def)
    then have "distinct us" using evict_walkD(7) [OF w] by (metis distinct_take take_map)
    then have "a \<notin> set xs" using us by simp
    then show ?thesis
      using walk_in_violation [OF w us] walk_oldest_first [OF w True e] walk_keeps [OF w] e True us
      by (auto intro!: exI [of _ xs])
  next
    case False
    then show ?thesis using walk_keeps [OF w, of a] e by simp
  qed
qed

lemma outcome_entries: "evict_outcome maxB ttl now s vs s' \<Longrightarrow> ents s' a = Some e \<Longrightarrow> ents s a = Some e"
  by (auto simp: evict_outcome_def spec_reap_def dest!: walk_keeps [of _ _ _ _ _ _ _ a] split: if_splits)

section \<open>Properties\<close>

text \<open>
  C16. Eviction enforces both limits. On a store whose calls succeed and with a caller that neither
  cancels nor fails, \<^verbatim>\<open>Evict\<close> returns success; afterwards every entry was used within the time
  to live (when there is one), the disk total is within the size limit (when there is one), no
  unreferenced output is left, and what remains is unchanged. Fuel above the number of actions
  and of outputs is enough for both loops.
\<close>
theorem Evict_enforces_limits:
  assumes "pebble_ok P" "pebble_healthy P" "env_quiet E" "repr P ix s" "\<not> ix_closed ix"
    and "total_cost s < 2 ^ 63" "int (card (dom (cost s))) < 2 ^ 63" "in64 (now - ttl)"
    and "card (dom (ents s)) < fuel" "card (dom (cost s)) < fuel"
  shows "\<exists>ix' res w' s'. Index_Evict fuel P E ix maxBytes ttl now w = Some (None, ix', res, w')
    \<and> repr P ix' s'
    \<and> (ttl > 0 \<longrightarrow> (\<forall>a e. ents s' a = Some e \<longrightarrow> now - ttl \<le> LastUsedAt e))
    \<and> (maxBytes > 0 \<longrightarrow> total_cost s' \<le> maxBytes)
    \<and> zero_objs s' = {}
    \<and> ents s' \<subseteq>\<^sub>m ents s \<and> cost s' \<subseteq>\<^sub>m cost s"
proof -
  obtain ix' res w' where run: "Index_Evict fuel P E ix maxBytes ttl now w = Some (None, ix', res, w')"
    using Evict_healthy [OF assms(1-7,9,10)] by blast
  obtain vs s' where o: "evict_outcome maxBytes ttl now s vs s'" and r: "repr P ix' s'"
    using Evict_done [OF assms(1,4-8) run] by blast
  have "zero_objs s' = {}"
    using o by (auto simp: evict_outcome_def evict_walk_def zero_objs_delete_all)
  moreover have "ents s' \<subseteq>\<^sub>m ents s" using outcome_entries [OF o] by (auto simp: map_le_def)
  moreover have "cost s' \<subseteq>\<^sub>m cost s"
    using outcome_reported(3) [OF reprD(1) [OF assms(4)] o] by (auto simp: map_le_def)
  ultimately show ?thesis using run r outcome_limits [OF o] by blast
qed

text \<open>The caller of the witnesses: it records what is reported and never fails.\<close>

definition demo_env :: "OutputID list evict_env" where
  "demo_env = \<lparr>ctx_err = \<lambda>w. None, onOrphan = \<lambda>v w. (None, w @ [v])\<rparr>"

lemma demo_env_quiet [simp]: "env_quiet demo_env"
  by (simp add: env_quiet_def demo_env_def)

lemma Evict_enforces_limits_witness:
  "\<exists>ix' res w' s'. Index_Evict 5 ref_pebble demo_env demo_index 100 0 1000 [] = Some (None, ix', res, w')
    \<and> repr ref_pebble ix' s'
    \<and> ((0::int) > 0 \<longrightarrow> (\<forall>a e. ents s' a = Some e \<longrightarrow> 1000 - 0 \<le> LastUsedAt e))
    \<and> ((100::int) > 0 \<longrightarrow> total_cost s' \<le> 100)
    \<and> zero_objs s' = {} \<and> ents s' \<subseteq>\<^sub>m ents demo_spec \<and> cost s' \<subseteq>\<^sub>m cost demo_spec"
  by (rule Evict_enforces_limits [OF pebble_ok_ref pebble_healthy_ref demo_env_quiet repr_demo demo_open])
     (simp_all add: in64_def)



text \<open>
  C19. The caller is told about every body it may delete and no other: a successful pass calls
  \<^verbatim>\<open>onOrphan\<close>, once each, on exactly the outputs the index knew before and does not know after, and
  none of these is referenced by a remaining entry.
\<close>
theorem Evict_reports_orphans:
  assumes "pebble_ok P" "repr P ix s" "\<not> ix_closed ix"
    and "total_cost s < 2 ^ 63" "int (card (dom (cost s))) < 2 ^ 63" "in64 (now - ttl)"
    and "Index_Evict fuel P E ix maxBytes ttl now w = Some (None, ix', res, w')"
  shows "\<exists>s' vs. repr P ix' s' \<and> report E vs w = (None, w') \<and> distinct vs
    \<and> set vs = dom (cost s) - dom (cost s') \<and> (\<forall>a e. ents s' a = Some e \<longrightarrow> OutputID e \<notin> set vs)"
proof -
  obtain vs s' where o: "evict_outcome maxBytes ttl now s vs s'" and r: "repr P ix' s'" "report E vs w = (None, w')"
    using Evict_done [OF assms] by blast
  note R = outcome_reported [OF reprD(1) [OF assms(2)] o]
  have "OutputID e \<notin> set vs" if "ents s' a = Some e" for a e
    using swf_cost [OF reprD(1) [OF r(1)] that] R(2) by auto
  then show ?thesis using r R(1,2) by blast
qed

lemma Evict_reports_orphans_witness:
  "\<exists>ix' res w' s' vs. Index_Evict 5 ref_pebble demo_env demo_index 100 0 1000 [] = Some (None, ix', res, w')
    \<and> repr ref_pebble ix' s' \<and> report demo_env vs [] = (None, w') \<and> distinct vs
    \<and> set vs = dom (cost demo_spec) - dom (cost s') \<and> (\<forall>a e. ents s' a = Some e \<longrightarrow> OutputID e \<notin> set vs)"
proof -
  have b: "total_cost demo_spec < 2 ^ 63" "int (card (dom (cost demo_spec))) < 2 ^ 63" "in64 (1000 - 0)"
    "card (dom (ents demo_spec)) < 5" "card (dom (cost demo_spec)) < 5"
    by (simp_all add: in64_def)
  obtain ix' res w' where run: "Index_Evict 5 ref_pebble demo_env demo_index 100 0 1000 [] = Some (None, ix', res, w')"
    using Evict_healthy [OF pebble_ok_ref pebble_healthy_ref demo_env_quiet repr_demo demo_open b(1,2,4,5)] by blast
  then show ?thesis
    using Evict_reports_orphans [OF pebble_ok_ref repr_demo demo_open b(1-3) run] by blast
qed

text \<open>
  C20. A pass always ends and never corrupts: whatever the store, the context and the callback answer,
  \<^verbatim>\<open>Evict\<close> returns within fuel above the number of actions and of outputs; if it returns an
  error, the index represents a state in which only whole chunks were applied, i.e. the original
  one with some unreferenced outputs forgotten and some actions deleted.
\<close>
theorem Evict_terminates_consistently:
  assumes "pebble_ok P" "repr P ix s" "total_cost s < 2 ^ 63" "int (card (dom (cost s))) < 2 ^ 63"
    and "card (dom (ents s)) < fuel" "card (dom (cost s)) < fuel"
  shows "\<exists>r ix' res w'. Index_Evict fuel P E ix maxBytes ttl now w = Some (r, ix', res, w')
    \<and> (r \<noteq> None \<longrightarrow> (\<exists>vs us. set vs \<subseteq> zero_objs s \<and> repr P ix' (delete_all us (forget_all vs s))))"
proof -
  obtain r ix' res w' where run: "Index_Evict fuel P E ix maxBytes ttl now w = Some (r, ix', res, w')"
    using Evict_total [OF assms] by (metis not_Some_eq prod_cases4)
  have "\<exists>vs us. set vs \<subseteq> zero_objs s \<and> repr P ix' (delete_all us (forget_all vs s))" if "r \<noteq> None"
    using that run Evict_failed [OF assms(1-4)] by (metis not_Some_eq)
  then show ?thesis using run by blast
qed

lemma Evict_terminates_consistently_witness:
  "\<exists>r ix' res w'. Index_Evict 5 ref_pebble demo_env demo_index 100 0 1000 [] = Some (r, ix', res, w')
    \<and> (r \<noteq> None \<longrightarrow> (\<exists>vs us. set vs \<subseteq> zero_objs demo_spec \<and> repr ref_pebble ix' (delete_all us (forget_all vs demo_spec))))"
  by (rule Evict_terminates_consistently [OF pebble_ok_ref repr_demo]) simp_all

end
