(* ===== verification/Index_Counters.thy ===== *)
theory Index_Counters
  imports Index_Theorems
begin

text \<open>
  \<^verbatim>\<open>internal/index/counters.go\<close>, the opening and closing of \<^verbatim>\<open>index.go\<close>, and
  \<^verbatim>\<open>internal/index/remeasure.go\<close>. The counters are an in-memory accelerator: the persisted copy is
  trusted only when the clean-shutdown marker is present, and rebuilt from the output table
  otherwise. The theorems show that both ways of reopening give back exactly the counters of the
  closed or crashed index.
\<close>

section \<open>counters.go\<close>

definition snapshot :: "'db index \<Rightarrow> countersSnapshot" where
  "snapshot ix = \<lparr>cActions = ix_actions ix, cObjects = ix_objects ix, cDiskBytes = ix_diskBytes ix,
                  cZeroRefs = ix_zeroRefs ix\<rparr>"

definition restore :: "countersSnapshot \<Rightarrow> 'db index \<Rightarrow> 'db index" where
  "restore c ix = ix\<lparr>ix_actions := cActions c, ix_objects := cObjects c, ix_diskBytes := cDiskBytes c,
                     ix_zeroRefs := cZeroRefs c\<rparr>"

fun rebuildScan :: "error option \<Rightarrow> (bytes \<times> bytes) list \<Rightarrow> countersSnapshot \<Rightarrow> countersSnapshot result" where
  "rebuildScan err [] c = (case err of Some e \<Rightarrow> Inl e | None \<Rightarrow> Inr c)"
| "rebuildScan err (kv # kvs) c =
     rbind (decodeObjRef (snd kv)) (\<lambda>r.
     rebuildScan err kvs
       \<lparr>cActions = add64 (cActions c) (Refs r), cObjects = add64 (cObjects c) 1,
        cDiskBytes = add64 (cDiskBytes c) (DiskBytes r),
        cZeroRefs = (if Refs r = 0 then add64 (cZeroRefs c) 1 else cZeroRefs c)\<rparr>)"

definition rebuildCounters :: "'db pebble \<Rightarrow> 'db index \<Rightarrow> 'db index result" where
  "rebuildCounters P ix =
     rbind (pb_iter P (ix_db ix) (fst (prefixRange prefixObj)) (snd (prefixRange prefixObj))) (\<lambda>(kvs, err).
     rbind (rebuildScan err kvs \<lparr>cActions = 0, cObjects = 0, cDiskBytes = 0, cZeroRefs = 0\<rparr>) (\<lambda>c.
     Inr (restore c ix)))"

definition loadCounters :: "'db pebble \<Rightarrow> 'db index \<Rightarrow> 'db index result" where
  "loadCounters P ix =
     rbind (getCopy P ix metaCleanShutdown) (\<lambda>marker.
     let clean = (case marker of None \<Rightarrow> False | Some m \<Rightarrow> length m = 1 \<and> m ! 0 = schemaV1) in
     rbind (if clean
            then rbind (getCopy P ix metaCounters) (\<lambda>v.
                   case v of
                     None \<Rightarrow> Inr None
                   | Some b \<Rightarrow> (case decodeCounters b of Inl _ \<Rightarrow> Inr None | Inr c \<Rightarrow> Inr (Some (restore c ix))))
            else Inr None) (\<lambda>loaded.
     rbind (case loaded of Some ix1 \<Rightarrow> Inr ix1 | None \<Rightarrow> rebuildCounters P ix) (\<lambda>ix1.
     if clean
     then rbind (pb_stage P [] (BDelete metaCleanShutdown)) (\<lambda>b.
          rbind (pb_commit P (ix_db ix1) b) (\<lambda>db. Inr (ix1\<lparr>ix_db := db\<rparr>)))
     else Inr ix1)))"

text \<open>One tick of \<^verbatim>\<open>persistLoop\<close>; the loop discards the error.\<close>

definition persistCounters :: "'db pebble \<Rightarrow> 'db index \<Rightarrow> error option \<times> 'db index" where
  "persistCounters P ix =
     (case pb_commit P (ix_db ix) [BSet metaCounters (encodeCounters (snapshot ix))] of
        Inl err \<Rightarrow> (Some err, ix)
      | Inr db \<Rightarrow> (None, ix\<lparr>ix_db := db\<rparr>))"

section \<open>Open and Close\<close>

text \<open>
  \<open>d\<close> is the directory as the store sees it and \<open>mkdirErr\<close> what \<^verbatim>\<open>os.MkdirAll\<close> returns. A lock
  that is held makes the call fail with \<^verbatim>\<open>ErrLocked\<close>, before the database is opened.
\<close>

definition Index_Open :: "'db pebble \<Rightarrow> error option \<Rightarrow> 'db \<Rightarrow> 'db index result" where
  "Index_Open P mkdirErr d =
     (case mkdirErr of
        Some err \<Rightarrow> Inl err
      | None \<Rightarrow>
          (case pb_lock P d of
             Some _ \<Rightarrow> Inl ErrLocked
           | None \<Rightarrow>
               rbind (pb_open P d) (\<lambda>db.
               loadCounters P \<lparr>ix_db = db, ix_actions = 0, ix_objects = 0, ix_diskBytes = 0,
                               ix_zeroRefs = 0, ix_closed = False, ix_closeErr = None\<rparr>)))"

definition firstErr :: "error option \<Rightarrow> error option \<Rightarrow> error option" where
  "firstErr e e' = (case e of None \<Rightarrow> e' | Some x \<Rightarrow> Some x)"

text \<open>\<^verbatim>\<open>closeOnce\<close>: a second call answers as the first did. The batch is committed whatever staged.\<close>

definition stageErr :: "'db pebble \<Rightarrow> batch \<Rightarrow> batch_op \<Rightarrow> batch \<times> error option" where
  "stageErr P b x = (case pb_stage P b x of Inl e \<Rightarrow> (b, Some e) | Inr b' \<Rightarrow> (b', None))"

definition Index_Close :: "'db pebble \<Rightarrow> 'db index \<Rightarrow> error option \<times> 'db index" where
  "Index_Close P ix =
     (if ix_closed ix then (ix_closeErr ix, ix)
      else
        (let (b1, e1) = stageErr P [] (BSet metaCounters (encodeCounters (snapshot ix)));
             (b2, e2) = stageErr P b1 (BSet metaCleanShutdown [schemaV1]);
             (db, e3) = (case pb_commit P (ix_db ix) b2 of Inl e \<Rightarrow> (ix_db ix, Some e) | Inr db \<Rightarrow> (db, None));
             e = firstErr (firstErr (firstErr (firstErr e1 e2) e3) (pb_close P db)) (pb_unlock P db) in
         (e, ix\<lparr>ix_db := db, ix_closed := True, ix_closeErr := e\<rparr>)))"

definition closeAbruptly :: "'db pebble \<Rightarrow> 'db index \<Rightarrow> error option \<times> 'db index" where
  "closeAbruptly P ix =
     (if ix_closed ix then (ix_closeErr ix, ix)
      else
        (let e = firstErr (pb_close P (ix_db ix)) (pb_unlock P (ix_db ix)) in
         (e, ix\<lparr>ix_closed := True, ix_closeErr := e\<rparr>)))"

section \<open>remeasure.go\<close>

record ObjectCost =
  oc_OutputID :: OutputID
  oc_DiskBytes :: int

fun objectsScan :: "error option \<Rightarrow> (bytes \<times> bytes) list \<Rightarrow> ObjectCost list \<Rightarrow> ObjectCost list result" where
  "objectsScan err [] out = (case err of Some e \<Rightarrow> Inl e | None \<Rightarrow> Inr out)"
| "objectsScan err (kv # kvs) out =
     (case outputIDFromObjKey (fst kv) of
        None \<Rightarrow> objectsScan err kvs out
      | Some v \<Rightarrow>
          rbind (decodeObjRef (snd kv)) (\<lambda>r.
          objectsScan err kvs (out @ [\<lparr>oc_OutputID = v, oc_DiskBytes = DiskBytes r\<rparr>])))"

definition Index_Objects :: "'db pebble \<Rightarrow> 'db index \<Rightarrow> ObjectCost list result" where
  "Index_Objects P ix =
     (if ix_closed ix then Inl ErrClosed
      else rbind (pb_iter P (ix_db ix) (fst (prefixRange prefixObj)) (snd (prefixRange prefixObj)))
             (\<lambda>(kvs, err). objectsScan err kvs []))"

text \<open>The corrections are a Go map: a list of pairs with distinct keys, in the order \<^verbatim>\<open>range\<close> visits them.\<close>

fun remeasureLoop ::
  "'db pebble \<Rightarrow> 'db index \<Rightarrow> (OutputID \<times> int) list \<Rightarrow> batch \<Rightarrow> int \<Rightarrow> int \<Rightarrow> (batch \<times> int \<times> int) result" where
  "remeasureLoop P ix [] b applied delta = Inr (b, applied, delta)"
| "remeasureLoop P ix ((v, want) # cs) b applied delta =
     rbind (loadObjRef P ix v) (\<lambda>r.
     case r of
       None \<Rightarrow> remeasureLoop P ix cs b applied delta
     | Some r \<Rightarrow>
         (if DiskBytes r = want then remeasureLoop P ix cs b applied delta
          else rbind (pb_stage P b (BSet (objKey v) (encodeObjRef (r\<lparr>DiskBytes := want\<rparr>)))) (\<lambda>b.
               remeasureLoop P ix cs b (applied + 1) (add64 delta (sub64 want (DiskBytes r))))))"

definition Index_Remeasure ::
  "'db pebble \<Rightarrow> 'db index \<Rightarrow> (OutputID \<times> int) list \<Rightarrow> (int \<times> int) result \<times> 'db index" where
  "Index_Remeasure P ix corrections =
     (if corrections = [] then (Inr (0, 0), ix)
      else if ix_closed ix then (Inl ErrClosed, ix)
      else case remeasureLoop P ix corrections [] 0 0 of
        Inl err \<Rightarrow> (Inl err, ix)
      | Inr (b, applied, delta) \<Rightarrow>
          (if applied = 0 then (Inr (0, 0), ix)
           else case pb_commit P (ix_db ix) b of
             Inl err \<Rightarrow> (Inl err, ix)
           | Inr db \<Rightarrow> (Inr (applied, delta), ix\<lparr>ix_db := db, ix_diskBytes := add64 (ix_diskBytes ix) delta\<rparr>)))"

section \<open>Rebuilding gives the true counters\<close>

text \<open>Every action references one known output, so the counts add up to the actions.\<close>

lemma sum_refcount:
  assumes "swf s"
  shows "(\<Sum>v \<in> dom (cost s). refcount s v) = int (card (dom (ents s)))"
proof -
  have "dom (ents s) = (\<Union>v \<in> dom (cost s). users s v)"
    using assms by (auto simp: swf_def users_def)
  moreover have "card (\<Union>v \<in> dom (cost s). users s v) = (\<Sum>v \<in> dom (cost s). card (users s v))"
  proof (rule card_UN_disjoint)
    show "\<forall>i\<in>dom (cost s). \<forall>j\<in>dom (cost s). i \<noteq> j \<longrightarrow> users s i \<inter> users s j = {}"
      using users_disjoint by blast
  qed (use assms finite_users in \<open>auto simp: swf_def\<close>)
  ultimately show ?thesis by (simp add: refcount_def)
qed

lemma rebuildScan_ok:
  assumes "swf s" "set V \<subseteq> dom (cost s)" "rebuildScan err (map (obj_row s) V) c = Inr c'"
    "in64 (cActions c)" "in64 (cObjects c)" "in64 (cDiskBytes c)" "in64 (cZeroRefs c)"
  shows "err = None
    \<and> cActions c' = wrap64 (cActions c + (\<Sum>v\<leftarrow>V. refcount s v))
    \<and> cObjects c' = wrap64 (cObjects c + int (length V))
    \<and> cDiskBytes c' = wrap64 (cDiskBytes c + (\<Sum>v\<leftarrow>V. the (cost s v)))
    \<and> cZeroRefs c' = wrap64 (cZeroRefs c + int (length (filter (\<lambda>v. users s v = {}) V)))"
  using assms(2-)
proof (induction V arbitrary: c)
  case Nil
  then show ?case by (simp add: wrap64_id split: option.splits)
next
  case (Cons v V)
  obtain r where r: "obj_record s v = Some r" using obj_record_dom [of s v] Cons.prems(1) by auto
  then have dec: "decodeObjRef (snd (obj_row s v)) = Inr r"
    using obj_record_wf [OF assms(1) r] by (simp add: obj_row_def obj.dec_enc)
  have r': "Refs r = refcount s v" "DiskBytes r = the (cost s v)" using r by (auto simp: obj_record_def)
  from Cons.IH [OF _ Cons.prems(2) [simplified, unfolded dec, simplified]] Cons.prems r' refcount_eq_0_iff [OF assms(1), of v]
  show ?case by (auto simp: add64_def wrap64_add_left add.assoc)
qed

lemma sum_list_distinct_set: "distinct V \<Longrightarrow> (\<Sum>v\<leftarrow>V. f v) = (\<Sum>v \<in> set V. f v :: int)"
  by (simp add: sum_list_distinct_conv_sum_set)

lemma rebuildCounters_ok:
  assumes "pebble_ok P" "swf s" "tables (pb_view P (ix_db ix)) s" "rebuildCounters P ix = Inr ix'"
  shows "counters_ok ix' s" "ix_db ix' = ix_db ix" "ix_closed ix' = ix_closed ix"
proof -
  obtain kvs err c where it: "pb_iter P (ix_db ix) (fst (prefixRange prefixObj)) (snd (prefixRange prefixObj)) = Inr (kvs, err)"
    and sc: "rebuildScan err kvs \<lparr>cActions = 0, cObjects = 0, cDiskBytes = 0, cZeroRefs = 0\<rparr> = Inr c"
    and ix': "ix' = restore c ix"
    using assms(4) by (auto simp: rebuildCounters_def result_simps)
  obtain rest where rest: "scan_of (pb_view P (ix_db ix)) prefixObj (kvs @ rest)" "err = None \<Longrightarrow> rest = []"
    using pb_iterD [OF assms(1) it] by blast
  obtain V where V: "kvs @ rest = map (obj_row s) V" "set V = dom (cost s)" "distinct V"
    using scan_obj [OF assms(3) rest(1)] .
  obtain V1 V2 where L: "V = V1 @ V2" "kvs = map (obj_row s) V1" "rest = map (obj_row s) V2"
    using V(1) by (metis append_eq_map_conv)
  have "set V1 \<subseteq> dom (cost s)" using V(2) L(1) by auto
  note R = rebuildScan_ok [OF assms(2) this sc [unfolded L(2)], simplified]
  then have VV: "V1 = V" using rest(2) L by simp
  have len: "length V = card (dom (cost s))" using V(2,3) by (metis distinct_card)
  have zero: "length (filter (\<lambda>v. users s v = {}) V) = card (zero_objs s)"
  proof -
    have "set (filter (\<lambda>v. users s v = {}) V) = zero_objs s" using V(2) by (auto simp: zero_objs_def)
    then show ?thesis using V(3) by (metis distinct_card distinct_filter)
  qed
  have acts: "(\<Sum>v\<leftarrow>V. refcount s v) = int (card (dom (ents s)))"
    using sum_refcount [OF assms(2)] V(2,3) by (simp add: sum_list_distinct_set)
  have "in64 (int (card (dom (ents s))))" using assms(2) by (simp add: swf_def in64_def)
  then show "counters_ok ix' s"
    using R len zero acts V(2,3) unfolding ix' VV
    by (simp add: counters_ok_def restore_def wrap64_id total_cost_def sum_list_distinct_set)
  show "ix_db ix' = ix_db ix" "ix_closed ix' = ix_closed ix" by (simp_all add: ix' restore_def)
qed

lemma meta_names:
  "metaCleanShutdown = metaKey ''clean-shutdown''" "metaCounters = metaKey ''counters''"
  by (simp_all add: metaCleanShutdown_def metaCounters_def)

lemma meta_is_meta: "\<exists>r. metaKey n = prefixMeta # r"
  by (simp add: metaKey_def)

lemma tables_meta_upd: "tables m s \<Longrightarrow> tables (m(metaKey n := x)) s"
  by (rule tables_cong_off_meta) (use meta_is_meta in fastforce)+

lemma meta_distinct [simp]: "metaCleanShutdown \<noteq> metaCounters" "metaCounters \<noteq> metaCleanShutdown"
  by (simp_all add: metaCounters_def metaCleanShutdown_def metaKey_def)

text \<open>
  The marker vouches for the stored counters: whenever it is present and valid, a readable
  counter record is the true one. This holds of every directory the code leaves behind.
\<close>

definition marker_valid :: "kv_map \<Rightarrow> bool" where
  "marker_valid m \<longleftrightarrow> m metaCleanShutdown = Some [schemaV1]"

definition vouched :: "kv_map \<Rightarrow> ispec \<Rightarrow> bool" where
  "vouched m s \<longleftrightarrow>
     (marker_valid m \<longrightarrow>
        (\<forall>b c. m metaCounters = Some b \<longrightarrow> decodeCounters b = Inr c \<longrightarrow>
           cActions c = int (card (dom (ents s))) \<and> cObjects c = wrap64 (int (card (dom (cost s))))
           \<and> cDiskBytes c = wrap64 (total_cost s) \<and> cZeroRefs c = wrap64 (int (card (zero_objs s)))))"

lemma marker_check: "(length m = 1 \<and> m ! 0 = schemaV1) \<longleftrightarrow> m = [schemaV1]"
  by (cases m) auto

lemma loadCounters_ok:
  assumes "pebble_ok P" "swf s" "tables (pb_view P (ix_db ix)) s" "vouched (pb_view P (ix_db ix)) s"
    and "loadCounters P ix = Inr ix'"
  shows "repr P ix' s" "\<not> marker_valid (pb_view P (ix_db ix'))" "ix_closed ix' = ix_closed ix"
proof -
  let ?m = "pb_view P (ix_db ix)"
  have get: "getCopy P ix k = Inr r \<Longrightarrow> r = ?m k" for k r using pb_getD [OF assms(1)] by (simp add: getCopy_def)
  obtain marker where mk: "getCopy P ix metaCleanShutdown = Inr marker"
    using assms(5) by (auto simp: loadCounters_def result_simps)
  then have marker: "marker = ?m metaCleanShutdown" by (rule get)
  have clean: "(case marker of None \<Rightarrow> False | Some m \<Rightarrow> length m = 1 \<and> m ! 0 = schemaV1) \<longleftrightarrow> marker_valid ?m"
    using marker marker_check by (auto simp: marker_valid_def split: option.splits)
  have rb: "counters_ok ix1 s \<and> ix_db ix1 = ix_db ix \<and> ix_closed ix1 = ix_closed ix"
    if "rebuildCounters P ix = Inr ix1" for ix1
    using rebuildCounters_ok [OF assms(1-3) that] by blast
  show "repr P ix' s" "\<not> marker_valid (pb_view P (ix_db ix'))" "ix_closed ix' = ix_closed ix"
  proof (atomize(full), cases "marker_valid ?m")
    case False
    then have "rebuildCounters P ix = Inr ix'"
      using assms(5) mk clean by (auto simp: loadCounters_def result_simps Let_def)
    then show "repr P ix' s \<and> \<not> marker_valid (pb_view P (ix_db ix')) \<and> ix_closed ix' = ix_closed ix"
      using rb False assms(2,3) by (simp add: repr_def)
  next
    case True
    obtain v where v: "getCopy P ix metaCounters = Inr v"
      using assms(5) mk clean True by (auto simp: loadCounters_def result_simps Let_def)
    let ?loaded = "case v of None \<Rightarrow> None | Some b \<Rightarrow> (case decodeCounters b of Inl _ \<Rightarrow> None | Inr c \<Rightarrow> Some (restore c ix))"
    have conv: "(case v of None \<Rightarrow> Inr None | Some b \<Rightarrow>
        (case decodeCounters b of Inl _ \<Rightarrow> Inr None | Inr c \<Rightarrow> Inr (Some (restore c ix)))) = (Inr ?loaded :: 'a index option result)"
      by (auto split: option.splits sum.splits)
    obtain ix1 b db where ix1: "(case ?loaded of Some ix1 \<Rightarrow> Inr ix1 | None \<Rightarrow> rebuildCounters P ix) = Inr ix1"
      and b: "pb_stage P [] (BDelete metaCleanShutdown) = Inr b"
      and db: "pb_commit P (ix_db ix1) b = Inr db" and ix': "ix' = ix1\<lparr>ix_db := db\<rparr>"
      using assms(5) mk clean True v unfolding loadCounters_def
      by (auto simp: result_simps Let_def conv simp del: option.case_distrib)
    have ok: "counters_ok ix1 s \<and> ix_db ix1 = ix_db ix \<and> ix_closed ix1 = ix_closed ix"
    proof (cases ?loaded)
      case None
      then show ?thesis using ix1 rb by simp
    next
      case (Some ix2)
      then obtain bs c where "v = Some bs" "decodeCounters bs = Inr c" "ix2 = restore c ix"
        by (auto split: option.splits sum.splits)
      then show ?thesis using assms(4) True ix1 Some get [OF v]
        by (auto simp: vouched_def counters_ok_def restore_def)
    qed
    have "pb_view P db = ?m(metaCleanShutdown := None)"
      using pb_commitD [OF assms(1) db] pb_stageD [OF assms(1) b] ok by simp
    then show "repr P ix' s \<and> \<not> marker_valid (pb_view P (ix_db ix')) \<and> ix_closed ix' = ix_closed ix"
      using ok ix' assms(2) tables_meta_upd [OF assms(3), of "''clean-shutdown''" None]
      by (simp add: repr_def marker_valid_def counters_ok_def meta_names(1))
  qed
qed

lemma rebuildScan_healthy:
  "swf s \<Longrightarrow> set V \<subseteq> dom (cost s) \<Longrightarrow> \<exists>c'. rebuildScan None (map (obj_row s) V) c = Inr c'"
proof (induction V arbitrary: c)
  case (Cons v V)
  then obtain r where r: "obj_record s v = Some r" using obj_record_dom [of s v] by auto
  then have "decodeObjRef (snd (obj_row s v)) = Inr r"
    using obj_record_wf [OF Cons.prems(1) r] by (simp add: obj_row_def obj.dec_enc)
  then show ?case using Cons by simp
qed simp

lemma rebuildCounters_healthy:
  assumes "pebble_ok P" "pebble_healthy P" "swf s" "tables (pb_view P (ix_db ix)) s"
  shows "\<exists>ix'. rebuildCounters P ix = Inr ix'"
proof -
  obtain kvs where it: "pb_iter P (ix_db ix) (fst (prefixRange prefixObj)) (snd (prefixRange prefixObj)) = Inr (kvs, None)"
    using pebble_healthy_iter [OF assms(2)] by blast
  obtain V where V: "kvs = map (obj_row s) V" "set V = dom (cost s)"
    using scan_obj [OF assms(4) pb_iter_NoneD [OF assms(1) it]] .
  then obtain c' where "rebuildScan None kvs \<lparr>cActions = 0, cObjects = 0, cDiskBytes = 0, cZeroRefs = 0\<rparr> = Inr c'"
    using rebuildScan_healthy [OF assms(3), of V] by blast
  then show ?thesis using it by (simp add: rebuildCounters_def)
qed

lemma loadCounters_healthy:
  assumes "pebble_ok P" "pebble_healthy P" "swf s" "tables (pb_view P (ix_db ix)) s"
  shows "\<exists>ix'. loadCounters P ix = Inr ix'"
proof -
  obtain ix1 where rb: "rebuildCounters P ix = Inr ix1" using rebuildCounters_healthy [OF assms] by blast
  obtain cm where cm: "\<And>d b. pb_commit P d b = Inr (cm d b)" using pebble_healthy_commit [OF assms(2)] by metis
  show ?thesis
    by (auto simp: loadCounters_def getCopy_def pebble_healthy_get [OF assms(1,2)] pebble_healthy_stage [OF assms(1,2)]
        rb cm Let_def split: option.splits sum.splits)
qed

lemma Open_ok:
  assumes "pebble_ok P" "pebble_healthy P" "swf s" "tables (pb_view P d) s" "vouched (pb_view P d) s"
  shows "\<exists>ix'. Index_Open P None d = Inr ix' \<and> repr P ix' s \<and> \<not> ix_closed ix'
    \<and> \<not> marker_valid (pb_view P (ix_db ix'))"
proof -
  obtain db where db: "pb_open P d = Inr db" using assms(2) unfolding pebble_healthy_def by meson
  let ?ix = "\<lparr>ix_db = db, ix_actions = 0, ix_objects = 0, ix_diskBytes = 0, ix_zeroRefs = 0,
              ix_closed = False, ix_closeErr = None\<rparr>"
  have view: "pb_view P (ix_db ?ix) = pb_view P d" using pb_openD [OF assms(1) db] by simp
  obtain ix' where l: "loadCounters P ?ix = Inr ix'"
    using loadCounters_healthy [OF assms(1-3), of ?ix] assms(4) view by auto
  have "pb_lock P d = None" using assms(2) by (simp add: pebble_healthy_def)
  then have "Index_Open P None d = Inr ix'" using db l by (simp add: Index_Open_def)
  then show ?thesis
    using loadCounters_ok [OF assms(1,3) _ _ l] view assms(4,5) by simp
qed

lemma counters_wf: "repr P ix s \<Longrightarrow> wf_counters (snapshot ix)"
proof -
  assume r: "repr P ix s"
  then have "in64 (int (card (dom (ents s))))" by (simp add: repr_def swf_def in64_def)
  then show ?thesis using r by (simp add: repr_def counters_ok_def wf_counters_def snapshot_def)
qed

lemma Close_ok:
  assumes "pebble_ok P" "pebble_healthy P" "repr P ix s" "\<not> ix_closed ix"
  shows "\<exists>ix'. Index_Close P ix = (None, ix') \<and> ix_closed ix'
    \<and> tables (pb_view P (ix_db ix')) s \<and> vouched (pb_view P (ix_db ix')) s \<and> marker_valid (pb_view P (ix_db ix'))"
proof -
  let ?b = "[BSet metaCounters (encodeCounters (snapshot ix)), BSet metaCleanShutdown [schemaV1]]"
  obtain db where db: "pb_commit P (ix_db ix) ?b = Inr db" using pebble_healthy_commit [OF assms(2)] by blast
  have view: "pb_view P db = (pb_view P (ix_db ix))(metaCounters \<mapsto> encodeCounters (snapshot ix), metaCleanShutdown \<mapsto> [schemaV1])"
    using pb_commitD [OF assms(1) db] by simp
  have "Index_Close P ix = (None, ix\<lparr>ix_db := db, ix_closed := True, ix_closeErr := None\<rparr>)"
    using assms(2,4) db by (simp add: Index_Close_def stageErr_def pebble_healthy_stage [OF assms(1,2)] firstErr_def pebble_healthy_def)
  moreover have "tables (pb_view P db) s"
    unfolding view meta_names by (intro tables_meta_upd reprD(2) [OF assms(3)])
  moreover have "vouched (pb_view P db) s"
    using reprD(3) [OF assms(3)] cnt.dec_enc [OF counters_wf [OF assms(3)]]
    by (simp add: vouched_def view snapshot_def counters_ok_def)
  ultimately show ?thesis by (simp add: marker_valid_def view)
qed

section \<open>Remeasuring\<close>

definition recost_all :: "(OutputID \<times> int) list \<Rightarrow> ispec \<Rightarrow> ispec" where
  "recost_all cs s = fold (\<lambda>(v, c). spec_recost v c) cs s"

lemma recost_all_simps [simp]:
  "recost_all [] s = s" "recost_all ((v, c) # cs) s = recost_all cs (spec_recost v c s)"
  by (simp_all add: recost_all_def)

lemma recost_ents [simp]: "ents (spec_recost v c s) = ents s"
  by (simp add: spec_recost_def)

lemma recost_dom [simp]: "dom (cost (spec_recost v c s)) = dom (cost s)"
  by (auto simp: spec_recost_def)

lemma recost_all_keeps:
  "ents (recost_all cs s) = ents s" "dom (cost (recost_all cs s)) = dom (cost s)" "zero_objs (recost_all cs s) = zero_objs s"
proof -
  show e: "ents (recost_all cs s) = ents s" by (induction cs arbitrary: s) auto
  show d: "dom (cost (recost_all cs s)) = dom (cost s)"
    by (induction cs arbitrary: s) (simp_all add: split_paired_all)
  show "zero_objs (recost_all cs s) = zero_objs s" unfolding zero_objs_def d users_def e ..
qed

lemma swf_recost_all: "swf s \<Longrightarrow> \<forall>x\<in>set cs. lru_time (snd x) \<Longrightarrow> swf (recost_all cs s)"
  by (induction cs arbitrary: s) (auto simp: swf_recost)

lemma tables_recost:
  assumes "tables m s" "cost s v = Some b"
  shows "tables (m(objKey v \<mapsto> encodeObjRef \<lparr>Refs = refcount s v, DiskBytes = c\<rparr>)) (spec_recost v c s)"
  using assms
  by (auto simp: tables_def obj_record_def lru_at_def refcount_def spec_recost_def users_def)

lemma wrap64_delta: "wrap64 (wrap64 (add64 x (sub64 c d) + t) - (c - d)) = wrap64 (x + t)"
proof -
  have "add64 x (sub64 c d) = wrap64 (x + (c - d))" by (simp add: add64_def sub64_def wrap64_add_right)
  moreover have "wrap64 (wrap64 (wrap64 (x + (c - d)) + t) - (c - d)) = wrap64 (wrap64 (x + (c - d)) + (t - (c - d)))"
    by (simp only: wrap64_diff_left) (simp add: algebra_simps)
  moreover have "\<dots> = wrap64 (x + t)" by (simp add: wrap64_add_left)
  ultimately show ?thesis by simp
qed

lemma remeasureLoop_ok:
  assumes "pebble_ok P" "swf s" "tables (pb_view P (ix_db ix)) s"
    and "remeasureLoop P ix cs b n dl = Inr (b', n', dl')" "distinct (map fst cs)"
    and "swf s1" "tables (apply_batch b (pb_view P (ix_db ix))) s1" "\<forall>x\<in>set cs. lru_time (snd x)"
    and "users s1 = users s" "dom (cost s1) = dom (cost s)" "\<And>v. v \<in> fst ` set cs \<Longrightarrow> cost s1 v = cost s v"
  shows "tables (apply_batch b' (pb_view P (ix_db ix))) (recost_all cs s1)
    \<and> n' = n + int (length (filter (\<lambda>(v, c). \<exists>d. cost s v = Some d \<and> d \<noteq> c) cs))
    \<and> wrap64 (dl' + total_cost s1) = wrap64 (dl + total_cost (recost_all cs s1))"
  using assms(4-)
proof (induction cs arbitrary: b n dl s1)
  case Nil
  then show ?case by simp
next
  case (Cons x cs)
  obtain v c where x: "x = (v, c)" by (cases x)
  obtain r where "loadObjRef P ix v = Inr r" using Cons.prems(1) x by (auto simp: result_simps)
  then have r: "loadObjRef P ix v = Inr (obj_record s v)" using loadObjRef_ok [OF assms(1-3)] by metis
  have cv: "cost s1 v = cost s v" using Cons.prems(8) [of v] x by simp
  show ?case
  proof (cases "\<exists>d. cost s v = Some d \<and> d \<noteq> c")
    case False
    then have "spec_recost v c s1 = s1"
      using cv by (cases "cost s v") (auto simp: spec_recost_def fun_upd_idem domIff)
    moreover have "remeasureLoop P ix cs b n dl = Inr (b', n', dl')"
      using Cons.prems(1) False r x by (auto simp: obj_record_def split: option.splits if_splits)
    ultimately show ?thesis using Cons.IH [of b n dl s1] Cons.prems False x by auto
  next
    case True
    then obtain d where d: "cost s v = Some d" "d \<noteq> c" by blast
    let ?op = "BSet (objKey v) (encodeObjRef \<lparr>Refs = refcount s v, DiskBytes = c\<rparr>)"
    have step: "remeasureLoop P ix cs (b @ [?op]) (n + 1) (add64 dl (sub64 c d)) = Inr (b', n', dl')"
      using Cons.prems(1) d r x by (auto simp: obj_record_def result_simps dest!: pb_stageD [OF assms(1)])
    have rc: "refcount s v = refcount s1 v" using Cons.prems(6) by (simp add: refcount_def)
    have tb: "tables (apply_batch (b @ [?op]) (pb_view P (ix_db ix))) (spec_recost v c s1)"
      using tables_recost [OF Cons.prems(4), of v d c] cv d rc by simp
    have sw: "swf (spec_recost v c s1)" using swf_recost Cons.prems(3,5) x by auto
    have other: "cost (spec_recost v c s1) u = cost s u" if "u \<in> fst ` set cs" for u
      using that Cons.prems(2,8) x by (auto simp: spec_recost_def image_iff)
    have tc: "total_cost (spec_recost v c s1) = total_cost s1 + (c - d)"
      using total_cost_recost [of s1 v d c] Cons.prems(3) cv d by (simp add: swf_def)
    from Cons.IH [OF step _ sw tb _ _ _ other] Cons.prems x
    have IH: "tables (apply_batch b' (pb_view P (ix_db ix))) (recost_all cs (spec_recost v c s1))"
      "n' = n + 1 + int (length (filter (\<lambda>(v, c). \<exists>d. cost s v = Some d \<and> d \<noteq> c) cs))"
      "wrap64 (dl' + (total_cost s1 + (c - d))) = wrap64 (add64 dl (sub64 c d) + total_cost (recost_all cs (spec_recost v c s1)))"
      unfolding tc by (auto simp: fun_eq_iff)
    have "wrap64 (dl' + total_cost s1) = wrap64 (wrap64 (dl' + (total_cost s1 + (c - d))) - (c - d))"
      by (simp add: wrap64_diff_left)
    also have "\<dots> = wrap64 (dl + total_cost (recost_all cs (spec_recost v c s1)))"
      unfolding IH(3) by (rule wrap64_delta)
    finally show ?thesis using IH True x by simp
  qed
qed

lemma Remeasure_refines:
  assumes "pebble_ok P" "repr P ix s" "distinct (map fst cs)" "\<forall>x\<in>set cs. lru_time (snd x)"
    and "Index_Remeasure P ix cs = (Inr (n, dl), ix')"
  shows "repr P ix' (recost_all cs s) \<and> ix_closed ix' = ix_closed ix
    \<and> n = int (length (filter (\<lambda>(v, c). \<exists>d. cost s v = Some d \<and> d \<noteq> c) cs))
    \<and> wrap64 dl = wrap64 (total_cost (recost_all cs s) - total_cost s)"
proof (cases "cs = []")
  case True
  then show ?thesis using assms by (simp add: Index_Remeasure_def)
next
  case False
  note s = reprD [OF assms(2)]
  obtain b k d where L: "remeasureLoop P ix cs [] 0 0 = Inr (b, k, d)"
    using assms(5) False by (auto simp: Index_Remeasure_def split: if_splits sum.splits)
  have B: "tables (apply_batch b (pb_view P (ix_db ix))) (recost_all cs s)"
    "k = int (length (filter (\<lambda>(v, c). \<exists>d. cost s v = Some d \<and> d \<noteq> c) cs))"
    "wrap64 (d + total_cost s) = wrap64 (total_cost (recost_all cs s))"
    using remeasureLoop_ok [OF assms(1) s(1,2) L assms(3) s(1) _ assms(4)] s(2) by simp_all
  have d: "wrap64 d = wrap64 (total_cost (recost_all cs s) - total_cost s)"
  proof -
    have "wrap64 d = wrap64 (wrap64 (d + total_cost s) - total_cost s)" by (simp add: wrap64_diff_left)
    then show ?thesis by (simp add: B(3) wrap64_diff_left)
  qed
  note K = recost_all_keeps [of cs s]
  show ?thesis
  proof (cases "k = 0")
    case True
    then have "\<forall>x\<in>set cs. \<not> (\<exists>d. cost s (fst x) = Some d \<and> d \<noteq> snd x)"
      using B(2) by (auto simp: filter_empty_conv)
    then have same: "recost_all cs s = s"
    proof (induction cs)
      case (Cons x cs)
      then have "spec_recost (fst x) (snd x) s = s"
        by (cases "cost s (fst x)") (auto simp: spec_recost_def fun_upd_idem domIff)
      then show ?case using Cons by (cases x) simp
    qed simp
    then show ?thesis using True assms(2,5) L False B(2) by (auto simp: Index_Remeasure_def split: if_splits)
  next
    case moved: False
    then obtain db where db: "pb_commit P (ix_db ix) b = Inr db" "n = k" "dl = d"
      and ix': "ix' = ix\<lparr>ix_db := db, ix_diskBytes := add64 (ix_diskBytes ix) d\<rparr>"
      using assms(5) False L by (auto simp: Index_Remeasure_def split: if_splits sum.splits)
    have "tables (pb_view P db) (recost_all cs s)" using B(1) pb_commitD [OF assms(1) db(1)] by simp
    moreover have "counters_ok ix' (recost_all cs s)"
      using s(3) B(3) K unfolding ix' by (simp add: counters_ok_def add64_wrap add.commute)
    ultimately show ?thesis using swf_recost_all [OF s(1) assms(4)] B(2) db d by (simp add: repr_def ix')
  qed
qed

lemma objectsScan_rows:
  "swf s \<Longrightarrow> set V \<subseteq> dom (cost s) \<Longrightarrow>
     objectsScan err (map (obj_row s) V) out =
       (case err of Some e \<Rightarrow> Inl e
        | None \<Rightarrow> Inr (out @ map (\<lambda>v. \<lparr>oc_OutputID = v, oc_DiskBytes = the (cost s v)\<rparr>) V))"
proof (induction V arbitrary: out)
  case (Cons v V)
  obtain r where r: "obj_record s v = Some r" using obj_record_dom [of s v] Cons.prems(2) by auto
  then have "decodeObjRef (snd (obj_row s v)) = Inr r"
    using obj_record_wf [OF Cons.prems(1) r] by (simp add: obj_row_def obj.dec_enc)
  moreover have "DiskBytes r = the (cost s v)" using r by (auto simp: obj_record_def)
  ultimately show ?case using Cons by (simp add: obj_row_def split: option.splits)
qed (simp split: option.splits)

lemma Objects_refines:
  assumes "pebble_ok P" "repr P ix s" "Index_Objects P ix = Inr out"
  shows "distinct (map oc_OutputID out)"
    "set out = {\<lparr>oc_OutputID = v, oc_DiskBytes = c\<rparr> | v c. cost s v = Some c}"
proof -
  note s = reprD [OF assms(2)]
  obtain kvs err where it: "pb_iter P (ix_db ix) (fst (prefixRange prefixObj)) (snd (prefixRange prefixObj)) = Inr (kvs, err)"
    and sc: "objectsScan err kvs [] = Inr out"
    using assms(3) by (auto simp: Index_Objects_def result_simps split: if_splits)
  obtain rest where rest: "scan_of (pb_view P (ix_db ix)) prefixObj (kvs @ rest)" "err = None \<Longrightarrow> rest = []"
    using pb_iterD [OF assms(1) it] by blast
  obtain V where V: "kvs @ rest = map (obj_row s) V" "set V = dom (cost s)" "distinct V"
    using scan_obj [OF s(2) rest(1)] .
  obtain V1 V2 where L: "V = V1 @ V2" "kvs = map (obj_row s) V1" "rest = map (obj_row s) V2"
    using V(1) by (metis append_eq_map_conv)
  have "set V1 \<subseteq> dom (cost s)" using V(2) L(1) by auto
  then have o: "err = None" "out = map (\<lambda>v. \<lparr>oc_OutputID = v, oc_DiskBytes = the (cost s v)\<rparr>) V1"
    using objectsScan_rows [OF s(1), of V1 err "[]"] sc L(2) by (auto split: option.splits)
  then have "V1 = V" using rest(2) L by simp
  then show "distinct (map oc_OutputID out)"
    "set out = {\<lparr>oc_OutputID = v, oc_DiskBytes = c\<rparr> | v c. cost s v = Some c}"
    using o V(2,3) by (auto simp: o_def image_iff)
qed

end
