(* ===== verification/Index_Life.thy ===== *)
theory Index_Life
  imports Index_Counters Evict_Theorems
begin

text \<open>
  The life of an index: any sequence of its operations, each a critical section, interleaved in any
  order, with clean restarts and crashes in between. The step relation \<open>life\<close> has one rule per
  operation of the code; the invariant is that the tables and the counters represent some
  abstract state and that the clean-shutdown marker is absent while the index runs.
\<close>

section \<open>Mutations leave the meta table alone\<close>

fun op_off_meta :: "batch_op \<Rightarrow> bool" where
  "op_off_meta (BSet k v) \<longleftrightarrow> k = [] \<or> hd k \<noteq> prefixMeta"
| "op_off_meta (BDelete k) \<longleftrightarrow> k = [] \<or> hd k \<noteq> prefixMeta"
| "op_off_meta (BDeleteRange lo hi) \<longleftrightarrow> False"

definition off_meta :: "batch \<Rightarrow> bool" where
  "off_meta b \<longleftrightarrow> (\<forall>x\<in>set b. op_off_meta x)"

lemma off_meta_simps [simp]:
  "off_meta []" "off_meta (x # b) \<longleftrightarrow> op_off_meta x \<and> off_meta b" "off_meta (b @ c) \<longleftrightarrow> off_meta b \<and> off_meta c"
  by (auto simp: off_meta_def)

lemma op_off_meta_keys [simp]:
  "op_off_meta (BSet (entryKey a) v)" "op_off_meta (BSet (objKey u) v)" "op_off_meta (BSet (lruKey t a) v)"
  "op_off_meta (BDelete (entryKey a))" "op_off_meta (BDelete (objKey u))" "op_off_meta (BDelete (lruKey t a))"
  by (simp_all add: entryKey_def objKey_def lruKey_def prefix_defs)

declare op_off_meta.simps [simp del]

lemma off_meta_stage:
  "pebble_ok P \<Longrightarrow> pb_stage P b x = Inr b' \<Longrightarrow> off_meta b \<Longrightarrow> op_off_meta x \<Longrightarrow> off_meta b'"
  by (auto dest: pb_stageD)

lemma apply_off_meta: "off_meta b \<Longrightarrow> apply_batch b m (metaKey n) = m (metaKey n)"
proof (induction b arbitrary: m)
  case (Cons x b)
  then have "apply_op x m (metaKey n) = m (metaKey n)" by (cases x) (auto simp: metaKey_def op_off_meta.simps)
  then show ?case using Cons by simp
qed simp

lemma off_meta_put_ops: "off_meta (put_ops s a e d)"
  by (auto simp: put_ops_def split: option.splits)

lemma off_meta_delete_ops: "off_meta (delete_ops s a e)"
  by (simp add: delete_ops_def)

lemma off_meta_touchLoop:
  "pebble_ok P \<Longrightarrow> touchLoop P ix now g seen acts b n = Inr (b', n') \<Longrightarrow> off_meta b \<Longrightarrow> off_meta b'"
proof (induction acts arbitrary: seen b n)
  case (Cons a acts)
  show ?case
  proof (cases "a \<in> set seen")
    case True
    then show ?thesis using Cons by auto
  next
    case False
    obtain old where old: "loadEntry P ix a = Inr old" using Cons.prems(2) False by (auto simp: result_simps)
    show ?thesis
    proof (cases "\<exists>e. old = Some e \<and> \<not> now \<le> LastUsedAt e \<and> \<not> (g > 0 \<and> sub64 now (LastUsedAt e) < g)")
      case True
      then obtain e where e: "old = Some e" "\<not> now \<le> LastUsedAt e" "\<not> (g > 0 \<and> sub64 now (LastUsedAt e) < g)" by blast
      then have "touchLoop P ix now g (a # seen) acts (b @ [BDelete (lruKey (LastUsedAt e) a),
          BSet (entryKey a) (encodeEntry (e\<lparr>LastUsedAt := now\<rparr>)), BSet (lruKey now a) []]) (n + 1) = Inr (b', n')"
        using Cons.prems(2) False old by (auto simp: result_simps dest!: pb_stageD [OF Cons.prems(1)])
      from Cons.IH [OF Cons.prems(1) this] show ?thesis using Cons.prems(3) by simp
    next
      case skip: False
      then have "touchLoop P ix now g (a # seen) acts b n = Inr (b', n')"
        using Cons.prems(2) False old by (auto split: option.splits if_splits)
      then show ?thesis using Cons.IH [OF Cons.prems(1)] Cons.prems(3) by simp
    qed
  qed
qed simp

lemma off_meta_evictRelease:
  "pebble_ok P \<Longrightarrow> evictRelease P ix v c = Inr c' \<Longrightarrow> off_meta (ck_b c) \<Longrightarrow> off_meta (ck_b c')"
proof (cases "c' = c")
  case False
  assume *: "pebble_ok P" "evictRelease P ix v c = Inr c'" "off_meta (ck_b c)"
  let ?r = "case ck_pending c v of Some r \<Rightarrow> Inr (Some r) | None \<Rightarrow> loadObjRef P ix v"
  obtain r where r: "?r = Inr r" using *(2) False by (cases ?r) (auto simp: evictRelease_def split: if_splits)
  then obtain q where q: "r = Some q" using *(2) False by (cases r) (auto simp: evictRelease_def split: if_splits)
  obtain x b where "pb_stage P (ck_b c) x = Inr b" "op_off_meta x" "ck_b c' = b"
    using *(2) False r q by (auto simp: evictRelease_def Let_def result_simps split: if_splits)
  then show ?thesis using off_meta_stage [OF *(1)] *(3) by blast
qed simp

lemma off_meta_evictEntry:
  "pebble_ok P \<Longrightarrow> evictEntry P ix a e c = Inr c' \<Longrightarrow> off_meta (ck_b c) \<Longrightarrow> off_meta (ck_b c')"
proof -
  assume *: "pebble_ok P" "evictEntry P ix a e c = Inr c'" "off_meta (ck_b c)"
  then obtain b1 b2 where "pb_stage P (ck_b c) (BDelete (entryKey a)) = Inr b1"
    "pb_stage P b1 (BDelete (lruKey (LastUsedAt e) a)) = Inr b2"
    "evictRelease P ix (OutputID e) (c\<lparr>ck_b := b2, ck_nActions := ck_nActions c + 1\<rparr>) = Inr c'"
    by (auto simp: evictEntry_def result_simps)
  then show ?thesis using off_meta_evictRelease [OF *(1)] off_meta_stage [OF *(1)] *(3) by fastforce
qed

lemma off_meta_evictScan:
  "pebble_ok P \<Longrightarrow> evictScan P ix ttl cutoff maxB disk err kvs c = Inr c' \<Longrightarrow> off_meta (ck_b c) \<Longrightarrow> off_meta (ck_b c')"
proof (induction kvs arbitrary: c)
  case Nil
  then show ?case by (simp split: option.splits)
next
  case (Cons kv kvs)
  show ?case
  proof (cases "c' = c")
    case False
    then obtain ts a old where p: "parseLRUKey (fst kv) = Inr (ts, a)" "loadEntry P ix a = Inr old"
      using Cons.prems(2) by (auto simp: result_simps Let_def split: if_splits)
    show ?thesis
    proof (cases old)
      case None
      then obtain b where "pb_stage P (ck_b c) (BDelete (lruKey ts a)) = Inr b"
        "evictScan P ix ttl cutoff maxB disk err kvs (c\<lparr>ck_b := b, ck_stale := ck_stale c + 1\<rparr>) = Inr c'"
        using Cons.prems(2) False p by (auto simp: result_simps Let_def split: if_splits)
      then show ?thesis using Cons.IH [OF Cons.prems(1)] off_meta_stage [OF Cons.prems(1)] Cons.prems(3) by fastforce
    next
      case (Some e)
      then obtain c1 where "evictEntry P ix a e c = Inr c1"
        "evictScan P ix ttl cutoff maxB disk err kvs c1 = Inr c'"
        using Cons.prems(2) False p by (auto simp: result_simps Let_def split: if_splits)
      then show ?thesis using Cons.IH [OF Cons.prems(1)] off_meta_evictEntry [OF Cons.prems(1)] Cons.prems(3) by blast
    qed
  qed (use Cons.prems in simp)
qed

lemma off_meta_reapScan:
  "pebble_ok P \<Longrightarrow> reapScan P err kvs b n f vs = Inr (b', n', f', vs', hit) \<Longrightarrow> off_meta b \<Longrightarrow> off_meta b'"
proof (induction kvs arbitrary: b n f vs)
  case Nil
  then show ?case by (simp split: option.splits)
next
  case (Cons kv kvs)
  show ?case
  proof (cases "n \<ge> evictChunkSize")
    case True
    then show ?thesis using Cons.prems by simp
  next
    case False
    obtain r where r: "decodeObjRef (snd kv) = Inr r" using Cons.prems(2) False by (auto simp: result_simps)
    show ?thesis
    proof (cases "Refs r = 0")
      case True
      then obtain b1 where "pb_stage P b (BDelete (objKey (copy_id (drop 1 (fst kv))))) = Inr b1"
        "reapScan P err kvs b1 (n + 1) (add64 f (DiskBytes r)) (vs @ [copy_id (drop 1 (fst kv))]) = Inr (b', n', f', vs', hit)"
        using Cons.prems(2) False r by (auto simp: result_simps Let_def)
      then show ?thesis using Cons.IH [OF Cons.prems(1)] off_meta_stage [OF Cons.prems(1)] Cons.prems(3) by fastforce
    next
      case nz: False
      then show ?thesis using Cons.IH [OF Cons.prems(1)] Cons.prems(2,3) False r by auto
    qed
  qed
qed

lemma off_meta_remeasureLoop:
  "pebble_ok P \<Longrightarrow> remeasureLoop P ix cs b n d = Inr (b', n', d') \<Longrightarrow> off_meta b \<Longrightarrow> off_meta b'"
proof (induction cs arbitrary: b n d)
  case (Cons x cs)
  obtain v c where x: "x = (v, c)" by (cases x)
  obtain r where r: "loadObjRef P ix v = Inr r" using Cons.prems(2) x by (auto simp: result_simps)
  show ?case
  proof (cases "\<exists>q. r = Some q \<and> DiskBytes q \<noteq> c")
    case True
    then obtain q where q: "r = Some q" "DiskBytes q \<noteq> c" by blast
    then obtain b1 where "pb_stage P b (BSet (objKey v) (encodeObjRef (q\<lparr>DiskBytes := c\<rparr>))) = Inr b1"
      "remeasureLoop P ix cs b1 (n + 1) (add64 d (sub64 c (DiskBytes q))) = Inr (b', n', d')"
      using Cons.prems(2) r x by (auto simp: result_simps)
    then show ?thesis using Cons.IH [OF Cons.prems(1)] off_meta_stage [OF Cons.prems(1)] Cons.prems(3) by fastforce
  next
    case False
    then have "remeasureLoop P ix cs b n d = Inr (b', n', d')"
      using Cons.prems(2) r x by (auto split: option.splits if_splits)
    then show ?thesis using Cons.IH [OF Cons.prems(1)] Cons.prems(3) by blast
  qed
qed simp

section \<open>Steps\<close>

definition disk_fits :: "'db pebble \<Rightarrow> 'db index \<Rightarrow> bool" where
  "disk_fits P ix \<longleftrightarrow> (\<forall>s. repr P ix s \<longrightarrow> total_cost s < 2 ^ 63)"

text \<open>
  The side conditions are Go's types and sizes: 64-bit arguments, fewer than \<open>2 ^ 63 - 1\<close> actions,
  a disk total below \<open>2 ^ 63\<close>. A crash stops the process between two batches; what was committed is
  in the directory the next \<^verbatim>\<open>Open\<close> reads. \<open>restart\<close> is \<^verbatim>\<open>Close\<close> followed by \<^verbatim>\<open>Open\<close>; \<^verbatim>\<open>Close\<close> may
  report an error, as long as it was not the counters it failed to stage.
\<close>

inductive life :: "'db pebble \<Rightarrow> 'db index \<Rightarrow> 'db index \<Rightarrow> bool" for P where
  put: "wf_entry e \<Longrightarrow> in64 d \<Longrightarrow> ix_actions ix < 2 ^ 63 - 1 \<Longrightarrow> Index_Put P ix a e d = (r, ix') \<Longrightarrow> life P ix ix'"
| delete: "Index_Delete P ix a = (q, ix') \<Longrightarrow> life P ix ix'"
| touch: "in64 now \<Longrightarrow> Index_TouchMany P ix acts now g = (n, ix') \<Longrightarrow> life P ix ix'"
| remeasure: "distinct (map fst cs) \<Longrightarrow> \<forall>x\<in>set cs. lru_time (snd x) \<Longrightarrow> Index_Remeasure P ix cs = (n, ix') \<Longrightarrow> life P ix ix'"
| evict: "disk_fits P ix \<Longrightarrow> evictChunk P ix ttl cutoff maxBytes res = (o', ix', res') \<Longrightarrow> life P ix ix'"
| reap: "reapChunk P ix res = (o', ix', res') \<Longrightarrow> life P ix ix'"
| compact: "Index_Compact P ix = (r, ix') \<Longrightarrow> life P ix ix'"
| persist: "persistCounters P ix = (r, ix') \<Longrightarrow> life P ix ix'"
| restart: "snd (stageErr P [] (BSet metaCounters (encodeCounters (snapshot ix)))) = None \<Longrightarrow>
    Index_Close P ix = (r, ix1) \<Longrightarrow> Index_Open P None (ix_db ix1) = Inr ix' \<Longrightarrow> life P ix ix'"
| crash: "Index_Open P None (ix_db ix) = Inr ix' \<Longrightarrow> life P ix ix'"

inductive_cases lifeE: "life P ix ix'"

definition alive :: "'db pebble \<Rightarrow> 'db index \<Rightarrow> bool" where
  "alive P ix \<longleftrightarrow> \<not> ix_closed ix \<and> \<not> marker_valid (pb_view P (ix_db ix)) \<and> (\<exists>s. repr P ix s)"

lemma aliveI: "repr P ix s \<Longrightarrow> \<not> ix_closed ix \<Longrightarrow> pb_view P (ix_db ix) metaCleanShutdown \<noteq> Some [schemaV1] \<Longrightarrow> alive P ix"
  by (auto simp: alive_def marker_valid_def)

lemma commit_off_meta:
  "pebble_ok P \<Longrightarrow> pb_commit P d b = Inr d' \<Longrightarrow> off_meta b \<Longrightarrow> pb_view P d' metaCleanShutdown = pb_view P d metaCleanShutdown"
  by (simp add: pb_commitD apply_off_meta meta_names(1))

lemma alive_put:
  assumes "pebble_ok P" "alive P ix" "wf_entry e" "in64 d" "ix_actions ix < 2 ^ 63 - 1" "Index_Put P ix a e d = (r, ix')"
  shows "alive P ix'"
proof -
  obtain s where s: "repr P ix s" "\<not> ix_closed ix" "pb_view P (ix_db ix) metaCleanShutdown \<noteq> Some [schemaV1]"
    using assms(2) by (auto simp: alive_def marker_valid_def)
  have card: "int (card (dom (ents s))) < 2 ^ 63 - 1" using reprD(3) [OF s(1)] assms(5) by (simp add: counters_ok_def)
  show ?thesis
  proof (cases rule: Index_Put_cases [OF assms(6)])
    case 1
    then show ?thesis using assms(2) by simp
  next
    case (2 b dA dO dD dZ db)
    have "b = put_ops s a e d" using putBatch_ok [OF assms(1) reprD(1,2) [OF s(1)] card 2(3)] by simp
    then have meta: "pb_view P db metaCleanShutdown = pb_view P (ix_db ix) metaCleanShutdown"
      using commit_off_meta [OF assms(1) 2(4)] off_meta_put_ops by simp
    from Put_refines [OF assms(1) s(1) assms(3,4) card assms(6)] show ?thesis
      using assms(2) s meta 2(6) by (auto intro!: aliveI)
  qed
qed

lemma alive_delete:
  assumes "pebble_ok P" "alive P ix" "Index_Delete P ix a = (q, ix')"
  shows "alive P ix'"
proof -
  obtain s where s: "repr P ix s" "\<not> ix_closed ix" "pb_view P (ix_db ix) metaCleanShutdown \<noteq> Some [schemaV1]"
    using assms(2) by (auto simp: alive_def marker_valid_def)
  show ?thesis
  proof (cases rule: Index_Delete_cases [OF assms(3)])
    case (3 e freed orphan b db)
    have e: "ents s a = Some e" using loadEntry_ok [OF assms(1) reprD(1,2) [OF s(1)] 3(2)] by simp
    have "b = delete_ops s a e" by (rule delete_batch_ok(1) [OF assms(1) reprD(1,2) [OF s(1)] e 3(3)])
    then have meta: "pb_view P db metaCleanShutdown = pb_view P (ix_db ix) metaCleanShutdown"
      using commit_off_meta [OF assms(1) 3(4)] off_meta_delete_ops by simp
    from Delete_refines [OF assms(1) s(1)] assms(3) 3(5) have "repr P ix' (spec_delete a s) \<and> ix_closed ix' = ix_closed ix"
      by blast
    then show ?thesis using s meta 3(6) by (intro aliveI) (auto split: if_splits)
  qed (use assms(2) in simp_all)
qed

lemma alive_touch:
  assumes "pebble_ok P" "alive P ix" "in64 now" "Index_TouchMany P ix acts now g = (n, ix')"
  shows "alive P ix'"
proof (cases "ix' = ix")
  case False
  obtain s where s: "repr P ix s" "\<not> ix_closed ix" "pb_view P (ix_db ix) metaCleanShutdown \<noteq> Some [schemaV1]"
    using assms(2) by (auto simp: alive_def marker_valid_def)
  obtain b k db where b: "touchLoop P ix now g [] acts [] 0 = Inr (b, k)" "pb_commit P (ix_db ix) b = Inr db"
    "ix' = ix\<lparr>ix_db := db\<rparr>" "n = Inr k"
    using assms(4) False by (auto simp: Index_TouchMany_def split: if_splits sum.splits)
  have "pb_view P db metaCleanShutdown = pb_view P (ix_db ix) metaCleanShutdown"
    using commit_off_meta [OF assms(1) b(2)] off_meta_touchLoop [OF assms(1) b(1)] by simp
  then show ?thesis using TouchMany_refines [OF assms(1) s(1) assms(3)] assms(4) s b(3,4) by (auto intro!: aliveI)
qed (use assms in simp)

lemma alive_remeasure:
  assumes "pebble_ok P" "alive P ix" "distinct (map fst cs)" "\<forall>x\<in>set cs. lru_time (snd x)" "Index_Remeasure P ix cs = (n, ix')"
  shows "alive P ix'"
proof (cases "ix' = ix")
  case False
  obtain s where s: "repr P ix s" "\<not> ix_closed ix" "pb_view P (ix_db ix) metaCleanShutdown \<noteq> Some [schemaV1]"
    using assms(2) by (auto simp: alive_def marker_valid_def)
  obtain b k d db where b: "remeasureLoop P ix cs [] 0 0 = Inr (b, k, d)" "pb_commit P (ix_db ix) b = Inr db"
    "ix' = ix\<lparr>ix_db := db, ix_diskBytes := add64 (ix_diskBytes ix) d\<rparr>" "n = Inr (k, d)"
    using assms(5) False by (auto simp: Index_Remeasure_def split: if_splits sum.splits)
  have "pb_view P db metaCleanShutdown = pb_view P (ix_db ix) metaCleanShutdown"
    using commit_off_meta [OF assms(1) b(2)] off_meta_remeasureLoop [OF assms(1) b(1)] by simp
  then show ?thesis using Remeasure_refines [OF assms(1) s(1) assms(3,4)] assms(5) s b(3,4) by (auto intro!: aliveI)
qed (use assms in simp)

lemma alive_evict:
  assumes "pebble_ok P" "alive P ix" "disk_fits P ix" "evictChunk P ix ttl cutoff maxBytes res = (q, ix', res')"
  shows "alive P ix'"
proof (cases "ix' = ix")
  case False
  obtain s where s: "repr P ix s" "\<not> ix_closed ix" "pb_view P (ix_db ix) metaCleanShutdown \<noteq> Some [schemaV1]"
    using assms(2) by (auto simp: alive_def marker_valid_def)
  obtain kvs err c db x where c: "evictScan P ix ttl cutoff maxBytes (ix_diskBytes ix) err kvs empty_chunk = Inr c"
    "pb_commit P (ix_db ix) (ck_b c) = Inr db" "ix_db ix' = db" "q = Inr x"
    using assms(4) False by (auto simp: evictChunk_def result_simps split: if_splits sum.splits)
  have "off_meta (ck_b c)" by (rule off_meta_evictScan [OF assms(1) c(1)]) (simp add: empty_chunk_def)
  then have meta: "pb_view P db metaCleanShutdown = pb_view P (ix_db ix) metaCleanShutdown"
    by (rule commit_off_meta [OF assms(1) c(2)])
  obtain L where L: "lru_listing s L" using lru_listing_exists reprD(1) [OF s(1)] by blast
  have "total_cost s < 2 ^ 63" using assms(3) s(1) by (simp add: disk_fits_def)
  from evictChunk_refines(1,2) [OF assms(1) s(1) this L refl] assms(4) c(4)
  show ?thesis using s meta c(3) by (cases x) (auto intro!: aliveI)
qed (use assms in simp)

lemma alive_reap:
  assumes "pebble_ok P" "alive P ix" "reapChunk P ix res = (q, ix', res')"
  shows "alive P ix'"
proof (cases q)
  case (Inl err)
  then show ?thesis using reapChunk_error assms by metis
next
  case (Inr x)
  obtain vs again where x: "x = (vs, again)" by (cases x)
  obtain s where s: "repr P ix s" "\<not> ix_closed ix" "pb_view P (ix_db ix) metaCleanShutdown \<noteq> Some [schemaV1]"
    using assms(2) by (auto simp: alive_def marker_valid_def)
  obtain kvs err b n f us hit where sc: "reapScan P err kvs [] 0 0 [] = Inr (b, n, f, us, hit)"
    and ix': "ix_db ix' = ix_db ix \<or> pb_commit P (ix_db ix) b = Inr (ix_db ix')"
    using assms(3) Inr by (auto simp: reapChunk_def result_simps split: if_splits sum.splits)
  have "off_meta b" by (rule off_meta_reapScan [OF assms(1) sc]) simp
  then have "pb_view P (ix_db ix') metaCleanShutdown = pb_view P (ix_db ix) metaCleanShutdown"
    using ix' commit_off_meta [OF assms(1)] by metis
  moreover obtain Z where "zero_listing s Z" using zero_listing_exists reprD(1) [OF s(1)] by blast
  from reapChunk_refines(1,3) [OF assms(1) s(1) this] assms(3) Inr x
  have "repr P ix' (forget_all (take 1000 Z) s)" "ix_closed ix' = ix_closed ix" by blast+
  ultimately show ?thesis using s by (auto intro!: aliveI)
qed

lemma Open_alive:
  assumes "pebble_ok P" "swf s" "tables (pb_view P d) s" "vouched (pb_view P d) s" "Index_Open P None d = Inr ix'"
  shows "repr P ix' s \<and> alive P ix'"
proof -
  obtain db where db: "pb_open P d = Inr db"
    and l: "loadCounters P \<lparr>ix_db = db, ix_actions = 0, ix_objects = 0, ix_diskBytes = 0, ix_zeroRefs = 0,
              ix_closed = False, ix_closeErr = None\<rparr> = Inr ix'"
    using assms(5) by (auto simp: Index_Open_def result_simps split: option.splits)
  have "pb_view P db = pb_view P d" using pb_openD [OF assms(1) db] .
  then show ?thesis
    using loadCounters_ok [OF assms(1,2) _ _ l] assms(3,4) by (auto simp: alive_def)
qed

lemma vouched_no_marker: "\<not> marker_valid m \<Longrightarrow> vouched m s"
  by (simp add: vouched_def)

lemma alive_compact:
  "pebble_ok P \<Longrightarrow> alive P ix \<Longrightarrow> Index_Compact P ix = (r, ix') \<Longrightarrow> alive P ix'"
  by (auto simp: Index_Compact_def alive_def repr_def counters_ok_def pb_compactD split: if_splits sum.splits)

lemma alive_persist:
  assumes "pebble_ok P" "alive P ix" "persistCounters P ix = (r, ix')"
  shows "alive P ix'"
proof (cases "ix' = ix")
  case False
  obtain s where s: "repr P ix s" "\<not> ix_closed ix" "pb_view P (ix_db ix) metaCleanShutdown \<noteq> Some [schemaV1]"
    using assms(2) by (auto simp: alive_def marker_valid_def)
  obtain db where db: "pb_commit P (ix_db ix) [BSet metaCounters (encodeCounters (snapshot ix))] = Inr db"
    "ix' = ix\<lparr>ix_db := db\<rparr>"
    using assms(3) False by (auto simp: persistCounters_def split: sum.splits)
  have view: "pb_view P db = (pb_view P (ix_db ix))(metaCounters \<mapsto> encodeCounters (snapshot ix))"
    using pb_commitD [OF assms(1) db(1)] by simp
  have "tables (pb_view P db) s" unfolding view meta_names by (intro tables_meta_upd reprD(2) [OF s(1)])
  then have "repr P ix' s" using s(1) db(2) by (simp add: repr_def counters_ok_def)
  then show ?thesis using s db(2) view by (intro aliveI) simp_all
qed (use assms in simp)

text \<open>Whatever else fails in it, a \<^verbatim>\<open>Close\<close> that staged the counters leaves a directory that vouches for them.\<close>

lemma Close_leaves:
  assumes "pebble_ok P" "repr P ix s" "\<not> ix_closed ix" "\<not> marker_valid (pb_view P (ix_db ix))"
    and "snd (stageErr P [] (BSet metaCounters (encodeCounters (snapshot ix)))) = None"
    and "Index_Close P ix = (r, ix')"
  shows "tables (pb_view P (ix_db ix')) s \<and> vouched (pb_view P (ix_db ix')) s"
proof -
  let ?c = "encodeCounters (snapshot ix)" and ?m = "pb_view P (ix_db ix)"
  have b1: "stageErr P [] (BSet metaCounters ?c) = ([BSet metaCounters ?c], None)"
    using assms(5) pb_stageD [OF assms(1)] by (auto simp: stageErr_def split: sum.splits)
  obtain b2 e2 where b2: "stageErr P [BSet metaCounters ?c] (BSet metaCleanShutdown [schemaV1]) = (b2, e2)" by fastforce
  then have b2': "b2 = [BSet metaCounters ?c] \<or> b2 = [BSet metaCounters ?c, BSet metaCleanShutdown [schemaV1]]"
    by (auto simp: stageErr_def dest!: pb_stageD [OF assms(1)] split: sum.splits)
  have "ix_db ix' = ix_db ix \<or> pb_commit P (ix_db ix) b2 = Inr (ix_db ix')"
    using assms(3,6) b1 b2 by (auto simp: Index_Close_def Let_def split: sum.splits)
  then have view: "pb_view P (ix_db ix') = ?m \<or> pb_view P (ix_db ix') = ?m(metaCounters \<mapsto> ?c)
      \<or> pb_view P (ix_db ix') = ?m(metaCounters \<mapsto> ?c, metaCleanShutdown \<mapsto> [schemaV1])"
    using b2' pb_commitD [OF assms(1)] by fastforce
  have t: "tables (?m(metaCounters \<mapsto> ?c)) s" "tables (?m(metaCounters \<mapsto> ?c, metaCleanShutdown \<mapsto> [schemaV1])) s"
    unfolding meta_names by (intro tables_meta_upd reprD(2) [OF assms(2)])+
  have v: "vouched (?m(metaCounters \<mapsto> ?c)) s" "vouched (?m(metaCounters \<mapsto> ?c, metaCleanShutdown \<mapsto> [schemaV1])) s"
    using reprD(3) [OF assms(2)] cnt.dec_enc [OF counters_wf [OF assms(2)]]
    by (simp_all add: vouched_def snapshot_def counters_ok_def)
  show ?thesis using view t v reprD(2) [OF assms(2)] vouched_no_marker [OF assms(4)] by auto
qed

lemma life_alive:
  assumes "pebble_ok P" "life P ix ix'" "alive P ix"
  shows "alive P ix'"
  using assms(2)
proof cases
  case (restart r ix1)
  obtain s where s: "repr P ix s" "\<not> ix_closed ix" "\<not> marker_valid (pb_view P (ix_db ix))"
    using assms(3) by (auto simp: alive_def)
  show ?thesis
    using Close_leaves [OF assms(1) s restart(1,2)] Open_alive [OF assms(1) reprD(1) [OF s(1)] _ _ restart(3)] by blast
next
  case crash
  obtain s where s: "repr P ix s" "\<not> marker_valid (pb_view P (ix_db ix))" using assms(3) by (auto simp: alive_def)
  show ?thesis
    using Open_alive [OF assms(1) reprD(1,2) [OF s(1)] vouched_no_marker [OF s(2)] crash] by blast
next
  case put
  then show ?thesis using alive_put [OF assms(1,3)] by blast
next
  case delete
  then show ?thesis using alive_delete [OF assms(1,3)] by blast
next
  case touch
  then show ?thesis using alive_touch [OF assms(1,3)] by blast
next
  case remeasure
  then show ?thesis using alive_remeasure [OF assms(1,3)] by blast
next
  case evict
  then show ?thesis using alive_evict [OF assms(1,3)] by blast
next
  case reap
  then show ?thesis using alive_reap [OF assms(1,3)] by blast
next
  case compact
  then show ?thesis using alive_compact [OF assms(1,3)] by blast
next
  case persist
  then show ?thesis using alive_persist [OF assms(1,3)] by blast
qed

lemma life_star: "(life P)\<^sup>*\<^sup>* ix ix' \<Longrightarrow> pebble_ok P \<Longrightarrow> alive P ix \<Longrightarrow> alive P ix'"
  by (induction rule: rtranclp_induct) (auto intro: life_alive)

lemma alive_counters:
  assumes "alive P ix"
  shows "\<exists>s. swf s \<and> tables (pb_view P (ix_db ix)) s \<and> ix_actions ix = int (card (dom (ents s)))
    \<and> ix_objects ix = wrap64 (int (card (dom (cost s)))) \<and> ix_diskBytes ix = wrap64 (total_cost s)
    \<and> ix_zeroRefs ix = wrap64 (int (card (zero_objs s)))"
  using assms by (auto simp: alive_def repr_def counters_ok_def)

lemma alive_demo: "alive ref_pebble demo_index"
proof -
  have "alive ref_pebble empty_index"
    using repr_empty by (auto simp: alive_def marker_valid_def empty_index_def ref_pebble_def ref_norm_def)
  moreover have "in64 20" "in64 4096" "ix_actions empty_index < 2 ^ 63 - 1"
    by (simp_all add: in64_def empty_index_def)
  ultimately show ?thesis
    using alive_put [of ref_pebble empty_index "demo_entry 7 20" 4096 "demo_id 1" "fst (Index_Put ref_pebble empty_index (demo_id 1) (demo_entry 7 20) 4096)" demo_index]
    by (simp add: demo_index_def demo_entry_ok)
qed

section \<open>Properties\<close>





text \<open>
  C27. A clean shutdown is a round trip: \<^verbatim>\<open>Close\<close> succeeds, a second \<^verbatim>\<open>Close\<close> answers the same and
  changes nothing, and the next \<^verbatim>\<open>Open\<close> gives back the same state and counters, with the marker
  cleared so that a later crash is noticed.
\<close>
theorem close_open_roundtrip:
  assumes "pebble_ok P" "pebble_healthy P" "repr P ix s" "\<not> ix_closed ix"
  shows "\<exists>ix1 ix2. Index_Close P ix = (None, ix1) \<and> Index_Close P ix1 = (None, ix1)
    \<and> Index_Open P None (ix_db ix1) = Inr ix2 \<and> repr P ix2 s \<and> snapshot ix2 = snapshot ix
    \<and> \<not> marker_valid (pb_view P (ix_db ix2))"
proof -
  obtain ix1 where c: "Index_Close P ix = (None, ix1)" "ix_closed ix1" "tables (pb_view P (ix_db ix1)) s"
    "vouched (pb_view P (ix_db ix1)) s"
    using Close_ok [OF assms] by blast
  then have "ix_closeErr ix1 = None" using assms(4) by (auto simp: Index_Close_def Let_def split: prod.splits)
  then have again: "Index_Close P ix1 = (None, ix1)" using c(2) by (simp add: Index_Close_def)
  obtain ix2 where o: "Index_Open P None (ix_db ix1) = Inr ix2" "repr P ix2 s" "\<not> marker_valid (pb_view P (ix_db ix2))"
    using Open_ok [OF assms(1,2) reprD(1) [OF assms(3)] c(3,4)] by blast
  moreover have "snapshot ix2 = snapshot ix"
    using reprD(3) [OF assms(3)] reprD(3) [OF o(2)] by (simp add: snapshot_def counters_ok_def)
  ultimately show ?thesis using c(1) again by blast
qed

lemma close_open_roundtrip_witness:
  "\<exists>ix1 ix2. Index_Close ref_pebble demo_index = (None, ix1) \<and> Index_Close ref_pebble ix1 = (None, ix1)
    \<and> Index_Open ref_pebble None (ix_db ix1) = Inr ix2 \<and> repr ref_pebble ix2 demo_spec
    \<and> snapshot ix2 = snapshot demo_index \<and> \<not> marker_valid (pb_view ref_pebble (ix_db ix2))"
  by (rule close_open_roundtrip [OF pebble_ok_ref pebble_healthy_ref repr_demo demo_open])

text \<open>
  C28. \<^verbatim>\<open>Remeasure\<close> replaces the recorded cost of exactly the outputs the index still knows, reports how
  many changed, and moves the disk total by the change, so that the budget reads the corrected
  sum; an output that has been dropped since is not brought back.
\<close>
theorem Index_Remeasure_refines:
  assumes "pebble_ok P" "repr P ix s" "distinct (map fst cs)" "\<forall>x\<in>set cs. lru_time (snd x)"
    and "Index_Remeasure P ix cs = (Inr (n, delta), ix')"
  shows "repr P ix' (recost_all cs s) \<and> dom (cost (recost_all cs s)) = dom (cost s)
    \<and> n = int (length (filter (\<lambda>(v, c). \<exists>d. cost s v = Some d \<and> d \<noteq> c) cs))
    \<and> wrap64 delta = wrap64 (total_cost (recost_all cs s) - total_cost s)"
  using Remeasure_refines [OF assms] recost_all_keeps(2) [of cs s] by blast

lemma remeasureLoop_healthy:
  assumes "pebble_ok P" "pebble_healthy P" "swf s" "tables (pb_view P (ix_db ix)) s"
  shows "\<exists>x. remeasureLoop P ix cs b n d = Inr x"
proof (induction cs arbitrary: b n d)
  case (Cons x cs)
  obtain v c where "x = (v, c)" by (cases x)
  then show ?case using Cons loadObjRef_healthy [OF assms, of v]
    by (auto simp: pebble_healthy_stage [OF assms(1,2)] split: option.splits)
qed simp

lemma Remeasure_healthy:
  assumes "pebble_ok P" "pebble_healthy P" "repr P ix s" "\<not> ix_closed ix"
  shows "\<exists>n d ix'. Index_Remeasure P ix cs = (Inr (n, d), ix')"
proof -
  obtain b k d where "remeasureLoop P ix cs [] 0 0 = Inr (b, k, d)"
    using remeasureLoop_healthy [OF assms(1,2) reprD(1,2) [OF assms(3)]] by (metis surj_pair)
  moreover obtain db where "pb_commit P (ix_db ix) b = Inr db" using pebble_healthy_commit [OF assms(2)] by blast
  ultimately show ?thesis using assms(4) by (auto simp: Index_Remeasure_def)
qed

lemma Index_Remeasure_refines_witness:
  "\<exists>n delta ix'. Index_Remeasure ref_pebble demo_index [(demo_id 7, 8192)] = (Inr (n, delta), ix')
    \<and> repr ref_pebble ix' (recost_all [(demo_id 7, 8192)] demo_spec)
    \<and> dom (cost (recost_all [(demo_id 7, 8192)] demo_spec)) = dom (cost demo_spec)
    \<and> n = int (length (filter (\<lambda>(v, c). \<exists>d. cost demo_spec v = Some d \<and> d \<noteq> c) [(demo_id 7, 8192)]))
    \<and> wrap64 delta = wrap64 (total_cost (recost_all [(demo_id 7, 8192)] demo_spec) - total_cost demo_spec)"
proof -
  obtain n delta ix' where r: "Index_Remeasure ref_pebble demo_index [(demo_id 7, 8192)] = (Inr (n, delta), ix')"
    using Remeasure_healthy [OF pebble_ok_ref pebble_healthy_ref repr_demo demo_open] by blast
  have "distinct (map fst [(demo_id 7, 8192 :: int)])" "\<forall>x\<in>set [(demo_id 7, 8192)]. lru_time (snd x)"
    by (simp_all add: lru_time_def)
  from Index_Remeasure_refines [OF pebble_ok_ref repr_demo this r] r show ?thesis by blast
qed

end
