(* ===== verification/Os.thy ===== *)
theory Os
  imports Ids "HOL-Library.Char_ord"
begin

text \<open>
  The part of package \<^verbatim>\<open>os\<close> the body store uses, over an explicit file system: names point at
  inodes, so that \<^verbatim>\<open>link(2)\<close> gives one inode two names and an open file outlives its name. The
  environment decides which system call fails (with an error that is none of the ones the program
  tests for), which device a path is on, how many blocks \<^verbatim>\<open>stat(2)\<close> reports, the clock and the
  random bytes; each is indexed by the number of calls made so far, so every history of faults is
  some environment. Paths are clean absolute paths; directories matter only as parents.
\<close>

record inode =
  i_data :: bytes
  i_mtime :: int

record fsys =
  fs_names :: "(string \<times> nat) list"
  fs_inode :: "nat \<Rightarrow> inode"
  fs_dirs :: "string list"
  fs_next :: nat
  fs_clock :: nat

record FileInfo =
  fi_Size :: int
  fi_Blocks :: "int option"   \<comment> \<open>\<^verbatim>\<open>Sys().(*syscall.Stat_t).Blocks\<close>, when \<^verbatim>\<open>Sys()\<close> is one\<close>
  fi_ModTime :: int

record osenv =
  os_fault :: "nat \<Rightarrow> nat option"
  os_dev :: "string \<Rightarrow> nat"
  os_blocks :: "nat \<Rightarrow> bytes \<Rightarrow> int option"
  os_now :: "nat \<Rightarrow> int"
  os_rand :: "nat \<Rightarrow> bytes"

record File =
  f_name :: string
  f_ino :: nat

definition lookup :: "fsys \<Rightarrow> string \<Rightarrow> nat option" where
  "lookup fs = map_of (fs_names fs)"

definition content :: "fsys \<Rightarrow> string \<Rightarrow> bytes option" where
  "content fs p = map_option (\<lambda>i. i_data (fs_inode fs i)) (lookup fs p)"

section \<open>Paths\<close>

definition slash :: char where "slash = CHR ''/''"

definition path_join :: "string \<Rightarrow> string \<Rightarrow> string" where
  "path_join d n = d @ [slash] @ n"

definition dirname :: "string \<Rightarrow> string" where
  "dirname p = rev (drop 1 (dropWhile (\<lambda>c. c \<noteq> slash) (rev p)))"

definition basename :: "string \<Rightarrow> string" where
  "basename p = rev (takeWhile (\<lambda>c. c \<noteq> slash) (rev p))"

fun ancestors :: "nat \<Rightarrow> string \<Rightarrow> string list" where
  "ancestors 0 p = []"
| "ancestors (Suc n) p = (if p = [] then [] else p # ancestors n (dirname p))"

lemma dirname_join [simp]: "slash \<notin> set n \<Longrightarrow> dirname (path_join d n) = d"
proof -
  assume "slash \<notin> set n"
  then have "dropWhile (\<lambda>c. c \<noteq> slash) (rev n @ slash # rev d) = slash # rev d"
    by (subst dropWhile_append2) auto
  then show ?thesis by (simp add: dirname_def path_join_def)
qed

lemma basename_join [simp]: "slash \<notin> set n \<Longrightarrow> basename (path_join d n) = n"
proof -
  assume "slash \<notin> set n"
  then have "takeWhile (\<lambda>c. c \<noteq> slash) (rev n @ slash # rev d) = rev n"
    by (subst takeWhile_append2) auto
  then show ?thesis by (simp add: basename_def path_join_def)
qed

section \<open>System calls\<close>

definition syscall :: "osenv \<Rightarrow> (fsys \<Rightarrow> 'a result \<times> fsys) \<Rightarrow> fsys \<Rightarrow> 'a result \<times> fsys" where
  "syscall E f fs =
     (let fs' = fs\<lparr>fs_clock := Suc (fs_clock fs)\<rparr> in
      case os_fault E (fs_clock fs) of
        Some n \<Rightarrow> (Inl (ErrIO n), fs')
      | None \<Rightarrow> f fs')"

definition file_info :: "osenv \<Rightarrow> fsys \<Rightarrow> nat \<Rightarrow> FileInfo" where
  "file_info E fs i =
     \<lparr>fi_Size = int (length (i_data (fs_inode fs i))),
      fi_Blocks = os_blocks E (fs_clock fs) (i_data (fs_inode fs i)),
      fi_ModTime = i_mtime (fs_inode fs i)\<rparr>"

definition os_Stat :: "osenv \<Rightarrow> string \<Rightarrow> fsys \<Rightarrow> FileInfo result \<times> fsys" where
  "os_Stat E p = syscall E (\<lambda>fs.
     case lookup fs p of None \<Rightarrow> (Inl ErrNotExist, fs) | Some i \<Rightarrow> (Inr (file_info E fs i), fs))"

definition os_Open :: "osenv \<Rightarrow> string \<Rightarrow> fsys \<Rightarrow> File result \<times> fsys" where
  "os_Open E p = syscall E (\<lambda>fs.
     case lookup fs p of None \<Rightarrow> (Inl ErrNotExist, fs) | Some i \<Rightarrow> (Inr \<lparr>f_name = p, f_ino = i\<rparr>, fs))"

definition os_Fstat :: "osenv \<Rightarrow> File \<Rightarrow> fsys \<Rightarrow> FileInfo result \<times> fsys" where
  "os_Fstat E f = syscall E (\<lambda>fs. (Inr (file_info E fs (f_ino f)), fs))"

definition os_Close :: "osenv \<Rightarrow> File \<Rightarrow> fsys \<Rightarrow> unit result \<times> fsys" where
  "os_Close E f = syscall E (\<lambda>fs. (Inr (), fs))"

text \<open>\<^verbatim>\<open>os.OpenFile(name, O_WRONLY|O_CREATE|O_EXCL, perm)\<close>.\<close>

definition os_Create :: "osenv \<Rightarrow> string \<Rightarrow> fsys \<Rightarrow> File result \<times> fsys" where
  "os_Create E p = syscall E (\<lambda>fs.
     if dirname p \<notin> set (fs_dirs fs) then (Inl ErrNotExist, fs)
     else if lookup fs p \<noteq> None \<or> p \<in> set (fs_dirs fs) then (Inl ErrExist, fs)
     else (Inr \<lparr>f_name = p, f_ino = fs_next fs\<rparr>,
           fs\<lparr>fs_names := (p, fs_next fs) # fs_names fs,
              fs_inode := (fs_inode fs)(fs_next fs := \<lparr>i_data = [], i_mtime = os_now E (fs_clock fs)\<rparr>),
              fs_next := Suc (fs_next fs)\<rparr>))"

text \<open>Appends to an open file; a failing write has written a prefix.\<close>

definition os_Write :: "osenv \<Rightarrow> File \<Rightarrow> bytes \<Rightarrow> fsys \<Rightarrow> unit result \<times> fsys" where
  "os_Write E f data fs =
     (let put = (\<lambda>d fs. fs\<lparr>fs_inode := (fs_inode fs)(f_ino f :=
                  \<lparr>i_data = i_data (fs_inode fs (f_ino f)) @ d, i_mtime = os_now E (fs_clock fs)\<rparr>)\<rparr>);
          fs' = fs\<lparr>fs_clock := Suc (fs_clock fs)\<rparr> in
      case os_fault E (fs_clock fs) of
        Some n \<Rightarrow> (Inl (ErrIO n), put (take n data) fs')
      | None \<Rightarrow> (Inr (), put data fs'))"

definition os_Link :: "osenv \<Rightarrow> string \<Rightarrow> string \<Rightarrow> fsys \<Rightarrow> unit result \<times> fsys" where
  "os_Link E old new = syscall E (\<lambda>fs.
     case lookup fs old of
       None \<Rightarrow> (Inl ErrNotExist, fs)
     | Some i \<Rightarrow>
         (if dirname new \<notin> set (fs_dirs fs) then (Inl ErrNotExist, fs)
          else if lookup fs new \<noteq> None \<or> new \<in> set (fs_dirs fs) then (Inl ErrExist, fs)
          else if os_dev E old \<noteq> os_dev E new then (Inl ErrXDev, fs)
          else (Inr (), fs\<lparr>fs_names := (new, i) # fs_names fs\<rparr>)))"

definition os_Remove :: "osenv \<Rightarrow> string \<Rightarrow> fsys \<Rightarrow> unit result \<times> fsys" where
  "os_Remove E p = syscall E (\<lambda>fs.
     case lookup fs p of
       None \<Rightarrow> (Inl ErrNotExist, fs)
     | Some _ \<Rightarrow> (Inr (), fs\<lparr>fs_names := filter (\<lambda>x. fst x \<noteq> p) (fs_names fs)\<rparr>))"

definition os_MkdirAll :: "osenv \<Rightarrow> string \<Rightarrow> fsys \<Rightarrow> unit result \<times> fsys" where
  "os_MkdirAll E d = syscall E (\<lambda>fs.
     (Inr (), fs\<lparr>fs_dirs := filter (\<lambda>x. x \<notin> set (fs_dirs fs)) (ancestors (length d) d) @ fs_dirs fs\<rparr>))"

text \<open>\<^verbatim>\<open>os.ReadDir\<close>: the entries sorted by name, each with whether it is a directory.\<close>

definition os_ReadDir :: "osenv \<Rightarrow> string \<Rightarrow> fsys \<Rightarrow> (string \<times> bool) list result \<times> fsys" where
  "os_ReadDir E d = syscall E (\<lambda>fs.
     if d \<notin> set (fs_dirs fs) then (Inl ErrNotExist, fs)
     else (Inr (sort_key fst
             (map (\<lambda>p. (basename p, False)) (filter (\<lambda>p. dirname p = d) (remdups (map fst (fs_names fs))))
              @ map (\<lambda>p. (basename p, True)) (filter (\<lambda>p. dirname p = d \<and> p \<noteq> []) (remdups (fs_dirs fs))))), fs))"

section \<open>What the calls do\<close>

definition fs_wf :: "fsys \<Rightarrow> bool" where
  "fs_wf fs \<longleftrightarrow> (\<forall>p i. lookup fs p = Some i \<longrightarrow> i < fs_next fs)"

text \<open>
  \<open>keeps fs fs'\<close>: every name of \<open>fs\<close> is still there, with the same content and times, and no inode
  was reused.
\<close>

definition keeps :: "fsys \<Rightarrow> fsys \<Rightarrow> bool" where
  "keeps fs fs' \<longleftrightarrow>
     (\<forall>p i. lookup fs p = Some i \<longrightarrow> lookup fs' p = Some i)
     \<and> (\<forall>i < fs_next fs. fs_inode fs' i = fs_inode fs i) \<and> fs_next fs \<le> fs_next fs'
     \<and> set (fs_dirs fs) \<subseteq> set (fs_dirs fs')"

lemma keeps_refl [simp]: "keeps fs fs"
  by (simp add: keeps_def)

lemma keeps_trans: "keeps a b \<Longrightarrow> keeps b c \<Longrightarrow> keeps a c"
  unfolding keeps_def by (metis order_trans order_less_le_trans)

lemma keeps_content: "keeps fs fs' \<Longrightarrow> fs_wf fs \<Longrightarrow> content fs p = Some d \<Longrightarrow> content fs' p = Some d"
  by (auto simp: keeps_def fs_wf_def content_def)

text \<open>The calls that only look.\<close>

definition same_files :: "fsys \<Rightarrow> fsys \<Rightarrow> bool" where
  "same_files fs fs' \<longleftrightarrow> fs_names fs' = fs_names fs \<and> fs_inode fs' = fs_inode fs \<and> fs_next fs' = fs_next fs
     \<and> fs_dirs fs' = fs_dirs fs"

lemma same_files_refl [simp]: "same_files fs fs"
  by (simp add: same_files_def)

lemma same_files_trans: "same_files a b \<Longrightarrow> same_files b c \<Longrightarrow> same_files a c"
  by (simp add: same_files_def)

lemma same_files_lookup: "same_files fs fs' \<Longrightarrow> lookup fs' = lookup fs"
  by (simp add: same_files_def lookup_def)

lemma same_files_content: "same_files fs fs' \<Longrightarrow> content fs' = content fs"
  by (auto simp: same_files_def lookup_def content_def fun_eq_iff)

lemma same_files_keeps: "same_files fs fs' \<Longrightarrow> keeps fs fs'"
  by (auto simp: same_files_def keeps_def lookup_def)

lemma same_files_wf: "same_files fs fs' \<Longrightarrow> fs_wf fs \<Longrightarrow> fs_wf fs'"
  by (simp add: same_files_def fs_wf_def lookup_def)

lemma os_Stat_cases:
  "os_Stat E p fs = (r, fs') \<Longrightarrow> same_files fs fs' \<and>
     ((\<exists>n. r = Inl (ErrIO n)) \<or> r = Inl ErrNotExist \<and> lookup fs p = None
      \<or> (\<exists>i fi. r = Inr fi \<and> lookup fs p = Some i \<and> fi_Size fi = int (length (i_data (fs_inode fs i)))
           \<and> fi_ModTime fi = i_mtime (fs_inode fs i)))"
  by (auto simp: os_Stat_def syscall_def Let_def same_files_def lookup_def file_info_def split: option.splits)

lemma os_Open_cases:
  "os_Open E p fs = (r, fs') \<Longrightarrow> same_files fs fs' \<and>
     ((\<exists>n. r = Inl (ErrIO n)) \<or> r = Inl ErrNotExist \<and> lookup fs p = None
      \<or> (\<exists>i. r = Inr \<lparr>f_name = p, f_ino = i\<rparr> \<and> lookup fs p = Some i))"
  by (auto simp: os_Open_def syscall_def Let_def same_files_def lookup_def split: option.splits)

lemma os_Fstat_cases:
  "os_Fstat E f fs = (r, fs') \<Longrightarrow> same_files fs fs' \<and>
     ((\<exists>n. r = Inl (ErrIO n)) \<or> (\<exists>fi. r = Inr fi \<and> fi_Size fi = int (length (i_data (fs_inode fs (f_ino f))))))"
  by (auto simp: os_Fstat_def syscall_def Let_def same_files_def file_info_def split: option.splits)

lemma os_Close_same: "os_Close E f fs = (r, fs') \<Longrightarrow> same_files fs fs'"
  by (auto simp: os_Close_def syscall_def Let_def same_files_def split: option.splits)

lemma os_Create_cases:
  "os_Create E p fs = (r, fs') \<Longrightarrow> keeps fs fs' \<and> (fs_wf fs \<longrightarrow> fs_wf fs') \<and>
     (case r of
        Inl e \<Rightarrow> same_files fs fs' \<and> (e = ErrNotExist \<longrightarrow> dirname p \<notin> set (fs_dirs fs))
      | Inr f \<Rightarrow> f = \<lparr>f_name = p, f_ino = fs_next fs\<rparr> \<and> lookup fs p = None
                 \<and> lookup fs' = (lookup fs)(p \<mapsto> f_ino f) \<and> i_data (fs_inode fs' (f_ino f)) = []
                 \<and> fs_next fs' = Suc (fs_next fs) \<and> fs_dirs fs' = fs_dirs fs)"
  by (auto simp: os_Create_def syscall_def Let_def keeps_def same_files_def lookup_def fs_wf_def less_Suc_eq
      split: option.splits if_splits)

lemma os_Write_cases:
  "os_Write E f data fs = (r, fs') \<Longrightarrow>
     lookup fs' = lookup fs \<and> fs_next fs' = fs_next fs \<and> fs_dirs fs' = fs_dirs fs
     \<and> (\<forall>i. i \<noteq> f_ino f \<longrightarrow> fs_inode fs' i = fs_inode fs i)
     \<and> (\<forall>u. r = Inr u \<longrightarrow> i_data (fs_inode fs' (f_ino f)) = i_data (fs_inode fs (f_ino f)) @ data)"
  by (auto simp: os_Write_def Let_def lookup_def split: option.splits)

lemma os_Link_cases:
  "os_Link E old new fs = (r, fs') \<Longrightarrow> keeps fs fs' \<and> (fs_wf fs \<longrightarrow> fs_wf fs') \<and>
     (case r of
        Inl e \<Rightarrow> same_files fs fs' \<and> (e = ErrExist \<longrightarrow> lookup fs new \<noteq> None \<or> new \<in> set (fs_dirs fs))
      | Inr u \<Rightarrow> (\<exists>i. lookup fs old = Some i \<and> lookup fs new = None \<and> lookup fs' = (lookup fs)(new \<mapsto> i))
                 \<and> fs_inode fs' = fs_inode fs \<and> fs_next fs' = fs_next fs \<and> fs_dirs fs' = fs_dirs fs)"
  by (auto simp: os_Link_def syscall_def Let_def keeps_def same_files_def lookup_def fs_wf_def
      split: option.splits if_splits)

lemma map_of_filter_ne: "map_of (filter (\<lambda>x. fst x \<noteq> p) xs) = (map_of xs)(p := None)"
  by (induction xs) (auto simp: fun_eq_iff)

lemma os_Remove_cases:
  "os_Remove E p fs = (r, fs') \<Longrightarrow>
     fs_inode fs' = fs_inode fs \<and> fs_next fs' = fs_next fs \<and> fs_dirs fs' = fs_dirs fs \<and> (fs_wf fs \<longrightarrow> fs_wf fs') \<and>
     (case r of
        Inl e \<Rightarrow> same_files fs fs' \<and> (e = ErrNotExist \<longrightarrow> lookup fs p = None)
      | Inr u \<Rightarrow> lookup fs p \<noteq> None \<and> lookup fs' = (lookup fs)(p := None))"
  by (auto simp: os_Remove_def syscall_def Let_def same_files_def lookup_def map_of_filter_ne fs_wf_def
      split: option.splits if_splits)

lemma length_dirname: "length (dirname p) \<le> length p - 1"
proof -
  have "length (dropWhile (\<lambda>c. c \<noteq> slash) (rev p)) \<le> length p" by (metis length_dropWhile_le length_rev)
  then show ?thesis by (simp add: dirname_def)
qed

lemma ancestors_length: "x \<in> set (ancestors n p) \<Longrightarrow> length x \<le> length p"
proof (induction n arbitrary: p)
  case (Suc n)
  then show ?case using length_dirname [of p] by (fastforce split: if_splits)
qed simp

lemma self_ancestor: "d \<noteq> [] \<Longrightarrow> d \<in> set (ancestors (length d) d)"
  by (cases d) auto

lemma os_MkdirAll_cases:
  "os_MkdirAll E d fs = (r, fs') \<Longrightarrow>
     keeps fs fs' \<and> (fs_wf fs \<longrightarrow> fs_wf fs') \<and> lookup fs' = lookup fs \<and> fs_inode fs' = fs_inode fs \<and> fs_next fs' = fs_next fs
     \<and> (\<forall>u. r = Inr u \<longrightarrow> d \<noteq> [] \<longrightarrow> d \<in> set (fs_dirs fs'))
     \<and> (\<forall>x\<in>set (fs_dirs fs'). x \<in> set (fs_dirs fs) \<or> length x \<le> length d)"
  using self_ancestor [of d]
  by (auto simp: os_MkdirAll_def syscall_def Let_def keeps_def lookup_def fs_wf_def split: option.splits
      dest: ancestors_length)

end
