(* ===== verification/Blob.thy ===== *)
theory Blob
  imports Os
begin

text \<open>
  Package \<^verbatim>\<open>internal/blob\<close>: the content-addressed body store, as it calls the operating system. A
  body is written to a temporary name beside its final one and published with \<^verbatim>\<open>link(2)\<close>, which
  never replaces a name. A request body is its bytes and the error, if any, its reader ends with.
\<close>

section \<open>Names\<close>

definition outputDir :: string where "outputDir = ''output''"
definition stagingDir :: string where "stagingDir = ''staging''"
definition tempMarker :: string where "tempMarker = ''.tmp.''"
definition tempAttempts :: nat where "tempAttempts = 8"

text \<open>\<^verbatim>\<open>Store.root\<close> is the first argument of the operations.\<close>

definition Store_Path :: "string \<Rightarrow> OutputID \<Rightarrow> string" where
  "Store_Path root v =
     (let h = id_String v in path_join (path_join (path_join root outputDir) (take 2 h)) h)"

text \<open>\<^verbatim>\<open>strings.Contains\<close>.\<close>

fun contains :: "string \<Rightarrow> string \<Rightarrow> bool" where
  "contains [] sub \<longleftrightarrow> sub = []"
| "contains (c # s) sub \<longleftrightarrow> take (length sub) (c # s) = sub \<or> contains s sub"

definition isTempName :: "string \<Rightarrow> bool" where
  "isTempName name = contains name tempMarker"

section \<open>Disk consumption (usage_unix.go, measure.go)\<close>

definition blockSize :: int where "blockSize = 512"
definition allocationSettleWindow :: int where "allocationSettleWindow = 10 * 1000000000"

definition diskBytes :: "FileInfo \<Rightarrow> int" where
  "diskBytes fi =
     (case fi_Blocks fi of
        None \<Rightarrow> fi_Size fi
      | Some b \<Rightarrow>
          (let allocated = wrap64 (b * blockSize) in
           if allocated > fi_Size fi then allocated else fi_Size fi))"

definition settledBytes :: "FileInfo \<Rightarrow> int \<Rightarrow> int \<times> bool" where
  "settledBytes fi now =
     (case fi_Blocks fi of
        None \<Rightarrow> (fi_Size fi, False)
      | Some b \<Rightarrow>
          (if now - fi_ModTime fi < allocationSettleWindow then (diskBytes fi, False)
           else
             (let allocated = wrap64 (b * blockSize) in
              if allocated \<le> 0 \<and> fi_Size fi > 0 then (fi_Size fi, False) else (allocated, True))))"

definition Store_Measure :: "osenv \<Rightarrow> string \<Rightarrow> OutputID \<Rightarrow> int \<Rightarrow> fsys \<Rightarrow> (int \<times> bool) result \<times> fsys" where
  "Store_Measure E root v now fs =
     (case os_Stat E (Store_Path root v) fs of
        (Inl e, fs) \<Rightarrow> (Inl e, fs)
      | (Inr fi, fs) \<Rightarrow> (Inr (settledBytes fi now), fs))"

section \<open>Temporaries\<close>

fun createTempLoop :: "nat \<Rightarrow> osenv \<Rightarrow> string \<Rightarrow> fsys \<Rightarrow> File result \<times> fsys" where
  "createTempLoop 0 E path fs = (Inl (ErrIO 0), fs)"
| "createTempLoop (Suc n) E path fs =
     (let name = path @ tempMarker @ hex_encode (take 4 (os_rand E (fs_clock fs))) in
      case os_Create E name fs of
        (Inr f, fs) \<Rightarrow> (Inr f, fs)
      | (Inl e, fs) \<Rightarrow> (if e \<noteq> ErrExist then (Inl e, fs) else createTempLoop n E path fs))"

definition createTemp :: "osenv \<Rightarrow> string \<Rightarrow> fsys \<Rightarrow> File result \<times> fsys" where
  "createTemp E path fs = createTempLoop tempAttempts E path fs"

definition createTempIn :: "osenv \<Rightarrow> string \<Rightarrow> fsys \<Rightarrow> File result \<times> fsys" where
  "createTempIn E path fs =
     (case createTemp E path fs of
        (Inr f, fs) \<Rightarrow> (Inr f, fs)
      | (Inl e, fs) \<Rightarrow>
          (if e \<noteq> ErrNotExist then (Inl e, fs)
           else case os_MkdirAll E (dirname path) fs of
             (Inl e, fs) \<Rightarrow> (Inl e, fs)
           | (Inr _, fs) \<Rightarrow> createTemp E path fs))"

section \<open>Operations\<close>

text \<open>The steps of \<^verbatim>\<open>Put\<close> between the creation of the temporary and its deferred removal.\<close>

definition putTemp ::
  "osenv \<Rightarrow> string \<Rightarrow> File \<Rightarrow> bytes \<times> error option \<Rightarrow> int \<Rightarrow> fsys \<Rightarrow> (string \<times> int) result \<times> fsys" where
  "putTemp E path tmp body sz fs =
     (let (wr, fs) = os_Write E tmp (fst body) fs;
          copyErr = (case wr of Inl e \<Rightarrow> Some e | Inr _ \<Rightarrow> snd body);
          written = int (length (fst body));
          (st, fs) = os_Fstat E tmp fs;
          (cl, fs) = os_Close E tmp fs in
      case copyErr of
        Some e \<Rightarrow> (Inl e, fs)
      | None \<Rightarrow>
          (case st of
             Inl e \<Rightarrow> (Inl e, fs)
           | Inr fi \<Rightarrow>
               (case cl of
                  Inl e \<Rightarrow> (Inl e, fs)
                | Inr _ \<Rightarrow>
                    (if written \<noteq> sz then (Inl (ErrShortBody written sz), fs)
                     else case os_Link E (f_name tmp) path fs of
                       (Inl e, fs) \<Rightarrow>
                         (if e = ErrExist then (Inr (path, diskBytes fi), fs) else (Inl e, fs))
                     | (Inr _, fs) \<Rightarrow> (Inr (path, diskBytes fi), fs)))))"

definition Store_Put ::
  "osenv \<Rightarrow> string \<Rightarrow> OutputID \<Rightarrow> bytes \<times> error option \<Rightarrow> int \<Rightarrow> fsys \<Rightarrow> (string \<times> int) result \<times> fsys" where
  "Store_Put E root v body sz fs =
     (if sz < 0 then (Inl (ErrNegative ''size'' sz), fs)
      else
        (let path = Store_Path root v in
         case createTempIn E path fs of
           (Inl e, fs) \<Rightarrow> (Inl e, fs)
         | (Inr tmp, fs) \<Rightarrow>
             (let (r, fs) = putTemp E path tmp body sz fs;
                  (_, fs) = os_Remove E (f_name tmp) fs in
              (r, fs))))"

definition Store_Get :: "osenv \<Rightarrow> string \<Rightarrow> OutputID \<Rightarrow> fsys \<Rightarrow> (string \<times> int) result \<times> fsys" where
  "Store_Get E root v fs =
     (let path = Store_Path root v in
      case os_Stat E path fs of
        (Inl e, fs) \<Rightarrow> (Inl e, fs)
      | (Inr fi, fs) \<Rightarrow> (Inr (path, diskBytes fi), fs))"

definition Store_Open :: "osenv \<Rightarrow> string \<Rightarrow> OutputID \<Rightarrow> fsys \<Rightarrow> (File \<times> int) result \<times> fsys" where
  "Store_Open E root v fs =
     (case os_Open E (Store_Path root v) fs of
        (Inl e, fs) \<Rightarrow> (Inl e, fs)
      | (Inr f, fs) \<Rightarrow>
          (case os_Fstat E f fs of
             (Inl e, fs) \<Rightarrow> (let (_, fs) = os_Close E f fs in (Inl e, fs))
           | (Inr fi, fs) \<Rightarrow> (Inr (f, fi_Size fi), fs)))"

definition Store_Remove :: "osenv \<Rightarrow> string \<Rightarrow> OutputID \<Rightarrow> fsys \<Rightarrow> error option \<times> fsys" where
  "Store_Remove E root v fs =
     (case os_Remove E (Store_Path root v) fs of
        (Inl e, fs) \<Rightarrow> (if e \<noteq> ErrNotExist then Some e else None, fs)
      | (Inr _, fs) \<Rightarrow> (None, fs))"

definition Store_Stage :: "osenv \<Rightarrow> string \<Rightarrow> fsys \<Rightarrow> File result \<times> fsys" where
  "Store_Stage E root fs = createTempIn E (path_join (path_join root stagingDir) ''body'') fs"

fun sweepEntries ::
  "osenv \<Rightarrow> string \<Rightarrow> (string \<Rightarrow> bool) \<Rightarrow> (string \<times> bool) list \<Rightarrow> nat \<Rightarrow> error option \<Rightarrow> fsys
     \<Rightarrow> nat \<times> error option \<times> fsys" where
  "sweepEntries E dir match [] removed err fs = (removed, err, fs)"
| "sweepEntries E dir match ((name, isDir) # es) removed err fs =
     (if isDir \<or> \<not> match name then sweepEntries E dir match es removed err fs
      else case os_Remove E (path_join dir name) fs of
        (Inl e, fs) \<Rightarrow>
          (if e \<noteq> ErrNotExist then sweepEntries E dir match es removed (Some e) fs
           else sweepEntries E dir match es (removed + 1) err fs)
      | (Inr _, fs) \<Rightarrow> sweepEntries E dir match es (removed + 1) err fs)"

definition sweepDir :: "osenv \<Rightarrow> string \<Rightarrow> (string \<Rightarrow> bool) \<Rightarrow> fsys \<Rightarrow> nat \<times> error option \<times> fsys" where
  "sweepDir E dir match fs =
     (case os_ReadDir E dir fs of
        (Inl e, fs) \<Rightarrow> (0, if e = ErrNotExist then None else Some e, fs)
      | (Inr es, fs) \<Rightarrow> sweepEntries E dir match es 0 None fs)"

fun sweepShards ::
  "osenv \<Rightarrow> string \<Rightarrow> (string \<times> bool) list \<Rightarrow> nat \<Rightarrow> error option \<Rightarrow> fsys \<Rightarrow> nat \<times> error option \<times> fsys" where
  "sweepShards E outRoot [] removed err fs = (removed, err, fs)"
| "sweepShards E outRoot ((name, isDir) # es) removed err fs =
     (if \<not> isDir then sweepShards E outRoot es removed err fs
      else (case sweepDir E (path_join outRoot name) isTempName fs of
              (n, serr, fs) \<Rightarrow>
                sweepShards E outRoot es (removed + n) (case serr of None \<Rightarrow> err | Some e \<Rightarrow> Some e) fs))"

definition CleanTemp :: "osenv \<Rightarrow> string \<Rightarrow> fsys \<Rightarrow> nat \<times> error option \<times> fsys" where
  "CleanTemp E root fs =
     (case sweepDir E (path_join root stagingDir) (\<lambda>_. True) fs of
        (n, serr, fs) \<Rightarrow>
          (let outRoot = path_join root outputDir in
           case os_ReadDir E outRoot fs of
             (Inl e, fs) \<Rightarrow> (n, if e = ErrNotExist then serr else Some e, fs)
           | (Inr shards, fs) \<Rightarrow> sweepShards E outRoot shards n serr fs))"

text \<open>\<^verbatim>\<open>Adopt\<close>: the result carries \<^verbatim>\<open>linked\<close>.\<close>

definition linkIn :: "osenv \<Rightarrow> string \<Rightarrow> string \<Rightarrow> fsys \<Rightarrow> unit result \<times> fsys" where
  "linkIn E srcPath path fs =
     (case os_Link E srcPath path fs of
        (Inr u, fs) \<Rightarrow> (Inr u, fs)
      | (Inl e, fs) \<Rightarrow>
          (if e \<noteq> ErrNotExist then (Inl e, fs)
           else case os_MkdirAll E (dirname path) fs of
             (Inl e, fs) \<Rightarrow> (Inl e, fs)
           | (Inr _, fs) \<Rightarrow> os_Link E srcPath path fs))"

definition Store_Adopt ::
  "osenv \<Rightarrow> string \<Rightarrow> OutputID \<Rightarrow> string \<Rightarrow> int \<Rightarrow> fsys \<Rightarrow> (string \<times> int \<times> bool) result \<times> fsys" where
  "Store_Adopt E root v srcPath sz fs =
     (case os_Stat E srcPath fs of
        (Inl e, fs) \<Rightarrow> (Inl e, fs)
      | (Inr src, fs) \<Rightarrow>
          (if fi_Size src \<noteq> sz then (Inl (ErrShortBody (fi_Size src) sz), fs)
           else
             (let path = Store_Path root v in
              case linkIn E srcPath path fs of
                (Inr _, fs) \<Rightarrow> (Inr (path, diskBytes src, True), fs)
              | (Inl e, fs) \<Rightarrow>
                  (if e = ErrExist then
                     (case os_Stat E path fs of
                        (Inl e, fs) \<Rightarrow> (Inl e, fs)
                      | (Inr fi, fs) \<Rightarrow> (Inr (path, diskBytes fi, True), fs))
                   else if e \<noteq> ErrXDev then (Inl e, fs)
                   else case os_Open E srcPath fs of
                     (Inl e, fs) \<Rightarrow> (Inl e, fs)
                   | (Inr f, fs) \<Rightarrow>
                       (case Store_Put E root v (i_data (fs_inode fs (f_ino f)), None) sz fs of
                          (r, fs) \<Rightarrow>
                            (let (_, fs) = os_Close E f fs in
                             (rbind r (\<lambda>(p, db). Inr (p, db, False)), fs)))))))"

definition Store_OpenRoot :: "osenv \<Rightarrow> string \<Rightarrow> fsys \<Rightarrow> string result \<times> fsys" where
  "Store_OpenRoot E root fs =
     (if root = [] then (Inl ErrParse, fs)
      else case os_MkdirAll E (path_join root outputDir) fs of
        (Inl e, fs) \<Rightarrow> (Inl e, fs)
      | (Inr _, fs) \<Rightarrow> (Inr root, fs))"

section \<open>Names of bodies and of temporaries\<close>

lemma not_hex [simp]: "\<not> is_hex slash" "\<not> is_hex (CHR ''.'')"
  by (simp_all add: is_hex_def slash_def)

lemma slash_id [simp]: "slash \<notin> set (id_String v)" "slash \<notin> set (take n (id_String v))"
  by (meson id_String_hex in_set_takeD not_hex(1))+

lemma Store_Path_split: "Store_Path root v = path_join (path_join (path_join root outputDir) (take 2 (id_String v))) (id_String v)"
  by (simp add: Store_Path_def Let_def)

lemma dirname_Path: "dirname (Store_Path root v) = path_join (path_join root outputDir) (take 2 (id_String v))"
  by (simp add: Store_Path_split)

lemma basename_Path: "basename (Store_Path root v) = id_String v"
  by (simp add: Store_Path_split)

lemma Store_Path_inj: "Store_Path root v = Store_Path root u \<longleftrightarrow> v = u"
  by (metis basename_Path id_String_inj)

lemma contains_dot: "contains s (CHR ''.'' # r) \<Longrightarrow> CHR ''.'' \<in> set s"
  by (induction s) auto

lemma body_not_temp: "\<not> isTempName (id_String v)"
  using contains_dot id_String_hex not_hex(2) by (fastforce simp: isTempName_def tempMarker_def)

lemma contains_append: "contains (s @ sub @ t) sub"
  by (induction s) (cases sub; cases t; auto)+

lemma temp_name_ne: "path @ tempMarker @ s \<noteq> path"
  by (simp add: tempMarker_def)

section \<open>Temporaries are fresh\<close>

definition fresh_temp :: "fsys \<Rightarrow> string \<Rightarrow> File \<Rightarrow> fsys \<Rightarrow> bool" where
  "fresh_temp fs path f fs' \<longleftrightarrow>
     (\<exists>s. f_name f = path @ tempMarker @ s) \<and> lookup fs (f_name f) = None
     \<and> lookup fs' = (lookup fs)(f_name f \<mapsto> f_ino f) \<and> f_ino f = fs_next fs
     \<and> i_data (fs_inode fs' (f_ino f)) = [] \<and> fs_next fs' = Suc (fs_next fs)"

definition same_names :: "fsys \<Rightarrow> fsys \<Rightarrow> bool" where
  "same_names fs fs' \<longleftrightarrow> lookup fs' = lookup fs \<and> fs_inode fs' = fs_inode fs \<and> fs_next fs' = fs_next fs"

lemma same_files_names: "same_files fs fs' \<Longrightarrow> same_names fs fs'"
  by (simp add: same_files_def same_names_def lookup_def)

lemma same_names_trans: "same_names a b \<Longrightarrow> same_names b c \<Longrightarrow> same_names a c"
  by (simp add: same_names_def)

lemma fresh_temp_after: "same_names fs0 fs \<Longrightarrow> fresh_temp fs path f fs' \<Longrightarrow> fresh_temp fs0 path f fs'"
  by (auto simp: same_names_def fresh_temp_def)

lemma createTempLoop_ok:
  "createTempLoop n E path fs = (r, fs') \<Longrightarrow> keeps fs fs' \<and> (fs_wf fs \<longrightarrow> fs_wf fs')
     \<and> (case r of Inl e \<Rightarrow> same_files fs fs' | Inr f \<Rightarrow> fresh_temp fs path f fs') \<and> fs_dirs fs' = fs_dirs fs"
proof (induction n arbitrary: fs)
  case (Suc n)
  let ?name = "path @ tempMarker @ hex_encode (take 4 (os_rand E (fs_clock fs)))"
  obtain q fs1 where c: "os_Create E ?name fs = (q, fs1)" by fastforce
  note C = os_Create_cases [OF c]
  show ?case
  proof (cases q)
    case (Inr f)
    then have "r = Inr f" "fs' = fs1" using Suc.prems c by (simp_all add: Let_def)
    then show ?thesis using C Inr by (auto simp: fresh_temp_def)
  next
    case (Inl e)
    then have s: "same_files fs fs1" using C by simp
    show ?thesis
    proof (cases "e = ErrExist")
      case True
      then have "createTempLoop n E path fs1 = (r, fs')" using Suc.prems c Inl by (simp add: Let_def)
      from Suc.IH [OF this] show ?thesis
        using s [unfolded same_files_def] same_files_trans [OF s] same_files_keeps [OF s] keeps_trans same_files_wf [OF s]
          fresh_temp_after [OF same_files_names [OF s]]
        by (auto split: sum.splits)
    next
      case False
      then show ?thesis using Suc.prems c Inl s s [unfolded same_files_def] same_files_keeps [OF s] same_files_wf [OF s]
        by (auto simp: Let_def)
    qed
  qed
qed auto

lemma createTempIn_ok:
  assumes "createTempIn E path fs = (r, fs')"
  shows "keeps fs fs' \<and> (fs_wf fs \<longrightarrow> fs_wf fs')
     \<and> (case r of Inl e \<Rightarrow> same_names fs fs' | Inr f \<Rightarrow> fresh_temp fs path f fs')
     \<and> (\<forall>x\<in>set (fs_dirs fs'). x \<in> set (fs_dirs fs) \<or> length x \<le> length path - 1)"
proof -
  obtain q fs1 where c: "createTemp E path fs = (q, fs1)" by fastforce
  note C = createTempLoop_ok [OF c [unfolded createTemp_def]]
  show ?thesis
  proof (cases "q = Inl ErrNotExist")
    case False
    then have "r = q" "fs' = fs1" using assms c by (auto simp: createTempIn_def split: sum.splits if_splits)
    then show ?thesis using C same_files_names by (auto split: sum.splits)
  next
    case True
    then have s1: "same_names fs fs1" using C same_files_names by simp
    obtain m fs2 where m: "os_MkdirAll E (dirname path) fs1 = (m, fs2)" by fastforce
    note M = os_MkdirAll_cases [OF m]
    then have s2: "same_names fs fs2" using s1 by (simp add: same_names_def)
    have k2: "keeps fs fs2" "fs_wf fs \<longrightarrow> fs_wf fs2" using C M keeps_trans by blast+
    have d2: "\<forall>x\<in>set (fs_dirs fs2). x \<in> set (fs_dirs fs) \<or> length x \<le> length path - 1"
      using C M length_dirname [of path] by fastforce
    show ?thesis
    proof (cases m)
      case (Inl e)
      then show ?thesis using assms c True m s2 k2 d2 by (auto simp: createTempIn_def)
    next
      case (Inr u)
      then have "createTempLoop tempAttempts E path fs2 = (r, fs')"
        using assms c True m by (simp add: createTempIn_def createTemp_def)
      from createTempLoop_ok [OF this] show ?thesis
        using k2 d2 keeps_trans [OF k2(1)] fresh_temp_after [OF s2] same_names_trans [OF s2] same_files_names
        by (auto split: sum.splits)
    qed
  qed
qed

section \<open>Put\<close>

text \<open>
  What \<^verbatim>\<open>Put\<close> may do to the file system \<open>fs\<close>: nothing that was there changes, and the only new name
  besides temporaries is that of the body, which then has exactly the bytes given.
\<close>

definition put_result ::
  "string \<Rightarrow> bytes \<times> error option \<Rightarrow> int \<Rightarrow> fsys \<Rightarrow> (string \<times> int) result \<Rightarrow> fsys \<Rightarrow> bool" where
  "put_result path body sz fs r fs' \<longleftrightarrow>
     keeps fs fs' \<and> fs_wf fs'
     \<and> (\<forall>q. lookup fs' q \<noteq> None \<longrightarrow> lookup fs q \<noteq> None \<or> q = path \<or> (\<exists>s. q = path @ tempMarker @ s))
     \<and> (case r of
          Inl e \<Rightarrow> lookup fs' path = lookup fs path
        | Inr (p, n) \<Rightarrow> p = path \<and> snd body = None \<and> int (length (fst body)) = sz \<and> sz \<le> n \<and> (in64 sz \<longrightarrow> in64 n)
            \<and> (lookup fs path = None \<and> path \<notin> set (fs_dirs fs) \<longrightarrow> content fs' path = Some (fst body)))
     \<and> (\<forall>x\<in>set (fs_dirs fs'). x \<in> set (fs_dirs fs) \<or> length x \<le> length path - 1)"

lemma diskBytes_ge: "fi_Size fi \<le> diskBytes fi"
  by (simp add: diskBytes_def Let_def split: option.splits)

lemma diskBytes_in64: "in64 (fi_Size fi) \<Longrightarrow> in64 (diskBytes fi)"
  by (simp add: diskBytes_def Let_def split: option.splits)

lemma putTemp_dirs: "putTemp E path tmp body sz fs = (r, fs') \<Longrightarrow> fs_dirs fs' = fs_dirs fs"
proof -
  assume *: "putTemp E path tmp body sz fs = (r, fs')"
  obtain wr fs1 st fs2 cl fs3 lk fs4 where w: "os_Write E tmp (fst body) fs = (wr, fs1)"
    and st: "os_Fstat E tmp fs1 = (st, fs2)" and cl: "os_Close E tmp fs2 = (cl, fs3)"
    and lk: "os_Link E (f_name tmp) path fs3 = (lk, fs4)" by (metis surj_pair)
  have "fs_dirs fs3 = fs_dirs fs"
    using os_Write_cases [OF w] os_Fstat_cases [OF st] os_Close_same [OF cl] by (simp add: same_files_def)
  moreover have "fs_dirs fs4 = fs_dirs fs3"
    using os_Link_cases [OF lk] by (auto simp: same_files_def split: sum.splits)
  moreover have "fs' = fs3 \<or> fs' = fs4"
    using * w st cl lk by (auto simp: putTemp_def Let_def split: sum.splits option.splits if_splits)
  ultimately show ?thesis by auto
qed

lemma putTemp_ok:
  assumes "fs_wf fs0" "keeps fs0 fs" "fs_wf fs" "fresh_temp fs0 path tmp fs" "putTemp E path tmp body sz fs = (r, fs')"
  shows "keeps fs0 fs' \<and> fs_wf fs' \<and> lookup fs' (f_name tmp) = Some (f_ino tmp)
    \<and> (\<forall>q. lookup fs' q \<noteq> None \<longrightarrow> lookup fs q \<noteq> None \<or> q = path)
    \<and> (case r of
          Inl e \<Rightarrow> lookup fs' path = lookup fs0 path
        | Inr (p, n) \<Rightarrow> p = path \<and> snd body = None \<and> int (length (fst body)) = sz \<and> sz \<le> n \<and> (in64 sz \<longrightarrow> in64 n)
            \<and> (lookup fs0 path = None \<and> path \<notin> set (fs_dirs fs) \<longrightarrow> content fs' path = Some (fst body)))"
proof -
  have tmp: "lookup fs0 (f_name tmp) = None" "lookup fs = (lookup fs0)(f_name tmp \<mapsto> f_ino tmp)" "f_ino tmp = fs_next fs0"
    "i_data (fs_inode fs (f_ino tmp)) = []" "f_name tmp \<noteq> path"
    using assms(4) temp_name_ne by (auto simp: fresh_temp_def)
  obtain wr fs1 st fs2 cl fs3 where w: "os_Write E tmp (fst body) fs = (wr, fs1)"
    and st: "os_Fstat E tmp fs1 = (st, fs2)" and cl: "os_Close E tmp fs2 = (cl, fs3)" by (metis surj_pair)
  note W = os_Write_cases [OF w] and S = os_Fstat_cases [OF st] and C = os_Close_same [OF cl]
  have s13: "same_files fs1 fs3" using S C same_files_trans by blast
  have k1: "keeps fs0 fs1" using assms(2) W tmp(3) by (auto simp: keeps_def)
  have wf1: "fs_wf fs1" using assms(3) W by (simp add: fs_wf_def)
  have k3: "keeps fs0 fs3" "fs_wf fs3" using keeps_trans [OF k1 same_files_keeps [OF s13]] same_files_wf [OF s13 wf1] by auto
  have l3: "lookup fs3 = lookup fs" using W same_files_lookup [OF s13] by simp
  show ?thesis
  proof (cases "\<exists>fi u. wr = Inr u \<and> snd body = None \<and> st = Inr fi \<and> cl = Inr () \<and> int (length (fst body)) = sz")
    case False
    then have "fs' = fs3" "\<exists>e. r = Inl e"
      using assms(5) w st cl by (auto simp: putTemp_def Let_def split: sum.splits option.splits if_splits)
    then show ?thesis using k3 l3 tmp by auto
  next
    case True
    then obtain fi u where ok: "wr = Inr u" "snd body = None" "st = Inr fi" "cl = Inr ()" "int (length (fst body)) = sz" by blast
    obtain lk fs4 where lk: "os_Link E (f_name tmp) path fs3 = (lk, fs4)" by fastforce
    note L = os_Link_cases [OF lk]
    have fs': "fs' = fs4" "r = (case lk of Inl e \<Rightarrow> if e = ErrExist then Inr (path, diskBytes fi) else Inl e | Inr _ \<Rightarrow> Inr (path, diskBytes fi))"
      using assms(5) w st cl ok lk by (auto simp: putTemp_def Let_def split: sum.splits if_splits)
    have data: "i_data (fs_inode fs1 (f_ino tmp)) = fst body" using W ok(1) tmp(4) by simp
    then have sz: "fi_Size fi = sz" using S ok(3,5) by auto
    then have ge: "sz \<le> diskBytes fi" "in64 sz \<longrightarrow> in64 (diskBytes fi)"
      using diskBytes_ge [of fi] diskBytes_in64 [of fi] by auto
    have k4: "keeps fs0 fs4" "fs_wf fs4" using L k3 keeps_trans by blast+
    show ?thesis
    proof (cases lk)
      case (Inl e)
      then have s: "same_files fs3 fs4" and ex: "e = ErrExist \<Longrightarrow> lookup fs3 path \<noteq> None \<or> path \<in> set (fs_dirs fs3)" using L by auto
      have l4: "lookup fs4 = lookup fs" using same_files_lookup [OF s] l3 by simp
      have d3: "fs_dirs fs3 = fs_dirs fs" using W s13 by (simp add: same_files_def)
      show ?thesis using k4 l4 l3 tmp fs' Inl ok ge ex d3 by auto
    next
      case (Inr v)
      then obtain i where i: "lookup fs3 (f_name tmp) = Some i" "lookup fs4 = (lookup fs3)(path \<mapsto> i)" "fs_inode fs4 = fs_inode fs3"
        using L by auto
      have "i = f_ino tmp" using i(1) l3 tmp(2) by simp
      then have "content fs4 path = Some (fst body)"
        using i data s13 by (simp add: content_def same_files_def)
      then show ?thesis using k4 i l3 tmp fs' Inr ok ge by auto
    qed
  qed
qed

lemma Store_Put_ok:
  assumes "fs_wf fs" "Store_Put E root v body sz fs = (r, fs')"
  shows "put_result (Store_Path root v) body sz fs r fs'"
proof (cases "sz < 0")
  case True
  then show ?thesis using assms by (auto simp: Store_Put_def put_result_def)
next
  case False
  let ?p = "Store_Path root v"
  obtain t fs1 where t: "createTempIn E ?p fs = (t, fs1)" by fastforce
  note T = createTempIn_ok [OF t]
  show ?thesis
  proof (cases t)
    case (Inl e)
    then have "r = Inl e" "fs' = fs1" using assms(2) False t by (auto simp: Store_Put_def)
    then show ?thesis using T Inl assms(1) by (auto simp: put_result_def same_names_def)
  next
    case (Inr tmp)
    then have fresh: "fresh_temp fs ?p tmp fs1" and k1: "keeps fs fs1" "fs_wf fs1" using T assms(1) by auto
    obtain q fs2 rm fs3 where q: "putTemp E ?p tmp body sz fs1 = (q, fs2)" and rm: "os_Remove E (f_name tmp) fs2 = (rm, fs3)"
      by (metis surj_pair)
    then have out: "r = q" "fs' = fs3" using assms(2) False t Inr by (auto simp: Store_Put_def Let_def)
    note P = putTemp_ok [OF assms(1) k1 fresh q] and R = os_Remove_cases [OF rm]
    have name: "f_name tmp \<noteq> ?p" using fresh temp_name_ne by (auto simp: fresh_temp_def)
    have tmp0: "lookup fs (f_name tmp) = None" using fresh by (simp add: fresh_temp_def)
    have l3: "lookup fs3 x = (if x = f_name tmp \<and> rm = Inr () then None else lookup fs2 x)" for x
      using R same_files_lookup by (cases rm) (auto simp: fun_eq_iff)
    have "keeps fs fs3"
      using P R tmp0 l3 unfolding keeps_def by (metis option.distinct(1))
    moreover have "content fs3 ?p = content fs2 ?p"
      using l3 R name by (simp add: content_def)
    moreover have "lookup fs3 ?p = lookup fs2 ?p" using l3 name by simp
    moreover have "\<forall>x. lookup fs3 x \<noteq> None \<longrightarrow> lookup fs x \<noteq> None \<or> x = ?p \<or> (\<exists>s. x = ?p @ tempMarker @ s)"
      using P fresh l3 unfolding fresh_temp_def by (metis fun_upd_other)
    moreover have "fs_dirs fs3 = fs_dirs fs1" using putTemp_dirs [OF q] R by simp
    moreover have "?p \<notin> set (fs_dirs fs1)" if "?p \<notin> set (fs_dirs fs)"
      using T that by (fastforce simp: Store_Path_split path_join_def)
    ultimately show ?thesis using P R T out unfolding put_result_def by (auto split: sum.splits)
  qed
qed

section \<open>Get, Open, Remove\<close>

lemma Store_Get_cases:
  "Store_Get E root v fs = (r, fs') \<Longrightarrow> same_files fs fs' \<and>
     (case r of
        Inl e \<Rightarrow> (\<exists>n. e = ErrIO n) \<or> e = ErrNotExist \<and> lookup fs (Store_Path root v) = None
      | Inr (p, n) \<Rightarrow> p = Store_Path root v \<and> lookup fs p \<noteq> None)"
  using os_Stat_cases [of E "Store_Path root v" fs]
  by (cases "os_Stat E (Store_Path root v) fs") (auto simp: Store_Get_def Let_def split: sum.splits)

lemma Store_Open_cases:
  assumes "Store_Open E root v fs = (r, fs')"
  shows "same_files fs fs' \<and>
     (case r of
        Inl e \<Rightarrow> (\<exists>n. e = ErrIO n) \<or> e = ErrNotExist \<and> lookup fs (Store_Path root v) = None
      | Inr (f, n) \<Rightarrow> f_name f = Store_Path root v \<and> lookup fs (Store_Path root v) = Some (f_ino f)
                     \<and> n = int (length (i_data (fs_inode fs (f_ino f)))))"
proof -
  obtain o1 fs1 where o: "os_Open E (Store_Path root v) fs = (o1, fs1)" by fastforce
  note O = os_Open_cases [OF o]
  show ?thesis
  proof (cases o1)
    case (Inl e)
    then show ?thesis using assms o O by (auto simp: Store_Open_def)
  next
    case (Inr f)
    obtain st fs2 where st: "os_Fstat E f fs1 = (st, fs2)" by fastforce
    note S = os_Fstat_cases [OF st]
    have s2: "same_files fs fs2" using O S same_files_trans by blast
    show ?thesis
    proof (cases st)
      case (Inl e)
      obtain c fs3 where cl: "os_Close E f fs2 = (c, fs3)" by fastforce
      have "same_files fs fs3" using s2 os_Close_same [OF cl] same_files_trans by blast
      then show ?thesis using assms o Inr st Inl cl S by (auto simp: Store_Open_def)
    next
      case (Inr fi)
      have "fs_inode fs1 = fs_inode fs" using O by (simp add: same_files_def)
      then show ?thesis using assms o \<open>o1 = Inr f\<close> st Inr S O s2 by (auto simp: Store_Open_def)
    qed
  qed
qed

lemma Store_Remove_cases:
  assumes "Store_Remove E root v fs = (r, fs')"
  shows "fs_inode fs' = fs_inode fs \<and> fs_next fs' = fs_next fs \<and> fs_dirs fs' = fs_dirs fs \<and> (fs_wf fs \<longrightarrow> fs_wf fs')
     \<and> (case r of
          None \<Rightarrow> lookup fs' = (lookup fs)(Store_Path root v := None)
        | Some e \<Rightarrow> same_files fs fs' \<and> e \<noteq> ErrNotExist)"
proof -
  obtain q fs1 where q: "os_Remove E (Store_Path root v) fs = (q, fs1)" by fastforce
  note Q = os_Remove_cases [OF q]
  have fs': "fs' = fs1" using assms q by (auto simp: Store_Remove_def split: sum.splits)
  show ?thesis
  proof (cases q)
    case (Inl e)
    then have s: "same_files fs fs1" and ne: "e = ErrNotExist \<Longrightarrow> lookup fs (Store_Path root v) = None" using Q by auto
    have "r = (if e \<noteq> ErrNotExist then Some e else None)" using assms q Inl by (simp add: Store_Remove_def)
    then show ?thesis using Q fs' s ne same_files_lookup [OF s] by (auto simp: fun_upd_idem)
  next
    case (Inr u)
    then show ?thesis using assms q Q fs' by (auto simp: Store_Remove_def)
  qed
qed

section \<open>Adopt\<close>

lemma linkIn_ok:
  assumes "linkIn E src path fs = (r, fs')"
  shows "keeps fs fs' \<and> (fs_wf fs \<longrightarrow> fs_wf fs') \<and> fs_inode fs' = fs_inode fs \<and> fs_next fs' = fs_next fs
    \<and> (\<forall>x\<in>set (fs_dirs fs'). x \<in> set (fs_dirs fs) \<or> length x \<le> length path - 1)
    \<and> (case r of
         Inl e \<Rightarrow> lookup fs' = lookup fs \<and> (e = ErrExist \<longrightarrow> lookup fs path \<noteq> None \<or> path \<in> set (fs_dirs fs'))
       | Inr u \<Rightarrow> (\<exists>i. lookup fs src = Some i \<and> lookup fs path = None \<and> lookup fs' = (lookup fs)(path \<mapsto> i)))"
proof -
  obtain q fs1 where l: "os_Link E src path fs = (q, fs1)" by fastforce
  note L = os_Link_cases [OF l]
  show ?thesis
  proof (cases "q = Inl ErrNotExist")
    case False
    then have "r = q" "fs' = fs1" using assms l by (auto simp: linkIn_def split: sum.splits if_splits)
    then show ?thesis using L by (auto simp: same_files_def lookup_def split: sum.splits)
  next
    case True
    then have s: "same_files fs fs1" using L by simp
    obtain m fs2 where m: "os_MkdirAll E (dirname path) fs1 = (m, fs2)" by fastforce
    note M = os_MkdirAll_cases [OF m]
    have d2: "\<forall>x\<in>set (fs_dirs fs2). x \<in> set (fs_dirs fs) \<or> length x \<le> length path - 1"
      using M s length_dirname [of path] by (fastforce simp: same_files_def)
    have s2: "keeps fs fs2" "fs_wf fs \<longrightarrow> fs_wf fs2" "lookup fs2 = lookup fs" "fs_inode fs2 = fs_inode fs" "fs_next fs2 = fs_next fs"
      using M s L keeps_trans same_files_wf [OF s] same_files_lookup [OF s] by (auto simp: same_files_def)
    show ?thesis
    proof (cases m)
      case (Inl e)
      then have "r = Inl e" "fs' = fs2" using assms l True m by (auto simp: linkIn_def)
      moreover have "e \<noteq> ErrExist" using m Inl by (auto simp: os_MkdirAll_def syscall_def Let_def split: option.splits)
      ultimately show ?thesis using s2 d2 by simp
    next
      case (Inr u)
      then have "os_Link E src path fs2 = (r, fs')" using assms l True m by (auto simp: linkIn_def)
      note N = os_Link_cases [OF this]
      show ?thesis using N s2 d2 keeps_trans [OF s2(1)]
        by (auto simp: same_files_def lookup_def split: sum.splits)
    qed
  qed
qed

definition adopt_result ::
  "string \<Rightarrow> string \<Rightarrow> int \<Rightarrow> fsys \<Rightarrow> (string \<times> int \<times> bool) result \<Rightarrow> fsys \<Rightarrow> bool" where
  "adopt_result src path sz fs r fs' \<longleftrightarrow>
     keeps fs fs' \<and> fs_wf fs'
     \<and> (\<forall>x\<in>set (fs_dirs fs'). x \<in> set (fs_dirs fs) \<or> length x \<le> length path - 1)
     \<and> (\<forall>q. lookup fs' q \<noteq> None \<longrightarrow> lookup fs q \<noteq> None \<or> q = path \<or> (\<exists>s. q = path @ tempMarker @ s))
     \<and> (case r of
          Inl e \<Rightarrow> lookup fs' path = lookup fs path
        | Inr (p, n, linked) \<Rightarrow> p = path
            \<and> (in64 sz \<and> (\<forall>d. content fs path = Some d \<longrightarrow> int (length d) < 2 ^ 63) \<longrightarrow> in64 n)
            \<and> (\<exists>d. content fs src = Some d \<and> int (length d) = sz
            \<and> (lookup fs path = None \<and> path \<notin> set (fs_dirs fs) \<longrightarrow> content fs' path = Some d)))"

lemma Store_Adopt_ok:
  assumes "fs_wf fs" "Store_Adopt E root v src sz fs = (r, fs')"
  shows "adopt_result src (Store_Path root v) sz fs r fs'"
proof -
  let ?p = "Store_Path root v"
  obtain st fs1 where st: "os_Stat E src fs = (st, fs1)" by fastforce
  note S = os_Stat_cases [OF st]
  then have s1: "same_files fs fs1" by blast
  note wf1 = same_files_wf [OF s1 assms(1)] and k1 = same_files_keeps [OF s1] and c1 = same_files_content [OF s1]
  show ?thesis
  proof (cases "\<exists>fi. st = Inr fi \<and> fi_Size fi = sz")
    case False
    then have "fs' = fs1" "\<exists>e. r = Inl e"
      using assms(2) st by (auto simp: Store_Adopt_def split: sum.splits if_splits)
    then show ?thesis using k1 wf1 same_files_lookup [OF s1] s1 by (auto simp: adopt_result_def same_files_def)
  next
    case True
    then obtain fi where fi: "st = Inr fi" "fi_Size fi = sz" by blast
    then obtain d where d: "content fs src = Some d" "int (length d) = sz" using S by (auto simp: content_def)
    obtain lk fs2 where lk: "linkIn E src ?p fs1 = (lk, fs2)" by fastforce
    note L = linkIn_ok [OF lk]
    have k2: "keeps fs fs2" "fs_wf fs2" using L k1 wf1 keeps_trans by blast+
    have dirs2: "\<forall>x\<in>set (fs_dirs fs2). x \<in> set (fs_dirs fs) \<or> length x \<le> length ?p - 1"
      using L s1 by (auto simp: same_files_def)
    have dirs: "?p \<notin> set (fs_dirs fs2)" if "?p \<notin> set (fs_dirs fs)"
      using L s1 that by (fastforce simp: same_files_def Store_Path_split path_join_def)
    show ?thesis
    proof (cases lk)
      case (Inr u)
      then have "r = Inr (?p, diskBytes fi, True)" "fs' = fs2"
        using assms(2) st fi lk by (auto simp: Store_Adopt_def Let_def)
      moreover have "content fs2 ?p = Some d"
      proof -
        obtain i where "lookup fs1 src = Some i" "lookup fs2 ?p = Some i" "fs_inode fs2 = fs_inode fs1" using L Inr by auto
        then have "content fs2 ?p = content fs1 src" by (simp add: content_def)
        then show ?thesis using c1 d(1) by simp
      qed
      moreover have "in64 sz \<longrightarrow> in64 (diskBytes fi)" using fi(2) diskBytes_in64 [of fi] by simp
      moreover have "lookup fs2 q = lookup fs q" if "q \<noteq> ?p" for q
        using L Inr that same_files_lookup [OF s1] by auto
      ultimately show ?thesis using k2 d dirs2 by (auto simp: adopt_result_def)
    next
      case (Inl e)
      then have l2: "lookup fs2 = lookup fs" using L same_files_lookup [OF s1] by simp
      consider "e = ErrExist" | "e \<noteq> ErrExist" "e \<noteq> ErrXDev" | "e = ErrXDev" by blast
      then show ?thesis
      proof cases
        case 1
        obtain q fs3 where q: "os_Stat E ?p fs2 = (q, fs3)" by fastforce
        note Q = os_Stat_cases [OF q]
        then have s3: "same_files fs2 fs3" by blast
        have "fs' = fs3" and r: "(\<exists>e. r = Inl e) \<or> (\<exists>fi. q = Inr fi \<and> r = Inr (?p, diskBytes fi, True))"
          using assms(2) st fi lk Inl 1 q by (auto simp: Store_Adopt_def Let_def split: sum.splits)
        moreover have "in64 (diskBytes fi)" if "q = Inr fi" "\<forall>d. content fs ?p = Some d \<longrightarrow> int (length d) < 2 ^ 63" for fi
        proof -
          have "fs_inode fs2 = fs_inode fs" using L s1 by (simp add: same_files_def)
          then have "content fs ?p = content fs2 ?p" using l2 by (simp add: content_def)
          then show ?thesis using Q that by (intro diskBytes_in64) (auto simp: content_def in64_def)
        qed
        moreover have "keeps fs fs3" "fs_wf fs3" "lookup fs3 = lookup fs"
          using keeps_trans [OF k2(1) same_files_keeps [OF s3]] same_files_wf [OF s3 k2(2)] same_files_lookup [OF s3] l2 by auto
        moreover have "lookup fs ?p \<noteq> None \<or> ?p \<in> set (fs_dirs fs)"
          using L Inl 1 same_files_lookup [OF s1] dirs by auto
        moreover have "fs_dirs fs3 = fs_dirs fs2" using s3 by (simp add: same_files_def)
        ultimately show ?thesis using d r dirs2 by (auto simp: adopt_result_def)
      next
        case 2
        then have "fs' = fs2" "r = Inl e" using assms(2) st fi lk Inl by (auto simp: Store_Adopt_def Let_def)
        then show ?thesis using k2 l2 dirs2 by (auto simp: adopt_result_def)
      next
        case 3
        obtain o1 fs3 where o: "os_Open E src fs2 = (o1, fs3)" by fastforce
        note O = os_Open_cases [OF o]
        then have s3: "same_files fs2 fs3" by blast
        then have d3: "fs_dirs fs3 = fs_dirs fs2" by (simp add: same_files_def)
        have k3: "keeps fs fs3" "fs_wf fs3" "lookup fs3 = lookup fs"
          using keeps_trans [OF k2(1) same_files_keeps [OF s3]] same_files_wf [OF s3 k2(2)] same_files_lookup [OF s3] l2 by auto
        show ?thesis
        proof (cases o1)
          case Inl2: (Inl e')
          then have "fs' = fs3" "r = Inl e'" using assms(2) st fi lk Inl 3 o by (auto simp: Store_Adopt_def Let_def)
          then show ?thesis using k3 dirs2 d3 by (auto simp: adopt_result_def)
        next
          case Inr2: (Inr f)
          have fd: "i_data (fs_inode fs3 (f_ino f)) = d"
          proof -
            have "lookup fs src = Some (f_ino f)" using O Inr2 l2 by auto
            moreover have "fs_inode fs3 = fs_inode fs" using L s1 s3 by (simp add: same_files_def)
            ultimately show ?thesis using d(1) by (simp add: content_def)
          qed
          obtain q fs4 c fs5 where q: "Store_Put E root v (i_data (fs_inode fs3 (f_ino f)), None) sz fs3 = (q, fs4)"
            and cl: "os_Close E f fs4 = (c, fs5)" by (metis surj_pair)
          note P = Store_Put_ok [OF k3(2) q [unfolded fd], unfolded put_result_def]
          note s5 = os_Close_same [OF cl]
          have out: "fs' = fs5" "r = rbind q (\<lambda>(p, db). Inr (p, db, False))"
            using assms(2) st fi lk Inl 3 o Inr2 q cl by (auto simp: Store_Adopt_def Let_def)
          have k5: "keeps fs fs5" "fs_wf fs5"
            using P keeps_trans [OF k3(1)] keeps_trans same_files_keeps [OF s5] same_files_wf [OF s5] by blast+
          have dirs5: "\<forall>x\<in>set (fs_dirs fs5). x \<in> set (fs_dirs fs) \<or> length x \<le> length ?p - 1"
            using P dirs2 d3 s5 by (fastforce simp: same_files_def)
          have dirs3: "?p \<notin> set (fs_dirs fs3)" if "?p \<notin> set (fs_dirs fs)" using dirs [OF that] s3 by (simp add: same_files_def)
          show ?thesis
          proof (cases q)
            case (Inl e'')
            then show ?thesis using P out k5 k3(3) dirs5 same_files_lookup [OF s5] by (auto simp: adopt_result_def)
          next
            case (Inr y)
            then show ?thesis
              using P out k5 k3(3) same_files_content [OF s5] same_files_lookup [OF s5] d dirs3 dirs5 by (auto simp: adopt_result_def)
          qed
        qed
      qed
    qed
  qed
qed

end
