(* ===== verification/Blob_Theorems.thy ===== *)
theory Blob_Theorems
  imports Blob
begin

text \<open>
  What the body store promises: a name is published once and with the bytes it promises, nothing
  that is published is ever replaced, a read sees it until it is removed, and the sweep of
  abandoned temporaries removes all of them and no body.
\<close>

section \<open>Sweeping\<close>

lemma path_split: "slash \<in> set p \<Longrightarrow> path_join (dirname p) (basename p) = p"
proof -
  assume "slash \<in> set p"
  then have ne: "dropWhile (\<lambda>c. c \<noteq> slash) (rev p) \<noteq> []" by (auto simp: dropWhile_eq_Nil_conv)
  have "hd (dropWhile (\<lambda>c. c \<noteq> slash) (rev p)) = slash"
    using hd_dropWhile [OF ne] by simp
  then have "dropWhile (\<lambda>c. c \<noteq> slash) (rev p) = slash # drop 1 (dropWhile (\<lambda>c. c \<noteq> slash) (rev p))"
    using ne by (metis One_nat_def drop0 drop_Suc_Cons list.exhaust_sel)
  then have "rev p = takeWhile (\<lambda>c. c \<noteq> slash) (rev p) @ slash # drop 1 (dropWhile (\<lambda>c. c \<noteq> slash) (rev p))"
    by (metis takeWhile_dropWhile_id)
  then have "p = rev (takeWhile (\<lambda>c. c \<noteq> slash) (rev p) @ slash # drop 1 (dropWhile (\<lambda>c. c \<noteq> slash) (rev p)))"
    by (metis rev_rev_ident)
  then show ?thesis by (simp add: path_join_def dirname_def basename_def)
qed

lemma slash_basename [simp]: "slash \<notin> set (basename p)"
  by (auto simp: basename_def dest: set_takeWhileD)

definition swept :: "string \<Rightarrow> (string \<Rightarrow> bool) \<Rightarrow> string \<Rightarrow> bool" where
  "swept dir match q \<longleftrightarrow> (\<exists>name. match name \<and> slash \<notin> set name \<and> q = path_join dir name)"

lemma sweepEntries_ok:
  assumes "sweepEntries E dir match es n err fs = (n', err', fs')" "\<forall>x\<in>set es. slash \<notin> set (fst x)"
  shows "fs_inode fs' = fs_inode fs \<and> fs_next fs' = fs_next fs \<and> fs_dirs fs' = fs_dirs fs \<and> (fs_wf fs \<longrightarrow> fs_wf fs')
    \<and> (\<forall>q. lookup fs' q = lookup fs q \<or> lookup fs' q = None \<and> swept dir match q)
    \<and> (os_fault E = (\<lambda>_. None) \<longrightarrow> err' = err
         \<and> (\<forall>name. (name, False) \<in> set es \<longrightarrow> match name \<longrightarrow> lookup fs' (path_join dir name) = None))"
  using assms
proof (induction es arbitrary: n err fs)
  case Nil
  then show ?case by simp
next
  case (Cons x es)
  obtain name isDir where x: "x = (name, isDir)" by (cases x)
  show ?case
  proof (cases "isDir \<or> \<not> match name")
    case True
    then have "sweepEntries E dir match es n err fs = (n', err', fs')" using Cons.prems(1) x by simp
    from Cons.IH [OF this] Cons.prems(2) True x show ?thesis by auto
  next
    case False
    obtain r fs1 where r: "os_Remove E (path_join dir name) fs = (r, fs1)" by fastforce
    note R = os_Remove_cases [OF r]
    have nf: "\<exists>n. e = ErrIO n \<and> os_fault E \<noteq> (\<lambda>_. None)" if "r = Inl e" "e \<noteq> ErrNotExist" for e
      using r that by (auto simp: os_Remove_def syscall_def Let_def split: option.splits)
    have "\<exists>m e. sweepEntries E dir match es m e fs1 = (n', err', fs') \<and> (os_fault E = (\<lambda>_. None) \<longrightarrow> e = err)"
    proof (cases r)
      case (Inl e)
      then show ?thesis using Cons.prems(1) x False r nf by (cases "e = ErrNotExist") auto
    next
      case (Inr u)
      then show ?thesis using Cons.prems(1) x False r by auto
    qed
    then obtain m e where s: "sweepEntries E dir match es m e fs1 = (n', err', fs')" "os_fault E = (\<lambda>_. None) \<longrightarrow> e = err" by blast
    have l1: "lookup fs1 q = lookup fs q \<or> lookup fs1 q = None \<and> q = path_join dir name" for q
      using R same_files_lookup [of fs fs1] by (cases r) auto
    have gone: "lookup fs1 (path_join dir name) = None" if "os_fault E = (\<lambda>_. None)"
      using r that by (auto simp: os_Remove_def syscall_def Let_def lookup_def map_of_filter_ne split: option.splits)
    have sw: "swept dir match (path_join dir name)" using False Cons.prems(2) x by (auto simp: swept_def)
    from Cons.IH [OF s(1)] Cons.prems(2) have IH: "fs_inode fs' = fs_inode fs1 \<and> fs_next fs' = fs_next fs1 \<and> fs_dirs fs' = fs_dirs fs1
      \<and> (fs_wf fs1 \<longrightarrow> fs_wf fs') \<and> (\<forall>q. lookup fs' q = lookup fs1 q \<or> lookup fs' q = None \<and> swept dir match q)
      \<and> (os_fault E = (\<lambda>_. None) \<longrightarrow> err' = e
         \<and> (\<forall>name. (name, False) \<in> set es \<longrightarrow> match name \<longrightarrow> lookup fs' (path_join dir name) = None))" by simp
    have l': "lookup fs' q = lookup fs q \<or> lookup fs' q = None \<and> swept dir match q" for q
      using IH l1 [of q] sw by metis
    have g': "lookup fs' (path_join dir name) = None" if "os_fault E = (\<lambda>_. None)" using IH gone [OF that] by metis
    show ?thesis using IH l' g' s(2) R x by auto
  qed
qed

lemma ReadDir_ok:
  assumes "os_ReadDir E d fs = (r, fs')"
  shows "same_files fs fs'"
    "\<And>es. r = Inr es \<Longrightarrow> \<forall>x\<in>set es. slash \<notin> set (fst x)"
    "\<And>es q. r = Inr es \<Longrightarrow> lookup fs q \<noteq> None \<Longrightarrow> dirname q = d \<Longrightarrow> (basename q, False) \<in> set es"
    "\<And>es q. r = Inr es \<Longrightarrow> q \<in> set (fs_dirs fs) \<Longrightarrow> dirname q = d \<Longrightarrow> q \<noteq> [] \<Longrightarrow> (basename q, True) \<in> set es"
    "\<And>es n. r = Inr es \<Longrightarrow> (n, True) \<in> set es \<Longrightarrow> \<exists>q\<in>set (fs_dirs fs). dirname q = d \<and> basename q = n \<and> q \<noteq> []"
    "os_fault E = (\<lambda>_. None) \<Longrightarrow> d \<in> set (fs_dirs fs) \<Longrightarrow> \<exists>es. r = Inr es"
    "os_fault E = (\<lambda>_. None) \<Longrightarrow> r = Inl e \<Longrightarrow> e = ErrNotExist \<and> d \<notin> set (fs_dirs fs)"
proof -
  have dom: "lookup fs q \<noteq> None \<longleftrightarrow> q \<in> fst ` set (fs_names fs)" for q
    by (metis lookup_def map_of_eq_None_iff)
  show "same_files fs fs'"
    using assms by (auto simp: os_ReadDir_def syscall_def Let_def same_files_def split: option.splits if_splits)
  fix es
  let ?L = "map (\<lambda>p. (basename p, False)) (filter (\<lambda>p. dirname p = d) (remdups (map fst (fs_names fs))))
              @ map (\<lambda>p. (basename p, True)) (filter (\<lambda>p. dirname p = d \<and> p \<noteq> []) (remdups (fs_dirs fs)))"
  assume "r = Inr es"
  then have "es = sort_key fst ?L"
    using assms by (auto simp: os_ReadDir_def syscall_def Let_def split: option.splits if_splits)
  then have es: "set es = set ?L" by simp
  show "\<forall>x\<in>set es. slash \<notin> set (fst x)" unfolding es by auto
  show "(basename q, False) \<in> set es" if "lookup fs q \<noteq> None" "dirname q = d" for q
  proof -
    have "q \<in> set (filter (\<lambda>p. dirname p = d) (remdups (map fst (fs_names fs))))" using that dom by auto
    then have "(basename q, False) \<in> set (map (\<lambda>p. (basename p, False)) (filter (\<lambda>p. dirname p = d) (remdups (map fst (fs_names fs)))))"
      unfolding set_map by (rule imageI)
    then show ?thesis unfolding es by simp
  qed
  show "(basename q, True) \<in> set es" if "q \<in> set (fs_dirs fs)" "dirname q = d" "q \<noteq> []" for q
    using that unfolding es by force
  show "\<exists>q\<in>set (fs_dirs fs). dirname q = d \<and> basename q = n \<and> q \<noteq> []" if "(n, True) \<in> set es" for n
    using that unfolding es by auto
next
  show "\<exists>es. r = Inr es" if "os_fault E = (\<lambda>_. None)" "d \<in> set (fs_dirs fs)"
    using assms that by (auto simp: os_ReadDir_def syscall_def Let_def)
  show "e = ErrNotExist \<and> d \<notin> set (fs_dirs fs)" if "os_fault E = (\<lambda>_. None)" "r = Inl e"
    using assms that by (auto simp: os_ReadDir_def syscall_def Let_def split: if_splits)
qed

lemma sweepDir_ok:
  assumes "sweepDir E dir match fs = (n, err, fs')"
  shows "fs_inode fs' = fs_inode fs \<and> fs_next fs' = fs_next fs \<and> fs_dirs fs' = fs_dirs fs \<and> (fs_wf fs \<longrightarrow> fs_wf fs')
    \<and> (\<forall>q. lookup fs' q = lookup fs q \<or> lookup fs' q = None \<and> swept dir match q)
    \<and> (os_fault E = (\<lambda>_. None) \<longrightarrow> err = None
         \<and> (\<forall>q. dir \<in> set (fs_dirs fs) \<longrightarrow> dirname q = dir \<longrightarrow> slash \<in> set q \<longrightarrow> match (basename q) \<longrightarrow> lookup fs' q = None))"
proof -
  obtain r fs1 where rd: "os_ReadDir E dir fs = (r, fs1)" by fastforce
  note D = ReadDir_ok [OF rd]
  note l1 = same_files_lookup [OF D(1)]
  show ?thesis
  proof (cases r)
    case (Inl e)
    then have "fs' = fs1" "err = (if e = ErrNotExist then None else Some e)" using assms rd by (auto simp: sweepDir_def)
    then show ?thesis using D(1,6,7) Inl l1 same_files_wf [OF D(1)] by (auto simp: same_files_def)
  next
    case (Inr es)
    then have s: "sweepEntries E dir match es 0 None fs1 = (n, err, fs')" using assms rd by (simp add: sweepDir_def)
    note S = sweepEntries_ok [OF s D(2) [OF Inr]]
    have "lookup fs' q = None"
      if "os_fault E = (\<lambda>_. None)" "dirname q = dir" "slash \<in> set q" "match (basename q)" for q
    proof (cases "lookup fs q")
      case None
      then show ?thesis using S l1 by metis
    next
      case (Some i)
      then have "(basename q, False) \<in> set es" using D(3) [OF Inr, of q] that(2) by simp
      moreover have "path_join dir (basename q) = q" using path_split [OF that(3)] that(2) by simp
      ultimately show ?thesis using S that(1,4) by metis
    qed
    then show ?thesis using S D(1) l1 same_files_wf [OF D(1)] by (auto simp: same_files_def)
  qed
qed

lemma sweepShards_ok:
  assumes "sweepShards E outRoot es n err fs = (n', err', fs')"
  shows "fs_dirs fs' = fs_dirs fs \<and> (fs_wf fs \<longrightarrow> fs_wf fs') \<and> fs_inode fs' = fs_inode fs
    \<and> (\<forall>q. lookup fs' q = lookup fs q \<or> lookup fs' q = None \<and> (\<exists>sh. swept (path_join outRoot sh) isTempName q))
    \<and> (os_fault E = (\<lambda>_. None) \<longrightarrow> err' = err
         \<and> (\<forall>q sh. (sh, True) \<in> set es \<longrightarrow> path_join outRoot sh \<in> set (fs_dirs fs) \<longrightarrow> dirname q = path_join outRoot sh
              \<longrightarrow> slash \<in> set q \<longrightarrow> isTempName (basename q) \<longrightarrow> lookup fs' q = None))"
  using assms
proof (induction es arbitrary: n err fs)
  case Nil
  then show ?case by simp
next
  case (Cons x es)
  obtain name isDir where x: "x = (name, isDir)" by (cases x)
  show ?case
  proof (cases isDir)
    case False
    then have "sweepShards E outRoot es n err fs = (n', err', fs')" using Cons.prems x by simp
    from Cons.IH [OF this] False x show ?thesis by auto
  next
    case True
    obtain k serr fs1 where k: "sweepDir E (path_join outRoot name) isTempName fs = (k, serr, fs1)" by (metis prod_cases3)
    note K = sweepDir_ok [OF k]
    have "sweepShards E outRoot es (n + k) (case serr of None \<Rightarrow> err | Some e \<Rightarrow> Some e) fs1 = (n', err', fs')"
      using Cons.prems x True k by simp
    note IH = Cons.IH [OF this]
    have l': "lookup fs' q = lookup fs q \<or> lookup fs' q = None \<and> (\<exists>sh. swept (path_join outRoot sh) isTempName q)" for q
      using IH K by metis
    show ?thesis using IH K l' x True by (auto split: option.splits) metis+
  qed
qed

section \<open>The store as a map from outputs to bodies\<close>

definition bodies :: "fsys \<Rightarrow> string \<Rightarrow> OutputID \<Rightarrow> bytes option" where
  "bodies fs root v = content fs (Store_Path root v)"

definition store_ok :: "fsys \<Rightarrow> string \<Rightarrow> bool" where
  "store_ok fs root \<longleftrightarrow> fs_wf fs \<and> (\<forall>v. Store_Path root v \<notin> set (fs_dirs fs))"

lemma length_Store_Path: "length (Store_Path root v) = length root + 75"
  by (simp add: Store_Path_split path_join_def outputDir_def)

lemma temp_not_body: "Store_Path root u \<noteq> Store_Path root v @ tempMarker @ s"
  using length_Store_Path [of root u] length_Store_Path [of root v]
  by (metis add_right_cancel length_append append_is_Nil_conv length_0_conv less_irrefl not_less self_append_conv temp_name_ne trans_less_add1
      add_cancel_right_right)

lemma bodies_mono: "keeps fs fs' \<Longrightarrow> store_ok fs root \<Longrightarrow> bodies fs root v = Some d \<Longrightarrow> bodies fs' root v = Some d"
  by (auto simp: bodies_def store_ok_def intro: keeps_content)

lemma bodies_same_files: "same_files fs fs' \<Longrightarrow> bodies fs' root = bodies fs root"
  by (auto simp: bodies_def fun_eq_iff same_files_content)

lemma store_ok_same_files: "same_files fs fs' \<Longrightarrow> store_ok fs root \<Longrightarrow> store_ok fs' root"
  using same_files_wf [of fs fs'] by (auto simp: store_ok_def same_files_def)

lemma bodies_None: "bodies fs root v = None \<longleftrightarrow> lookup fs (Store_Path root v) = None"
  by (simp add: bodies_def content_def)

text \<open>
  \<open>publish v d m\<close>: what putting the body \<open>d\<close> under \<open>v\<close> means; the first writer wins.
\<close>

definition publish :: "OutputID \<Rightarrow> bytes \<Rightarrow> (OutputID \<Rightarrow> bytes option) \<Rightarrow> OutputID \<Rightarrow> bytes option" where
  "publish v d m = (case m v of None \<Rightarrow> m(v \<mapsto> d) | Some _ \<Rightarrow> m)"

lemma Store_Put_bodies:
  assumes "store_ok fs root" "Store_Put E root v body sz fs = (r, fs')"
  shows "store_ok fs' root" "keeps fs fs'"
    "case r of
       Inl e \<Rightarrow> bodies fs' root = bodies fs root
     | Inr (p, n) \<Rightarrow> p = Store_Path root v \<and> snd body = None \<and> int (length (fst body)) = sz \<and> sz \<le> n \<and> (in64 sz \<longrightarrow> in64 n)
         \<and> bodies fs' root = publish v (fst body) (bodies fs root)"
proof -
  have wf: "fs_wf fs" using assms(1) by (simp add: store_ok_def)
  note P = Store_Put_ok [OF wf assms(2), unfolded put_result_def]
  then show k: "keeps fs fs'" by blast
  show "store_ok fs' root"
    using P assms(1) length_Store_Path [of root] by (fastforce simp: store_ok_def)
  have other: "bodies fs' root u = bodies fs root u" if "u \<noteq> v \<or> lookup fs' (Store_Path root v) = lookup fs (Store_Path root v)" for u
  proof (cases "bodies fs root u")
    case None
    then have "lookup fs' (Store_Path root u) = None"
      using P that temp_not_body Store_Path_inj unfolding bodies_None by metis
    then show ?thesis using None by (metis bodies_None)
  next
    case (Some d)
    then show ?thesis using bodies_mono [OF k assms(1)] by simp
  qed
  show "case r of
       Inl e \<Rightarrow> bodies fs' root = bodies fs root
     | Inr (p, n) \<Rightarrow> p = Store_Path root v \<and> snd body = None \<and> int (length (fst body)) = sz \<and> sz \<le> n \<and> (in64 sz \<longrightarrow> in64 n)
         \<and> bodies fs' root = publish v (fst body) (bodies fs root)"
  proof (cases r)
    case (Inl e)
    then show ?thesis using P other by (auto simp: fun_eq_iff)
  next
    case (Inr x)
    obtain p n where x: "x = (p, n)" by (cases x)
    have "bodies fs' root = publish v (fst body) (bodies fs root)"
    proof (cases "bodies fs root v")
      case None
      then have "bodies fs' root v = Some (fst body)"
        using P Inr x assms(1) by (auto simp: bodies_def content_def store_ok_def)
      then show ?thesis using None other by (auto simp: publish_def fun_eq_iff)
    next
      case (Some d)
      then have "bodies fs' root u = bodies fs root u" for u
        using other [of u] bodies_mono [OF k assms(1) Some] by (cases "u = v") auto
      then show ?thesis using Some by (simp add: publish_def fun_eq_iff)
    qed
    then show ?thesis using P Inr x by simp
  qed
qed

lemma Store_Adopt_bodies:
  assumes "store_ok fs root" "Store_Adopt E root v src sz fs = (r, fs')"
  shows "store_ok fs' root" "keeps fs fs'"
    "r = Inr (p, n, linked) \<Longrightarrow> p = Store_Path root v \<and> bodies fs' root v \<noteq> None
       \<and> (in64 sz \<and> (\<forall>d. bodies fs root v = Some d \<longrightarrow> int (length d) < 2 ^ 63) \<longrightarrow> in64 n)
       \<and> (\<exists>d. content fs src = Some d \<and> int (length d) = sz \<and> (bodies fs root v = None \<longrightarrow> bodies fs' root v = Some d))"
proof -
  have wf: "fs_wf fs" "Store_Path root v \<notin> set (fs_dirs fs)" using assms(1) by (auto simp: store_ok_def)
  note A = Store_Adopt_ok [OF wf(1) assms(2), unfolded adopt_result_def]
  then show k: "keeps fs fs'" by blast
  show "store_ok fs' root" using A assms(1) length_Store_Path [of root] by (fastforce simp: store_ok_def)
  assume r: "r = Inr (p, n, linked)"
  have "bodies fs' root v \<noteq> None"
  proof (cases "bodies fs root v")
    case None
    then show ?thesis using A r wf(2) by (auto simp: bodies_def content_def)
  next
    case (Some d)
    then show ?thesis using bodies_mono [OF k assms(1)] by fastforce
  qed
  moreover have "lookup fs (Store_Path root v) = None \<longleftrightarrow> bodies fs root v = None" by (simp add: bodies_None)
  ultimately show "p = Store_Path root v \<and> bodies fs' root v \<noteq> None
       \<and> (in64 sz \<and> (\<forall>d. bodies fs root v = Some d \<longrightarrow> int (length d) < 2 ^ 63) \<longrightarrow> in64 n)
       \<and> (\<exists>d. content fs src = Some d \<and> int (length d) = sz \<and> (bodies fs root v = None \<longrightarrow> bodies fs' root v = Some d))"
    using A r wf(2) unfolding bodies_def by simp
qed

text \<open>No other body changes, and one that could not be adopted does not either.\<close>

lemma Store_Adopt_frame:
  assumes "store_ok fs root" "Store_Adopt E root v src sz fs = (r, fs')"
  shows "u \<noteq> v \<or> (\<exists>e. r = Inl e) \<Longrightarrow> bodies fs' root u = bodies fs root u"
    and "x \<in> set (fs_dirs fs') \<Longrightarrow> x \<in> set (fs_dirs fs) \<or> length x < length root + 75"
proof -
  have wf: "fs_wf fs" using assms(1) by (auto simp: store_ok_def)
  note A = Store_Adopt_ok [OF wf assms(2), unfolded adopt_result_def]
  note k = Store_Adopt_bodies(2) [OF assms]
  show "bodies fs' root u = bodies fs root u" if "u \<noteq> v \<or> (\<exists>e. r = Inl e)"
  proof (cases "bodies fs root u")
    case None
    then have l: "lookup fs (Store_Path root u) = None" by (simp add: bodies_None)
    have frame: "lookup fs' (Store_Path root u) \<noteq> None \<longrightarrow> lookup fs (Store_Path root u) \<noteq> None \<or> u = v"
    proof -
      have "\<forall>q. lookup fs' q \<noteq> None \<longrightarrow> lookup fs q \<noteq> None \<or> q = Store_Path root v \<or> (\<exists>s. q = Store_Path root v @ tempMarker @ s)"
        using A by blast
      then have "lookup fs' (Store_Path root u) \<noteq> None \<longrightarrow>
        lookup fs (Store_Path root u) \<noteq> None \<or> Store_Path root u = Store_Path root v \<or> (\<exists>s. Store_Path root u = Store_Path root v @ tempMarker @ s)"
        by (rule spec)
      then show ?thesis unfolding Store_Path_inj using temp_not_body by blast
    qed
    have "lookup fs' (Store_Path root v) = lookup fs (Store_Path root v)" if "r = Inl e" for e using A that by simp
    then have "lookup fs' (Store_Path root u) = None" using that l frame by (cases "u = v") auto
    then show ?thesis using l by (simp add: bodies_def content_def)
  next
    case (Some d)
    then show ?thesis using bodies_mono [OF k assms(1)] by simp
  qed
  show "x \<in> set (fs_dirs fs) \<or> length x < length root + 75" if "x \<in> set (fs_dirs fs')"
    using A that by (force simp: length_Store_Path)
qed

text \<open>Whatever happens, adopting publishes the source's bytes or nothing.\<close>

lemma link_bodies:
  assumes "lookup fs' = (lookup fs)(Store_Path root v \<mapsto> i)" "lookup fs (Store_Path root v) = None" "fs_inode fs' = fs_inode fs"
  shows "bodies fs' root = publish v (i_data (fs_inode fs i)) (bodies fs root)"
proof
  fix u
  have "Store_Path root u = Store_Path root v \<longleftrightarrow> u = v" using Store_Path_inj by blast
  then show "bodies fs' root u = publish v (i_data (fs_inode fs i)) (bodies fs root) u"
    using assms bodies_None [of fs root v] by (simp add: publish_def bodies_def content_def)
qed

lemma Store_Adopt_publishes:
  assumes "store_ok fs root" "Store_Adopt E root v src sz fs = (r, fs')"
  shows "bodies fs' root = bodies fs root \<or> (\<exists>d. content fs src = Some d \<and> bodies fs' root = publish v d (bodies fs root))"
proof -
  let ?p = "Store_Path root v"
  obtain st fs1 where st: "os_Stat E src fs = (st, fs1)" by fastforce
  have s1: "same_files fs fs1" using os_Stat_cases [OF st] by blast
  note b1 = bodies_same_files [OF s1, of root] and c1 = same_files_content [OF s1]
  show ?thesis
  proof (cases "\<exists>fi. st = Inr fi \<and> fi_Size fi = sz")
    case False
    then have "fs' = fs1" using assms(2) st by (auto simp: Store_Adopt_def split: sum.splits if_splits)
    then show ?thesis using b1 by simp
  next
    case True
    then obtain fi where fi: "st = Inr fi" "fi_Size fi = sz" by blast
    obtain lk fs2 where lk: "linkIn E src ?p fs1 = (lk, fs2)" by fastforce
    note L = linkIn_ok [OF lk]
    show ?thesis
    proof (cases lk)
      case (Inr u)
      then have "fs' = fs2" using assms(2) st fi lk by (auto simp: Store_Adopt_def Let_def)
      moreover obtain i where i: "lookup fs1 src = Some i" "lookup fs1 ?p = None" "lookup fs2 = (lookup fs1)(?p \<mapsto> i)" using L Inr by auto
      moreover have "content fs src = Some (i_data (fs_inode fs1 i))" using i(1) c1 by (metis content_def option.simps(9))
      ultimately show ?thesis using link_bodies [OF i(3,2)] L b1 by auto
    next
      case (Inl e)
      then have l2: "lookup fs2 = lookup fs1" "fs_inode fs2 = fs_inode fs1" using L by simp_all
      then have b2: "bodies fs2 root = bodies fs root" using b1 by (simp add: bodies_def content_def fun_eq_iff)
      have "content fs2 = content fs1" using l2 by (simp add: content_def fun_eq_iff)
      then have cs2: "content fs2 src = content fs src" using c1 by simp
      have ok2: "store_ok fs2 root"
        using L store_ok_same_files [OF s1 assms(1)] length_Store_Path [of root] by (fastforce simp: store_ok_def)
      consider "\<exists>q fs3. os_Stat E ?p fs2 = (q, fs3) \<and> fs' = fs3" | "fs' = fs2"
        | o1 fs3 where "os_Open E src fs2 = (o1, fs3)" "fs' = fs3 \<or> (\<exists>f q fs4 c. o1 = Inr f
            \<and> Store_Put E root v (i_data (fs_inode fs3 (f_ino f)), None) sz fs3 = (q, fs4) \<and> os_Close E f fs4 = (c, fs'))"
        using assms(2) st fi lk Inl by (auto simp: Store_Adopt_def Let_def split: sum.splits if_splits prod.splits)
      then show ?thesis
      proof cases
        case 1
        then show ?thesis using os_Stat_cases bodies_same_files b2 by metis
      next
        case 2
        then show ?thesis using b2 by simp
      next
        case (3 o1 fs3)
        have s3: "same_files fs2 fs3" using os_Open_cases [OF 3(1)] by blast
        note b3 = bodies_same_files [OF s3, of root]
        from 3(2) show ?thesis
        proof (elim disjE exE conjE)
          assume "fs' = fs3"
          then show ?thesis using b2 b3 by simp
        next
          fix f q fs4 c
          assume f: "o1 = Inr f" and q: "Store_Put E root v (i_data (fs_inode fs3 (f_ino f)), None) sz fs3 = (q, fs4)"
            and c: "os_Close E f fs4 = (c, fs')"
          have "lookup fs2 src = Some (f_ino f)" using os_Open_cases [OF 3(1)] f by auto
          then have d: "content fs src = Some (i_data (fs_inode fs3 (f_ino f)))"
            using cs2 s3 by (simp add: content_def same_files_def)
          have "bodies fs4 root = bodies fs3 root \<or> bodies fs4 root = publish v (i_data (fs_inode fs3 (f_ino f))) (bodies fs3 root)"
            using Store_Put_bodies(3) [OF store_ok_same_files [OF s3 ok2] q] by (auto split: sum.splits)
          then show ?thesis using bodies_same_files [OF os_Close_same [OF c], of root] b2 b3 d by auto
        qed
      qed
    qed
  qed
qed

section \<open>A put that nothing disturbs succeeds\<close>

definition no_faults :: "osenv \<Rightarrow> bool" where
  "no_faults E \<longleftrightarrow> (\<forall>n. os_fault E n = None)"

lemma no_faults_eq: "no_faults E \<longleftrightarrow> os_fault E = (\<lambda>_. None)"
  by (auto simp: no_faults_def)

text \<open>No name is in the way: no temporary of this body is left over, and all of it is on one device.\<close>

definition clear_way :: "osenv \<Rightarrow> fsys \<Rightarrow> string \<Rightarrow> bool" where
  "clear_way E fs path \<longleftrightarrow>
     (\<forall>s. lookup fs (path @ tempMarker @ s) = None \<and> path @ tempMarker @ s \<notin> set (fs_dirs fs)
          \<and> os_dev E (path @ tempMarker @ s) = os_dev E path)"

lemma dirname_temp: "path = path_join d n \<Longrightarrow> slash \<notin> set n \<Longrightarrow> dirname (path @ tempMarker @ hex_encode bs) = d"
proof -
  assume "path = path_join d n" "slash \<notin> set n"
  moreover have "slash \<notin> set (tempMarker @ hex_encode bs)"
    using hex_encode_is_hex not_hex(1) by (auto simp: tempMarker_def slash_def)
  ultimately show ?thesis using dirname_join [of "n @ tempMarker @ hex_encode bs" d] by (simp add: path_join_def)
qed

lemma os_Create_free:
  assumes "no_faults E" "lookup fs p = None" "p \<notin> set (fs_dirs fs)" "dirname p \<in> set (fs_dirs fs)"
  shows "\<exists>fs'. os_Create E p fs = (Inr \<lparr>f_name = p, f_ino = fs_next fs\<rparr>, fs')"
proof -
  have "lookup (fs\<lparr>fs_clock := c\<rparr>) p = None" for c using assms(2) by (simp add: lookup_def)
  then show ?thesis using assms by (simp add: os_Create_def syscall_def Let_def no_faults_def)
qed

lemma os_Create_no_dir:
  assumes "no_faults E" "dirname p \<notin> set (fs_dirs fs)"
  shows "\<exists>fs'. os_Create E p fs = (Inl ErrNotExist, fs') \<and> same_files fs fs'"
  using assms by (simp add: os_Create_def syscall_def Let_def no_faults_def same_files_def)

lemma createTemp_step:
  "createTemp E path fs =
     (case os_Create E (path @ tempMarker @ hex_encode (take 4 (os_rand E (fs_clock fs)))) fs of
        (Inr f, fs) \<Rightarrow> (Inr f, fs)
      | (Inl e, fs) \<Rightarrow> (if e \<noteq> ErrExist then (Inl e, fs) else createTempLoop 7 E path fs))"
proof -
  have seven: "tempAttempts = Suc 7" by (simp add: tempAttempts_def)
  show ?thesis unfolding createTemp_def seven createTempLoop.simps Let_def by (rule refl)
qed

lemma createTemp_free:
  assumes "no_faults E" "clear_way E fs path" "path = path_join d n" "slash \<notin> set n" "d \<in> set (fs_dirs fs)"
  shows "\<exists>s fs'. createTemp E path fs = (Inr \<lparr>f_name = path @ tempMarker @ s, f_ino = fs_next fs\<rparr>, fs') \<and> fs_dirs fs' = fs_dirs fs"
proof -
  let ?name = "path @ tempMarker @ hex_encode (take 4 (os_rand E (fs_clock fs)))"
  have "lookup fs ?name = None" "?name \<notin> set (fs_dirs fs)" using assms(2) by (auto simp: clear_way_def)
  then obtain fs' where c: "os_Create E ?name fs = (Inr \<lparr>f_name = ?name, f_ino = fs_next fs\<rparr>, fs')"
    using os_Create_free [OF assms(1), of fs ?name] dirname_temp [OF assms(3,4)] assms(5) by metis
  then have "createTemp E path fs = (Inr \<lparr>f_name = ?name, f_ino = fs_next fs\<rparr>, fs')"
    by (simp add: createTemp_step)
  then show ?thesis using os_Create_cases [OF c] by auto
qed

lemma createTemp_no_dir:
  assumes "no_faults E" "path = path_join d n" "slash \<notin> set n" "d \<notin> set (fs_dirs fs)"
  shows "\<exists>fs'. createTemp E path fs = (Inl ErrNotExist, fs') \<and> same_files fs fs'"
proof -
  let ?name = "path @ tempMarker @ hex_encode (take 4 (os_rand E (fs_clock fs)))"
  obtain fs' where c: "os_Create E ?name fs = (Inl ErrNotExist, fs')" "same_files fs fs'"
    using os_Create_no_dir [OF assms(1), of ?name fs] dirname_temp [OF assms(2,3)] assms(4) by metis
  then show ?thesis by (simp add: createTemp_step)
qed

lemma createTempIn_free:
  assumes "no_faults E" "clear_way E fs path" "path = path_join d n" "slash \<notin> set n" "d \<noteq> []"
  shows "\<exists>s fs'. createTempIn E path fs = (Inr \<lparr>f_name = path @ tempMarker @ s, f_ino = fs_next fs\<rparr>, fs') \<and> d \<in> set (fs_dirs fs')"
proof (cases "d \<in> set (fs_dirs fs)")
  case True
  then show ?thesis using createTemp_free [OF assms(1-4)] by (auto simp: createTempIn_def)
next
  case False
  then obtain fs1 where t: "createTemp E path fs = (Inl ErrNotExist, fs1)" "same_files fs fs1"
    using createTemp_no_dir [OF assms(1,3,4)] by blast
  obtain r fs2 where m: "os_MkdirAll E d fs1 = (r, fs2)" by fastforce
  note M = os_MkdirAll_cases [OF m]
  have r: "r = Inr ()" using m assms(1) by (auto simp: os_MkdirAll_def syscall_def Let_def no_faults_def)
  have same: "lookup fs2 = lookup fs" "fs_next fs2 = fs_next fs"
    using M t(2) same_files_lookup [OF t(2)] by (auto simp: same_files_def)
  have len: "length (path @ tempMarker @ s) > length d" for s using assms(3) by (simp add: path_join_def)
  have "path @ tempMarker @ s \<notin> set (fs_dirs fs2)" for s
  proof
    assume "path @ tempMarker @ s \<in> set (fs_dirs fs2)"
    then have "path @ tempMarker @ s \<in> set (fs_dirs fs1) \<or> length (path @ tempMarker @ s) \<le> length d" using M by blast
    then show False using len [of s] assms(2) t(2) by (auto simp: clear_way_def same_files_def)
  qed
  then have "clear_way E fs2 path" using assms(2) same by (auto simp: clear_way_def)
  moreover have "d \<in> set (fs_dirs fs2)" using M r assms(5) by blast
  ultimately obtain s fs3 where "createTemp E path fs2 = (Inr \<lparr>f_name = path @ tempMarker @ s, f_ino = fs_next fs2\<rparr>, fs3)"
      "fs_dirs fs3 = fs_dirs fs2" "d \<in> set (fs_dirs fs2)"
    using createTemp_free [OF assms(1) _ assms(3,4), of fs2] by blast
  then show ?thesis using t(1) m r same assms(3,4) by (auto simp: createTempIn_def)
qed

lemma Store_Put_succeeds:
  assumes "store_ok fs root" "no_faults E" "clear_way E fs (Store_Path root v)" "int (length d) = sz"
    "Store_Put E root v (d, None) sz fs = (r, fs')"
  shows "\<exists>n. r = Inr (Store_Path root v, n)"
proof -
  let ?p = "Store_Path root v" and ?d = "path_join (path_join root outputDir) (take 2 (id_String v))"
  have "?d \<noteq> []" by (simp add: path_join_def)
  then obtain s fs1 where t: "createTempIn E ?p fs = (Inr \<lparr>f_name = ?p @ tempMarker @ s, f_ino = fs_next fs\<rparr>, fs1)"
      and dir: "?d \<in> set (fs_dirs fs1)"
    using createTempIn_free [OF assms(2,3) Store_Path_split slash_id(1)] by blast
  let ?t = "\<lparr>f_name = ?p @ tempMarker @ s, f_ino = fs_next fs\<rparr>"
  obtain wr fs2 st fs3 cl fs4 lk fs5 where w: "os_Write E ?t d fs1 = (wr, fs2)"
    and st: "os_Fstat E ?t fs2 = (st, fs3)" and cl: "os_Close E ?t fs3 = (cl, fs4)"
    and lk: "os_Link E (f_name ?t) ?p fs4 = (lk, fs5)" by (metis surj_pair)
  have oks: "wr = Inr ()" "cl = Inr ()" "\<exists>fi. st = Inr fi"
    using w st cl assms(2) by (auto simp: os_Write_def os_Fstat_def os_Close_def syscall_def Let_def no_faults_def)
  then obtain fi where fi: "st = Inr fi" by blast
  have names: "lookup fs4 (f_name ?t) = Some (fs_next fs)" "fs_dirs fs4 = fs_dirs fs1"
    using createTempIn_ok [OF t] os_Write_cases [OF w] os_Fstat_cases [OF st] os_Close_same [OF cl]
    by (auto simp: fresh_temp_def same_files_def lookup_def)
  have dev: "os_dev E (f_name ?t) = os_dev E ?p" using assms(3) by (simp add: clear_way_def)
  have "lk = Inr () \<or> lk = Inl ErrExist"
    using lk names dir dev assms(2)
    by (auto simp: os_Link_def syscall_def Let_def no_faults_def lookup_def dirname_Path split: if_splits)
  then have "\<exists>fs'. putTemp E ?p ?t (d, None) sz fs1 = (Inr (?p, diskBytes fi), fs')"
    using w st cl lk oks fi assms(4) by (auto simp: putTemp_def Let_def)
  moreover have "\<not> sz < 0" using assms(4) by simp
  ultimately show ?thesis using assms(5) t by (auto simp: Store_Put_def Let_def split: prod.splits)
qed

section \<open>The sweep at startup\<close>

text \<open>Every name has its directory, and every directory its parent.\<close>

definition tree_ok :: "fsys \<Rightarrow> bool" where
  "tree_ok fs \<longleftrightarrow> (\<forall>q. lookup fs q \<noteq> None \<longrightarrow> dirname q \<in> set (fs_dirs fs))
     \<and> (\<forall>d\<in>set (fs_dirs fs). d \<noteq> [] \<longrightarrow> dirname d \<in> set (fs_dirs fs))"

lemma body_not_swept:
  "\<not> swept (path_join root stagingDir) match (Store_Path root v)"
  "\<not> swept (path_join outRoot sh) isTempName (Store_Path root v)"
proof -
  show "\<not> swept (path_join root stagingDir) match (Store_Path root v)"
    by (auto simp: swept_def Store_Path_split path_join_def stagingDir_def outputDir_def)
  show "\<not> swept (path_join outRoot sh) isTempName (Store_Path root v)"
    using basename_join basename_Path body_not_temp by (metis swept_def)
qed

lemma CleanTemp_ok:
  assumes "CleanTemp E root fs = (n, err, fs')"
  shows "fs_dirs fs' = fs_dirs fs \<and> (fs_wf fs \<longrightarrow> fs_wf fs') \<and> fs_inode fs' = fs_inode fs
    \<and> (\<forall>q. lookup fs' q = lookup fs q \<or> lookup fs' q = None)
    \<and> (\<forall>v. lookup fs' (Store_Path root v) = lookup fs (Store_Path root v))
    \<and> (no_faults E \<longrightarrow> tree_ok fs \<longrightarrow> err = None
         \<and> (\<forall>s. slash \<notin> set s \<longrightarrow> lookup fs' (path_join (path_join root stagingDir) s) = None)
         \<and> (\<forall>v s. slash \<notin> set s \<longrightarrow> lookup fs' (Store_Path root v @ tempMarker @ s) = None))"
proof -
  obtain k serr fs1 where k: "sweepDir E (path_join root stagingDir) (\<lambda>_. True) fs = (k, serr, fs1)" by (metis prod_cases3)
  note K = sweepDir_ok [OF k]
  let ?out = "path_join root outputDir"
  obtain r fs2 where rd: "os_ReadDir E ?out fs1 = (r, fs2)" by fastforce
  note D = ReadDir_ok [OF rd]
  note l2 = same_files_lookup [OF D(1)] and s2 = D(1) [unfolded same_files_def]
  have staged: "lookup fs1 (path_join (path_join root stagingDir) s) = None" if "no_faults E" "tree_ok fs" "slash \<notin> set s" for s
  proof (cases "lookup fs (path_join (path_join root stagingDir) s)")
    case None
    then show ?thesis using K by metis
  next
    case (Some i)
    then have "dirname (path_join (path_join root stagingDir) s) \<in> set (fs_dirs fs)" using that(2) by (simp add: tree_ok_def)
    then have d: "path_join root stagingDir \<in> set (fs_dirs fs)" using that(3) by simp
    have "slash \<in> set (path_join (path_join root stagingDir) s)" by (simp add: path_join_def)
    then show ?thesis using K d that by (simp add: no_faults_eq)
  qed
  have temp: "dirname (Store_Path root v @ tempMarker @ s) = path_join ?out (take 2 (id_String v))
      \<and> basename (Store_Path root v @ tempMarker @ s) = id_String v @ tempMarker @ s" if "slash \<notin> set s" for v s
  proof -
    have "slash \<notin> set tempMarker" by (simp add: tempMarker_def slash_def)
    then have "slash \<notin> set (id_String v @ tempMarker @ s)" using that by simp
    moreover have "Store_Path root v @ tempMarker @ s
        = path_join (path_join ?out (take 2 (id_String v))) (id_String v @ tempMarker @ s)"
      by (simp add: Store_Path_split path_join_def)
    ultimately show ?thesis by (metis dirname_join basename_join)
  qed
  have shard: "path_join ?out (take 2 (id_String v)) \<in> set (fs_dirs fs1) \<and> ?out \<in> set (fs_dirs fs1)"
    if "tree_ok fs" "slash \<notin> set s" "lookup fs (Store_Path root v @ tempMarker @ s) \<noteq> None" for v s
  proof -
    have a: "path_join ?out (take 2 (id_String v)) \<in> set (fs_dirs fs)"
      using that temp [OF that(2), of v] unfolding tree_ok_def by metis
    moreover have "path_join ?out (take 2 (id_String v)) \<noteq> []" by (simp add: path_join_def)
    ultimately have "?out \<in> set (fs_dirs fs)"
      using that(1) dirname_join [OF slash_id(2) [of 2 v], of ?out] unfolding tree_ok_def by metis
    then show ?thesis using a K by simp
  qed
  show ?thesis
  proof (cases r)
    case (Inl e)
    then have out: "fs' = fs2" "err = (if e = ErrNotExist then serr else Some e)"
      using assms k rd by (auto simp: CleanTemp_def Let_def)
    have "lookup fs2 (Store_Path root v @ tempMarker @ s) = None" if "no_faults E" "tree_ok fs" "slash \<notin> set s" for v s
    proof (rule ccontr)
      assume "lookup fs2 (Store_Path root v @ tempMarker @ s) \<noteq> None"
      then have "lookup fs (Store_Path root v @ tempMarker @ s) \<noteq> None" using l2 K by metis
      then have "?out \<in> set (fs_dirs fs1)" using shard that by blast
      then show False using D(6) Inl that(1) by (auto simp: no_faults_eq)
    qed
    moreover have "err = None" if "no_faults E" "tree_ok fs"
      using D(7) Inl out K that by (simp add: no_faults_eq)
    ultimately show ?thesis using K l2 s2 out staged body_not_swept(1) by (metis same_files_wf [OF D(1)])
  next
    case (Inr es)
    then have s: "sweepShards E ?out es k serr fs2 = (n, err, fs')" using assms k rd by (simp add: CleanTemp_def Let_def)
    note S = sweepShards_ok [OF s]
    have "lookup fs' (Store_Path root v @ tempMarker @ s) = None" if "no_faults E" "tree_ok fs" "slash \<notin> set s" for v s
    proof (cases "lookup fs (Store_Path root v @ tempMarker @ s)")
      case None
      then show ?thesis using S K l2 by metis
    next
      case (Some i)
      then have sh: "path_join ?out (take 2 (id_String v)) \<in> set (fs_dirs fs1)" using shard that by blast
      have "(basename (path_join ?out (take 2 (id_String v))), True) \<in> set es"
        by (rule D(4) [OF Inr sh]) (simp, simp add: path_join_def)
      then have "(take 2 (id_String v), True) \<in> set es" by simp
      moreover have "isTempName (basename (Store_Path root v @ tempMarker @ s))"
        using temp [OF that(3), of v] contains_append by (simp add: isTempName_def)
      moreover have "slash \<in> set (Store_Path root v @ tempMarker @ s)" by (simp add: Store_Path_split path_join_def)
      ultimately show ?thesis
        using S sh s2 temp [OF that(3), of v] that(1) by (simp add: no_faults_eq)
    qed
    moreover have "err = None" if "no_faults E" using S K that by (simp add: no_faults_eq)
    moreover have "lookup fs' (Store_Path root v) = lookup fs (Store_Path root v)" for v
      using S K l2 body_not_swept by metis
    moreover have "lookup fs' q = lookup fs q \<or> lookup fs' q = None" for q using S K l2 by metis
    moreover have "lookup fs' (path_join (path_join root stagingDir) t) = None"
      if "no_faults E" "tree_ok fs" "slash \<notin> set t" for t
      using staged [OF that] S l2 by metis
    ultimately show ?thesis using S K s2 same_files_wf [OF D(1)] by auto
  qed
qed

section \<open>The properties\<close>

definition demo_os :: osenv where
  "demo_os = \<lparr>os_fault = (\<lambda>_. None), os_dev = (\<lambda>_. 0), os_blocks = (\<lambda>_ d. Some (int (length d) div 512 + 8)),
     os_now = (\<lambda>n. int n), os_rand = (\<lambda>n. [of_nat n, 1, 2, 3])\<rparr>"

definition demo_fs :: fsys where
  "demo_fs = \<lparr>fs_names = [(''/d/x'', 0), (''/c/staging/body.tmp.00'', 1)],
     fs_inode = (\<lambda>_. \<lparr>i_data = [1, 2], i_mtime = 0\<rparr>),
     fs_dirs = [[], ''/c'', ''/c/output'', ''/c/staging'', ''/d''], fs_next = 2, fs_clock = 0\<rparr>"

lemma store_ok_demo: "store_ok demo_fs ''/c''"
proof -
  have "Store_Path ''/c'' v \<noteq> p" if "p \<in> set (fs_dirs demo_fs)" for v p
    using length_Store_Path [of "''/c''" v] that by (auto simp: demo_fs_def)
  then show ?thesis by (auto simp: store_ok_def fs_wf_def demo_fs_def lookup_def split: if_splits)
qed

lemma tree_ok_demo: "tree_ok demo_fs"
  by (auto simp: tree_ok_def demo_fs_def lookup_def dirname_def slash_def split: if_splits)

lemma no_faults_demo: "no_faults demo_os"
  by (simp add: no_faults_def demo_os_def)

lemma clear_way_demo: "clear_way demo_os demo_fs (Store_Path ''/c'' v)"
proof -
  have "length (Store_Path ''/c'' v @ tempMarker @ s) \<ge> 77" for s using length_Store_Path [of "''/c''" v] by simp
  then have "Store_Path ''/c'' v @ tempMarker @ s \<noteq> p" if "length p < 77" for s p using that by (metis not_less)
  then show ?thesis by (simp add: clear_way_def demo_fs_def demo_os_def lookup_def tempMarker_def)
qed

lemma demo_no_body: "bodies demo_fs ''/c'' v = None"
proof -
  have "Store_Path ''/c'' v \<noteq> p" if "length p < 77" for p using length_Store_Path [of "''/c''" v] that by auto
  then show ?thesis by (simp add: bodies_None demo_fs_def lookup_def)
qed

text \<open>
  C29. Publishing a body. Whatever system call fails, \<^verbatim>\<open>Store.Put\<close> either reports an error and leaves
  the published bodies exactly as they were, or the stream was complete and of the declared size
  and the body is published; a name that was published before keeps its bytes (the first writer
  wins), and no file that existed is changed.
\<close>

theorem Store_Put_refines:
  assumes "store_ok fs root" "Store_Put E root v body sz fs = (r, fs')"
  shows "store_ok fs' root \<and> keeps fs fs'
    \<and> (case r of
         Inl e \<Rightarrow> bodies fs' root = bodies fs root
       | Inr (p, n) \<Rightarrow> p = Store_Path root v \<and> snd body = None \<and> int (length (fst body)) = sz \<and> sz \<le> n
           \<and> bodies fs' root = publish v (fst body) (bodies fs root))"
  using Store_Put_bodies [OF assms] by (auto split: sum.splits)

theorem Store_Put_refines_witness:
  "\<exists>n fs'. Store_Put demo_os ''/c'' (copy_id [7]) ([1, 2, 3], None) 3 demo_fs = (Inr (Store_Path ''/c'' (copy_id [7]), n), fs')
     \<and> bodies fs' ''/c'' (copy_id [7]) = Some [1, 2, 3]"
proof -
  obtain r fs' where s: "Store_Put demo_os ''/c'' (copy_id [7]) ([1, 2, 3], None) 3 demo_fs = (r, fs')" by fastforce
  moreover obtain n where "r = Inr (Store_Path ''/c'' (copy_id [7]), n)"
    using Store_Put_succeeds [OF store_ok_demo no_faults_demo clear_way_demo _ s] by auto
  ultimately show ?thesis using Store_Put_refines [OF store_ok_demo s] demo_no_body by (simp add: publish_def)
qed

text \<open>
  C30. Put, Open, Remove, Get. With no fault, no leftover temporary in the way and one device, a put
  of a complete body under a new name succeeds; the body can then be opened and has exactly its
  bytes; once removed it is gone, and no other body has changed.
\<close>

theorem Store_roundtrip:
  assumes "store_ok fs root" "no_faults E" "clear_way E fs (Store_Path root v)"
    and "bodies fs root v = None"
    and "Store_Put E root v (d, None) (int (length d)) fs = (r, fs1)"
    and "Store_Open E root v fs1 = (q, fs2)"
    and "Store_Remove E root v fs2 = (e, fs3)"
    and "Store_Get E root v fs3 = (g, fs4)"
  shows "\<exists>n f. r = Inr (Store_Path root v, n) \<and> q = Inr (f, int (length d)) \<and> i_data (fs_inode fs2 (f_ino f)) = d
    \<and> e = None \<and> g = Inl ErrNotExist \<and> bodies fs4 root = bodies fs root"
proof -
  obtain n where r: "r = Inr (Store_Path root v, n)" using Store_Put_succeeds [OF assms(1-3) refl assms(5)] by blast
  have b1: "bodies fs1 root = (bodies fs root)(v \<mapsto> d)"
    using Store_Put_bodies(3) [OF assms(1,5)] r assms(4) by (simp add: publish_def)
  note O = Store_Open_cases [OF assms(6)]
  have l1: "content fs1 (Store_Path root v) = Some d" using b1 by (simp add: bodies_def fun_eq_iff)
  then have "\<exists>f. q = Inr (f, int (length d)) \<and> i_data (fs_inode fs2 (f_ino f)) = d"
    using O assms(2,6)
    by (auto simp: content_def same_files_def Store_Open_def os_Open_def os_Fstat_def syscall_def Let_def no_faults_def
        lookup_def file_info_def)
  then obtain f where f: "q = Inr (f, int (length d))" "i_data (fs_inode fs2 (f_ino f)) = d" by blast
  note R = Store_Remove_cases [OF assms(7)]
  have e: "e = None" using assms(2,7)
    by (auto simp: Store_Remove_def os_Remove_def syscall_def Let_def no_faults_def split: option.splits)
  then have b3: "bodies fs3 root = (bodies fs2 root)(v := None)"
    using R by (auto simp: bodies_def content_def fun_eq_iff Store_Path_inj)
  have b2: "bodies fs2 root = bodies fs1 root" using bodies_same_files O by blast
  note G = Store_Get_cases [OF assms(8)]
  have b4: "bodies fs4 root = bodies fs3 root" using bodies_same_files G by blast
  have "lookup fs3 (Store_Path root v) = None" using b3 bodies_None [of fs3 root v] by simp
  then have "g = Inl ErrNotExist"
    using assms(2,8) by (auto simp: Store_Get_def os_Stat_def syscall_def Let_def no_faults_def lookup_def)
  moreover have "bodies fs4 root = bodies fs root" using b1 b2 b3 b4 assms(4) by auto
  ultimately show ?thesis using r f e by blast
qed

theorem Store_roundtrip_witness:
  "\<exists>n fs1. Store_Put demo_os ''/c'' (copy_id [7]) ([1, 2, 3], None) 3 demo_fs = (Inr (Store_Path ''/c'' (copy_id [7]), n), fs1)"
proof -
  let ?v = "copy_id [7]"
  have l: "int (length [1, 2, 3 :: byte]) = 3" by simp
  note none = demo_no_body [of ?v]
  obtain r fs1 q fs2 e fs3 g fs4 where s: "Store_Put demo_os ''/c'' ?v ([1, 2, 3], None) 3 demo_fs = (r, fs1)"
    "Store_Open demo_os ''/c'' ?v fs1 = (q, fs2)" "Store_Remove demo_os ''/c'' ?v fs2 = (e, fs3)"
    "Store_Get demo_os ''/c'' ?v fs3 = (g, fs4)" by (metis surj_pair)
  show ?thesis
    using Store_roundtrip [OF store_ok_demo no_faults_demo clear_way_demo none s(1) [folded l] s(2-4)] s(1) by blast
qed

text \<open>
  C31. The sweep of temporaries at startup. \<^verbatim>\<open>CleanTemp\<close> never touches a published body, whatever
  call fails; when none fails it reports no error and leaves no staged file and no temporary
  beside a body.
\<close>

theorem CleanTemp_sweeps:
  assumes "store_ok fs root" "tree_ok fs" "CleanTemp E root fs = (n, err, fs')"
  shows "store_ok fs' root \<and> bodies fs' root = bodies fs root
    \<and> (no_faults E \<longrightarrow> err = None
         \<and> (\<forall>s. slash \<notin> set s \<longrightarrow> lookup fs' (path_join (path_join root stagingDir) s) = None)
         \<and> (\<forall>v s. slash \<notin> set s \<longrightarrow> lookup fs' (Store_Path root v @ tempMarker @ s) = None))"
proof -
  note C = CleanTemp_ok [OF assms(3)]
  have "bodies fs' root = bodies fs root" using C by (auto simp: bodies_def content_def)
  moreover have "store_ok fs' root" using C assms(1) by (auto simp: store_ok_def)
  ultimately show ?thesis using C assms(2) by blast
qed

theorem CleanTemp_sweeps_witness:
  "\<exists>n fs'. CleanTemp demo_os ''/c'' demo_fs = (n, None, fs') \<and> lookup demo_fs ''/c/staging/body.tmp.00'' = Some 1
     \<and> lookup fs' ''/c/staging/body.tmp.00'' = None"
proof -
  obtain n err fs' where c: "CleanTemp demo_os ''/c'' demo_fs = (n, err, fs')" by (metis prod_cases3)
  have p: "''/c/staging/body.tmp.00'' = path_join (path_join ''/c'' stagingDir) ''body.tmp.00''" "slash \<notin> set ''body.tmp.00''"
    by (simp_all add: path_join_def stagingDir_def slash_def)
  have "lookup demo_fs ''/c/staging/body.tmp.00'' = Some 1" by (simp add: demo_fs_def lookup_def)
  then show ?thesis using CleanTemp_sweeps [OF store_ok_demo tree_ok_demo c] no_faults_demo c p by metis
qed

text \<open>
  Adopting another cache's file. \<^verbatim>\<open>Store.Adopt\<close> changes no existing file; when it succeeds the
  source has the declared size, and a name that was free now has the source's bytes, whether it
  was linked or, across devices, copied.
\<close>

theorem Store_Adopt_refines:
  assumes "store_ok fs root" "Store_Adopt E root v src sz fs = (r, fs')"
  shows "keeps fs fs' \<and> fs_wf fs'
    \<and> (\<forall>p n linked. r = Inr (p, n, linked) \<longrightarrow>
         p = Store_Path root v \<and> (\<exists>d. content fs src = Some d \<and> int (length d) = sz
           \<and> (bodies fs root v = None \<longrightarrow> bodies fs' root v = Some d)))"
  using Store_Adopt_bodies [OF assms] by (auto simp: store_ok_def)

theorem Store_Adopt_refines_witness:
  "\<exists>r fs'. Store_Adopt demo_os ''/c'' (copy_id [7]) ''/d/x'' 2 demo_fs = (r, fs') \<and> fs_wf fs'"
proof -
  obtain r fs' where s: "Store_Adopt demo_os ''/c'' (copy_id [7]) ''/d/x'' 2 demo_fs = (r, fs')" by fastforce
  then show ?thesis using Store_Adopt_refines [OF store_ok_demo s] by blast
qed

end
