(* ===== verification/Strconv.thy ===== *)
theory Strconv
  imports Ids
begin

text \<open>
  The parts of packages \<^verbatim>\<open>strconv\<close>, \<^verbatim>\<open>strings\<close> and \<^verbatim>\<open>path\<close> the program uses: decimal numbers, white
  space, splitting, and slash-separated paths. A Go string is its list of bytes, so a character
  here is a byte and white space beyond ASCII is recognised by its UTF-8 encoding.
\<close>

section \<open>Decimal numbers\<close>

definition digit_char :: "nat \<Rightarrow> char" where
  "digit_char d = char_of (48 + d)"

definition is_digit :: "char \<Rightarrow> bool" where
  "is_digit c \<longleftrightarrow> 48 \<le> (of_char c :: nat) \<and> (of_char c :: nat) \<le> 57"

definition digit_val :: "char \<Rightarrow> nat" where
  "digit_val c = of_char c - 48"

fun format_nat :: "nat \<Rightarrow> string" where
  "format_nat n = (if n < 10 then [digit_char n] else format_nat (n div 10) @ [digit_char (n mod 10)])"

declare format_nat.simps [simp del]

definition FormatInt :: "int \<Rightarrow> string" where
  "FormatInt n = (if n < 0 then CHR ''-'' # format_nat (nat (- n)) else format_nat (nat n))"

definition digits_val :: "string \<Rightarrow> nat" where
  "digits_val s = foldl (\<lambda>acc c. acc * 10 + digit_val c) 0 s"

text \<open>\<^verbatim>\<open>strconv.ParseInt(s, 10, 64)\<close>: an optional sign, then digits only, within the range.\<close>

definition ParseInt :: "string \<Rightarrow> int option" where
  "ParseInt s =
     (let neg = (s \<noteq> [] \<and> hd s = CHR ''-'');
          ds = (if s \<noteq> [] \<and> (hd s = CHR ''-'' \<or> hd s = CHR ''+'') then tl s else s);
          v = int (digits_val ds) in
      if ds = [] \<or> \<not> list_all is_digit ds then None
      else if in64 (if neg then - v else v) then Some (if neg then - v else v) else None)"

lemma of_char_digit [simp]: "d < 10 \<Longrightarrow> of_char (digit_char d) = 48 + d"
  by (simp add: digit_char_def of_char_of)

lemma is_digit_char [simp]: "d < 10 \<Longrightarrow> is_digit (digit_char d)"
  by (simp add: is_digit_def)

lemma digit_val_char [simp]: "d < 10 \<Longrightarrow> digit_val (digit_char d) = d"
  by (simp add: digit_val_def)

lemma digits_val_snoc [simp]: "digits_val (s @ [c]) = digits_val s * 10 + digit_val c"
  by (simp add: digits_val_def)

lemma format_nat_ne [simp]: "format_nat n \<noteq> []"
  by (subst format_nat.simps) simp

lemma format_nat_digits: "list_all is_digit (format_nat n)"
proof (induction n rule: format_nat.induct)
  case (1 n)
  then show ?case by (subst format_nat.simps) auto
qed

lemma format_nat_val: "digits_val (format_nat n) = n"
proof (induction n rule: format_nat.induct)
  case (1 n)
  then show ?case by (subst format_nat.simps) (auto simp: digits_val_def)
qed

lemma hd_format_nat: "is_digit (hd (format_nat n))"
  using format_nat_digits [of n] by (cases "format_nat n") (auto simp: list_all_iff)

lemma not_digit [simp]: "\<not> is_digit CHR ''-''" "\<not> is_digit CHR ''+''" "\<not> is_digit CHR '' ''" "\<not> is_digit CHR ''/''"
  by (simp_all add: is_digit_def)

lemma ParseInt_FormatInt: "in64 n \<Longrightarrow> ParseInt (FormatInt n) = Some n"
proof -
  assume n: "in64 n"
  have hd: "hd (format_nat m) \<noteq> CHR ''-''" "hd (format_nat m) \<noteq> CHR ''+''" for m
    using hd_format_nat [of m] not_digit by metis+
  show ?thesis
  proof (cases "n < 0")
    case True
    then show ?thesis using n by (simp add: FormatInt_def ParseInt_def Let_def format_nat_digits format_nat_val)
  next
    case False
    then show ?thesis using n hd by (simp add: FormatInt_def ParseInt_def Let_def format_nat_digits format_nat_val)
  qed
qed

lemma ParseInt_in64: "ParseInt s = Some n \<Longrightarrow> in64 n"
  by (auto simp: ParseInt_def Let_def split: if_splits)

lemma format_nat_no:
  "\<not> is_digit c \<Longrightarrow> c \<notin> set (format_nat n)"
  using format_nat_digits [of n] by (auto simp: list_all_iff)

lemma FormatInt_chars: "c \<in> set (FormatInt n) \<Longrightarrow> is_digit c \<or> c = CHR ''-''"
  using format_nat_digits by (auto simp: FormatInt_def list_all_iff split: if_splits)

section \<open>White space (unicode.IsSpace)\<close>

text \<open>
  The width of the white space character a string starts with, 0 when it does not: the six ASCII
  ones, U+0085, U+00A0, U+1680, U+2000 to U+200A, U+2028, U+2029, U+202F, U+205F and U+3000. No
  byte of these encodings but the first can start one, so walking a string byte by byte finds the
  same ones as walking it rune by rune.
\<close>

fun space_width :: "nat list \<Rightarrow> nat" where
  "space_width (b # bs) =
     (if b = 32 \<or> 9 \<le> b \<and> b \<le> 13 then 1
      else if b = 0xC2 then (case bs of c # _ \<Rightarrow> if c = 0x85 \<or> c = 0xA0 then 2 else 0 | [] \<Rightarrow> 0)
      else if b = 0xE1 then (case bs of c # d # _ \<Rightarrow> if c = 0x9A \<and> d = 0x80 then 3 else 0 | _ \<Rightarrow> 0)
      else if b = 0xE2 then
        (case bs of
           c # d # _ \<Rightarrow>
             if c = 0x80 \<and> (0x80 \<le> d \<and> d \<le> 0x8A \<or> d = 0xA8 \<or> d = 0xA9 \<or> d = 0xAF) \<or> c = 0x81 \<and> d = 0x9F then 3 else 0
         | _ \<Rightarrow> 0)
      else if b = 0xE3 then (case bs of c # d # _ \<Rightarrow> if c = 0x80 \<and> d = 0x80 then 3 else 0 | _ \<Rightarrow> 0)
      else 0)"
| "space_width [] = 0"

definition spaceAt :: "string \<Rightarrow> nat" where
  "spaceAt s = space_width (map of_char s)"

text \<open>\<^verbatim>\<open>strings.Fields\<close>; \<open>acc\<close> is the field being read, reversed.\<close>

function (sequential) fieldsLoop :: "string \<Rightarrow> string \<Rightarrow> string list" where
  "fieldsLoop acc [] = (if acc = [] then [] else [rev acc])"
| "fieldsLoop acc (c # s) =
     (let n = spaceAt (c # s) in
      if n = 0 then fieldsLoop (c # acc) s
      else if acc = [] then fieldsLoop [] (drop n (c # s))
      else rev acc # fieldsLoop [] (drop n (c # s)))"
  by pat_completeness auto
termination by (relation "measure (\<lambda>(acc, s). length s)") auto

definition Fields :: "string \<Rightarrow> string list" where
  "Fields s = fieldsLoop [] s"

text \<open>A byte that is ASCII and not a space never starts white space.\<close>

definition plain :: "char \<Rightarrow> bool" where
  "plain c \<longleftrightarrow> 32 < (of_char c :: nat) \<and> (of_char c :: nat) < 128"

lemma plain_spaceAt [simp]: "plain c \<Longrightarrow> spaceAt (c # s) = 0"
  by (simp add: plain_def spaceAt_def)

lemma blank_spaceAt [simp]: "spaceAt (CHR '' '' # s) = 1"
  by (simp add: spaceAt_def)

lemma fields_plain: "list_all plain xs \<Longrightarrow> fieldsLoop acc (xs @ s) = fieldsLoop (rev xs @ acc) s"
  by (induction xs arbitrary: acc) (auto simp: Let_def)

lemma Fields_two:
  assumes "list_all plain x" "list_all plain y" "x \<noteq> []" "y \<noteq> []"
  shows "Fields (x @ '' '' @ y) = [x, y]"
proof -
  have "Fields (x @ '' '' @ y) = fieldsLoop (rev x) ('' '' @ y)"
    using fields_plain [OF assms(1), of "[]" "'' '' @ y"] by (simp add: Fields_def)
  also have "\<dots> = x # fieldsLoop [] y" using assms(3) by (simp add: Let_def)
  also have "fieldsLoop [] y = [y]" using fields_plain [OF assms(2), of "[]" "[]"] assms(4) by simp
  finally show ?thesis .
qed

lemma digit_plain: "is_digit c \<Longrightarrow> plain c"
  by (simp add: is_digit_def plain_def)

lemma FormatInt_plain: "list_all plain (FormatInt n)"
proof -
  have "plain CHR ''-''" by (simp add: plain_def)
  then show ?thesis using FormatInt_chars [of _ n] digit_plain by (fastforce simp: list_all_iff)
qed

lemma FormatInt_ne [simp]: "FormatInt n \<noteq> []"
  by (simp add: FormatInt_def)

section \<open>Splitting and joining\<close>

text \<open>\<^verbatim>\<open>strings.Split(s, sep)\<close> for a separator of one byte: never empty.\<close>

fun split_on :: "char \<Rightarrow> string \<Rightarrow> string list" where
  "split_on sep [] = [[]]"
| "split_on sep (c # s) =
     (if c = sep then [] # split_on sep s
      else case split_on sep s of x # xs \<Rightarrow> (c # x) # xs | [] \<Rightarrow> [[c]])"

fun join_with :: "char \<Rightarrow> string list \<Rightarrow> string" where
  "join_with sep [] = []"
| "join_with sep [x] = x"
| "join_with sep (x # y # xs) = x @ sep # join_with sep (y # xs)"

lemma split_on_ne [simp]: "split_on sep s \<noteq> []"
  by (induction s) (auto split: list.splits)

lemma join_split [simp]: "join_with sep (split_on sep s) = s"
proof (induction s)
  case (Cons c s)
  then show ?case
    by (cases "split_on sep s") (auto, (metis join_with.simps(2) join_with.simps(3) neq_Nil_conv append_Nil append_Cons)+)
qed simp

lemma split_on_plain: "sep \<notin> set x \<Longrightarrow> split_on sep x = [x]"
  by (induction x) auto

lemma split_on_append: "sep \<notin> set x \<Longrightarrow> split_on sep (x @ sep # s) = x # split_on sep s"
  by (induction x) auto

lemma split_join: "xs \<noteq> [] \<Longrightarrow> (\<forall>x\<in>set xs. sep \<notin> set x) \<Longrightarrow> split_on sep (join_with sep xs) = xs"
  by (induction xs rule: join_with.induct) (auto simp: split_on_plain split_on_append)

lemma split_on_no_sep: "x \<in> set (split_on sep s) \<Longrightarrow> sep \<notin> set x"
  by (induction s arbitrary: x) (auto split: if_splits list.splits)

lemma join_inj:
  "xs \<noteq> [] \<Longrightarrow> ys \<noteq> [] \<Longrightarrow> (\<forall>x\<in>set xs. sep \<notin> set x) \<Longrightarrow> (\<forall>x\<in>set ys. sep \<notin> set x)
     \<Longrightarrow> join_with sep xs = join_with sep ys \<Longrightarrow> xs = ys"
  by (metis split_join)

section \<open>Package path\<close>

definition path_slash :: char where "path_slash = CHR ''/''"

text \<open>The lexical processing of \<^verbatim>\<open>path.Clean\<close>; \<open>out\<close> is the cleaned path so far, last element first.\<close>

fun cleanLoop :: "bool \<Rightarrow> string list \<Rightarrow> string list \<Rightarrow> string list" where
  "cleanLoop rooted [] out = out"
| "cleanLoop rooted (x # xs) out =
     (if x = [] \<or> x = ''.'' then cleanLoop rooted xs out
      else if x = ''..'' then
        (case out of
           y # ys \<Rightarrow> if y = ''..'' then cleanLoop rooted xs (x # out) else cleanLoop rooted xs ys
         | [] \<Rightarrow> if rooted then cleanLoop rooted xs out else cleanLoop rooted xs [x])
      else cleanLoop rooted xs (x # out))"

definition path_Clean :: "string \<Rightarrow> string" where
  "path_Clean p =
     (let rooted = (p \<noteq> [] \<and> hd p = path_slash);
          cs = rev (cleanLoop rooted (split_on path_slash p) []) in
      if rooted then path_slash # join_with path_slash cs
      else if cs = [] then ''.'' else join_with path_slash cs)"

definition path_Join :: "string list \<Rightarrow> string" where
  "path_Join es =
     (let es = filter (\<lambda>e. e \<noteq> []) es in if es = [] then [] else path_Clean (join_with path_slash es))"

lemma cleanLoop_append: "cleanLoop r (xs @ ys) out = cleanLoop r ys (cleanLoop r xs out)"
  by (induction r xs out rule: cleanLoop.induct) (auto split: list.splits)

lemma cleanLoop_ordinary:
  "\<forall>x\<in>set xs. x \<noteq> [] \<and> x \<noteq> ''.'' \<and> x \<noteq> ''..'' \<Longrightarrow> cleanLoop r xs out = rev xs @ out"
  by (induction xs arbitrary: out) auto

lemma set_cleanLoop: "set (cleanLoop r xs out) \<subseteq> set xs \<union> set out"
proof (induction xs arbitrary: out)
  case (Cons x xs)
  note IH = Cons.IH [of out] Cons.IH [of "x # out"] Cons.IH [of "tl out"] Cons.IH [of "[x]"]
  show ?case
  proof (cases out)
    case Nil
    then show ?thesis using IH by auto
  next
    case (Cons y ys)
    then show ?thesis using IH by auto
  qed
qed simp

lemma cleanLoop_no_sep:
  "\<forall>x\<in>set xs. sep \<notin> set x \<Longrightarrow> \<forall>x\<in>set (cleanLoop r xs []). sep \<notin> set x"
  using set_cleanLoop [of r xs "[]"] by auto

lemma split_on_sep: "split_on sep (x @ sep # t) = split_on sep x @ split_on sep t"
proof (induction x)
  case (Cons c x)
  then show ?case by (cases "split_on sep x") auto
qed simp

lemma join_append: "xs \<noteq> [] \<Longrightarrow> ys \<noteq> [] \<Longrightarrow> join_with sep (xs @ ys) = join_with sep xs @ sep # join_with sep ys"
  by (induction sep xs rule: join_with.induct) (auto simp: neq_Nil_conv)

lemma split_on_cat:
  "xs \<noteq> [] \<Longrightarrow> ys \<noteq> [] \<Longrightarrow>
     split_on sep (join_with sep (xs @ ys)) = split_on sep (join_with sep xs) @ split_on sep (join_with sep ys)"
  by (simp add: join_append split_on_sep)

end
