(* ===== verification/Remote.thy ===== *)
theory Remote
  imports Strconv
begin

text \<open>
  Package \<^verbatim>\<open>internal/remote\<close>: the shared tier. The interface \<^verbatim>\<open>Backend\<close> is a record of functions over
  the tier's state; \<^verbatim>\<open>remote.go\<close> gives the record format, the key layout and \<^verbatim>\<open>Noop\<close>, \<^verbatim>\<open>s3.go\<close> the
  bucket implementation over the AWS client, which is a parameter. A \<^verbatim>\<open>time.Time\<close> is its Unix
  nanoseconds, \<open>None\<close> the zero time; a context that ends is an error of the call.
\<close>

section \<open>The interface (remote.go)\<close>

text \<open>A body being read: its bytes, the error its reader ends with, the error of \<^verbatim>\<open>Close\<close>.\<close>

type_synonym body = "bytes \<times> error option \<times> error option"

record 'r Backend =
  rb_GetAction :: "ActionID \<Rightarrow> 'r \<Rightarrow> (OutputID \<times> int option) result \<times> 'r"
  rb_PutAction :: "ActionID \<Rightarrow> OutputID \<Rightarrow> int \<Rightarrow> 'r \<Rightarrow> error option \<times> 'r"
  rb_GetObject :: "OutputID \<Rightarrow> 'r \<Rightarrow> (body \<times> int) result \<times> 'r"
  rb_PutObject :: "OutputID \<Rightarrow> bytes \<Rightarrow> int \<Rightarrow> 'r \<Rightarrow> error option \<times> 'r"

text \<open>\<^verbatim>\<open>ErrMiss\<close> wraps \<^verbatim>\<open>fs.ErrNotExist\<close>, which is all a caller tests for.\<close>

definition ErrMiss :: error where "ErrMiss = ErrNotExist"

definition string_of_bytes :: "bytes \<Rightarrow> string" where
  "string_of_bytes bs = map (\<lambda>b. char_of (unat b)) bs"

definition bytes_of_string :: "string \<Rightarrow> bytes" where
  "bytes_of_string s = map (\<lambda>c. of_nat (of_char c)) s"

definition formatActionRecord :: "OutputID \<Rightarrow> int \<Rightarrow> string" where
  "formatActionRecord v mtime = id_String v @ '' '' @ FormatInt mtime"

text \<open>\<^verbatim>\<open>time.Unix(ns/1e9, ns%1e9)\<close> is the instant \<open>ns\<close>.\<close>

definition parseActionRecord :: "string \<Rightarrow> (OutputID \<times> int) result" where
  "parseActionRecord b =
     (let f = Fields b in
      if length f \<noteq> 2 then Inl ErrParse
      else rbind (ParseOutputID (f ! 0)) (\<lambda>v.
        case ParseInt (f ! 1) of
          None \<Rightarrow> Inl ErrParse
        | Some ns \<Rightarrow> Inr (v, ns)))"

text \<open>\<^verbatim>\<open>keyspace.prefix\<close> is the first argument.\<close>

definition actionKey :: "string \<Rightarrow> ActionID \<Rightarrow> string" where
  "actionKey prefix a = (let s = id_String a in path_Join [prefix, ''action'', take 2 s, s])"

definition objectKey :: "string \<Rightarrow> OutputID \<Rightarrow> string" where
  "objectKey prefix v = (let s = id_String v in path_Join [prefix, ''output'', take 2 s, s])"

definition Noop :: "'r Backend" where
  "Noop =
     \<lparr>rb_GetAction = (\<lambda>a r. (Inl ErrMiss, r)), rb_PutAction = (\<lambda>a v t r. (None, r)),
      rb_GetObject = (\<lambda>v r. (Inl ErrMiss, r)), rb_PutObject = (\<lambda>v d sz r. (None, r))\<rparr>"

section \<open>The bucket (s3.go)\<close>

text \<open>
  An error of the AWS SDK, as \<^verbatim>\<open>errors.As\<close> takes it apart: whether a typed \<^verbatim>\<open>NoSuchKey\<close> or \<^verbatim>\<open>NotFound\<close> is
  in its chain, the code of a \<^verbatim>\<open>smithy.APIError\<close>, the status of a \<^verbatim>\<open>ResponseError\<close>.
\<close>

record s3error =
  se_NoSuchKey :: bool
  se_NotFound :: bool
  se_ErrorCode :: "string option"
  se_HTTPStatusCode :: "int option"

record 'r s3client =
  s3_GetObject :: "string \<Rightarrow> string \<Rightarrow> 'r \<Rightarrow> (s3error + body \<times> int option) \<times> 'r"
  s3_PutObject :: "string \<Rightarrow> string \<Rightarrow> bytes \<Rightarrow> int \<Rightarrow> bool \<Rightarrow> 'r \<Rightarrow> s3error option \<times> 'r"

record 'r S3 =
  s3_client :: "'r s3client"
  s3_bucket :: string
  s3_prefix :: string

definition httpStatus :: "s3error \<Rightarrow> int" where
  "httpStatus err = (case se_HTTPStatusCode err of Some n \<Rightarrow> if n \<noteq> 0 then n else 0 | None \<Rightarrow> 0)"

definition isNotFound :: "s3error \<Rightarrow> bool" where
  "isNotFound err \<longleftrightarrow>
     se_NoSuchKey err \<or> se_NotFound err
     \<or> (case se_ErrorCode err of Some c \<Rightarrow> c \<in> {''NoSuchKey'', ''NotFound'', ''404''} | None \<Rightarrow> False)
     \<or> httpStatus err = 404"

definition isPreconditionFailed :: "s3error \<Rightarrow> bool" where
  "isPreconditionFailed err \<longleftrightarrow> se_ErrorCode err = Some ''PreconditionFailed'' \<or> httpStatus err = 412"

definition s3_failed :: error where "s3_failed = ErrIO 0"

text \<open>\<^verbatim>\<open>io.ReadAll(io.LimitReader(r, n))\<close>.\<close>

definition readLimited :: "nat \<Rightarrow> body \<Rightarrow> bytes result" where
  "readLimited n b =
     (if n \<le> length (fst b) then Inr (take n (fst b))
      else case fst (snd b) of Some e \<Rightarrow> Inl e | None \<Rightarrow> Inr (fst b))"

definition s3_getAction :: "'r S3 \<Rightarrow> ActionID \<Rightarrow> 'r \<Rightarrow> (OutputID \<times> int option) result \<times> 'r" where
  "s3_getAction s a r =
     (case s3_GetObject (s3_client s) (s3_bucket s) (actionKey (s3_prefix s) a) r of
        (Inl err, r) \<Rightarrow> (if isNotFound err then Inl ErrMiss else Inl s3_failed, r)
      | (Inr (b, _), r) \<Rightarrow>
          (case readLimited 256 b of
             Inl e \<Rightarrow> (Inl e, r)
           | Inr bs \<Rightarrow>
               (case parseActionRecord (string_of_bytes bs) of
                  Inl _ \<Rightarrow> (Inl ErrMiss, r)
                | Inr (v, ns) \<Rightarrow> (Inr (v, Some ns), r))))"

definition s3_putAction :: "'r S3 \<Rightarrow> ActionID \<Rightarrow> OutputID \<Rightarrow> int \<Rightarrow> 'r \<Rightarrow> error option \<times> 'r" where
  "s3_putAction s a v mtime r =
     (let body = bytes_of_string (formatActionRecord v mtime) in
      case s3_PutObject (s3_client s) (s3_bucket s) (actionKey (s3_prefix s) a) body (int (length body)) False r of
        (Some err, r) \<Rightarrow> (Some s3_failed, r)
      | (None, r) \<Rightarrow> (None, r))"

definition s3_getObject :: "'r S3 \<Rightarrow> OutputID \<Rightarrow> 'r \<Rightarrow> (body \<times> int) result \<times> 'r" where
  "s3_getObject s v r =
     (case s3_GetObject (s3_client s) (s3_bucket s) (objectKey (s3_prefix s) v) r of
        (Inl err, r) \<Rightarrow> (if isNotFound err then Inl ErrMiss else Inl s3_failed, r)
      | (Inr (b, len), r) \<Rightarrow> (Inr (b, case len of None \<Rightarrow> 0 | Some n \<Rightarrow> n), r))"

definition s3_putObject :: "'r S3 \<Rightarrow> OutputID \<Rightarrow> bytes \<Rightarrow> int \<Rightarrow> 'r \<Rightarrow> error option \<times> 'r" where
  "s3_putObject s v data sz r =
     (case s3_PutObject (s3_client s) (s3_bucket s) (objectKey (s3_prefix s) v) data sz True r of
        (Some err, r) \<Rightarrow> (if isPreconditionFailed err then None else Some s3_failed, r)
      | (None, r) \<Rightarrow> (None, r))"

definition S3_Backend :: "'r S3 \<Rightarrow> 'r Backend" where
  "S3_Backend s =
     \<lparr>rb_GetAction = s3_getAction s, rb_PutAction = s3_putAction s,
      rb_GetObject = s3_getObject s, rb_PutObject = s3_putObject s\<rparr>"

section \<open>Records round-trip\<close>

lemma bytes_string [simp]: "string_of_bytes (bytes_of_string s) = s"
proof -
  have "unat (of_nat (of_char c) :: byte) = (of_char c :: nat)" for c :: char
    by (simp add: unat_of_nat)
  then show ?thesis by (simp add: string_of_bytes_def bytes_of_string_def o_def)
qed

lemma length_bytes_of_string [simp]: "length (bytes_of_string s) = length s"
  by (simp add: bytes_of_string_def)

lemma id_String_plain: "list_all plain (id_String v)"
proof -
  have "plain c" if "is_hex c" for c using that by (auto simp: is_hex_def plain_def)
  then show ?thesis using id_String_hex by (auto simp: list_all_iff)
qed

lemma id_String_ne [simp]: "id_String v \<noteq> []"
  using length_id_String [of v] by (metis length_0_conv zero_neq_numeral)

lemma parse_format: "in64 t \<Longrightarrow> parseActionRecord (formatActionRecord v t) = Inr (v, t)"
proof -
  assume t: "in64 t"
  have "Fields (formatActionRecord v t) = [id_String v, FormatInt t]"
    unfolding formatActionRecord_def by (rule Fields_two) (simp_all add: id_String_plain FormatInt_plain)
  then show ?thesis
    using t ParseOutputID_eq by (simp add: parseActionRecord_def ParseInt_FormatInt)
qed

section \<open>Keys are distinct\<close>

definition key_of :: "string \<Rightarrow> string \<Rightarrow> id32 \<Rightarrow> string" where
  "key_of prefix kind v = path_Join [prefix, kind, take 2 (id_String v), id_String v]"

lemma keys_key_of: "actionKey p a = key_of p ''action'' a" "objectKey p a = key_of p ''output'' a"
  by (simp_all add: actionKey_def objectKey_def key_of_def Let_def)

lemma hex_no_slash: "path_slash \<notin> set (id_String v)" "CHR ''.'' \<notin> set (id_String v)"
proof -
  have "\<not> is_hex path_slash" "\<not> is_hex CHR ''.''" by (simp_all add: is_hex_def path_slash_def)
  then show "path_slash \<notin> set (id_String v)" "CHR ''.'' \<notin> set (id_String v)" using id_String_hex by blast+
qed

text \<open>What the key is: the cleaned prefix, then the three elements as they are.\<close>

lemma key_of_elements:
  assumes "kind \<noteq> []" "path_slash \<notin> set kind" "CHR ''.'' \<notin> set kind"
  shows "\<exists>rooted cs. (\<forall>x\<in>set cs. path_slash \<notin> set x)
    \<and> key_of prefix kind v = (if rooted then [path_slash] else []) @ join_with path_slash (cs @ [kind, take 2 (id_String v), id_String v])"
proof -
  let ?e = "[kind, take 2 (id_String v), id_String v]"
  let ?pre = "if prefix = [] then [] else [prefix]"
  let ?full = "join_with path_slash (?pre @ ?e)"
  let ?r = "?full \<noteq> [] \<and> hd ?full = path_slash"
  have ne: "take 2 (id_String v) \<noteq> []" using length_id_String [of v] by (simp add: take_eq_Nil)
  have dots: "CHR ''.'' \<notin> set (take 2 (id_String v))" "path_slash \<notin> set (take 2 (id_String v))"
    using hex_no_slash by (meson in_set_takeD)+
  have ord: "\<forall>x\<in>set ?e. x \<noteq> [] \<and> x \<noteq> ''.'' \<and> x \<noteq> ''..''" "\<forall>x\<in>set ?e. path_slash \<notin> set x"
    using assms ne dots hex_no_slash [of v] by auto
  have split_e: "split_on path_slash (join_with path_slash ?e) = ?e" by (rule split_join) (use ord(2) in auto)
  let ?ps = "if prefix = [] then [] else split_on path_slash prefix"
  have "split_on path_slash ?full = ?ps @ ?e"
    using split_on_cat [of "[prefix]" ?e path_slash] split_e by auto
  then have cl: "rev (cleanLoop r (split_on path_slash ?full) []) = rev (cleanLoop r ?ps []) @ ?e" for r
    by (simp only: cleanLoop_append cleanLoop_ordinary [OF ord(1)] rev_append rev_rev_ident)
  have k: "key_of prefix kind v = path_Clean ?full"
    using assms(1) ne by (simp add: key_of_def path_Join_def Let_def)
  have "\<forall>x\<in>set ?ps. path_slash \<notin> set x" by (auto dest: split_on_no_sep)
  then have no: "\<forall>x\<in>set (rev (cleanLoop ?r ?ps [])). path_slash \<notin> set x"
    using cleanLoop_no_sep [of ?ps path_slash ?r] by (metis set_rev)
  have "key_of prefix kind v = (if ?r then [path_slash] else []) @ join_with path_slash (rev (cleanLoop ?r ?ps []) @ ?e)"
    unfolding k path_Clean_def Let_def cl by simp
  with no show ?thesis by blast
qed

lemma key_of_inj:
  assumes "kind \<in> {''action'', ''output''}" "kind' \<in> {''action'', ''output''}" "key_of p kind v = key_of p kind' u"
  shows "kind = kind' \<and> v = u"
proof -
  have k: "kind \<noteq> []" "path_slash \<notin> set kind" "CHR ''.'' \<notin> set kind" "kind' \<noteq> []" "path_slash \<notin> set kind'" "CHR ''.'' \<notin> set kind'"
    using assms(1,2) by (auto simp: path_slash_def)
  obtain r cs where 1: "\<forall>x\<in>set cs. path_slash \<notin> set x"
    "key_of p kind v = (if r then [path_slash] else []) @ join_with path_slash (cs @ [kind, take 2 (id_String v), id_String v])"
    using key_of_elements [OF k(1-3)] by blast
  obtain r' ds where 2: "\<forall>x\<in>set ds. path_slash \<notin> set x"
    "key_of p kind' u = (if r' then [path_slash] else []) @ join_with path_slash (ds @ [kind', take 2 (id_String u), id_String u])"
    using key_of_elements [OF k(4-6)] by blast
  have sp: "split_on path_slash (key_of p kind w) = (if r then [[]] else []) @ cs @ [kind, take 2 (id_String w), id_String w]"
    if "path_slash \<notin> set kind" "\<forall>x\<in>set cs. path_slash \<notin> set x"
      "key_of p kind w = (if r then [path_slash] else []) @ join_with path_slash (cs @ [kind, take 2 (id_String w), id_String w])"
    for r cs kind w
  proof -
    have "split_on path_slash (join_with path_slash (cs @ [kind, take 2 (id_String w), id_String w])) = cs @ [kind, take 2 (id_String w), id_String w]"
      by (rule split_join) (use that hex_no_slash(1) in \<open>auto dest: in_set_takeD\<close>)
    then show ?thesis using that(3) by simp
  qed
  have "(if r then [[]] else []) @ cs @ [kind, take 2 (id_String v), id_String v]
      = (if r' then [[]] else []) @ ds @ [kind', take 2 (id_String u), id_String u]"
    using sp [OF k(2) 1] sp [OF k(5) 2] assms(3) by metis
  then have "rev ((if r then [[]] else []) @ cs @ [kind, take 2 (id_String v), id_String v])
      = rev ((if r' then [[]] else []) @ ds @ [kind', take 2 (id_String u), id_String u])" by metis
  then have "kind = kind'" "id_String v = id_String u" by auto
  then show ?thesis using id_String_inj by blast
qed

lemma keys_inj:
  "actionKey p a = actionKey p b \<longleftrightarrow> a = b" "objectKey p v = objectKey p u \<longleftrightarrow> v = u" "actionKey p a \<noteq> objectKey p v"
  using key_of_inj [of "''action''" "''action''"] key_of_inj [of "''output''" "''output''"] key_of_inj [of "''action''" "''output''"]
  unfolding keys_key_of by auto

end
