(* ===== verification/Remote_Tier.thy ===== *)
theory Remote_Tier
  imports Remote
begin

text \<open>
  What the cache relies on of the shared tier, as a locale, and that the bucket implementation
  provides it. The AWS client is a parameter; \<open>s3_ok\<close> is its documented behaviour, read off a view
  of the buckets: a get returns what is stored, a put stores the whole body or reports an error,
  and a conditional put never replaces an object.
\<close>

type_synonym buckets = "string \<Rightarrow> string \<Rightarrow> bytes option"

definition stored :: "string \<Rightarrow> string \<Rightarrow> bytes \<Rightarrow> buckets \<Rightarrow> buckets" where
  "stored b k d V = V(b := (V b)(k \<mapsto> d))"

lemma stored_apply: "stored b k d V b' k' = (if b' = b \<and> k' = k then Some d else V b' k')"
  by (simp add: stored_def)

definition s3_ok :: "'r s3client \<Rightarrow> ('r \<Rightarrow> buckets) \<Rightarrow> bool" where
  "s3_ok C view \<longleftrightarrow>
     (\<forall>b k r q r'. s3_GetObject C b k r = (q, r') \<longrightarrow>
        view r' = view r \<and> (\<forall>d re ce n. q = Inr ((d, re, ce), n) \<longrightarrow>
          (\<exists>rest. view r b k = Some (d @ rest) \<and> (re = None \<longrightarrow> rest = []))))
     \<and> (\<forall>b k d n r e r'. s3_PutObject C b k d n False r = (e, r') \<longrightarrow>
          (view r' = view r \<or> view r' = stored b k d (view r)) \<and> (e = None \<longrightarrow> view r' = stored b k d (view r)))
     \<and> (\<forall>b k d n r e r'. s3_PutObject C b k d n True r = (e, r') \<longrightarrow>
          (view r' = view r \<or> view r b k = None \<and> view r' = stored b k d (view r))
          \<and> (e = None \<longrightarrow> view r b k = None \<and> view r' = stored b k d (view r))
          \<and> (\<forall>err. e = Some err \<longrightarrow> isPreconditionFailed err \<longrightarrow> view r b k \<noteq> None))"

section \<open>The contract\<close>

text \<open>
  \<open>objects\<close> and \<open>actions\<close> read the bodies and the action records off the tier's state; \<open>avail\<close> is
  what is assumed of the implementation's own dependency.
\<close>

locale shared_tier =
  fixes B :: "'r Backend" and avail :: bool
    and objects :: "'r \<Rightarrow> OutputID \<Rightarrow> bytes option" and actions :: "'r \<Rightarrow> ActionID \<Rightarrow> (OutputID \<times> int) option"
  assumes PutObject_keeps:
      "avail \<Longrightarrow> rb_PutObject B v d sz r = (e, r') \<Longrightarrow> actions r' = actions r \<and> (\<forall>u x. objects r u = Some x \<longrightarrow> objects r' u = Some x)"
    and PutObject_stores: "avail \<Longrightarrow> rb_PutObject B v d sz r = (None, r') \<Longrightarrow> objects r' v \<noteq> None"
    and PutAction_keeps:
      "avail \<Longrightarrow> in64 t \<Longrightarrow> rb_PutAction B a v t r = (e, r') \<Longrightarrow>
         objects r' = objects r \<and> (actions r' = actions r \<or> actions r' = (actions r)(a \<mapsto> (v, t)))"
    and PutAction_stores: "avail \<Longrightarrow> in64 t \<Longrightarrow> rb_PutAction B a v t r = (None, r') \<Longrightarrow> actions r' a = Some (v, t)"
begin

text \<open>A tier is complete when every action record points at a body it has.\<close>

definition complete :: "'r \<Rightarrow> bool" where
  "complete r \<longleftrightarrow> (\<forall>a v t. actions r a = Some (v, t) \<longrightarrow> objects r v \<noteq> None)"

lemma complete_PutObject: "avail \<Longrightarrow> complete r \<Longrightarrow> rb_PutObject B v d sz r = (e, r') \<Longrightarrow> complete r'"
  using PutObject_keeps [of v d sz r e r'] unfolding complete_def by (metis not_None_eq)

lemma complete_PutAction:
  "avail \<Longrightarrow> complete r \<Longrightarrow> objects r v \<noteq> None \<Longrightarrow> in64 t \<Longrightarrow> rb_PutAction B a v t r = (e, r') \<Longrightarrow> complete r'"
  using PutAction_keeps [of t a v r e r'] unfolding complete_def
  by (metis Pair_inject fun_upd_apply option.inject)

end

section \<open>The bucket provides it\<close>

definition s3_objects :: "'r S3 \<Rightarrow> ('r \<Rightarrow> buckets) \<Rightarrow> 'r \<Rightarrow> OutputID \<Rightarrow> bytes option" where
  "s3_objects s view r v = view r (s3_bucket s) (objectKey (s3_prefix s) v)"

definition s3_actions :: "'r S3 \<Rightarrow> ('r \<Rightarrow> buckets) \<Rightarrow> 'r \<Rightarrow> ActionID \<Rightarrow> (OutputID \<times> int) option" where
  "s3_actions s view r a =
     (case view r (s3_bucket s) (actionKey (s3_prefix s) a) of
        None \<Rightarrow> None
      | Some d \<Rightarrow> (case parseActionRecord (string_of_bytes (take 256 d)) of Inl _ \<Rightarrow> None | Inr x \<Rightarrow> Some x))"

lemma length_format_nat: "n < 10 ^ Suc k \<Longrightarrow> length (format_nat n) \<le> Suc k"
proof (induction k arbitrary: n)
  case 0
  then show ?case by (subst format_nat.simps) simp
next
  case (Suc k)
  then have "n div 10 < 10 ^ Suc k" by (simp add: less_mult_imp_div_less)
  then show ?case using Suc.IH [of "n div 10"] by (subst format_nat.simps) auto
qed

lemma length_FormatInt: "in64 t \<Longrightarrow> length (FormatInt t) \<le> 20"
proof -
  assume t: "in64 t"
  have "nat (- t) < 10 ^ Suc 18" "nat t < 10 ^ Suc 18" using t by (auto simp: in64_def nat_less_iff)
  then have "length (format_nat (nat (- t))) \<le> 19" "length (format_nat (nat t)) \<le> 19"
    using length_format_nat [of _ 18] by fastforce+
  then show ?thesis by (simp add: FormatInt_def)
qed

lemma action_record_fits: "in64 t \<Longrightarrow> take 256 (bytes_of_string (formatActionRecord v t)) = bytes_of_string (formatActionRecord v t)"
  using length_FormatInt [of t] by (simp add: formatActionRecord_def)

lemma s3_actions_stored:
  assumes "in64 t"
    and "view r' = stored (s3_bucket s) (actionKey (s3_prefix s) a) (bytes_of_string (formatActionRecord v t)) (view r)"
  shows "s3_actions s view r' = (s3_actions s view r)(a \<mapsto> (v, t))"
  using assms by (auto simp: s3_actions_def stored_apply keys_inj action_record_fits parse_format fun_eq_iff)

lemma s3_putObject_view:
  assumes "s3_ok (s3_client s) view" "s3_putObject s v d sz r = (e, r')"
  shows "view r' = view r \<or> view r (s3_bucket s) (objectKey (s3_prefix s) v) = None
      \<and> view r' = stored (s3_bucket s) (objectKey (s3_prefix s) v) d (view r)"
    "e = None \<Longrightarrow> view r' (s3_bucket s) (objectKey (s3_prefix s) v) \<noteq> None"
proof -
  obtain q r1 where q: "s3_PutObject (s3_client s) (s3_bucket s) (objectKey (s3_prefix s) v) d sz True r = (q, r1)" by fastforce
  have r1: "r1 = r'" "e = None \<longleftrightarrow> (\<forall>err. q = Some err \<longrightarrow> isPreconditionFailed err)"
    using assms(2) q by (auto simp: s3_putObject_def split: option.splits if_splits)
  note P = assms(1) [unfolded s3_ok_def, THEN conjunct2, THEN conjunct2, rule_format, OF q]
  show 1: "view r' = view r \<or> view r (s3_bucket s) (objectKey (s3_prefix s) v) = None
      \<and> view r' = stored (s3_bucket s) (objectKey (s3_prefix s) v) d (view r)"
    using P r1 by blast
  show "view r' (s3_bucket s) (objectKey (s3_prefix s) v) \<noteq> None" if "e = None"
    using P r1 1 that by (cases q) (auto simp: stored_apply)
qed

lemma s3_putAction_view:
  assumes "s3_ok (s3_client s) view" "s3_putAction s a v t r = (e, r')"
  shows "let put = stored (s3_bucket s) (actionKey (s3_prefix s) a) (bytes_of_string (formatActionRecord v t)) (view r) in
    (view r' = view r \<or> view r' = put) \<and> (e = None \<longrightarrow> view r' = put)"
proof -
  let ?b = "bytes_of_string (formatActionRecord v t)"
  obtain q r1 where q: "s3_PutObject (s3_client s) (s3_bucket s) (actionKey (s3_prefix s) a) ?b (int (length ?b)) False r = (q, r1)"
    by fastforce
  have r1: "r1 = r'" "e = None \<longleftrightarrow> q = None"
    using assms(2) q by (auto simp: s3_putAction_def Let_def split: option.splits)
  show ?thesis using assms(1) [unfolded s3_ok_def, THEN conjunct2, THEN conjunct1, rule_format, OF q] r1 by (simp add: Let_def)
qed

interpretation s3t: shared_tier "S3_Backend s" "s3_ok (s3_client s) view" "s3_objects s view" "s3_actions s view"
  for s :: "'r S3" and view
proof
  fix v d sz r e r'
  assume ok: "s3_ok (s3_client s) view" and p: "rb_PutObject (S3_Backend s) v d sz r = (e, r')"
  then have "s3_putObject s v d sz r = (e, r')" by (simp add: S3_Backend_def)
  note P = s3_putObject_view(1) [OF ok this]
  have "s3_actions s view r' = s3_actions s view r"
    using P by (auto simp: s3_actions_def stored_apply keys_inj fun_eq_iff)
  moreover have "s3_objects s view r' u = Some x" if "s3_objects s view r u = Some x" for u x
    using P that by (auto simp: s3_objects_def stored_apply)
  ultimately show "s3_actions s view r' = s3_actions s view r
    \<and> (\<forall>u x. s3_objects s view r u = Some x \<longrightarrow> s3_objects s view r' u = Some x)" by blast
next
  fix v d sz r r'
  assume ok: "s3_ok (s3_client s) view" and "rb_PutObject (S3_Backend s) v d sz r = (None, r')"
  then have "s3_putObject s v d sz r = (None, r')" by (simp add: S3_Backend_def)
  from s3_putObject_view(2) [OF ok this] show "s3_objects s view r' v \<noteq> None" by (simp add: s3_objects_def)
next
  fix t a v r e r'
  assume ok: "s3_ok (s3_client s) view" and t: "in64 t" and "rb_PutAction (S3_Backend s) a v t r = (e, r')"
  then have "s3_putAction s a v t r = (e, r')" by (simp add: S3_Backend_def)
  note P = s3_putAction_view [OF ok this, unfolded Let_def]
  have "s3_objects s view r' = s3_objects s view r"
    using P keys_inj(3) [of "s3_prefix s"] unfolding s3_objects_def fun_eq_iff by (metis stored_apply)
  moreover have "s3_actions s view r' = s3_actions s view r \<or> s3_actions s view r' = (s3_actions s view r)(a \<mapsto> (v, t))"
    using P s3_actions_stored [OF t, of view r' s a v r] by (auto simp: s3_actions_def)
  ultimately show "s3_objects s view r' = s3_objects s view r
    \<and> (s3_actions s view r' = s3_actions s view r \<or> s3_actions s view r' = (s3_actions s view r)(a \<mapsto> (v, t)))" by blast
next
  fix t a v r r'
  assume ok: "s3_ok (s3_client s) view" and t: "in64 t" and "rb_PutAction (S3_Backend s) a v t r = (None, r')"
  then have "s3_putAction s a v t r = (None, r')" by (simp add: S3_Backend_def)
  from s3_putAction_view [OF ok this, unfolded Let_def] s3_actions_stored [OF t]
  show "s3_actions s view r' a = Some (v, t)" by (metis fun_upd_same)
qed

text \<open>A client of the documented kind: one that keeps its buckets in memory.\<close>

definition ref_s3 :: "buckets s3client" where
  "ref_s3 =
     \<lparr>s3_GetObject = (\<lambda>b k V. case V b k of
          None \<Rightarrow> (Inl \<lparr>se_NoSuchKey = True, se_NotFound = False, se_ErrorCode = Some ''NoSuchKey'', se_HTTPStatusCode = Some 404\<rparr>, V)
        | Some d \<Rightarrow> (Inr ((d, None, None), Some (int (length d))), V)),
      s3_PutObject = (\<lambda>b k d n cond V.
          if cond \<and> V b k \<noteq> None
          then (Some \<lparr>se_NoSuchKey = False, se_NotFound = False, se_ErrorCode = Some ''PreconditionFailed'', se_HTTPStatusCode = Some 412\<rparr>, V)
          else (None, stored b k d V))\<rparr>"

lemma s3_ok_ref: "s3_ok ref_s3 id"
  by (auto simp: s3_ok_def ref_s3_def split: option.splits if_splits)

section \<open>Properties\<close>



text \<open>
  Keys never collide, under any prefix: two actions, or two outputs, have the same key only if
  they are the same, and no action record is at the key of a body.
\<close>

theorem remote_keys_distinct:
  "(actionKey p a = actionKey p b) = (a = b) \<and> (objectKey p v = objectKey p u) = (v = u) \<and> actionKey p a \<noteq> objectKey p v"
  using keys_inj by blast

end
