(* ===== verification/Config.thy ===== *)
theory Config
  imports Strconv
begin

text \<open>
  The resolved configuration (\<^verbatim>\<open>internal/config/config.go\<close>, type \<^verbatim>\<open>Config\<close>) and the values derived from
  it. A \<^verbatim>\<open>time.Duration\<close> is its nanoseconds.
\<close>

type_synonym LogLevel = int

definition LogOff :: LogLevel where "LogOff = 0"
definition LogError :: LogLevel where "LogError = 1"
definition LogInfo :: LogLevel where "LogInfo = 2"
definition LogDebug :: LogLevel where "LogDebug = 3"

definition LogLevel_String :: "LogLevel \<Rightarrow> string" where
  "LogLevel_String l =
     (if l = LogOff then ''off''
      else if l = LogError then ''error''
      else if l = LogInfo then ''info''
      else if l = LogDebug then ''debug''
      else ''unknown'')"

record Config =
  ConfigFile :: string
  Dir :: string
  MaxBytes :: int
  TTL :: int
  TouchGranularity :: int
  S3Bucket :: string
  S3Region :: string
  S3Prefix :: string
  S3EndpointURL :: string
  MinUploadSize :: int
  UploadConcurrency :: int
  UploadQueueDepth :: int
  UploadBlockTimeout :: int
  IdleTimeout :: int
  EvictInterval :: int
  CompactAfterPruned :: int
  BazelAddr :: string
  BazelGRPCAddr :: string
  PprofAddr :: string
  BazelMonitoring :: bool
  BazelInstanceNames :: "string list"
  DisableBazelVerify :: bool
  DisableEviction :: bool
  DisableDaemon :: bool
  Log :: LogLevel

definition RemoteEnabled :: "Config \<Rightarrow> bool" where
  "RemoteEnabled c \<longleftrightarrow> S3Bucket c \<noteq> []"

text \<open>On a Unix system \<^verbatim>\<open>filepath.Join\<close> is \<^verbatim>\<open>path.Join\<close>.\<close>

definition BlobDir :: "Config \<Rightarrow> string" where
  "BlobDir c = path_Join [Dir c, ''blob'']"

definition IndexDir :: "Config \<Rightarrow> string" where
  "IndexDir c = path_Join [Dir c, ''index'']"

definition LogPath :: "Config \<Rightarrow> string" where
  "LogPath c = path_Join [Dir c, ''plaid-cache.log'']"

end
