(* ===== verification/Presence.thy ===== *)
theory Presence
  imports Ids "HOL-Library.AList"
begin

text \<open>
  The memo of recent positive presence answers (\<^verbatim>\<open>internal/cache/presence.go\<close>). A shard is an
  association list with distinct keys; the generation is a \<^verbatim>\<open>uint64\<close> and wraps. The last section
  models the races the generation is there for.
\<close>

definition presenceTTL :: int where "presenceTTL = 60 * 1000000000"
definition presenceShards :: nat where "presenceShards = 64"
definition presenceShardCap :: nat where "presenceShardCap = 2 ^ 13"

record presenceEntry =
  pe_gen :: int
  pe_expires :: int
  pe_lastUsed :: int

type_synonym presenceShard = "(ActionID \<times> presenceEntry) list"

record presence =
  pr_gen :: int
  pr_shards :: "nat \<Rightarrow> presenceShard"
  pr_hits :: int
  pr_misses :: int

definition empty_presence :: presence where
  "empty_presence = \<lparr>pr_gen = 0, pr_shards = (\<lambda>_. []), pr_hits = 0, pr_misses = 0\<rparr>"

definition shard :: "ActionID \<Rightarrow> nat" where
  "shard a = unat (hd (id_bytes a)) mod presenceShards"

definition generation :: "presence \<Rightarrow> int" where
  "generation p = pr_gen p"

definition presence_lookup :: "presence \<Rightarrow> ActionID \<Rightarrow> int \<Rightarrow> int option \<times> presence" where
  "presence_lookup p a now =
     (let gen = pr_gen p in
      case map_of (pr_shards p (shard a)) a of
        None \<Rightarrow> (None, p\<lparr>pr_misses := add64 (pr_misses p) 1\<rparr>)
      | Some e \<Rightarrow>
          (if pe_gen e \<noteq> gen \<or> now \<ge> pe_expires e then (None, p\<lparr>pr_misses := add64 (pr_misses p) 1\<rparr>)
           else (Some (pe_lastUsed e), p\<lparr>pr_hits := add64 (pr_hits p) 1\<rparr>)))"

text \<open>What \<^verbatim>\<open>remember\<close> does to a full shard before it inserts.\<close>

definition makeRoom :: "int \<Rightarrow> int \<Rightarrow> presenceShard \<Rightarrow> presenceShard" where
  "makeRoom gen now m =
     (let m = (if length m \<ge> presenceShardCap
               then filter (\<lambda>(k, e). \<not> (now \<ge> pe_expires e \<or> pe_gen e \<noteq> gen)) m else m) in
      if length m \<ge> presenceShardCap then [] else m)"

definition remember :: "presence \<Rightarrow> ActionID \<Rightarrow> int \<Rightarrow> int \<Rightarrow> int \<Rightarrow> presence" where
  "remember p a gen now lastUsed =
     p\<lparr>pr_shards := (pr_shards p)(shard a :=
         AList.update a \<lparr>pe_gen = gen, pe_expires = add64 now presenceTTL, pe_lastUsed = lastUsed\<rparr>
           (makeRoom gen now (pr_shards p (shard a))))\<rparr>"

definition invalidate :: "presence \<Rightarrow> presence" where
  "invalidate p = p\<lparr>pr_gen := (pr_gen p + 1) mod 2 ^ 64\<rparr>"

record PresenceSnapshot =
  ps_Hits :: int
  ps_Misses :: int

definition presence_snapshot :: "presence \<Rightarrow> PresenceSnapshot" where
  "presence_snapshot p = \<lparr>ps_Hits = pr_hits p, ps_Misses = pr_misses p\<rparr>"

section \<open>The memo is bounded\<close>

definition presence_wf :: "presence \<Rightarrow> bool" where
  "presence_wf p \<longleftrightarrow> (\<forall>i. distinct (map fst (pr_shards p i)) \<and> length (pr_shards p i) \<le> presenceShardCap)
     \<and> (\<forall>i \<ge> presenceShards. pr_shards p i = [])"

lemma shard_bound: "shard a < presenceShards"
  by (simp add: shard_def presenceShards_def)

lemma length_update_le: "length (AList.update k v m) \<le> Suc (length m)"
  by (induction m) auto

lemma presence_wf_empty [simp]: "presence_wf empty_presence"
  by (simp add: presence_wf_def empty_presence_def)

lemma presence_wf_lookup: "presence_wf p \<Longrightarrow> presence_wf (snd (presence_lookup p a now))"
  by (simp add: presence_lookup_def Let_def presence_wf_def split: option.split)

lemma presence_wf_invalidate: "presence_wf p \<Longrightarrow> presence_wf (invalidate p)"
  by (simp add: invalidate_def presence_wf_def)

lemma makeRoom_length: "length (makeRoom g now m) < presenceShardCap"
  by (simp add: makeRoom_def Let_def presenceShardCap_def)

lemma map_of_filter_le: "distinct (map fst m) \<Longrightarrow> map_of (filter P m) k = Some e \<Longrightarrow> map_of m k = Some e"
  using map_of_SomeD [of "filter P m" k e] map_of_is_SomeI [of m k e] by auto

lemma makeRoom_sub:
  assumes "distinct (map fst m)"
  shows "distinct (map fst (makeRoom g now m))" "map_of (makeRoom g now m) k = Some e \<Longrightarrow> map_of m k = Some e"
  using assms map_of_filter_le [OF assms, of _ k e] by (auto simp: makeRoom_def Let_def distinct_map_filter split: if_splits)

lemma presence_wf_upd:
  "presence_wf p \<Longrightarrow> distinct (map fst m) \<Longrightarrow> length m \<le> presenceShardCap \<Longrightarrow> i < presenceShards
     \<Longrightarrow> presence_wf (p\<lparr>pr_shards := (pr_shards p)(i := m)\<rparr>)"
  by (simp add: presence_wf_def)

lemma presence_wf_remember: "presence_wf p \<Longrightarrow> presence_wf (remember p a gen now lastUsed)"
  unfolding remember_def
proof (rule presence_wf_upd)
  assume wf: "presence_wf p"
  let ?m = "makeRoom gen now (pr_shards p (shard a))"
  have "distinct (map fst ?m)" using wf by (intro makeRoom_sub) (simp add: presence_wf_def)
  then show "distinct (map fst (AList.update a v ?m))" for v by (rule distinct_update)
  show "length (AList.update a v ?m) \<le> presenceShardCap" for v
    using length_update_le [of a v ?m] makeRoom_length [of gen now "pr_shards p (shard a)"] by linarith
qed (auto intro: shard_bound)

section \<open>What the memo answers\<close>

text \<open>\<open>fresh p now a t\<close>: the memo answers \<open>t\<close> for \<open>a\<close> at \<open>now\<close>.\<close>

definition fresh :: "presence \<Rightarrow> int \<Rightarrow> ActionID \<Rightarrow> int \<Rightarrow> bool" where
  "fresh p now a t \<longleftrightarrow> (\<exists>e. map_of (pr_shards p (shard a)) a = Some e \<and> pe_gen e = pr_gen p \<and> now < pe_expires e \<and> pe_lastUsed e = t)"

text \<open>\<open>current p a\<close>: there is an answer of the current generation, expired or not.\<close>

definition current :: "presence \<Rightarrow> ActionID \<Rightarrow> bool" where
  "current p a \<longleftrightarrow> (\<exists>e. map_of (pr_shards p (shard a)) a = Some e \<and> pe_gen e = pr_gen p)"

lemma presence_lookup_iff: "fst (presence_lookup p a now) = Some t \<longleftrightarrow> fresh p now a t"
  by (auto simp: presence_lookup_def Let_def fresh_def not_le split: option.splits)

lemma presence_lookup_None: "fst (presence_lookup p a now) = None \<longleftrightarrow> (\<forall>t. \<not> fresh p now a t)"
  by (metis not_None_eq presence_lookup_iff)

lemma fresh_current: "fresh p now a t \<Longrightarrow> current p a"
  by (auto simp: fresh_def current_def)

lemma current_lookup [simp]: "current (snd (presence_lookup p b now)) a \<longleftrightarrow> current p a"
  by (simp add: presence_lookup_def Let_def current_def split: option.split)

lemma gen_lookup [simp]: "pr_gen (snd (presence_lookup p b now)) = pr_gen p"
  by (simp add: presence_lookup_def Let_def split: option.split)

lemma gen_remember [simp]: "pr_gen (remember p a g now t) = pr_gen p"
  by (simp add: remember_def Let_def)

lemma remember_other:
  assumes "presence_wf p" "map_of (pr_shards (remember p a g now t) (shard b)) b = Some e" "b \<noteq> a"
  shows "map_of (pr_shards p (shard b)) b = Some e"
proof (cases "shard b = shard a")
  case True
  have "distinct (map fst (pr_shards p (shard a)))" using assms(1) by (simp add: presence_wf_def)
  moreover have "map_of (makeRoom g now (pr_shards p (shard a))) b = Some e"
    using assms(2,3) True by (simp add: remember_def update_conv')
  ultimately show ?thesis using makeRoom_sub(2) True by metis
next
  case False
  then show ?thesis using assms(2) by (simp add: remember_def)
qed

lemma remember_self:
  "map_of (pr_shards (remember p a g now t) (shard a)) a = Some \<lparr>pe_gen = g, pe_expires = add64 now presenceTTL, pe_lastUsed = t\<rparr>"
  by (simp add: remember_def update_conv')

lemma current_remember:
  assumes "presence_wf p" "current (remember p a g now t) b"
  shows "current p b \<or> b = a \<and> g = pr_gen p"
proof (cases "b = a")
  case True
  then show ?thesis using assms(2) by (auto simp: current_def remember_self)
next
  case False
  then show ?thesis using assms remember_other [OF assms(1) _ False] by (auto simp: current_def)
qed

text \<open>Generations only grow until the counter wraps, so nothing older is current after an invalidation.\<close>

definition gens_ok :: "presence \<Rightarrow> bool" where
  "gens_ok p \<longleftrightarrow> 0 \<le> pr_gen p \<and> pr_gen p < 2 ^ 64
     \<and> (\<forall>a e. map_of (pr_shards p (shard a)) a = Some e \<longrightarrow> pe_gen e \<le> pr_gen p)"

lemma gens_ok_empty [simp]: "gens_ok empty_presence"
  by (simp add: gens_ok_def empty_presence_def)

lemma gens_ok_lookup: "gens_ok p \<Longrightarrow> gens_ok (snd (presence_lookup p a now))"
  by (simp add: presence_lookup_def Let_def gens_ok_def split: option.split)

lemma gens_ok_remember: "presence_wf p \<Longrightarrow> gens_ok p \<Longrightarrow> g \<le> pr_gen p \<Longrightarrow> gens_ok (remember p a g now t)"
  unfolding gens_ok_def
proof (intro conjI allI impI)
  fix b e
  assume *: "presence_wf p" "0 \<le> pr_gen p \<and> pr_gen p < 2 ^ 64
     \<and> (\<forall>a e. map_of (pr_shards p (shard a)) a = Some e \<longrightarrow> pe_gen e \<le> pr_gen p)" "g \<le> pr_gen p"
    "map_of (pr_shards (remember p a g now t) (shard b)) b = Some e"
  show "pe_gen e \<le> pr_gen (remember p a g now t)"
  proof (cases "b = a")
    case True
    then show ?thesis using * by (auto simp: remember_self)
  next
    case False
    then show ?thesis using * remember_other [OF *(1,4)] by simp
  qed
qed auto

lemma gens_ok_invalidate: "gens_ok p \<Longrightarrow> pr_gen p + 1 < 2 ^ 64 \<Longrightarrow> gens_ok (invalidate p)"
  by (force simp: gens_ok_def invalidate_def)

lemma invalidate_current: "gens_ok p \<Longrightarrow> pr_gen p + 1 < 2 ^ 64 \<Longrightarrow> \<not> current (invalidate p) a"
  by (force simp: gens_ok_def invalidate_def current_def)

section \<open>Probes racing removals\<close>

text \<open>
  A probe (\<^verbatim>\<open>Has\<close>) reads the generation, then verifies the entry and its body, then remembers the
  answer; a removal (a repair or an eviction) takes the entry or the body away and invalidates the
  memo afterwards. Each is one step here, in any interleaving of any number of probes and
  removals. \<open>rc_here\<close> are the actions whose entry and body are in place, \<open>rc_owed\<close> counts the
  removals whose invalidation is still to come.
\<close>

record race =
  rc_here :: "ActionID set"
  rc_memo :: presence
  rc_probing :: "(ActionID \<times> int) list"
  rc_verified :: "(ActionID \<times> int) list"
  rc_owed :: nat

inductive probe_step :: "race \<Rightarrow> race \<Rightarrow> bool" where
  read_generation:
    "probe_step s (s\<lparr>rc_probing := (a, generation (rc_memo s)) # rc_probing s\<rparr>)"
| verify:
    "(a, g) \<in> set (rc_probing s) \<Longrightarrow> a \<in> rc_here s \<Longrightarrow> probe_step s (s\<lparr>rc_verified := (a, g) # rc_verified s\<rparr>)"
| remembers:
    "(a, g) \<in> set (rc_verified s) \<Longrightarrow> probe_step s (s\<lparr>rc_memo := remember (rc_memo s) a g now t\<rparr>)"
| probes:
    "probe_step s (s\<lparr>rc_memo := snd (presence_lookup (rc_memo s) a now)\<rparr>)"
| store:
    "probe_step s (s\<lparr>rc_here := insert a (rc_here s)\<rparr>)"
| take_away:
    "probe_step s (s\<lparr>rc_here := rc_here s - {a}, rc_owed := Suc (rc_owed s)\<rparr>)"
| invalidates:
    "rc_owed s = Suc n \<Longrightarrow> pr_gen (rc_memo s) + 1 < 2 ^ 64
       \<Longrightarrow> probe_step s (s\<lparr>rc_memo := invalidate (rc_memo s), rc_owed := n\<rparr>)"

definition race_inv :: "race \<Rightarrow> bool" where
  "race_inv s \<longleftrightarrow>
     presence_wf (rc_memo s) \<and> gens_ok (rc_memo s)
     \<and> (\<forall>a g. (a, g) \<in> set (rc_probing s) \<or> (a, g) \<in> set (rc_verified s) \<longrightarrow> g \<le> pr_gen (rc_memo s))
     \<and> (rc_owed s = 0 \<longrightarrow>
          (\<forall>a. current (rc_memo s) a \<longrightarrow> a \<in> rc_here s)
          \<and> (\<forall>a. (a, pr_gen (rc_memo s)) \<in> set (rc_verified s) \<longrightarrow> a \<in> rc_here s))"

lemma race_inv_invalidates:
  assumes "race_inv s" "rc_owed s = Suc n" "pr_gen (rc_memo s) + 1 < 2 ^ 64"
  shows "race_inv (s\<lparr>rc_memo := invalidate (rc_memo s), rc_owed := n\<rparr>)"
proof -
  have gen: "pr_gen (invalidate (rc_memo s)) = pr_gen (rc_memo s) + 1"
    using assms(1,3) by (simp add: race_inv_def gens_ok_def invalidate_def)
  have ok: "presence_wf (invalidate (rc_memo s))" "gens_ok (invalidate (rc_memo s))" "\<not> current (invalidate (rc_memo s)) a" for a
    using assms by (auto simp: race_inv_def presence_wf_invalidate gens_ok_invalidate invalidate_current)
  have old: "g \<le> pr_gen (rc_memo s)" if "(a, g) \<in> set (rc_probing s) \<or> (a, g) \<in> set (rc_verified s)" for a g
    using assms(1) that by (auto simp: race_inv_def)
  then have "(a, pr_gen (rc_memo s) + 1) \<notin> set (rc_verified s)" for a by fastforce
  moreover have "g \<le> pr_gen (rc_memo s) + 1" if "(a, g) \<in> set (rc_probing s) \<or> (a, g) \<in> set (rc_verified s)" for a g
    using old [OF that] by simp
  ultimately show ?thesis using ok unfolding race_inv_def by (simp add: gen)
qed

lemma race_inv_step: "probe_step s s' \<Longrightarrow> race_inv s \<Longrightarrow> race_inv s'"
proof (induction rule: probe_step.induct)
  case (remembers a g s now t)
  then have g: "g \<le> pr_gen (rc_memo s)" by (auto simp: race_inv_def)
  show ?case
    using remembers current_remember [of "rc_memo s" a g now t] presence_wf_remember [of "rc_memo s" a g now t]
      gens_ok_remember [of "rc_memo s" g a now t] g
    unfolding race_inv_def by (simp, blast)
next
  case (invalidates s n)
  then show ?case by (intro race_inv_invalidates)
next
  case (probes s a now)
  then show ?case using presence_wf_lookup gens_ok_lookup by (auto simp: race_inv_def)
qed (auto simp: race_inv_def generation_def)

definition idle_race :: "ActionID set \<Rightarrow> race" where
  "idle_race A = \<lparr>rc_here = A, rc_memo = empty_presence, rc_probing = [], rc_verified = [], rc_owed = 0\<rparr>"

lemma race_inv_idle: "race_inv (idle_race A)"
  by (auto simp: race_inv_def idle_race_def current_def empty_presence_def gens_ok_def presence_wf_def)

lemma race_inv_reachable: "probe_step\<^sup>*\<^sup>* s s' \<Longrightarrow> race_inv s \<Longrightarrow> race_inv s'"
  by (induction rule: rtranclp_induct) (blast intro: race_inv_step)+

section \<open>Properties\<close>

text \<open>
  C32. The memo never vouches for what the process has removed: in every interleaving of probes,
  stores and removals, once no removal still owes its invalidation, an action the memo answers
  for has its entry and its body in place. (The generation counter is assumed not to wrap.)
\<close>

theorem presence_survives_races:
  assumes "probe_step\<^sup>*\<^sup>* (idle_race A) s" "rc_owed s = 0" "fst (presence_lookup (rc_memo s) a now) = Some t"
  shows "a \<in> rc_here s"
proof -
  have "race_inv s" by (rule race_inv_reachable [OF assms(1) race_inv_idle])
  moreover have "current (rc_memo s) a" using assms(3) by (auto simp: presence_lookup_iff dest: fresh_current)
  ultimately show ?thesis using assms(2) by (simp add: race_inv_def)
qed

theorem presence_survives_races_witness:
  "\<exists>s. probe_step\<^sup>*\<^sup>* (idle_race {copy_id [7]}) s \<and> fst (presence_lookup (rc_memo s) (copy_id [7]) 5) = Some 3
     \<and> copy_id [7] \<in> rc_here s"
proof -
  let ?a = "copy_id [7]"
  let ?s0 = "idle_race {?a}"
  let ?s1 = "?s0\<lparr>rc_probing := (?a, generation (rc_memo ?s0)) # rc_probing ?s0\<rparr>"
  let ?s2 = "?s1\<lparr>rc_verified := (?a, 0) # rc_verified ?s1\<rparr>"
  let ?s3 = "?s2\<lparr>rc_memo := remember (rc_memo ?s2) ?a 0 1 3\<rparr>"
  have 1: "probe_step ?s0 ?s1" by (rule probe_step.read_generation)
  have 2: "probe_step ?s1 ?s2" by (rule probe_step.verify) (simp_all add: idle_race_def generation_def empty_presence_def)
  have 3: "probe_step ?s2 ?s3" by (rule probe_step.remembers) simp
  have r: "probe_step\<^sup>*\<^sup>* ?s0 ?s3" 
    by (rule rtranclp_trans, rule r_into_rtranclp, rule 1, rule rtranclp_trans, rule r_into_rtranclp, rule 2, rule r_into_rtranclp, rule 3)
  have f: "fst (presence_lookup (rc_memo ?s3) ?a 5) = Some 3"
    by (simp add: presence_lookup_iff fresh_def remember_self presenceTTL_def add64_def wrap64_def idle_race_def empty_presence_def)
  have "rc_owed ?s3 = 0" by (simp add: idle_race_def)
  then show ?thesis using presence_survives_races [OF r _ f] r f by blast
qed

text \<open>
  The memo is bounded: whatever sequence of lookups, answers and invalidations, each of its 64
  shards holds at most 8192 distinct actions.
\<close>

theorem presence_bounded:
  assumes "presence_wf p"
  shows "presence_wf (remember p a gen now lastUsed) \<and> presence_wf (invalidate p)
    \<and> presence_wf (snd (presence_lookup p a now)) \<and> presence_wf empty_presence
    \<and> (\<Sum>i<presenceShards. length (pr_shards p i)) \<le> 524288"
proof -
  have "(\<Sum>i<presenceShards. length (pr_shards p i)) \<le> (\<Sum>i<presenceShards. presenceShardCap)"
    using assms by (intro sum_mono) (simp add: presence_wf_def)
  also have "\<dots> = 524288" by (simp add: presenceShards_def presenceShardCap_def)
  finally show ?thesis
    using assms presence_wf_remember presence_wf_invalidate presence_wf_lookup by simp
qed

theorem presence_bounded_witness:
  "presence_wf (remember empty_presence (copy_id [7]) 0 1 3)"
  using presence_bounded [OF presence_wf_empty] by blast

end
