(* ===== verification/Toucher.thy ===== *)
theory Toucher
  imports Index_Theorems
begin

text \<open>
  The queue of deferred last-used refreshes (\<^verbatim>\<open>internal/cache/touch.go\<close>): a bounded channel, the set
  of actions queued or being written, and one goroutine that writes batches. The \<^verbatim>\<open>touch\<close> function
  field is a parameter here as there; the cache passes \<^verbatim>\<open>Index.TouchMany\<close>. \<open>T actions now granularity w\<close>
  is its error and the state after it.
\<close>

definition touchQueueDepth :: nat where "touchQueueDepth = 4096"
definition touchBatchSize :: nat where "touchBatchSize = 256"

record toucher =
  t_granularity :: int
  t_queue :: "ActionID list"
  t_pending :: "ActionID set"
  t_done :: bool

type_synonym 'w touch_fun = "ActionID list \<Rightarrow> int \<Rightarrow> int \<Rightarrow> 'w \<Rightarrow> error option \<times> 'w"

definition newToucher :: "int \<Rightarrow> toucher" where
  "newToucher granularity = \<lparr>t_granularity = granularity, t_queue = [], t_pending = {}, t_done = False\<rparr>"

definition toucher_forget :: "ActionID \<Rightarrow> toucher \<Rightarrow> toucher" where
  "toucher_forget a t = t\<lparr>t_pending := t_pending t - {a}\<rparr>"

text \<open>\<^verbatim>\<open>enqueue\<close> up to the insertion into \<^verbatim>\<open>pending\<close>; \<open>None\<close> is an early return.\<close>

definition enqueue_admit :: "int \<Rightarrow> toucher \<Rightarrow> ActionID \<Rightarrow> int \<Rightarrow> toucher option" where
  "enqueue_admit now t a lastUsedAt =
     (if t_granularity t > 0 \<and> sub64 now lastUsedAt < t_granularity t then None
      else if t_done t then None
      else if a \<in> t_pending t then None
      else Some (t\<lparr>t_pending := insert a (t_pending t)\<rparr>))"

text \<open>
  Its final \<^verbatim>\<open>select\<close>. When the channel has room and \<^verbatim>\<open>done\<close> was closed meanwhile, Go picks either
  case; \<open>pick\<close> is that choice.
\<close>

definition enqueue_send :: "bool \<Rightarrow> toucher \<Rightarrow> ActionID \<Rightarrow> toucher" where
  "enqueue_send pick t a =
     (if length (t_queue t) < touchQueueDepth \<and> (t_done t \<longrightarrow> pick) then t\<lparr>t_queue := t_queue t @ [a]\<rparr>
      else toucher_forget a t)"

definition toucher_enqueue :: "int \<Rightarrow> ActionID \<Rightarrow> int \<Rightarrow> toucher \<Rightarrow> toucher" where
  "toucher_enqueue now a lastUsedAt t =
     (case enqueue_admit now t a lastUsedAt of None \<Rightarrow> t | Some t' \<Rightarrow> enqueue_send True t' a)"

definition toucher_batch :: "ActionID \<Rightarrow> toucher \<Rightarrow> ActionID list \<times> toucher" where
  "toucher_batch first t =
     (first # take (touchBatchSize - 1) (t_queue t), t\<lparr>t_queue := drop (touchBatchSize - 1) (t_queue t)\<rparr>)"

definition toucher_apply :: "'w touch_fun \<Rightarrow> int \<Rightarrow> ActionID list \<Rightarrow> toucher \<Rightarrow> 'w \<Rightarrow> toucher \<times> 'w" where
  "toucher_apply T now actions t w =
     (let (err, w') = T actions now (t_granularity t) w in (fold toucher_forget actions t, w'))"

lemma fold_forget:
  "fold toucher_forget as t = t\<lparr>t_pending := t_pending t - set as\<rparr>"
proof (induction as arbitrary: t)
  case (Cons a as)
  have "t_pending t - {a} - set as = t_pending t - set (a # as)" by auto
  then show ?case using Cons by (simp add: toucher_forget_def)
qed simp

text \<open>\<open>now i\<close> is the time the \<open>i\<close>-th batch is written at.\<close>

function (sequential) toucher_drain :: "'w touch_fun \<Rightarrow> (nat \<Rightarrow> int) \<Rightarrow> nat \<Rightarrow> toucher \<Rightarrow> 'w \<Rightarrow> toucher \<times> 'w" where
  "toucher_drain T now i t w =
     (case t_queue t of
        [] \<Rightarrow> (t, w)
      | a # q \<Rightarrow>
          (let (actions, t1) = toucher_batch a (t\<lparr>t_queue := q\<rparr>);
               (t2, w') = toucher_apply T (now i) actions t1 w in
           toucher_drain T now (Suc i) t2 w'))"
  by pat_completeness auto

termination
  by (relation "measure (\<lambda>(T, now, i, t, w). length (t_queue t))")
    (auto simp: toucher_batch_def toucher_apply_def fold_forget toucher_forget_def split: prod.splits)

declare toucher_drain.simps [simp del]

text \<open>\<^verbatim>\<open>close\<close>, with the goroutine it waits for: \<^verbatim>\<open>run\<close> sees \<^verbatim>\<open>done\<close> and drains.\<close>

definition toucher_close :: "'w touch_fun \<Rightarrow> (nat \<Rightarrow> int) \<Rightarrow> toucher \<Rightarrow> 'w \<Rightarrow> toucher \<times> 'w" where
  "toucher_close T now t w =
     (if t_done t then (t, w) else toucher_drain T now 0 (t\<lparr>t_done := True\<rparr>) w)"

text \<open>One turn of \<^verbatim>\<open>run\<close> on a non-empty queue.\<close>

definition toucher_run :: "'w touch_fun \<Rightarrow> int \<Rightarrow> toucher \<Rightarrow> 'w \<Rightarrow> toucher \<times> 'w" where
  "toucher_run T now t w =
     (case t_queue t of
        [] \<Rightarrow> (t, w)
      | a # q \<Rightarrow>
          (let (actions, t1) = toucher_batch a (t\<lparr>t_queue := q\<rparr>) in toucher_apply T now actions t1 w))"

lemma batch_take: "t_queue t = a # q \<Longrightarrow>
  toucher_batch a (t\<lparr>t_queue := q\<rparr>) = (take touchBatchSize (t_queue t), t\<lparr>t_queue := drop touchBatchSize (t_queue t)\<rparr>)"
  by (simp add: toucher_batch_def touchBatchSize_def)

lemma drain_step:
  "t_queue t \<noteq> [] \<Longrightarrow> toucher_drain T now i t w =
     (case T (take touchBatchSize (t_queue t)) (now i) (t_granularity t) w of (err, w') \<Rightarrow>
        toucher_drain T now (Suc i)
          (t\<lparr>t_queue := drop touchBatchSize (t_queue t), t_pending := t_pending t - set (take touchBatchSize (t_queue t))\<rparr>) w')"
proof -
  assume "t_queue t \<noteq> []"
  then obtain a q where q: "t_queue t = a # q" by (cases "t_queue t") auto
  show ?thesis
    by (subst toucher_drain.simps) (simp add: q batch_take [OF q] toucher_apply_def fold_forget split: prod.split)
qed

section \<open>The interface to the index\<close>

text \<open>What the toucher needs of the function it calls: it keeps an invariant of the state.\<close>

locale touch_sink =
  fixes T :: "'w touch_fun" and I :: "'w \<Rightarrow> bool"
  assumes keeps_I: "I w \<Longrightarrow> in64 now \<Longrightarrow> T actions now g w = (err, w') \<Longrightarrow> I w'"
begin

lemma run_keeps: "I w \<Longrightarrow> in64 now \<Longrightarrow> toucher_run T now t w = (t', w') \<Longrightarrow> I w'"
  by (auto simp: toucher_run_def toucher_apply_def Let_def dest: keeps_I split: list.splits prod.splits)

lemma drain_keeps:
  "toucher_drain T now i t w = (t', w') \<Longrightarrow> I w \<Longrightarrow> (\<And>i. in64 (now i))
     \<Longrightarrow> I w' \<and> t_queue t' = [] \<and> t_pending t' = t_pending t - set (t_queue t) \<and> t_done t' = t_done t"
proof (induction "length (t_queue t)" arbitrary: t i w rule: less_induct)
  case less
  show ?case
  proof (cases "t_queue t")
    case Nil
    then show ?thesis using less.prems by (subst (asm) toucher_drain.simps) simp
  next
    case (Cons a q)
    then have ne: "t_queue t \<noteq> []" by simp
    obtain err w1 where T: "T (take touchBatchSize (t_queue t)) (now i) (t_granularity t) w = (err, w1)" by fastforce
    let ?t = "t\<lparr>t_queue := drop touchBatchSize (t_queue t), t_pending := t_pending t - set (take touchBatchSize (t_queue t))\<rparr>"
    have d: "toucher_drain T now (Suc i) ?t w1 = (t', w')" using less.prems(1) drain_step [OF ne, of T now i w] T by simp
    have "length (t_queue ?t) < length (t_queue t)" using Cons by (simp add: touchBatchSize_def)
    from less.hyps [OF this d keeps_I [OF less.prems(2,3) T] less.prems(3)]
    have "I w' \<and> t_queue t' = [] \<and> t_pending t' = t_pending ?t - set (t_queue ?t) \<and> t_done t' = t_done ?t" .
    moreover have "set (t_queue t) = set (take touchBatchSize (t_queue t)) \<union> set (drop touchBatchSize (t_queue t))"
      by (metis append_take_drop_id set_append)
    ultimately show ?thesis by auto
  qed
qed

end

definition index_touch :: "'db pebble \<Rightarrow> 'db index touch_fun" where
  "index_touch P actions now g ix =
     (case Index_TouchMany P ix actions now g of
        (Inl err, ix') \<Rightarrow> (Some err, ix')
      | (Inr n, ix') \<Rightarrow> (None, ix'))"

lemma index_touch_repr:
  assumes "pebble_ok P" "repr P ix s" "in64 now" "index_touch P acts now g ix = (err, ix')"
  shows "repr P ix' (if err = None then touch_all acts now g s else s) \<and> ix_closed ix' = ix_closed ix"
proof (cases "Index_TouchMany P ix acts now g")
  case (Pair r ix1)
  show ?thesis
  proof (cases r)
    case (Inl e)
    then show ?thesis using Pair assms TouchMany_error [of P ix acts now g e ix1] by (auto simp: index_touch_def)
  next
    case (Inr n)
    then show ?thesis using Pair assms TouchMany_refines [OF assms(1-3), of acts g n ix1] by (auto simp: index_touch_def)
  qed
qed

text \<open>The index keeps its representation, hence any property of the entries that ignores \<^verbatim>\<open>LastUsedAt\<close>.\<close>

definition same_outputs :: "ispec \<Rightarrow> ispec \<Rightarrow> bool" where
  "same_outputs s s' \<longleftrightarrow> cost s' = cost s \<and> (\<forall>a. map_option OutputID (ents s' a) = map_option OutputID (ents s a))"

lemma same_outputs_refl [simp]: "same_outputs s s"
  by (simp add: same_outputs_def)

lemma same_outputs_trans: "same_outputs a b \<Longrightarrow> same_outputs b c \<Longrightarrow> same_outputs a c"
  by (simp add: same_outputs_def)

lemma spec_touch_same: "same_outputs s (spec_touch a now g s)"
  by (auto simp: same_outputs_def spec_touch_def split: option.splits)

lemma touch_all_same: "same_outputs s (touch_all acts now g s)"
  by (induction acts arbitrary: s) (auto intro: same_outputs_trans spec_touch_same)

definition touched_from :: "'db pebble \<Rightarrow> ispec \<Rightarrow> bool \<Rightarrow> 'db index \<Rightarrow> bool" where
  "touched_from P s0 cl ix \<longleftrightarrow> ix_closed ix = cl \<and> (\<exists>s. repr P ix s \<and> same_outputs s0 s)"

interpretation tch: touch_sink "index_touch P" "\<lambda>ix. pebble_ok P \<and> touched_from P s0 cl ix"
  for P :: "'db pebble" and s0 cl
proof
  fix w w' :: "'db index" and now acts g err
  assume "pebble_ok P \<and> touched_from P s0 cl w" "in64 now" "index_touch P acts now g w = (err, w')"
  then show "pebble_ok P \<and> touched_from P s0 cl w'"
    using index_touch_repr [of P w _ now acts g err w'] touch_all_same same_outputs_trans
    unfolding touched_from_def by (metis (full_types))
qed

section \<open>Readers, the writer and the shutdown interleaved\<close>

text \<open>
  \<open>tc_sending\<close> are the calls of \<^verbatim>\<open>enqueue\<close> between their two halves, \<open>tc_running\<close> the batch the
  goroutine is writing.
\<close>

record touch_sys =
  tc_t :: toucher
  tc_sending :: "ActionID list"
  tc_running :: "ActionID list"

inductive touch_step :: "touch_sys \<Rightarrow> touch_sys \<Rightarrow> bool" where
  admit:
    "enqueue_admit now (tc_t s) a lastUsedAt = Some t \<Longrightarrow> touch_step s (s\<lparr>tc_t := t, tc_sending := a # tc_sending s\<rparr>)"
| send:
    "tc_sending s = xs @ a # ys \<Longrightarrow> touch_step s (s\<lparr>tc_t := enqueue_send pick (tc_t s) a, tc_sending := xs @ ys\<rparr>)"
| begin_batch:
    "tc_running s = [] \<Longrightarrow> t_queue (tc_t s) = a # q \<Longrightarrow> toucher_batch a ((tc_t s)\<lparr>t_queue := q\<rparr>) = (actions, t)
       \<Longrightarrow> touch_step s (s\<lparr>tc_t := t, tc_running := actions\<rparr>)"
| end_batch:
    "touch_step s (s\<lparr>tc_t := fold toucher_forget (tc_running s) (tc_t s), tc_running := []\<rparr>)"
| closing:
    "touch_step s (s\<lparr>tc_t := (tc_t s)\<lparr>t_done := True\<rparr>\<rparr>)"

definition touch_inv :: "touch_sys \<Rightarrow> bool" where
  "touch_inv s \<longleftrightarrow>
     distinct (t_queue (tc_t s) @ tc_running s @ tc_sending s)
     \<and> t_pending (tc_t s) = set (t_queue (tc_t s) @ tc_running s @ tc_sending s)
     \<and> length (t_queue (tc_t s)) \<le> touchQueueDepth \<and> length (tc_running s) \<le> touchBatchSize"

lemma touch_inv_batch:
  assumes "touch_inv s" "tc_running s = []" "t_queue (tc_t s) = a # q"
    "toucher_batch a ((tc_t s)\<lparr>t_queue := q\<rparr>) = (actions, t)"
  shows "touch_inv (s\<lparr>tc_t := t, tc_running := actions\<rparr>)"
proof -
  let ?q = "t_queue (tc_t s)" and ?n = touchBatchSize
  have at: "actions = take ?n ?q" "t = (tc_t s)\<lparr>t_queue := drop ?n ?q\<rparr>"
    using batch_take [OF assms(3)] assms(4) by auto
  have d: "distinct ?q" "distinct (tc_sending s)" "set ?q \<inter> set (tc_sending s) = {}"
    "t_pending (tc_t s) = set ?q \<union> set (tc_sending s)" "length ?q \<le> touchQueueDepth"
    using assms(1,2) by (auto simp: touch_inv_def)
  have "distinct (drop ?n ?q @ take ?n ?q @ tc_sending s)"
    using d(1-3) set_take_disj_set_drop_if_distinct [OF d(1), of ?n ?n] by (auto dest: in_set_takeD in_set_dropD)
  moreover have "set (drop ?n ?q) \<union> set (take ?n ?q) = set ?q" by (metis Un_commute append_take_drop_id set_append)
  ultimately show ?thesis using at d(4,5) by (auto simp: touch_inv_def)
qed

lemma touch_inv_step: "touch_step s s' \<Longrightarrow> touch_inv s \<Longrightarrow> touch_inv s'"
proof (induction rule: touch_step.induct)
  case (begin_batch s a q actions t)
  then show ?case by (intro touch_inv_batch)
next
  case (send s xs a ys pick)
  then show ?case by (auto simp: touch_inv_def enqueue_send_def toucher_forget_def)
qed (auto simp: touch_inv_def enqueue_admit_def fold_forget split: if_splits)

lemma touch_inv_reachable: "touch_step\<^sup>*\<^sup>* s s' \<Longrightarrow> touch_inv s \<Longrightarrow> touch_inv s'"
  by (induction rule: rtranclp_induct) (blast intro: touch_inv_step)+

definition idle_toucher :: "int \<Rightarrow> touch_sys" where
  "idle_toucher g = \<lparr>tc_t = newToucher g, tc_sending = [], tc_running = []\<rparr>"

lemma touch_inv_idle: "touch_inv (idle_toucher g)"
  by (simp add: touch_inv_def idle_toucher_def newToucher_def)

section \<open>What a drain writes\<close>

lemma spec_touch_ents:
  "ents (spec_touch a now g s) b =
     (if b = a then map_option (\<lambda>e. if touch_due now g e then e\<lparr>LastUsedAt := now\<rparr> else e) (ents s b) else ents s b)"
  by (auto simp: spec_touch_def split: option.splits)

lemma touch_all_ents:
  "ents (touch_all acts now g s) b =
     (if b \<in> set acts then map_option (\<lambda>e. if touch_due now g e then e\<lparr>LastUsedAt := now\<rparr> else e) (ents s b) else ents s b)"
proof (induction acts arbitrary: s)
  case (Cons a acts)
  have "\<not> touch_due now g (e\<lparr>LastUsedAt := now\<rparr>)" for e by (simp add: touch_due_def)
  then show ?case using Cons by (auto simp: spec_touch_ents option.map_comp o_def intro!: option.map_cong)
qed simp

lemma drain_touches:
  assumes "pebble_ok P" "pebble_healthy P" "\<And>i. in64 (now i)"
  shows "repr P ix s \<Longrightarrow> \<not> ix_closed ix \<Longrightarrow> distinct (t_queue t) \<Longrightarrow> toucher_drain (index_touch P) now i t ix = (t', ix')
    \<Longrightarrow> \<exists>s'. repr P ix' s' \<and> (\<forall>a. a \<notin> set (t_queue t) \<longrightarrow> ents s' a = ents s a)
      \<and> (\<forall>a e. a \<in> set (t_queue t) \<longrightarrow> ents s a = Some e \<longrightarrow> (\<forall>i. touch_due (now i) (t_granularity t) e)
           \<longrightarrow> (\<exists>i. ents s' a = Some (e\<lparr>LastUsedAt := now i\<rparr>)))"
proof (induction "length (t_queue t)" arbitrary: t i ix s rule: less_induct)
  case less
  show ?case
  proof (cases "t_queue t = []")
    case True
    then show ?thesis using less.prems by (subst (asm) toucher_drain.simps) auto
  next
    case False
    let ?h = "take touchBatchSize (t_queue t)" and ?r = "drop touchBatchSize (t_queue t)" and ?g = "t_granularity t"
    let ?t = "t\<lparr>t_queue := ?r, t_pending := t_pending t - set ?h\<rparr>"
    obtain err ix1 where T: "index_touch P ?h (now i) ?g ix = (err, ix1)" by fastforce
    have ok: "err = None"
      using T TouchMany_healthy [OF assms(1,2) less.prems(1,2), of ?h "now i" ?g] by (auto simp: index_touch_def)
    have s1: "repr P ix1 (touch_all ?h (now i) ?g s)" "\<not> ix_closed ix1"
      using index_touch_repr [OF assms(1) less.prems(1) assms(3) T] ok less.prems(2) by auto
    have d: "toucher_drain (index_touch P) now (Suc i) ?t ix1 = (t', ix')"
      using less.prems(4) drain_step [OF False, of "index_touch P" now i ix] T by simp
    have len: "length (t_queue ?t) < length (t_queue t)" using False by (simp add: touchBatchSize_def)
    have split: "set (t_queue t) = set ?h \<union> set ?r" by (metis append_take_drop_id set_append)
    have disj: "set ?h \<inter> set ?r = {}" using less.prems(3) by (simp add: set_take_disj_set_drop_if_distinct)
    have "distinct (t_queue ?t)" using less.prems(3) by simp
    from less.hyps [OF len s1 this d] obtain s' where s': "repr P ix' s'"
      and same: "\<And>a. a \<notin> set ?r \<Longrightarrow> ents s' a = ents (touch_all ?h (now i) ?g s) a"
      and due: "\<And>a e. a \<in> set ?r \<Longrightarrow> ents (touch_all ?h (now i) ?g s) a = Some e \<Longrightarrow> \<forall>i. touch_due (now i) ?g e
        \<Longrightarrow> \<exists>i. ents s' a = Some (e\<lparr>LastUsedAt := now i\<rparr>)" by auto
    show ?thesis
    proof (intro exI [of _ s'] conjI allI impI)
      show "repr P ix' s'" by (rule s')
      fix a
      show "ents s' a = ents s a" if "a \<notin> set (t_queue t)"
        using that split same [of a] by (simp add: touch_all_ents)
      fix e
      assume a: "a \<in> set (t_queue t)" "ents s a = Some e" "\<forall>i. touch_due (now i) ?g e"
      show "\<exists>i. ents s' a = Some (e\<lparr>LastUsedAt := now i\<rparr>)"
      proof (cases "a \<in> set ?h")
        case True
        then have "a \<notin> set ?r" using disj by blast
        then show ?thesis using same [of a] True a by (auto simp: touch_all_ents)
      next
        case False
        then show ?thesis using due [of a e] a split by (auto simp: touch_all_ents)
      qed
    qed
  qed
qed

section \<open>Properties\<close>

text \<open>
  C33. An action is queued at most once while it is queued or being written, and the queue is
  bounded: in every interleaving of readers that enqueue, the writer that takes and finishes
  batches, and the shutdown, the queued, running and about-to-be-sent actions are distinct, they
  are exactly the pending set, at most 4096 wait and at most 256 are in a batch.
\<close>

theorem toucher_queued_once:
  assumes "touch_step\<^sup>*\<^sup>* (idle_toucher g) s"
  shows "distinct (t_queue (tc_t s) @ tc_running s @ tc_sending s)
    \<and> t_pending (tc_t s) = set (t_queue (tc_t s)) \<union> set (tc_running s) \<union> set (tc_sending s)
    \<and> length (t_queue (tc_t s)) \<le> 4096 \<and> length (tc_running s) \<le> 256"
  using touch_inv_reachable [OF assms touch_inv_idle]
  by (auto simp: touch_inv_def touchQueueDepth_def touchBatchSize_def)

theorem toucher_queued_once_witness:
  "let s = (idle_toucher 10)\<lparr>tc_t := (newToucher 10)\<lparr>t_pending := {copy_id [7]}\<rparr>, tc_sending := [copy_id [7]]\<rparr> in
     touch_step\<^sup>*\<^sup>* (idle_toucher 10) s \<and> distinct (t_queue (tc_t s) @ tc_running s @ tc_sending s)"
proof -
  let ?s = "(idle_toucher 10)\<lparr>tc_t := (newToucher 10)\<lparr>t_pending := {copy_id [7]}\<rparr>, tc_sending := [copy_id [7]]\<rparr>"
  have "touch_step (idle_toucher 10)
      ((idle_toucher 10)\<lparr>tc_t := (newToucher 10)\<lparr>t_pending := {copy_id [7]}\<rparr>, tc_sending := copy_id [7] # tc_sending (idle_toucher 10)\<rparr>)"
    by (rule touch_step.admit [where now = 100 and lastUsedAt = 5])
      (simp add: enqueue_admit_def idle_toucher_def newToucher_def sub64_def wrap64_def)
  then have r: "touch_step\<^sup>*\<^sup>* (idle_toucher 10) ?s" by (simp add: idle_toucher_def)
  then show ?thesis using toucher_queued_once [OF r] by (simp add: Let_def)
qed

text \<open>
  C34. Closing the toucher loses no accepted refresh: on a store whose calls succeed it ends with an
  empty queue and nothing pending, every queued action whose entry was due carries the time its
  batch was written at, and no other entry has changed.
\<close>

theorem toucher_close_drains:
  assumes "pebble_ok P" "pebble_healthy P" "repr P ix s" "\<not> ix_closed ix" "\<And>i. in64 (now i)"
    and "\<not> t_done t" "distinct (t_queue t)" "t_pending t = set (t_queue t)"
    and "toucher_close (index_touch P) now t ix = (t', ix')"
  shows "t_queue t' = [] \<and> t_pending t' = {} \<and> t_done t'
    \<and> (\<exists>s'. repr P ix' s' \<and> (\<forall>a. a \<notin> set (t_queue t) \<longrightarrow> ents s' a = ents s a)
         \<and> (\<forall>a e. a \<in> set (t_queue t) \<longrightarrow> ents s a = Some e \<longrightarrow> (\<forall>i. touch_due (now i) (t_granularity t) e)
              \<longrightarrow> (\<exists>i. ents s' a = Some (e\<lparr>LastUsedAt := now i\<rparr>))))"
proof -
  let ?t = "t\<lparr>t_done := True\<rparr>"
  have d: "toucher_drain (index_touch P) now 0 ?t ix = (t', ix')" using assms(6,9) by (simp add: toucher_close_def)
  have "pebble_ok P \<and> touched_from P s False ix" using assms(1,3,4) by (auto simp: touched_from_def)
  from tch.drain_keeps [OF d this assms(5)]
  have "t_queue t' = [] \<and> t_pending t' = {} \<and> t_done t'" using assms(8) by simp
  moreover have dq: "distinct (t_queue ?t)" using assms(7) by simp
  ultimately show ?thesis using drain_touches [OF assms(1,2,5,3,4) dq d] by simp
qed

theorem toucher_close_drains_witness:
  "\<exists>t' ix' s' i. toucher_close (index_touch ref_pebble) (\<lambda>i. 100 + int (min i 9))
       ((newToucher 10)\<lparr>t_queue := [demo_id 1], t_pending := {demo_id 1}\<rparr>) demo_index = (t', ix')
     \<and> t_queue t' = [] \<and> repr ref_pebble ix' s' \<and> ents s' (demo_id 1) = Some ((demo_entry 7 20)\<lparr>LastUsedAt := 100 + int (min i 9)\<rparr>)"
proof -
  let ?t = "(newToucher 10)\<lparr>t_queue := [demo_id 1], t_pending := {demo_id 1}\<rparr>" and ?now = "\<lambda>i. 100 + int (min i 9)"
  obtain t' ix' where c: "toucher_close (index_touch ref_pebble) ?now ?t demo_index = (t', ix')" by fastforce
  have e: "ents demo_spec (demo_id 1) = Some (demo_entry 7 20)" by (simp add: demo_spec_def)
  have due: "\<forall>i. touch_due (?now i) (t_granularity ?t) (demo_entry 7 20)"
    by (simp add: touch_due_def demo_entry_def newToucher_def)
  have hyps: "\<And>i. in64 (?now i)" "\<not> t_done ?t" "distinct (t_queue ?t)" "t_pending ?t = set (t_queue ?t)"
    by (auto simp: in64_def newToucher_def min_def)
  from toucher_close_drains [OF pebble_ok_ref pebble_healthy_ref repr_demo demo_open hyps c] e due c
  show ?thesis by (auto simp: newToucher_def)
qed

end
