(* ===== verification/Activity.thy ===== *)
theory Activity
  imports Index_Ops
begin

text \<open>
  The counters of \<^verbatim>\<open>internal/index/activity.go\<close>: the ten \<^verbatim>\<open>int64\<close> counters the cache reports and
  persists, and their arithmetic with Go's wrap-around.
\<close>

record Activity =
  GetLocalHit :: int
  GetRemoteHit :: int
  GetMiss :: int
  GetRepair :: int
  Put :: int
  UploadOK :: int
  UploadFail :: int
  UploadDrop :: int
  UploadSkip :: int
  Compactions :: int

definition zero_Activity :: Activity where
  "zero_Activity =
     \<lparr>GetLocalHit = 0, GetRemoteHit = 0, GetMiss = 0, GetRepair = 0, Put = 0, UploadOK = 0, UploadFail = 0,
      UploadDrop = 0, UploadSkip = 0, Compactions = 0\<rparr>"

definition Activity_Add :: "Activity \<Rightarrow> Activity \<Rightarrow> Activity" where
  "Activity_Add a b =
     \<lparr>GetLocalHit = add64 (GetLocalHit a) (GetLocalHit b),
      GetRemoteHit = add64 (GetRemoteHit a) (GetRemoteHit b),
      GetMiss = add64 (GetMiss a) (GetMiss b),
      GetRepair = add64 (GetRepair a) (GetRepair b),
      Put = add64 (Put a) (Put b),
      UploadOK = add64 (UploadOK a) (UploadOK b),
      UploadFail = add64 (UploadFail a) (UploadFail b),
      UploadDrop = add64 (UploadDrop a) (UploadDrop b),
      UploadSkip = add64 (UploadSkip a) (UploadSkip b),
      Compactions = add64 (Compactions a) (Compactions b)\<rparr>"

definition Activity_Sub :: "Activity \<Rightarrow> Activity \<Rightarrow> Activity" where
  "Activity_Sub a b =
     \<lparr>GetLocalHit = sub64 (GetLocalHit a) (GetLocalHit b),
      GetRemoteHit = sub64 (GetRemoteHit a) (GetRemoteHit b),
      GetMiss = sub64 (GetMiss a) (GetMiss b),
      GetRepair = sub64 (GetRepair a) (GetRepair b),
      Put = sub64 (Put a) (Put b),
      UploadOK = sub64 (UploadOK a) (UploadOK b),
      UploadFail = sub64 (UploadFail a) (UploadFail b),
      UploadDrop = sub64 (UploadDrop a) (UploadDrop b),
      UploadSkip = sub64 (UploadSkip a) (UploadSkip b),
      Compactions = sub64 (Compactions a) (Compactions b)\<rparr>"

definition Activity_IsZero :: "Activity \<Rightarrow> bool" where
  "Activity_IsZero a \<longleftrightarrow> a = zero_Activity"

definition Activity_Lookups :: "Activity \<Rightarrow> int" where
  "Activity_Lookups a = add64 (add64 (GetLocalHit a) (GetRemoteHit a)) (GetMiss a)"

definition Activity_Hits :: "Activity \<Rightarrow> int" where
  "Activity_Hits a = add64 (GetLocalHit a) (GetRemoteHit a)"

text \<open>A counter set whose fields are \<^verbatim>\<open>int64\<close> values.\<close>

definition Activity64 :: "Activity \<Rightarrow> bool" where
  "Activity64 a \<longleftrightarrow> in64 (GetLocalHit a) \<and> in64 (GetRemoteHit a) \<and> in64 (GetMiss a) \<and> in64 (GetRepair a)
     \<and> in64 (Put a) \<and> in64 (UploadOK a) \<and> in64 (UploadFail a) \<and> in64 (UploadDrop a) \<and> in64 (UploadSkip a)
     \<and> in64 (Compactions a)"

lemma Activity64_Add [simp]: "Activity64 (Activity_Add a b)"
  by (simp add: Activity64_def Activity_Add_def add64_def)

lemma Activity64_zero [simp]: "Activity64 zero_Activity"
  by (simp add: Activity64_def zero_Activity_def)

text \<open>A delta added back gives the later snapshot, even across a wrap-around.\<close>

lemma add64_sub64: "in64 x \<Longrightarrow> add64 y (sub64 x y) = x"
  by (simp add: add64_def sub64_def wrap_simps)

lemma add64_assoc: "add64 (add64 x y) z = add64 x (add64 y z)"
  by (simp add: add64_def wrap_simps add.assoc)

lemma add64_comm: "add64 x y = add64 y x"
  by (simp add: add64_def add.commute)

lemma Activity_Add_Sub: "Activity64 a \<Longrightarrow> Activity_Add b (Activity_Sub a b) = a"
  by (simp add: Activity_Add_def Activity_Sub_def Activity64_def add64_sub64)

lemma Activity_Add_assoc: "Activity_Add (Activity_Add a b) c = Activity_Add a (Activity_Add b c)"
  by (simp add: Activity_Add_def add64_assoc)

lemma Activity_Add_zero [simp]: "Activity64 a \<Longrightarrow> Activity_Add a zero_Activity = a"
  by (simp add: Activity_Add_def Activity64_def zero_Activity_def add64_def wrap64_id)

lemma sub64_eq_0_iff: "in64 x \<Longrightarrow> in64 y \<Longrightarrow> sub64 x y = 0 \<longleftrightarrow> x = y"
proof
  assume xy: "in64 x" "in64 y" and "sub64 x y = 0"
  then have "add64 y (sub64 x y) = y" by (simp add: add64_def wrap64_id)
  then show "x = y" using add64_sub64 [OF xy(1), of y] by simp
qed (simp add: sub64_def wrap64_def)

lemma Activity_Sub_zero_iff:
  "Activity64 a \<Longrightarrow> Activity64 b \<Longrightarrow> Activity_IsZero (Activity_Sub a b) \<longleftrightarrow> a = b"
  by (cases a; cases b)
    (auto simp: Activity_IsZero_def Activity_Sub_def Activity64_def zero_Activity_def sub64_eq_0_iff)

end
