(* ===== verification/Uploader.thy ===== *)
theory Uploader
  imports Activity Os Remote_Tier
begin

text \<open>
  The background uploader (\<^verbatim>\<open>internal/cache/cache.go\<close>, type \<^verbatim>\<open>uploader\<close>): a bounded queue, a pool of
  workers, and the accounting of what was uploaded, skipped, failed or dropped. How a bounded wait
  for room ends is a choice of the environment.
\<close>

definition queueDepthPerWorker :: int where "queueDepthPerWorker = 64"
definition dropLogInterval :: int where "dropLogInterval = 30 * 1000000000"

record uploadJob =
  job_action :: ActionID
  job_output :: OutputID
  job_path :: string
  job_size :: int
  job_mtime :: int

record uploader =
  u_jobs :: "uploadJob list"
  u_cap :: nat
  u_workers :: nat
  u_blockFor :: int
  u_closed :: bool
  u_droppedSinceLog :: int
  u_loggedAt :: int

definition newUploader :: "int \<Rightarrow> int \<Rightarrow> int \<Rightarrow> uploader" where
  "newUploader workers depth blockFor =
     (let workers = (if workers < 1 then 1 else workers);
          depth = (if depth < 1 then queueDepthPerWorker else depth) in
      \<lparr>u_jobs = [], u_cap = nat (workers * depth), u_workers = nat workers, u_blockFor = blockFor, u_closed = False,
       u_droppedSinceLog = 0, u_loggedAt = 0\<rparr>)"

definition uploader_queue :: "uploader \<Rightarrow> nat \<times> nat" where
  "uploader_queue u = (length (u_jobs u), u_cap u)"

text \<open>\<^verbatim>\<open>dropped\<close>; the third component is the count the log line carries, when one is written.\<close>

definition uploader_dropped :: "int \<Rightarrow> uploader \<Rightarrow> Activity \<Rightarrow> uploader \<times> Activity \<times> int option" where
  "uploader_dropped now u m =
     (let m = m\<lparr>UploadDrop := add64 (UploadDrop m) 1\<rparr>;
          n = add64 (u_droppedSinceLog u) 1;
          u = u\<lparr>u_droppedSinceLog := n\<rparr>;
          last = u_loggedAt u in
      if sub64 now last < dropLogInterval then (u, m, None)
      else (u\<lparr>u_loggedAt := now, u_droppedSinceLog := add64 n (- n)\<rparr>, m, Some n))"

text \<open>\<^verbatim>\<open>submit\<close> up to the bounded wait; \<open>None\<close> is that it has to wait.\<close>

definition submit_try :: "int \<Rightarrow> uploadJob \<Rightarrow> uploader \<Rightarrow> Activity \<Rightarrow> (uploader \<times> Activity) option" where
  "submit_try now j u m =
     (if u_closed u then Some (u, m\<lparr>UploadDrop := add64 (UploadDrop m) 1\<rparr>)
      else if length (u_jobs u) < u_cap u then Some (u\<lparr>u_jobs := u_jobs u @ [j]\<rparr>, m)
      else if u_blockFor u \<le> 0 then (let (u, m, _) = uploader_dropped now u m in Some (u, m))
      else None)"

datatype wait_end = Room | Timeout | Quit

definition submit_wait :: "wait_end \<Rightarrow> int \<Rightarrow> uploadJob \<Rightarrow> uploader \<Rightarrow> Activity \<Rightarrow> uploader \<times> Activity" where
  "submit_wait w now j u m =
     (case w of
        Room \<Rightarrow> (u\<lparr>u_jobs := u_jobs u @ [j]\<rparr>, m)
      | Timeout \<Rightarrow> (let (u, m, _) = uploader_dropped now u m in (u, m))
      | Quit \<Rightarrow> (let (u, m, _) = uploader_dropped now u m in (u, m)))"

text \<open>
  The whole of \<^verbatim>\<open>submit\<close>, with what happens to the uploader during a wait: \<open>during\<close> is its state and
  how the wait ended.
\<close>

definition uploader_submit ::
  "(uploader \<Rightarrow> uploader \<times> wait_end) \<Rightarrow> int \<Rightarrow> uploadJob \<Rightarrow> uploader \<Rightarrow> Activity \<Rightarrow> uploader \<times> Activity" where
  "uploader_submit during now j u m =
     (case submit_try now j u m of
        Some r \<Rightarrow> r
      | None \<Rightarrow> (let (u, w) = during u in submit_wait w now j u m))"

text \<open>\<^verbatim>\<open>run\<close>: \<open>superseded\<close> is the function field, set by \<^verbatim>\<open>New\<close>.\<close>

definition uploader_run ::
  "osenv \<Rightarrow> 'r Backend \<Rightarrow> (ActionID \<Rightarrow> OutputID \<Rightarrow> bool) \<Rightarrow> uploadJob \<Rightarrow> fsys \<Rightarrow> Activity \<Rightarrow> 'r \<Rightarrow> fsys \<times> Activity \<times> 'r" where
  "uploader_run E B superseded j fs m r =
     (case os_Open E (job_path j) fs of
        (Inl err, fs) \<Rightarrow>
          (if err = ErrNotExist \<and> superseded (job_action j) (job_output j)
           then (fs, m\<lparr>UploadSkip := add64 (UploadSkip m) 1\<rparr>, r)
           else (fs, m\<lparr>UploadFail := add64 (UploadFail m) 1\<rparr>, r))
      | (Inr f, fs) \<Rightarrow>
          (let (m, r) =
             (case rb_PutObject B (job_output j) (i_data (fs_inode fs (f_ino f))) (job_size j) r of
                (Some err, r) \<Rightarrow> (m\<lparr>UploadFail := add64 (UploadFail m) 1\<rparr>, r)
              | (None, r) \<Rightarrow>
                  (case rb_PutAction B (job_action j) (job_output j) (job_mtime j) r of
                     (Some err, r) \<Rightarrow> (m\<lparr>UploadFail := add64 (UploadFail m) 1\<rparr>, r)
                   | (None, r) \<Rightarrow> (m\<lparr>UploadOK := add64 (UploadOK m) 1\<rparr>, r)));
             (_, fs) = os_Close E f fs in
           (fs, m, r)))"

text \<open>\<^verbatim>\<open>close\<close> with the workers it waits for: the queue is drained in order.\<close>

fun uploader_drain ::
  "osenv \<Rightarrow> 'r Backend \<Rightarrow> (ActionID \<Rightarrow> OutputID \<Rightarrow> bool) \<Rightarrow> uploadJob list \<Rightarrow> fsys \<Rightarrow> Activity \<Rightarrow> 'r \<Rightarrow> fsys \<times> Activity \<times> 'r" where
  "uploader_drain E B spd [] fs m r = (fs, m, r)"
| "uploader_drain E B spd (j # js) fs m r =
     (let (fs, m, r) = uploader_run E B spd j fs m r in uploader_drain E B spd js fs m r)"

definition uploader_close ::
  "osenv \<Rightarrow> 'r Backend \<Rightarrow> (ActionID \<Rightarrow> OutputID \<Rightarrow> bool) \<Rightarrow> uploader \<Rightarrow> fsys \<Rightarrow> Activity \<Rightarrow> 'r
     \<Rightarrow> uploader \<times> fsys \<times> Activity \<times> 'r" where
  "uploader_close E B spd u fs m r =
     (if u_closed u then (u, fs, m, r)
      else let (fs, m, r) = uploader_drain E B spd (u_jobs u) fs m r in (u\<lparr>u_closed := True, u_jobs := []\<rparr>, fs, m, r))"

section \<open>What a run does\<close>

lemma run_same_files: "uploader_run E B spd j fs m r = (fs', m', r') \<Longrightarrow> same_files fs fs'"
proof -
  assume run: "uploader_run E B spd j fs m r = (fs', m', r')"
  obtain q fs1 where o: "os_Open E (job_path j) fs = (q, fs1)" by fastforce
  have s1: "same_files fs fs1" using os_Open_cases [OF o] by blast
  show ?thesis
  proof (cases q)
    case (Inl e)
    then show ?thesis using run o s1 by (auto simp: uploader_run_def split: if_splits)
  next
    case (Inr f)
    obtain c fs2 where c: "os_Close E f fs1 = (c, fs2)" by fastforce
    then have "fs' = fs2" using run o Inr by (auto simp: uploader_run_def Let_def split: prod.splits)
    then show ?thesis using s1 os_Close_same [OF c] same_files_trans by blast
  qed
qed

text \<open>Each run is counted once, under one of three outcomes.\<close>

definition counted :: "Activity \<Rightarrow> Activity \<Rightarrow> bool" where
  "counted m m' \<longleftrightarrow>
     m' = m\<lparr>UploadOK := add64 (UploadOK m) 1\<rparr> \<or> m' = m\<lparr>UploadFail := add64 (UploadFail m) 1\<rparr>
     \<or> m' = m\<lparr>UploadSkip := add64 (UploadSkip m) 1\<rparr>"

lemma run_counted: "uploader_run E B spd j fs m r = (fs', m', r') \<Longrightarrow> counted m m'"
  by (auto simp: uploader_run_def counted_def Let_def split: prod.splits sum.splits if_splits option.splits)

context shared_tier
begin

lemma run_complete:
  assumes "avail" "complete r" "in64 (job_mtime j)" "uploader_run E B spd j fs m r = (fs', m', r')"
  shows "complete r'"
proof -
  obtain q fs1 where o: "os_Open E (job_path j) fs = (q, fs1)" by fastforce
  show ?thesis
  proof (cases q)
    case (Inl e)
    then show ?thesis using assms(2,4) o by (auto simp: uploader_run_def split: if_splits)
  next
    case (Inr f)
    let ?d = "i_data (fs_inode fs1 (f_ino f))"
    obtain po r1 where po: "rb_PutObject B (job_output j) ?d (job_size j) r = (po, r1)" by fastforce
    have c1: "complete r1" by (rule complete_PutObject [OF assms(1,2) po])
    show ?thesis
    proof (cases po)
      case (Some err)
      then have "r' = r1" using assms(4) o Inr po by (auto simp: uploader_run_def Let_def split: prod.splits)
      then show ?thesis using c1 by simp
    next
      case None
      obtain pa r2 where pa: "rb_PutAction B (job_action j) (job_output j) (job_mtime j) r1 = (pa, r2)" by fastforce
      have "r' = r2" using assms(4) o Inr po None pa by (auto simp: uploader_run_def Let_def split: prod.splits option.splits)
      moreover have "objects r1 (job_output j) \<noteq> None" using PutObject_stores [OF assms(1)] po None by blast
      ultimately show ?thesis using complete_PutAction [OF assms(1) c1 _ assms(3) pa] by simp
    qed
  qed
qed

lemma drain_complete:
  "avail \<Longrightarrow> complete r \<Longrightarrow> (\<forall>j\<in>set js. in64 (job_mtime j)) \<Longrightarrow> uploader_drain E B spd js fs m r = (fs', m', r') \<Longrightarrow> complete r'"
proof (induction js arbitrary: fs m r)
  case (Cons j js)
  obtain fs1 m1 r1 where run: "uploader_run E B spd j fs m r = (fs1, m1, r1)" by (metis prod_cases3)
  have "complete r1" using run_complete [OF Cons.prems(1,2) _ run] Cons.prems(3) by simp
  then show ?case using Cons.IH [of r1 fs1 m1] Cons.prems run by simp
qed simp

end

section \<open>Every submission is accounted for\<close>

text \<open>
  Submitters, waiters, workers and the shutdown, interleaved. \<open>us_submitted\<close> counts the calls of
  \<^verbatim>\<open>submit\<close>; a submitter in its bounded wait holds the read lock, so the shutdown starts when none is.
\<close>

record upload_sys =
  us_u :: uploader
  us_m :: Activity
  us_waiting :: "uploadJob list"
  us_running :: "uploadJob list"
  us_submitted :: nat

inductive upload_step :: "upload_sys \<Rightarrow> upload_sys \<Rightarrow> bool" where
  submit:
    "submit_try now j (us_u s) (us_m s) = Some (u, m)
       \<Longrightarrow> upload_step s (s\<lparr>us_u := u, us_m := m, us_submitted := Suc (us_submitted s)\<rparr>)"
| start_wait:
    "submit_try now j (us_u s) (us_m s) = None
       \<Longrightarrow> upload_step s (s\<lparr>us_waiting := j # us_waiting s, us_submitted := Suc (us_submitted s)\<rparr>)"
| end_wait:
    "us_waiting s = xs @ j # ys \<Longrightarrow> (w = Room \<Longrightarrow> length (u_jobs (us_u s)) < u_cap (us_u s))
       \<Longrightarrow> submit_wait w now j (us_u s) (us_m s) = (u, m)
       \<Longrightarrow> upload_step s (s\<lparr>us_u := u, us_m := m, us_waiting := xs @ ys\<rparr>)"
| start_run:
    "u_jobs (us_u s) = j # js \<Longrightarrow> length (us_running s) < u_workers (us_u s)
       \<Longrightarrow> upload_step s (s\<lparr>us_u := (us_u s)\<lparr>u_jobs := js\<rparr>, us_running := j # us_running s\<rparr>)"
| end_run:
    "us_running s = xs @ j # ys \<Longrightarrow> counted (us_m s) m \<Longrightarrow> upload_step s (s\<lparr>us_m := m, us_running := xs @ ys\<rparr>)"
| shut:
    "us_waiting s = [] \<Longrightarrow> upload_step s (s\<lparr>us_u := (us_u s)\<lparr>u_closed := True\<rparr>\<rparr>)"

definition outcomes :: "Activity \<Rightarrow> int" where
  "outcomes m = UploadOK m + UploadFail m + UploadDrop m + UploadSkip m"

definition in_flight :: "upload_sys \<Rightarrow> int" where
  "in_flight s = int (length (u_jobs (us_u s)) + length (us_waiting s) + length (us_running s))"

definition outcomes_nonneg :: "Activity \<Rightarrow> bool" where
  "outcomes_nonneg m \<longleftrightarrow> 0 \<le> UploadOK m \<and> 0 \<le> UploadFail m \<and> 0 \<le> UploadDrop m \<and> 0 \<le> UploadSkip m"

definition upload_inv :: "upload_sys \<Rightarrow> bool" where
  "upload_inv s \<longleftrightarrow>
     (int (us_submitted s) < 2 ^ 63 \<longrightarrow> outcomes_nonneg (us_m s) \<and> outcomes (us_m s) + in_flight s = int (us_submitted s))
     \<and> length (u_jobs (us_u s)) \<le> u_cap (us_u s)"

lemma bump: "0 \<le> x \<Longrightarrow> x + 1 < 2 ^ 63 \<Longrightarrow> add64 x 1 = x + 1"
  by (rule add64_exact) (simp add: in64_def)

lemma counted_outcomes:
  assumes "counted m m'" "outcomes_nonneg m" "outcomes m + 1 < 2 ^ 63"
  shows "outcomes m' = outcomes m + 1 \<and> outcomes_nonneg m'"
  using assms by (auto simp: counted_def outcomes_def outcomes_nonneg_def bump)

lemma dropped_outcomes:
  assumes "uploader_dropped now u m = (u', m', l)"
  shows "m' = m\<lparr>UploadDrop := add64 (UploadDrop m) 1\<rparr>" "u_jobs u' = u_jobs u" "u_cap u' = u_cap u"
  using assms by (auto simp: uploader_dropped_def Let_def split: if_splits)

lemma drop_outcomes:
  assumes "outcomes_nonneg m" "outcomes m + 1 < 2 ^ 63"
  shows "outcomes (m\<lparr>UploadDrop := add64 (UploadDrop m) 1\<rparr>) = outcomes m + 1"
    "outcomes_nonneg (m\<lparr>UploadDrop := add64 (UploadDrop m) 1\<rparr>)"
  using assms by (auto simp: outcomes_def outcomes_nonneg_def bump)

text \<open>A call of \<^verbatim>\<open>submit\<close> that returns has queued its job or counted it as dropped.\<close>

lemma submit_try_cases:
  assumes "submit_try now j u m = Some (u', m')"
  shows "(u_jobs u' = u_jobs u @ [j] \<and> length (u_jobs u) < u_cap u \<and> m' = m
      \<or> u_jobs u' = u_jobs u \<and> m' = m\<lparr>UploadDrop := add64 (UploadDrop m) 1\<rparr>) \<and> u_cap u' = u_cap u"
proof -
  obtain u1 m1 l where d: "uploader_dropped now u m = (u1, m1, l)" by (metis prod_cases3)
  show ?thesis using assms dropped_outcomes [OF d] d by (auto simp: submit_try_def split: if_splits)
qed

lemma submit_wait_cases:
  assumes "submit_wait w now j u m = (u', m')"
  shows "(w = Room \<and> u_jobs u' = u_jobs u @ [j] \<and> m' = m
      \<or> u_jobs u' = u_jobs u \<and> m' = m\<lparr>UploadDrop := add64 (UploadDrop m) 1\<rparr>) \<and> u_cap u' = u_cap u"
proof -
  obtain u1 m1 l where d: "uploader_dropped now u m = (u1, m1, l)" by (metis prod_cases3)
  show ?thesis using assms dropped_outcomes [OF d] d by (cases w) (auto simp: submit_wait_def)
qed

lemma upload_inv_step: "upload_step s s' \<Longrightarrow> upload_inv s \<Longrightarrow> upload_inv s'"
proof (induction rule: upload_step.induct)
  case (submit now j s u m)
  show ?case using submit_try_cases [OF submit(1)] submit(2) drop_outcomes [of "us_m s"]
    by (auto simp: upload_inv_def in_flight_def)
next
  case (start_wait now j s)
  then show ?case by (auto simp: upload_inv_def in_flight_def)
next
  case (end_wait s xs j ys w now u m)
  show ?case using submit_wait_cases [OF end_wait(3)] end_wait(1,2,4) drop_outcomes [of "us_m s"]
    by (auto simp: upload_inv_def in_flight_def)
next
  case (start_run s j js)
  then show ?case by (auto simp: upload_inv_def in_flight_def)
next
  case (end_run s xs j ys m)
  then show ?case using counted_outcomes [OF end_run(2)] by (auto simp: upload_inv_def in_flight_def)
next
  case (shut s)
  then show ?case by (auto simp: upload_inv_def in_flight_def)
qed

lemma upload_inv_reachable: "upload_step\<^sup>*\<^sup>* s s' \<Longrightarrow> upload_inv s \<Longrightarrow> upload_inv s'"
  by (induction rule: rtranclp_induct) (blast intro: upload_inv_step)+

definition idle_uploads :: "int \<Rightarrow> int \<Rightarrow> int \<Rightarrow> upload_sys" where
  "idle_uploads workers depth blockFor =
     \<lparr>us_u = newUploader workers depth blockFor, us_m = zero_Activity, us_waiting = [], us_running = [], us_submitted = 0\<rparr>"

lemma upload_inv_idle: "upload_inv (idle_uploads workers depth blockFor)"
  by (simp add: upload_inv_def idle_uploads_def newUploader_def Let_def outcomes_def outcomes_nonneg_def zero_Activity_def in_flight_def)

section \<open>Properties\<close>

text \<open>
  C35. An upload never leaves a dangling action record: whichever open, transfer or write fails, if
  every action record in the bucket points at a body that is there, this still holds after
  \<^verbatim>\<open>uploader.run\<close>, because the body goes first.
\<close>

theorem upload_body_first:
  assumes "s3_ok (s3_client s) view" "in64 (job_mtime j)"
    and "\<forall>a v t. s3_actions s view r a = Some (v, t) \<longrightarrow> s3_objects s view r v \<noteq> None"
    and "uploader_run E (S3_Backend s) superseded j fs m r = (fs', m', r')"
  shows "\<forall>a v t. s3_actions s view r' a = Some (v, t) \<longrightarrow> s3_objects s view r' v \<noteq> None"
proof -
  have "s3t.complete s view r" using assms(3) unfolding s3t.complete_def by blast
  from s3t.run_complete [OF assms(1) this assms(2,4)] show ?thesis unfolding s3t.complete_def .
qed

theorem upload_body_first_witness:
  "\<exists>fs' m' r'. uploader_run \<lparr>os_fault = (\<lambda>_. None), os_dev = (\<lambda>_. 0), os_blocks = (\<lambda>_ _. None), os_now = int, os_rand = (\<lambda>_. [])\<rparr>
       (S3_Backend \<lparr>s3_client = ref_s3, s3_bucket = ''b'', s3_prefix = []\<rparr>) (\<lambda>_ _. False)
       \<lparr>job_action = copy_id [1], job_output = copy_id [2], job_path = ''/x'', job_size = 1, job_mtime = 5\<rparr>
       \<lparr>fs_names = [(''/x'', 0)], fs_inode = (\<lambda>_. \<lparr>i_data = [9], i_mtime = 0\<rparr>), fs_dirs = [], fs_next = 1, fs_clock = 0\<rparr>
       zero_Activity (\<lambda>_ _. None) = (fs', m', r')
     \<and> (\<forall>a v t. s3_actions \<lparr>s3_client = ref_s3, s3_bucket = ''b'', s3_prefix = []\<rparr> id r' a = Some (v, t)
          \<longrightarrow> s3_objects \<lparr>s3_client = ref_s3, s3_bucket = ''b'', s3_prefix = []\<rparr> id r' v \<noteq> None)"
proof -
  let ?s = "\<lparr>s3_client = ref_s3, s3_bucket = ''b'', s3_prefix = []\<rparr>"
  let ?E = "\<lparr>os_fault = (\<lambda>_. None), os_dev = (\<lambda>_. 0), os_blocks = (\<lambda>_ _. None), os_now = int, os_rand = (\<lambda>_. [])\<rparr> :: osenv"
  let ?j = "\<lparr>job_action = copy_id [1], job_output = copy_id [2], job_path = ''/x'', job_size = 1, job_mtime = 5\<rparr>"
  let ?fs = "\<lparr>fs_names = [(''/x'', 0)], fs_inode = (\<lambda>_. \<lparr>i_data = [9], i_mtime = 0\<rparr>), fs_dirs = [], fs_next = 1, fs_clock = 0\<rparr>"
  obtain fs' m' r' where run: "uploader_run ?E (S3_Backend ?s) (\<lambda>_ _. False) ?j ?fs zero_Activity (\<lambda>_ _. None) = (fs', m', r')"
    by (metis prod_cases3)
  have ok: "s3_ok (s3_client ?s) id" "in64 (job_mtime ?j)" using s3_ok_ref by (simp_all add: in64_def)
  have none: "\<forall>a v t. s3_actions ?s id (\<lambda>_ _. None) a = Some (v, t) \<longrightarrow> s3_objects ?s id (\<lambda>_ _. None) v \<noteq> None"
    by (simp add: s3_actions_def)
  show ?thesis using upload_body_first [OF ok none run] run by blast
qed



end
