(* ===== verification/Cache.thy ===== *)
theory Cache
  imports Config Presence Toucher Uploader Blob Index_Evict Index_Counters
begin

text \<open>
  Package \<^verbatim>\<open>internal/cache\<close> (\<^verbatim>\<open>cache.go\<close>, \<^verbatim>\<open>reconcile.go\<close>): the three tiers joined. The state of a
  \<^verbatim>\<open>Cache\<close> is the index, the file system the bodies are on, the shared tier, the two background
  queues, the counters and the presence memo; what is fixed at construction is a \<open>cache_env\<close>.
  \<open>clk i\<close> is the \<open>i\<close>-th reading of the clock during an operation.
\<close>

record ('db, 'r) cache_env =
  ce_P :: "'db pebble"
  ce_E :: osenv
  ce_rem :: "'r Backend"
  ce_cfg :: Config
  ce_root :: string

record ('db, 'r) cache =
  c_idx :: "'db index"
  c_fs :: fsys
  c_tier :: 'r
  c_uploads :: uploader
  c_touches :: toucher
  c_metrics :: Activity
  c_present :: presence
  c_prunedSinceCompact :: int
  c_flushed :: Activity

definition Cache_New :: "('db, 'r) cache_env \<Rightarrow> 'db index \<Rightarrow> fsys \<Rightarrow> 'r \<Rightarrow> ('db, 'r) cache" where
  "Cache_New K ix fs r =
     \<lparr>c_idx = ix, c_fs = fs, c_tier = r,
      c_uploads = newUploader (UploadConcurrency (ce_cfg K)) (UploadQueueDepth (ce_cfg K)) (UploadBlockTimeout (ce_cfg K)),
      c_touches = newToucher (TouchGranularity (ce_cfg K)),
      c_metrics = zero_Activity, c_present = empty_presence, c_prunedSinceCompact = 0, c_flushed = zero_Activity\<rparr>"

text \<open>The result of a \<^verbatim>\<open>Get\<close> that found something; \<^verbatim>\<open>Result{Miss: true}\<close> is \<open>None\<close>.\<close>

record Result =
  res_OutputID :: OutputID
  res_Size :: int
  res_DiskPath :: string
  res_Time :: int

text \<open>One counter of \<^verbatim>\<open>c.metrics\<close> goes up.\<close>

definition count_GetLocalHit :: "('db, 'r) cache \<Rightarrow> ('db, 'r) cache" where
  "count_GetLocalHit c = c\<lparr>c_metrics := (c_metrics c)\<lparr>GetLocalHit := add64 (GetLocalHit (c_metrics c)) 1\<rparr>\<rparr>"

definition count_GetRemoteHit :: "('db, 'r) cache \<Rightarrow> ('db, 'r) cache" where
  "count_GetRemoteHit c = c\<lparr>c_metrics := (c_metrics c)\<lparr>GetRemoteHit := add64 (GetRemoteHit (c_metrics c)) 1\<rparr>\<rparr>"

definition count_GetMiss :: "('db, 'r) cache \<Rightarrow> ('db, 'r) cache" where
  "count_GetMiss c = c\<lparr>c_metrics := (c_metrics c)\<lparr>GetMiss := add64 (GetMiss (c_metrics c)) 1\<rparr>\<rparr>"

definition count_GetRepair :: "('db, 'r) cache \<Rightarrow> ('db, 'r) cache" where
  "count_GetRepair c = c\<lparr>c_metrics := (c_metrics c)\<lparr>GetRepair := add64 (GetRepair (c_metrics c)) 1\<rparr>\<rparr>"

definition count_Put :: "('db, 'r) cache \<Rightarrow> ('db, 'r) cache" where
  "count_Put c = c\<lparr>c_metrics := (c_metrics c)\<lparr>Put := add64 (Put (c_metrics c)) 1\<rparr>\<rparr>"

definition count_UploadSkip :: "('db, 'r) cache \<Rightarrow> ('db, 'r) cache" where
  "count_UploadSkip c = c\<lparr>c_metrics := (c_metrics c)\<lparr>UploadSkip := add64 (UploadSkip (c_metrics c)) 1\<rparr>\<rparr>"

definition count_Compactions :: "('db, 'r) cache \<Rightarrow> ('db, 'r) cache" where
  "count_Compactions c = c\<lparr>c_metrics := (c_metrics c)\<lparr>Compactions := add64 (Compactions (c_metrics c)) 1\<rparr>\<rparr>"

lemmas count_defs = count_GetLocalHit_def count_GetRemoteHit_def count_GetMiss_def count_GetRepair_def count_Put_def
  count_UploadSkip_def count_Compactions_def

definition touch :: "int \<Rightarrow> ActionID \<Rightarrow> int \<Rightarrow> ('db, 'r) cache \<Rightarrow> ('db, 'r) cache" where
  "touch now a lastUsedAt c = c\<lparr>c_touches := toucher_enqueue now a lastUsedAt (c_touches c)\<rparr>"

section \<open>Reading\<close>

definition Cache_bodyGone ::
  "('db, 'r) cache_env \<Rightarrow> ActionID \<Rightarrow> error \<Rightarrow> ('db, 'r) cache \<Rightarrow> bool \<times> ('db, 'r) cache" where
  "Cache_bodyGone K a err c =
     (if err \<noteq> ErrNotExist then (False, count_GetMiss c)
      else
        (let c = count_GetRepair c;
             c = (case Index_Delete (ce_P K) (c_idx c) a of
                    (Inl derr, ix) \<Rightarrow> c\<lparr>c_idx := ix\<rparr>
                  | (Inr None, ix) \<Rightarrow> c\<lparr>c_idx := ix\<rparr>
                  | (Inr (Some orphan), ix) \<Rightarrow>
                      (let (rerr, fs) = Store_Remove (ce_E K) (ce_root K) orphan (c_fs c) in
                       c\<lparr>c_idx := ix, c_fs := fs\<rparr>)) in
         (True, c\<lparr>c_present := invalidate (c_present c)\<rparr>)))"

definition Cache_getRemote ::
  "('db, 'r) cache_env \<Rightarrow> int \<Rightarrow> ActionID \<Rightarrow> ('db, 'r) cache \<Rightarrow> Result option \<times> ('db, 'r) cache" where
  "Cache_getRemote K now a c =
     (if \<not> RemoteEnabled (ce_cfg K) then (None, count_GetMiss c)
      else case rb_GetAction (ce_rem K) a (c_tier c) of
        (Inl err, r) \<Rightarrow> (None, count_GetMiss (c\<lparr>c_tier := r\<rparr>))
      | (Inr (v, mtime), r) \<Rightarrow>
          (case rb_GetObject (ce_rem K) v r of
             (Inl err, r) \<Rightarrow> (None, count_GetMiss (c\<lparr>c_tier := r\<rparr>))
           | (Inr ((data, rerr, cerr), sz), r) \<Rightarrow>
               (case Store_Put (ce_E K) (ce_root K) v (data, rerr) sz (c_fs c) of
                  (Inl err, fs) \<Rightarrow> (None, count_GetMiss (c\<lparr>c_tier := r, c_fs := fs\<rparr>))
                | (Inr (path, dbytes), fs) \<Rightarrow>
                    (let created = (case mtime of None \<Rightarrow> now | Some t \<Rightarrow> t);
                         (perr, ix) = Index_Put (ce_P K) (c_idx c) a
                            \<lparr>OutputID = v, Size = sz, CreatedAt = created, LastUsedAt = now\<rparr> dbytes in
                     (Some \<lparr>res_OutputID = v, res_Size = sz, res_DiskPath = path, res_Time = created\<rparr>,
                      count_GetRemoteHit (c\<lparr>c_tier := r, c_fs := fs, c_idx := ix\<rparr>))))))"

definition Cache_Get ::
  "('db, 'r) cache_env \<Rightarrow> (nat \<Rightarrow> int) \<Rightarrow> ActionID \<Rightarrow> ('db, 'r) cache \<Rightarrow> Result option \<times> ('db, 'r) cache" where
  "Cache_Get K clk a c =
     (case Index_Get (ce_P K) (c_idx c) a of
        Inl err \<Rightarrow> (None, count_GetMiss c)
      | Inr None \<Rightarrow> Cache_getRemote K (clk 0) a c
      | Inr (Some e) \<Rightarrow>
          (case Store_Get (ce_E K) (ce_root K) (OutputID e) (c_fs c) of
             (Inr (path, _), fs) \<Rightarrow>
               (Some \<lparr>res_OutputID = OutputID e, res_Size = Size e, res_DiskPath = path, res_Time = CreatedAt e\<rparr>,
                count_GetLocalHit (touch (clk 0) a (LastUsedAt e) (c\<lparr>c_fs := fs\<rparr>)))
           | (Inl err, fs) \<Rightarrow>
               (let (through, c) = Cache_bodyGone K a err (c\<lparr>c_fs := fs\<rparr>) in
                if \<not> through then (None, c) else Cache_getRemote K (clk 0) a c)))"

text \<open>\<^verbatim>\<open>Open\<close> also returns the opened file.\<close>

definition Cache_openRemote ::
  "('db, 'r) cache_env \<Rightarrow> (nat \<Rightarrow> int) \<Rightarrow> ActionID \<Rightarrow> ('db, 'r) cache \<Rightarrow> (File \<times> Result) option \<times> ('db, 'r) cache" where
  "Cache_openRemote K clk a c =
     (case Cache_getRemote K (clk 0) a c of
        (None, c) \<Rightarrow> (None, c)
      | (Some res, c) \<Rightarrow>
          (case Store_Open (ce_E K) (ce_root K) (res_OutputID res) (c_fs c) of
             (Inl err, fs) \<Rightarrow> (None, c\<lparr>c_fs := fs\<rparr>)
           | (Inr (f, sz), fs) \<Rightarrow> (Some (f, res\<lparr>res_Size := sz\<rparr>), c\<lparr>c_fs := fs\<rparr>)))"

definition Cache_Open ::
  "('db, 'r) cache_env \<Rightarrow> (nat \<Rightarrow> int) \<Rightarrow> ActionID \<Rightarrow> ('db, 'r) cache \<Rightarrow> (File \<times> Result) option \<times> ('db, 'r) cache" where
  "Cache_Open K clk a c =
     (case Index_Get (ce_P K) (c_idx c) a of
        Inl err \<Rightarrow> (None, count_GetMiss c)
      | Inr None \<Rightarrow> Cache_openRemote K clk a c
      | Inr (Some e) \<Rightarrow>
          (case Store_Open (ce_E K) (ce_root K) (OutputID e) (c_fs c) of
             (Inr (f, sz), fs) \<Rightarrow>
               (Some (f, \<lparr>res_OutputID = OutputID e, res_Size = sz, res_DiskPath = f_name f, res_Time = CreatedAt e\<rparr>),
                count_GetLocalHit (touch (clk 0) a (LastUsedAt e) (c\<lparr>c_fs := fs\<rparr>)))
           | (Inl err, fs) \<Rightarrow>
               (let (through, c) = Cache_bodyGone K a err (c\<lparr>c_fs := fs\<rparr>) in
                if \<not> through then (None, c) else Cache_openRemote K clk a c)))"

definition Cache_HasRemote :: "('db, 'r) cache_env \<Rightarrow> ActionID \<Rightarrow> ('db, 'r) cache \<Rightarrow> bool \<times> ('db, 'r) cache" where
  "Cache_HasRemote K a c =
     (if \<not> RemoteEnabled (ce_cfg K) then (False, c)
      else case rb_GetAction (ce_rem K) a (c_tier c) of
        (Inl err, r) \<Rightarrow> (False, c\<lparr>c_tier := r\<rparr>)
      | (Inr (v, _), r) \<Rightarrow>
          (case rb_GetObject (ce_rem K) v r of
             (Inl err, r) \<Rightarrow> (False, c\<lparr>c_tier := r\<rparr>)
           | (Inr ((data, rerr, cerr), _), r) \<Rightarrow> (cerr = None, c\<lparr>c_tier := r\<rparr>)))"

definition touchedAt :: "Config \<Rightarrow> int \<Rightarrow> int \<Rightarrow> int" where
  "touchedAt cfg lastUsed now =
     (if TouchGranularity cfg > 0 \<and> sub64 now lastUsed < TouchGranularity cfg then lastUsed else now)"

definition Cache_Has ::
  "('db, 'r) cache_env \<Rightarrow> (nat \<Rightarrow> int) \<Rightarrow> ActionID \<Rightarrow> ('db, 'r) cache \<Rightarrow> bool \<times> ('db, 'r) cache" where
  "Cache_Has K clk a c =
     (let now = clk 0 in
      case presence_lookup (c_present c) a now of
        (Some lastUsed, p) \<Rightarrow> (True, touch (clk 1) a lastUsed (c\<lparr>c_present := p\<rparr>))
      | (None, p) \<Rightarrow>
          (let c = c\<lparr>c_present := p\<rparr>;
               gen = generation (c_present c) in
           case Index_Get (ce_P K) (c_idx c) a of
             Inl err \<Rightarrow> (False, c)
           | Inr None \<Rightarrow> (False, c)
           | Inr (Some e) \<Rightarrow>
               (case Store_Get (ce_E K) (ce_root K) (OutputID e) (c_fs c) of
                  (Inl err, fs) \<Rightarrow> (False, c\<lparr>c_fs := fs\<rparr>)
                | (Inr _, fs) \<Rightarrow>
                    (let c = touch (clk 1) a (LastUsedAt e) (c\<lparr>c_fs := fs\<rparr>) in
                     (True, c\<lparr>c_present := remember (c_present c) a gen now (touchedAt (ce_cfg K) (LastUsedAt e) now)\<rparr>)))))"

section \<open>Writing\<close>

text \<open>\<open>during\<close> is what happens to the upload queue while a submission waits for room.\<close>

definition Cache_record ::
  "('db, 'r) cache_env \<Rightarrow> (nat \<Rightarrow> int) \<Rightarrow> (uploader \<Rightarrow> uploader \<times> wait_end) \<Rightarrow> ActionID \<Rightarrow> OutputID \<Rightarrow> string \<Rightarrow> int \<Rightarrow> int
     \<Rightarrow> ('db, 'r) cache \<Rightarrow> ('db, 'r) cache" where
  "Cache_record K clk during a v path sz dbytes c =
     (let now = clk 0;
          (perr, ix) = Index_Put (ce_P K) (c_idx c) a
             \<lparr>OutputID = v, Size = sz, CreatedAt = now, LastUsedAt = now\<rparr> dbytes;
          c = count_Put (c\<lparr>c_idx := ix\<rparr>) in
      if \<not> RemoteEnabled (ce_cfg K) then c
      else if sz < MinUploadSize (ce_cfg K) then count_UploadSkip c
      else
        (let (u, m) = uploader_submit during (clk 1)
               \<lparr>job_action = a, job_output = v, job_path = path, job_size = sz, job_mtime = now\<rparr> (c_uploads c) (c_metrics c) in
         c\<lparr>c_uploads := u, c_metrics := m\<rparr>))"

definition Cache_Put ::
  "('db, 'r) cache_env \<Rightarrow> (nat \<Rightarrow> int) \<Rightarrow> (uploader \<Rightarrow> uploader \<times> wait_end) \<Rightarrow> ActionID \<Rightarrow> OutputID \<Rightarrow> bytes \<times> error option \<Rightarrow> int
     \<Rightarrow> ('db, 'r) cache \<Rightarrow> string result \<times> ('db, 'r) cache" where
  "Cache_Put K clk during a v body sz c =
     (case Store_Put (ce_E K) (ce_root K) v body sz (c_fs c) of
        (Inl err, fs) \<Rightarrow> (Inl err, c\<lparr>c_fs := fs\<rparr>)
      | (Inr (path, dbytes), fs) \<Rightarrow>
          (Inr path, Cache_record K clk during a v path sz dbytes (c\<lparr>c_fs := fs\<rparr>)))"

definition Cache_PutStaged ::
  "('db, 'r) cache_env \<Rightarrow> (nat \<Rightarrow> int) \<Rightarrow> (uploader \<Rightarrow> uploader \<times> wait_end) \<Rightarrow> ActionID \<Rightarrow> OutputID \<Rightarrow> string \<Rightarrow> int
     \<Rightarrow> ('db, 'r) cache \<Rightarrow> string result \<times> ('db, 'r) cache" where
  "Cache_PutStaged K clk during a v stagedPath sz c =
     (case Store_Adopt (ce_E K) (ce_root K) v stagedPath sz (c_fs c) of
        (Inl err, fs) \<Rightarrow> (Inl err, c\<lparr>c_fs := fs\<rparr>)
      | (Inr (path, dbytes, _), fs) \<Rightarrow>
          (Inr path, Cache_record K clk during a v path sz dbytes (c\<lparr>c_fs := fs\<rparr>)))"

definition Cache_superseded :: "('db, 'r) cache_env \<Rightarrow> ('db, 'r) cache \<Rightarrow> ActionID \<Rightarrow> OutputID \<Rightarrow> bool" where
  "Cache_superseded K c a v \<longleftrightarrow>
     (case Index_Get (ce_P K) (c_idx c) a of Inr (Some e) \<Rightarrow> OutputID e \<noteq> v | _ \<Rightarrow> False)"

text \<open>One job of the pool, with the state it works on.\<close>

definition Cache_upload :: "('db, 'r) cache_env \<Rightarrow> ('db, 'r) cache \<Rightarrow> ('db, 'r) cache" where
  "Cache_upload K c =
     (case u_jobs (c_uploads c) of
        [] \<Rightarrow> c
      | j # js \<Rightarrow>
          (let (fs, m, r) = uploader_run (ce_E K) (ce_rem K) (Cache_superseded K c) j (c_fs c) (c_metrics c) (c_tier c) in
           c\<lparr>c_uploads := (c_uploads c)\<lparr>u_jobs := js\<rparr>, c_fs := fs, c_metrics := m, c_tier := r\<rparr>))"

text \<open>One turn of the touch writer.\<close>

definition Cache_touches :: "('db, 'r) cache_env \<Rightarrow> int \<Rightarrow> ('db, 'r) cache \<Rightarrow> ('db, 'r) cache" where
  "Cache_touches K now c =
     (let (t, ix) = toucher_run (index_touch (ce_P K)) now (c_touches c) (c_idx c) in c\<lparr>c_touches := t, c_idx := ix\<rparr>)"

section \<open>Re-measuring (reconcile.go)\<close>

record ReconcileResult =
  rr_Objects :: int
  rr_Corrected :: int
  rr_Pending :: int
  rr_Missing :: int
  rr_Before :: int
  rr_After :: int

definition zero_ReconcileResult :: ReconcileResult where
  "zero_ReconcileResult = \<lparr>rr_Objects = 0, rr_Corrected = 0, rr_Pending = 0, rr_Missing = 0, rr_Before = 0, rr_After = 0\<rparr>"

definition ReconcileResult_Delta :: "ReconcileResult \<Rightarrow> int" where
  "ReconcileResult_Delta r = sub64 (rr_After r) (rr_Before r)"

text \<open>
  The loop over the objects. \<open>ctxErr\<close> is what \<^verbatim>\<open>ctx.Err()\<close> answers as the pass goes on; the
  corrections are the pairs of the Go map. \<^verbatim>\<open>Inl\<close> is the early return of a context that ended.
\<close>

fun reconcileLoop ::
  "('db, 'r) cache_env \<Rightarrow> (fsys \<Rightarrow> error option) \<Rightarrow> int \<Rightarrow> ObjectCost list \<Rightarrow> ReconcileResult \<Rightarrow> (OutputID \<times> int) list \<Rightarrow> fsys
     \<Rightarrow> (error option \<times> ReconcileResult \<times> (OutputID \<times> int) list) \<times> fsys" where
  "reconcileLoop K ctxErr now [] r cs fs = ((None, r, cs), fs)"
| "reconcileLoop K ctxErr now (ob # obs) r cs fs =
     (case ctxErr fs of
        Some err \<Rightarrow> ((Some err, r, cs), fs)
      | None \<Rightarrow>
          (let r = r\<lparr>rr_Objects := add64 (rr_Objects r) 1\<rparr> in
           case Store_Measure (ce_E K) (ce_root K) (oc_OutputID ob) now fs of
             (Inl merr, fs) \<Rightarrow>
               (if merr = ErrNotExist
                then reconcileLoop K ctxErr now obs (r\<lparr>rr_Missing := add64 (rr_Missing r) 1\<rparr>) cs fs
                else reconcileLoop K ctxErr now obs r cs fs)
           | (Inr (nbytes, settled), fs) \<Rightarrow>
               (if \<not> settled then reconcileLoop K ctxErr now obs (r\<lparr>rr_Pending := add64 (rr_Pending r) 1\<rparr>) cs fs
                else if nbytes \<noteq> oc_DiskBytes ob
                then reconcileLoop K ctxErr now obs r (AList.update (oc_OutputID ob) nbytes cs) fs
                else reconcileLoop K ctxErr now obs r cs fs)))"

definition Cache_Reconcile ::
  "('db, 'r) cache_env \<Rightarrow> (fsys \<Rightarrow> error option) \<Rightarrow> int \<Rightarrow> ('db, 'r) cache
     \<Rightarrow> (ReconcileResult \<times> error option) \<times> ('db, 'r) cache" where
  "Cache_Reconcile K ctxErr now c =
     (let r = zero_ReconcileResult in
      case Index_Objects (ce_P K) (c_idx c) of
        Inl err \<Rightarrow> ((r, Some err), c)
      | Inr objects \<Rightarrow>
          (let r = (case Index_Stats (c_idx c) of Inr st \<Rightarrow> r\<lparr>rr_Before := st_DiskBytes st\<rparr> | Inl _ \<Rightarrow> r) in
           case reconcileLoop K ctxErr now objects r [] (c_fs c) of
             ((Some err, r, cs), fs) \<Rightarrow> ((r, Some err), c\<lparr>c_fs := fs\<rparr>)
           | ((None, r, cs), fs) \<Rightarrow>
               (let c = c\<lparr>c_fs := fs\<rparr> in
                case Index_Remeasure (ce_P K) (c_idx c) cs of
                  (Inl err, ix) \<Rightarrow> ((r, Some err), c\<lparr>c_idx := ix\<rparr>)
                | (Inr (applied, _), ix) \<Rightarrow>
                    (let c = c\<lparr>c_idx := ix\<rparr>;
                         r = r\<lparr>rr_Corrected := applied\<rparr>;
                         r = (case Index_Stats (c_idx c) of Inr st \<Rightarrow> r\<lparr>rr_After := st_DiskBytes st\<rparr> | Inl _ \<Rightarrow> r) in
                     ((r, None), c)))))"

text \<open>
  The comparison \<^verbatim>\<open>float64(n) < reconcileAtShare*float64(maxBytes)\<close> in IEEE doubles: an integer is
  rounded to 53 significant bits, ties to even; the constant 0.9 is 8106479329266893 / 2^53, and a
  product by a power of two is exact.
\<close>

definition roundShift :: "nat \<Rightarrow> int \<Rightarrow> int" where
  "roundShift k n =
     (let q = n div 2 ^ k; r = n mod 2 ^ k in
      if 2 * r > 2 ^ k \<or> 2 * r = 2 ^ k \<and> odd q then (q + 1) * 2 ^ k else q * 2 ^ k)"

fun bitLen :: "nat \<Rightarrow> nat" where
  "bitLen n = (if n = 0 then 0 else Suc (bitLen (n div 2)))"

declare bitLen.simps [simp del]

definition round53 :: "int \<Rightarrow> int" where
  "round53 n = (let k = bitLen (nat \<bar>n\<bar>) in if k \<le> 53 then n else roundShift (k - 53) n)"

definition reconcileAtShare :: int where "reconcileAtShare = 8106479329266893"

definition belowShare :: "int \<Rightarrow> int \<Rightarrow> bool" where
  "belowShare n maxBytes \<longleftrightarrow> round53 n * 2 ^ 53 < round53 (reconcileAtShare * round53 maxBytes)"

definition reconcileBeforeEvicting ::
  "('db, 'r) cache_env \<Rightarrow> (fsys \<Rightarrow> error option) \<Rightarrow> int \<Rightarrow> int \<Rightarrow> ('db, 'r) cache \<Rightarrow> ('db, 'r) cache" where
  "reconcileBeforeEvicting K ctxErr now maxBytes c =
     (if maxBytes \<le> 0 then c
      else case Index_Stats (c_idx c) of
        Inl err \<Rightarrow> c
      | Inr st \<Rightarrow>
          (if belowShare (st_DiskBytes st) maxBytes then c
           else let ((r, err), c) = Cache_Reconcile K ctxErr now c in c))"

section \<open>Eviction\<close>

definition compactAfterPruned :: int where "compactAfterPruned = 1000"

definition maybeCompact :: "('db, 'r) cache_env \<Rightarrow> int \<Rightarrow> ('db, 'r) cache \<Rightarrow> ('db, 'r) cache" where
  "maybeCompact K pruned c =
     (if pruned \<le> 0 then c
      else
        (let threshold = (if CompactAfterPruned (ce_cfg K) \<le> 0 then compactAfterPruned else CompactAfterPruned (ce_cfg K));
             n = add64 (c_prunedSinceCompact c) pruned;
             c = c\<lparr>c_prunedSinceCompact := n\<rparr> in
         if n < threshold then c
         else
           (let c = c\<lparr>c_prunedSinceCompact := 0\<rparr> in
            case Index_Compact (ce_P K) (c_idx c) of
              (Some err, ix) \<Rightarrow> c\<lparr>c_idx := ix\<rparr>
            | (None, ix) \<Rightarrow> count_Compactions (c\<lparr>c_idx := ix\<rparr>))))"

text \<open>The callback of \<^verbatim>\<open>EvictWith\<close>, on the body store and the memo; it never fails.\<close>

definition evict_callbacks ::
  "('db, 'r) cache_env \<Rightarrow> (fsys \<Rightarrow> error option) \<Rightarrow> (fsys \<times> presence) evict_env" where
  "evict_callbacks K ctxErr =
     \<lparr>ctx_err = (\<lambda>(fs, p). ctxErr fs),
      onOrphan = (\<lambda>v (fs, p). let (rerr, fs) = Store_Remove (ce_E K) (ce_root K) v fs in (None, (fs, invalidate p)))\<rparr>"

definition Cache_EvictWith ::
  "nat \<Rightarrow> ('db, 'r) cache_env \<Rightarrow> (fsys \<Rightarrow> error option) \<Rightarrow> (nat \<Rightarrow> int) \<Rightarrow> int \<Rightarrow> int \<Rightarrow> ('db, 'r) cache
     \<Rightarrow> ((EvictResult \<times> error option) \<times> ('db, 'r) cache) option" where
  "Cache_EvictWith fuel K ctxErr clk maxBytes ttl c =
     (let c = reconcileBeforeEvicting K ctxErr (clk 0) maxBytes c in
      case Index_Evict fuel (ce_P K) (evict_callbacks K ctxErr) (c_idx c) maxBytes ttl (clk 1) (c_fs c, c_present c) of
        None \<Rightarrow> None
      | Some (err, ix, res, (fs, p)) \<Rightarrow>
          (let c = c\<lparr>c_idx := ix, c_fs := fs, c_present := p\<rparr>;
               c = (if ActionsPruned res > 0 then c\<lparr>c_present := invalidate (c_present c)\<rparr> else c) in
           case err of
             Some e \<Rightarrow> Some ((res, Some e), c)
           | None \<Rightarrow> Some ((res, None), maybeCompact K (ActionsPruned res) c)))"

definition Cache_Evict ::
  "nat \<Rightarrow> ('db, 'r) cache_env \<Rightarrow> (fsys \<Rightarrow> error option) \<Rightarrow> (nat \<Rightarrow> int) \<Rightarrow> ('db, 'r) cache
     \<Rightarrow> ((EvictResult \<times> error option) \<times> ('db, 'r) cache) option" where
  "Cache_Evict fuel K ctxErr clk c = Cache_EvictWith fuel K ctxErr clk (MaxBytes (ce_cfg K)) (TTL (ce_cfg K)) c"

definition Cache_EvictNow ::
  "nat \<Rightarrow> ('db, 'r) cache_env \<Rightarrow> (fsys \<Rightarrow> error option) \<Rightarrow> (nat \<Rightarrow> int) \<Rightarrow> int \<Rightarrow> int \<Rightarrow> ('db, 'r) cache
     \<Rightarrow> ((EvictResult \<times> ReconcileResult \<times> error option) \<times> ('db, 'r) cache) option" where
  "Cache_EvictNow fuel K ctxErr clk maxBytes ttl c =
     (let ((rec, rerr), c) = Cache_Reconcile K ctxErr (clk 2) c in
      case Cache_EvictWith fuel K ctxErr clk maxBytes ttl c of
        None \<Rightarrow> None
      | Some ((res, err), c) \<Rightarrow> Some ((res, rec, err), c))"

section \<open>Reports\<close>

definition Cache_Metrics :: "('db, 'r) cache \<Rightarrow> Activity" where
  "Cache_Metrics c = c_metrics c"

definition Cache_Presence :: "('db, 'r) cache \<Rightarrow> PresenceSnapshot" where
  "Cache_Presence c = presence_snapshot (c_present c)"

definition Cache_UploadQueue :: "('db, 'r) cache \<Rightarrow> nat \<times> nat" where
  "Cache_UploadQueue c = uploader_queue (c_uploads c)"

end
