(* ===== verification/Sha256.thy ===== *)
theory Sha256
  imports Ids
begin

text \<open>
  The standard library's \<^verbatim>\<open>crypto/sha256\<close>, as the packages above use it: \<^verbatim>\<open>New\<close>, \<^verbatim>\<open>Write\<close> and \<^verbatim>\<open>Sum\<close> together
  are a function of the bytes written. The function is FIPS 180-4, over 32-bit words. Nothing here
  says that collisions are hard to find; what is proved of it is that a digest has 32 bytes, so
  that it is an identifier, and where two inputs differ.
\<close>

unbundle bit_operations_syntax

type_synonym w32 = "32 word"

definition rotr :: "nat \<Rightarrow> w32 \<Rightarrow> w32" where
  "rotr n x = drop_bit n x OR push_bit (32 - n) x"

definition sha_K :: "w32 list" where
  "sha_K =
    [0x428a2f98, 0x71374491, 0xb5c0fbcf, 0xe9b5dba5, 0x3956c25b, 0x59f111f1, 0x923f82a4, 0xab1c5ed5,
     0xd807aa98, 0x12835b01, 0x243185be, 0x550c7dc3, 0x72be5d74, 0x80deb1fe, 0x9bdc06a7, 0xc19bf174,
     0xe49b69c1, 0xefbe4786, 0x0fc19dc6, 0x240ca1cc, 0x2de92c6f, 0x4a7484aa, 0x5cb0a9dc, 0x76f988da,
     0x983e5152, 0xa831c66d, 0xb00327c8, 0xbf597fc7, 0xc6e00bf3, 0xd5a79147, 0x06ca6351, 0x14292967,
     0x27b70a85, 0x2e1b2138, 0x4d2c6dfc, 0x53380d13, 0x650a7354, 0x766a0abb, 0x81c2c92e, 0x92722c85,
     0xa2bfe8a1, 0xa81a664b, 0xc24b8b70, 0xc76c51a3, 0xd192e819, 0xd6990624, 0xf40e3585, 0x106aa070,
     0x19a4c116, 0x1e376c08, 0x2748774c, 0x34b0bcb5, 0x391c0cb3, 0x4ed8aa4a, 0x5b9cca4f, 0x682e6ff3,
     0x748f82ee, 0x78a5636f, 0x84c87814, 0x8cc70208, 0x90befffa, 0xa4506ceb, 0xbef9a3f7, 0xc67178f2]"

definition sha_init :: "w32 list" where
  "sha_init =
    [0x6a09e667, 0xbb67ae85, 0x3c6ef372, 0xa54ff53a, 0x510e527f, 0x9b05688c, 0x1f83d9ab, 0x5be0cd19]"

definition word_of_bytes :: "bytes \<Rightarrow> w32" where
  "word_of_bytes bs = foldl (\<lambda>w b. push_bit 8 w OR ucast b) 0 bs"

definition bytes_of_word :: "w32 \<Rightarrow> bytes" where
  "bytes_of_word w = [ucast (drop_bit 24 w), ucast (drop_bit 16 w), ucast (drop_bit 8 w), ucast w]"

fun groups :: "nat \<Rightarrow> nat \<Rightarrow> 'a list \<Rightarrow> 'a list list" where
  "groups n 0 xs = []"
| "groups n (Suc k) xs = take n xs # groups n k (drop n xs)"

text \<open>A one bit, zeros to eight bytes before a block boundary, and the length in bits.\<close>

definition sha_pad :: "bytes \<Rightarrow> bytes" where
  "sha_pad bs = bs @ [0x80] @ replicate ((119 - length bs mod 64) mod 64) 0 @ put_u64 (int (8 * length bs))"

text \<open>The message schedule, newest word first.\<close>

fun sha_schedule :: "nat \<Rightarrow> w32 list \<Rightarrow> w32 list" where
  "sha_schedule 0 ws = ws"
| "sha_schedule (Suc k) ws =
     (let w15 = ws ! 14; w2 = ws ! 1;
          s0 = rotr 7 w15 XOR rotr 18 w15 XOR drop_bit 3 w15;
          s1 = rotr 17 w2 XOR rotr 19 w2 XOR drop_bit 10 w2 in
      sha_schedule k ((ws ! 15 + s0 + ws ! 6 + s1) # ws))"

record sha_state =
  sa :: w32
  sb :: w32
  sc :: w32
  sd :: w32
  se :: w32
  sf :: w32
  sg :: w32
  sh :: w32

definition sha_round :: "w32 \<times> w32 \<Rightarrow> sha_state \<Rightarrow> sha_state" where
  "sha_round kw h =
     (let s1 = rotr 6 (se h) XOR rotr 11 (se h) XOR rotr 25 (se h);
          ch = (se h AND sf h) XOR (NOT (se h) AND sg h);
          t1 = sh h + s1 + ch + fst kw + snd kw;
          s0 = rotr 2 (sa h) XOR rotr 13 (sa h) XOR rotr 22 (sa h);
          maj = (sa h AND sb h) XOR (sa h AND sc h) XOR (sb h AND sc h);
          t2 = s0 + maj in
      \<lparr>sa = t1 + t2, sb = sa h, sc = sb h, sd = sc h, se = sd h + t1, sf = se h, sg = sf h, sh = sg h\<rparr>)"

definition sha_of_list :: "w32 list \<Rightarrow> sha_state" where
  "sha_of_list ws = \<lparr>sa = ws ! 0, sb = ws ! 1, sc = ws ! 2, sd = ws ! 3, se = ws ! 4, sf = ws ! 5, sg = ws ! 6, sh = ws ! 7\<rparr>"

definition sha_to_list :: "sha_state \<Rightarrow> w32 list" where
  "sha_to_list h = [sa h, sb h, sc h, sd h, se h, sf h, sg h, sh h]"

definition sha_block :: "bytes \<Rightarrow> w32 list \<Rightarrow> w32 list" where
  "sha_block blk h =
     (let ws = rev (sha_schedule 48 (rev (map word_of_bytes (groups 4 16 blk)))) in
      map2 (+) h (sha_to_list (fold sha_round (zip sha_K ws) (sha_of_list h))))"

definition sha_sum :: "bytes \<Rightarrow> bytes" where
  "sha_sum bs =
     (let p = sha_pad bs in
      concat (map bytes_of_word (fold sha_block (groups 64 (length p div 64) p) sha_init)))"

text \<open>A digest as the 32-byte array the callers copy it into.\<close>

definition sha256 :: "bytes \<Rightarrow> id32" where
  "sha256 bs = copy_id (sha_sum bs)"

section \<open>A digest has 32 bytes\<close>

lemma length_groups [simp]: "length (groups n k xs) = k"
  by (induction k arbitrary: xs) auto

lemma length_sha_block: "length h = 8 \<Longrightarrow> length (sha_block blk h) = 8"
  by (simp add: sha_block_def sha_to_list_def Let_def)

lemma length_sha_fold: "length h = 8 \<Longrightarrow> length (fold sha_block blks h) = 8"
  by (induction blks arbitrary: h) (auto simp: length_sha_block)

lemma length_sha_sum: "length (sha_sum bs) = 32"
proof -
  have "length (concat (map bytes_of_word ws)) = 4 * length ws" for ws
    by (induction ws) (auto simp: bytes_of_word_def)
  then show ?thesis by (simp add: sha_sum_def Let_def length_sha_fold sha_init_def)
qed

lemma id_bytes_sha256: "id_bytes (sha256 bs) = sha_sum bs"
  by (simp add: sha256_def id_bytes_copy_id length_sha_sum id_Size_def)

lemma sha_pad_blocks: "length (sha_pad bs) mod 64 = 0"
proof -
  obtain q m where n: "length bs = 64 * q + m" "m < 64" by (metis mod_less_divisor mult_div_mod_eq zero_less_numeral)
  then have "length bs mod 64 = m" by simp
  then have len: "length (sha_pad bs) = 64 * q + (m + 9 + (119 - m) mod 64)" using n by (simp add: sha_pad_def)
  show ?thesis
  proof (cases "m \<le> 55")
    case True
    then have "(119 - m) mod 64 = 55 - m" by (simp add: mod_if)
    then show ?thesis using True by (simp add: len)
  next
    case False
    then have "(119 - m) mod 64 = 119 - m" using n by simp
    then show ?thesis using False n by (simp add: len)
  qed
qed

end
