(* ===== verification/Bazel.thy ===== *)
theory Bazel
  imports Cache Sha256
begin

text \<open>
  Package \<^verbatim>\<open>internal/bazel\<close>: what a Bazel build caches, over the same tiers (\<^verbatim>\<open>keys.go\<close>, \<^verbatim>\<open>upload.go\<close>,
  \<^verbatim>\<open>bazel.go\<close>), and the HTTP transport (\<^verbatim>\<open>http.go\<close>). The adapter has no mutable state of its own: its
  operations act on a \<open>cache\<close>. A hash that bytes are being written to is the list of these bytes.
\<close>

section \<open>Keys (keys.go)\<close>

datatype Kind = KindAC | KindCAS

definition Kind_String :: "Kind \<Rightarrow> string" where
  "Kind_String k = (if k = KindCAS then ''cas'' else ''ac'')"

definition namespaceAC :: bytes where
  "namespaceAC = map (of_nat \<circ> of_char) ''plaid-cache/bazel/ac'' @ [0]"

definition namespaceCAS :: bytes where
  "namespaceCAS = map (of_nat \<circ> of_char) ''plaid-cache/bazel/cas'' @ [0]"

type_synonym Digest = id32

definition ParseDigest :: "string \<Rightarrow> Digest result" where
  "ParseDigest s =
     (if length s \<noteq> id_HexSize then Inl (ErrLength (length s) id_HexSize)
      else rbind (hex_decode s) (\<lambda>bs. Inr (copy_id bs)))"

lemma ParseDigest_String [simp]: "ParseDigest (id_String d) = Inr d"
  by (simp add: ParseDigest_def id_HexSize_def id_Size_def id_String_def length_id_bytes)

definition Digest_outputID :: "Digest \<Rightarrow> OutputID" where
  "Digest_outputID d = d"

definition Kind_actionID :: "Kind \<Rightarrow> Digest \<Rightarrow> ActionID" where
  "Kind_actionID k d = sha256 ((if k = KindCAS then namespaceCAS else namespaceAC) @ id_bytes d)"

section \<open>Uploads (upload.go)\<close>

record Upload =
  up_kind :: Kind
  up_digest :: Digest
  up_file :: File
  up_sum :: bytes
  up_off :: int
  up_done :: bool

text \<open>How many bytes of a write reached the file.\<close>

definition written :: "bytes \<Rightarrow> unit result \<Rightarrow> nat" where
  "written data r = (case r of Inr _ \<Rightarrow> length data | Inl (ErrIO n) \<Rightarrow> min n (length data) | Inl _ \<Rightarrow> 0)"

definition bazel_Begin ::
  "('db, 'r) cache_env \<Rightarrow> Kind \<Rightarrow> Digest \<Rightarrow> ('db, 'r) cache \<Rightarrow> Upload result \<times> ('db, 'r) cache" where
  "bazel_Begin K k d c =
     (case Store_Stage (ce_E K) (ce_root K) (c_fs c) of
        (Inl err, fs) \<Rightarrow> (Inl err, c\<lparr>c_fs := fs\<rparr>)
      | (Inr f, fs) \<Rightarrow>
          (Inr \<lparr>up_kind = k, up_digest = d, up_file = f, up_sum = [], up_off = 0, up_done = False\<rparr>, c\<lparr>c_fs := fs\<rparr>))"

definition Upload_Write ::
  "osenv \<Rightarrow> bytes \<Rightarrow> Upload \<Rightarrow> fsys \<Rightarrow> (nat \<times> error option) \<times> Upload \<times> fsys" where
  "Upload_Write E p u fs =
     (if up_done u then ((0, Some ErrUploadFinished), u, fs)
      else
        (let (r, fs) = os_Write E (up_file u) p fs;
             n = written p r;
             u = (if n > 0 then u\<lparr>up_sum := up_sum u @ take n p, up_off := add64 (up_off u) (int n)\<rparr> else u) in
         ((n, case r of Inl err \<Rightarrow> Some err | Inr _ \<Rightarrow> None), u, fs)))"

definition Upload_Commit ::
  "('db, 'r) cache_env \<Rightarrow> bool \<Rightarrow> (nat \<Rightarrow> int) \<Rightarrow> (uploader \<Rightarrow> uploader \<times> wait_end) \<Rightarrow> Upload \<Rightarrow> ('db, 'r) cache
     \<Rightarrow> error option \<times> Upload \<times> ('db, 'r) cache" where
  "Upload_Commit K verify clk during u c =
     (if up_done u then (Some ErrUploadFinished, u, c)
      else
        (let u = u\<lparr>up_done := True\<rparr> in
         case os_Close (ce_E K) (up_file u) (c_fs c) of
           (Inl err, fs) \<Rightarrow> (Some err, u, c\<lparr>c_fs := fs\<rparr>)
         | (Inr _, fs) \<Rightarrow>
             (let c = c\<lparr>c_fs := fs\<rparr>;
                  computed = sha256 (up_sum u) in
              if up_kind u = KindCAS \<and> verify \<and> computed \<noteq> up_digest u then (Some ErrDigestMismatch, u, c)
              else
                (let output = (if up_kind u = KindCAS then Digest_outputID (up_digest u) else Digest_outputID computed) in
                 case Cache_PutStaged K clk during (Kind_actionID (up_kind u) (up_digest u)) output (f_name (up_file u)) (up_off u) c of
                   (Inl err, c) \<Rightarrow> (Some err, u, c)
                 | (Inr _, c) \<Rightarrow> (None, u, c)))))"

definition Upload_Discard :: "osenv \<Rightarrow> Upload \<Rightarrow> fsys \<Rightarrow> Upload \<times> fsys" where
  "Upload_Discard E u fs =
     (let (_, fs) = os_Close E (up_file u) fs;
          (_, fs) = os_Remove E (f_name (up_file u)) fs in
      (u\<lparr>up_done := True\<rparr>, fs))"

section \<open>The adapter (bazel.go)\<close>

definition bazel_Open ::
  "('db, 'r) cache_env \<Rightarrow> (nat \<Rightarrow> int) \<Rightarrow> Kind \<Rightarrow> Digest \<Rightarrow> ('db, 'r) cache \<Rightarrow> (File \<times> int) option \<times> ('db, 'r) cache" where
  "bazel_Open K clk k d c =
     (case Cache_Open K clk (Kind_actionID k d) c of
        (None, c) \<Rightarrow> (None, c)
      | (Some (f, res), c) \<Rightarrow> (Some (f, res_Size res), c))"

definition bazel_Has ::
  "('db, 'r) cache_env \<Rightarrow> (nat \<Rightarrow> int) \<Rightarrow> Kind \<Rightarrow> Digest \<Rightarrow> ('db, 'r) cache \<Rightarrow> bool \<times> ('db, 'r) cache" where
  "bazel_Has K clk k d c = Cache_Has K clk (Kind_actionID k d) c"

definition bazel_HasRemote :: "('db, 'r) cache_env \<Rightarrow> Kind \<Rightarrow> Digest \<Rightarrow> ('db, 'r) cache \<Rightarrow> bool \<times> ('db, 'r) cache" where
  "bazel_HasRemote K k d c = Cache_HasRemote K (Kind_actionID k d) c"

definition bazel_OpenLocal ::
  "('db, 'r) cache_env \<Rightarrow> (nat \<Rightarrow> int) \<Rightarrow> Kind \<Rightarrow> Digest \<Rightarrow> ('db, 'r) cache \<Rightarrow> (File \<times> int) option \<times> ('db, 'r) cache" where
  "bazel_OpenLocal K clk k d c =
     (case bazel_Has K clk k d c of
        (False, c) \<Rightarrow> (None, c)
      | (True, c) \<Rightarrow> bazel_Open K (\<lambda>i. clk (i + 2)) k d c)"

text \<open>
  A body as a reader delivers it: the pieces, and the error it ends with if it does not end
  cleanly. \<^verbatim>\<open>io.Copy(u, body)\<close> writes piece by piece and stops at the first error.
\<close>

type_synonym reader = "bytes list \<times> error option"

fun copyLoop :: "osenv \<Rightarrow> bytes list \<Rightarrow> error option \<Rightarrow> Upload \<Rightarrow> fsys \<Rightarrow> error option \<times> Upload \<times> fsys" where
  "copyLoop E [] rerr u fs = (rerr, u, fs)"
| "copyLoop E (p # ps) rerr u fs =
     (case Upload_Write E p u fs of
        ((n, Some err), u, fs) \<Rightarrow> (Some err, u, fs)
      | ((n, None), u, fs) \<Rightarrow> copyLoop E ps rerr u fs)"

definition bazel_Put ::
  "('db, 'r) cache_env \<Rightarrow> bool \<Rightarrow> (nat \<Rightarrow> int) \<Rightarrow> (uploader \<Rightarrow> uploader \<times> wait_end) \<Rightarrow> Kind \<Rightarrow> Digest \<Rightarrow> reader
     \<Rightarrow> ('db, 'r) cache \<Rightarrow> error option \<times> ('db, 'r) cache" where
  "bazel_Put K verify clk during k d body c =
     (let (present, c) = (if k = KindCAS then bazel_Has K clk k d c else (False, c)) in
      if present then (snd body, c)
      else case bazel_Begin K k d c of
        (Inl err, c) \<Rightarrow> (Some err, c)
      | (Inr u, c) \<Rightarrow>
          (case copyLoop (ce_E K) (fst body) (snd body) u (c_fs c) of
             (Some err, u, fs) \<Rightarrow> (let (_, fs) = Upload_Discard (ce_E K) u fs in (Some err, c\<lparr>c_fs := fs\<rparr>))
           | (None, u, fs) \<Rightarrow>
               (case Upload_Commit K verify (\<lambda>i. clk (i + 2)) during u (c\<lparr>c_fs := fs\<rparr>) of
                  (r, u, c) \<Rightarrow> (let (_, fs) = Upload_Discard (ce_E K) u (c_fs c) in (r, c\<lparr>c_fs := fs\<rparr>)))))"

section \<open>The HTTP transport (http.go)\<close>

fun cutPrefix :: "string \<Rightarrow> string \<Rightarrow> string option" where
  "cutPrefix [] s = Some s"
| "cutPrefix (x # xs) [] = None"
| "cutPrefix (x # xs) (y # ys) = (if x = y then cutPrefix xs ys else None)"

text \<open>\<^verbatim>\<open>strings.Cut\<close> at one character: what is before its first occurrence, and after.\<close>

fun cut :: "char \<Rightarrow> string \<Rightarrow> (string \<times> string) option" where
  "cut x [] = None"
| "cut x (y # ys) = (if y = x then Some ([], ys) else map_option (\<lambda>(a, b). (y # a, b)) (cut x ys))"

definition parsePath :: "string \<Rightarrow> (Kind \<times> Digest) option" where
  "parsePath p =
     (case cutPrefix ''/'' p of
        None \<Rightarrow> None
      | Some rest \<Rightarrow>
          (case cut (CHR ''/'') rest of
             None \<Rightarrow> None
           | Some (name, hexDigest) \<Rightarrow>
               (let k = (if name = ''ac'' then Some KindAC else if name = ''cas'' then Some KindCAS else None) in
                case k of
                  None \<Rightarrow> None
                | Some k \<Rightarrow> (case ParseDigest hexDigest of Inl _ \<Rightarrow> None | Inr d \<Rightarrow> Some (k, d)))))"

text \<open>A request, and what the handler answers: the status, the declared length and the body sent.\<close>

record http_request =
  rq_method :: string
  rq_path :: string
  rq_body :: reader

record http_response =
  rs_status :: nat
  rs_length :: "int option"
  rs_body :: bytes

definition http_Error :: "nat \<Rightarrow> http_response" where
  "http_Error n = \<lparr>rs_status = n, rs_length = None, rs_body = []\<rparr>"

text \<open>
  \<^verbatim>\<open>io.Copy\<close> to the connection may fail after the header is out; \<open>sent\<close> is how much of a body gets
  through. The text of an error page is not modelled.
\<close>

definition Handler_get ::
  "('db, 'r) cache_env \<Rightarrow> (nat \<Rightarrow> int) \<Rightarrow> (bytes \<Rightarrow> bytes) \<Rightarrow> string \<Rightarrow> Kind \<Rightarrow> Digest \<Rightarrow> ('db, 'r) cache \<Rightarrow> http_response \<times> ('db, 'r) cache" where
  "Handler_get K clk sent meth k d c =
     (case bazel_Open K clk k d c of
        (None, c) \<Rightarrow> (http_Error 404, c)
      | (Some (f, sz), c) \<Rightarrow>
          (let (_, fs) = os_Close (ce_E K) f (c_fs c) in
           (\<lparr>rs_status = 200, rs_length = Some sz,
             rs_body = (if meth = ''HEAD'' then [] else sent (i_data (fs_inode (c_fs c) (f_ino f))))\<rparr>, c\<lparr>c_fs := fs\<rparr>)))"

definition Handler_put ::
  "('db, 'r) cache_env \<Rightarrow> bool \<Rightarrow> (nat \<Rightarrow> int) \<Rightarrow> (uploader \<Rightarrow> uploader \<times> wait_end) \<Rightarrow> Kind \<Rightarrow> Digest \<Rightarrow> reader
     \<Rightarrow> ('db, 'r) cache \<Rightarrow> http_response \<times> ('db, 'r) cache" where
  "Handler_put K verify clk during k d body c =
     (case bazel_Put K verify clk during k d body c of
        (None, c) \<Rightarrow> (\<lparr>rs_status = 200, rs_length = None, rs_body = []\<rparr>, c)
      | (Some err, c) \<Rightarrow>
          (if err = ErrDigestMismatch then (http_Error 400, c)
           else (\<lparr>rs_status = 200, rs_length = None, rs_body = []\<rparr>, c)))"

text \<open>The monitoring routes; a provider is what the daemon's function and the encoding of its value return.\<close>

definition serveMonitoring :: "(bytes \<Rightarrow> bytes) \<Rightarrow> string \<Rightarrow> bytes result \<Rightarrow> http_response" where
  "serveMonitoring sent meth body =
     (if meth \<noteq> ''GET'' \<and> meth \<noteq> ''HEAD'' then http_Error 405
      else case body of
        Inl err \<Rightarrow> http_Error 500
      | Inr b \<Rightarrow> \<lparr>rs_status = 200, rs_length = Some (int (length b)), rs_body = (if meth = ''HEAD'' then [] else sent b)\<rparr>)"

record monitoring =
  mon_status :: "bytes result option"
  mon_metrics :: "bytes result option"
  mon_stats :: "http_response option"

definition ServeHTTP ::
  "('db, 'r) cache_env \<Rightarrow> bool \<Rightarrow> monitoring \<Rightarrow> (nat \<Rightarrow> int) \<Rightarrow> (uploader \<Rightarrow> uploader \<times> wait_end) \<Rightarrow> (bytes \<Rightarrow> bytes)
     \<Rightarrow> http_request \<Rightarrow> ('db, 'r) cache \<Rightarrow> http_response \<times> ('db, 'r) cache" where
  "ServeHTTP K verify mon clk during sent r c =
     (let cacheRoute =
        (case parsePath (rq_path r) of
           None \<Rightarrow> (http_Error 404, c)
         | Some (k, d) \<Rightarrow>
             (if rq_method r = ''GET'' \<or> rq_method r = ''HEAD'' then Handler_get K clk sent (rq_method r) k d c
              else if rq_method r = ''PUT'' then Handler_put K verify clk during k d (rq_body r) c
              else (http_Error 405, c))) in
      if rq_path r = ''/status'' then
        (case mon_status mon of Some b \<Rightarrow> (serveMonitoring sent (rq_method r) b, c) | None \<Rightarrow> cacheRoute)
      else if rq_path r = ''/metrics'' then
        (case mon_metrics mon of Some b \<Rightarrow> (serveMonitoring sent (rq_method r) b, c) | None \<Rightarrow> cacheRoute)
      else if rq_path r = ''/stats'' then
        (case mon_stats mon of Some resp \<Rightarrow> (resp, c) | None \<Rightarrow> cacheRoute)
      else cacheRoute)"

end
