(* ===== verification/Resource.thy ===== *)
theory Resource
  imports Bazel Strconv
begin

text \<open>
  Package \<^verbatim>\<open>internal/reapi\<close>, the part every service shares (\<^verbatim>\<open>reapi.go\<close>) and the names of blobs on a
  byte stream (\<^verbatim>\<open>resource.go\<close>). A gRPC status error is its code; the texts are not modelled. The
  messages of the Remote Execution API are the records of their fields.
\<close>

section \<open>Statuses, digests, digest functions (reapi.go)\<close>

datatype code = OK | InvalidArgument | NotFound | OutOfRange | Aborted | Internal | Unavailable | Unimplemented | Unknown | OtherCode nat

type_synonym 'a rpc = "code + 'a"

datatype Compressor = IDENTITY | ZSTD | OtherCompressor nat
datatype DigestFunction = UNKNOWN | SHA256 | OtherFunction nat

record pb_Digest =
  pd_Hash :: string
  pd_SizeBytes :: int

definition maxBatchTotalSizeBytes :: int where "maxBatchTotalSizeBytes = 4 * 2 ^ 20"
definition readChunkSize :: nat where "readChunkSize = 2 ^ 20"
definition maxActionResultBytes :: int where "maxActionResultBytes = 16 * 2 ^ 20"

definition emptyDigest :: Digest where "emptyDigest = sha256 []"

text \<open>A message field may be absent (\<^verbatim>\<open>nil\<close>).\<close>

definition reapi_digest :: "pb_Digest option \<Rightarrow> Digest rpc" where
  "reapi_digest bd =
     (case bd of
        None \<Rightarrow> Inl InvalidArgument
      | Some d \<Rightarrow>
          (case ParseDigest (pd_Hash d) of
             Inl _ \<Rightarrow> Inl InvalidArgument
           | Inr parsed \<Rightarrow> (if pd_SizeBytes d < 0 then Inl InvalidArgument else Inr parsed)))"

definition checkDigestFunction :: "bool \<Rightarrow> DigestFunction \<Rightarrow> code option" where
  "checkDigestFunction verify v =
     (if v = UNKNOWN \<or> v = SHA256 then None else if \<not> verify then None else Some InvalidArgument)"

section \<open>Instance names (cas.go)\<close>

type_synonym instanceSet = "string set"

definition newInstanceSet :: "string list \<Rightarrow> instanceSet" where
  "newInstanceSet names = insert [] (set names)"

definition instance_check :: "instanceSet \<Rightarrow> string \<Rightarrow> code option" where
  "instance_check s name = (if name \<in> s then None else Some InvalidArgument)"

section \<open>Resource names (resource.go)\<close>

record resource =
  rs_name :: string
  rs_digest :: Digest
  rs_size :: int
  rs_compressor :: Compressor
  rs_digestFunc :: string

definition resourceKeywords :: "string list" where
  "resourceKeywords = [''blobs'', ''uploads'', ''actions'', ''actionResults'', ''operations'', ''capabilities'', ''compressed-blobs'']"

fun trimSegs :: "instanceSet \<Rightarrow> string list \<Rightarrow> string list \<Rightarrow> string list rpc" where
  "trimSegs I before [] = Inl InvalidArgument"
| "trimSegs I before (s # segs) =
     (if s \<in> set resourceKeywords then
        (case instance_check I (join_with path_slash before) of
           Some err \<Rightarrow> Inl err
         | None \<Rightarrow> Inr (s # segs))
      else trimSegs I (before @ [s]) segs)"

definition trimInstance :: "string \<Rightarrow> instanceSet \<Rightarrow> string list rpc" where
  "trimInstance name I = trimSegs I [] (split_on path_slash name)"

definition compressorByName :: "string \<Rightarrow> Compressor option" where
  "compressorByName s = (if s = ''zstd'' then Some ZSTD else None)"

text \<open>The keyword and the compressor: how the bytes travel, and the segments after.\<close>

definition blobTransport :: "string list \<Rightarrow> (Compressor \<times> string list) rpc" where
  "blobTransport segs =
     (case segs of
        [] \<Rightarrow> Inl InvalidArgument
      | s # rest \<Rightarrow>
          (if s = ''blobs'' then Inr (IDENTITY, rest)
           else if s = ''compressed-blobs'' then
             (case rest of
                [] \<Rightarrow> Inl InvalidArgument
              | c # rest \<Rightarrow> (case compressorByName c of None \<Rightarrow> Inl InvalidArgument | Some c \<Rightarrow> Inr (c, rest)))
           else Inl InvalidArgument))"

text \<open>The optional digest function and the digest, and the segments from the digest on.\<close>

definition blobDigest :: "string list \<Rightarrow> (string \<times> Digest \<times> string list) rpc" where
  "blobDigest segs =
     (case segs of
        s # t # rest \<Rightarrow>
          (case ParseDigest s of
             Inr d \<Rightarrow> Inr ([], d, segs)
           | Inl _ \<Rightarrow>
               (if rest = [] then Inl InvalidArgument
                else case ParseDigest t of Inl _ \<Rightarrow> Inl InvalidArgument | Inr d \<Rightarrow> Inr (s, d, t # rest)))
      | _ \<Rightarrow> Inl InvalidArgument)"

definition parseBlobRef :: "string \<Rightarrow> string list \<Rightarrow> (resource \<times> string list) rpc" where
  "parseBlobRef name segs =
     (case blobTransport segs of
        Inl err \<Rightarrow> Inl err
      | Inr (compr, segs) \<Rightarrow>
          (case blobDigest segs of
             Inl err \<Rightarrow> Inl err
           | Inr (func, d, segs) \<Rightarrow>
               (case ParseInt (segs ! 1) of
                  None \<Rightarrow> Inl InvalidArgument
                | Some sz \<Rightarrow>
                    (if sz < 0 then Inl InvalidArgument
                     else Inr (\<lparr>rs_name = name, rs_digest = d, rs_size = sz, rs_compressor = compr, rs_digestFunc = func\<rparr>,
                               drop 2 segs)))))"

definition parseReadResource :: "string \<Rightarrow> instanceSet \<Rightarrow> resource rpc" where
  "parseReadResource name I =
     (case trimInstance name I of
        Inl err \<Rightarrow> Inl err
      | Inr segs \<Rightarrow>
          (case parseBlobRef name segs of
             Inl err \<Rightarrow> Inl err
           | Inr (res, rest) \<Rightarrow> (if rest \<noteq> [] then Inl InvalidArgument else Inr res)))"

definition parseWriteResource :: "string \<Rightarrow> instanceSet \<Rightarrow> resource rpc" where
  "parseWriteResource name I =
     (case trimInstance name I of
        Inl err \<Rightarrow> Inl err
      | Inr segs \<Rightarrow>
          (if length segs < 2 \<or> segs ! 0 \<noteq> ''uploads'' then Inl InvalidArgument
           else if segs ! 1 = [] then Inl InvalidArgument
           else case parseBlobRef name (drop 2 segs) of Inl err \<Rightarrow> Inl err | Inr (res, _) \<Rightarrow> Inr res))"

definition checkResource :: "bool \<Rightarrow> resource \<Rightarrow> code option" where
  "checkResource verify res = (if rs_digestFunc res \<noteq> [] \<and> verify then Some InvalidArgument else None)"

section \<open>Writing a name down, and reading it\<close>

text \<open>The grammar of the API, as a client writes it: an instance, an upload id, a transport, the digest and the size.\<close>

definition blobSegs :: "Compressor \<Rightarrow> Digest \<Rightarrow> int \<Rightarrow> string list" where
  "blobSegs c d sz = (if c = ZSTD then [''compressed-blobs'', ''zstd''] else [''blobs'']) @ [id_String d, FormatInt sz]"

definition readName :: "string list \<Rightarrow> Compressor \<Rightarrow> Digest \<Rightarrow> int \<Rightarrow> string" where
  "readName inst c d sz = join_with path_slash (inst @ blobSegs c d sz)"

definition writeName :: "string list \<Rightarrow> string \<Rightarrow> Compressor \<Rightarrow> Digest \<Rightarrow> int \<Rightarrow> string list \<Rightarrow> string" where
  "writeName inst uuid c d sz meta = join_with path_slash (inst @ [''uploads'', uuid] @ blobSegs c d sz @ meta)"

definition plain_segs :: "string list \<Rightarrow> bool" where
  "plain_segs xs \<longleftrightarrow> (\<forall>x\<in>set xs. path_slash \<notin> set x)"

lemma trimSegs_inst:
  "\<forall>x\<in>set inst. x \<notin> set resourceKeywords \<Longrightarrow> k \<in> set resourceKeywords \<Longrightarrow> join_with path_slash (b @ inst) \<in> I \<Longrightarrow>
     trimSegs I b (inst @ k # segs) = Inr (k # segs)"
  by (induction inst arbitrary: b) (auto simp: instance_check_def)

lemma hexno: "path_slash \<notin> set (id_String d)"
  using id_String_hex by (fastforce simp: path_slash_def is_hex_def)

lemma sizeno: "path_slash \<notin> set (FormatInt sz)"
  using FormatInt_chars by (fastforce simp: path_slash_def)

lemma blobSegs_plain: "plain_segs (blobSegs c d sz)"
  using hexno sizeno by (auto simp: plain_segs_def blobSegs_def path_slash_def)

lemma parseBlobRef_segs:
  assumes "0 \<le> sz" "in64 sz" "c = IDENTITY \<or> c = ZSTD"
  shows "parseBlobRef name (blobSegs c d sz @ meta)
    = Inr (\<lparr>rs_name = name, rs_digest = d, rs_size = sz, rs_compressor = c, rs_digestFunc = []\<rparr>, meta)"
  using assms ParseInt_FormatInt [OF assms(2)]
  by (auto simp: parseBlobRef_def blobTransport_def blobDigest_def blobSegs_def compressorByName_def)

lemma trimInstance_join:
  assumes "plain_segs (inst @ k # segs)" "\<forall>x\<in>set inst. x \<notin> set resourceKeywords" "k \<in> set resourceKeywords"
    and "join_with path_slash inst \<in> I"
  shows "trimInstance (join_with path_slash (inst @ k # segs)) I = Inr (k # segs)"
proof -
  have "split_on path_slash (join_with path_slash (inst @ k # segs)) = inst @ k # segs"
    by (rule split_join) (use assms(1) in \<open>auto simp: plain_segs_def\<close>)
  then show ?thesis using trimSegs_inst [OF assms(2,3), of "[]" I segs] assms(4) by (simp add: trimInstance_def)
qed

lemma parseWrite_name:
  assumes "plain_segs inst" "\<forall>x\<in>set inst. x \<notin> set resourceKeywords" "join_with path_slash inst \<in> I"
    and "plain_segs (uuid # meta)" "uuid \<noteq> []" "0 \<le> sz" "in64 sz" "c = IDENTITY \<or> c = ZSTD"
  shows "parseWriteResource (writeName inst uuid c d sz meta) I
      = Inr \<lparr>rs_name = writeName inst uuid c d sz meta, rs_digest = d, rs_size = sz, rs_compressor = c, rs_digestFunc = []\<rparr>"
proof -
  have w: "trimInstance (writeName inst uuid c d sz meta) I = Inr (''uploads'' # uuid # blobSegs c d sz @ meta)"
    using trimInstance_join [of inst "''uploads''" "uuid # blobSegs c d sz @ meta" I] assms(1-4) blobSegs_plain [of c d sz]
    by (auto simp: plain_segs_def writeName_def resourceKeywords_def path_slash_def)
  then show ?thesis using parseBlobRef_segs [OF assms(6-8), of _ d] assms(5) by (simp add: parseWriteResource_def)
qed

text \<open>
  C40. Resource names. For every instance the server answers to, every transport, digest and size, the
  name a client writes for a read or for an upload parses to exactly that digest, size and
  transport, and keeps the name itself, by which an upload is resumed; trailing metadata is
  ignored on an upload and refused on a read.
\<close>

theorem resource_name_roundtrip:
  assumes "plain_segs inst" "\<forall>x\<in>set inst. x \<notin> set resourceKeywords" "join_with path_slash inst \<in> I"
    and "plain_segs (uuid # meta)" "uuid \<noteq> []" "0 \<le> sz" "in64 sz" "c = IDENTITY \<or> c = ZSTD"
  shows "parseReadResource (readName inst c d sz) I
      = Inr \<lparr>rs_name = readName inst c d sz, rs_digest = d, rs_size = sz, rs_compressor = c, rs_digestFunc = []\<rparr>
    \<and> parseWriteResource (writeName inst uuid c d sz meta) I
      = Inr \<lparr>rs_name = writeName inst uuid c d sz meta, rs_digest = d, rs_size = sz, rs_compressor = c, rs_digestFunc = []\<rparr>
    \<and> (meta \<noteq> [] \<longrightarrow> parseReadResource (join_with path_slash (inst @ blobSegs c d sz @ meta)) I = Inl InvalidArgument)"
proof -
  have "\<exists>k ks. blobSegs c d sz = k # ks \<and> k \<in> set resourceKeywords"
    by (cases "c = ZSTD") (simp_all add: blobSegs_def resourceKeywords_def)
  then obtain k ks where k: "blobSegs c d sz = k # ks" "k \<in> set resourceKeywords" by blast
  have r: "trimInstance (join_with path_slash (inst @ blobSegs c d sz @ m)) I = Inr (blobSegs c d sz @ m)" if "plain_segs m" for m
    using trimInstance_join [of inst k "ks @ m" I] assms(1-3) blobSegs_plain [of c d sz] that k by (auto simp: plain_segs_def)
  note P = parseBlobRef_segs [OF assms(6-8), of _ d]
  have "parseReadResource (readName inst c d sz) I
      = Inr \<lparr>rs_name = readName inst c d sz, rs_digest = d, rs_size = sz, rs_compressor = c, rs_digestFunc = []\<rparr>"
    using r [of "[]"] P [of _ "[]"] by (simp add: parseReadResource_def readName_def plain_segs_def)
  moreover note parseWrite_name [OF assms]
  moreover have "parseReadResource (join_with path_slash (inst @ blobSegs c d sz @ meta)) I = Inl InvalidArgument" if "meta \<noteq> []"
    using r [of meta] P that assms(4) by (simp add: parseReadResource_def plain_segs_def)
  ultimately show ?thesis by blast
qed

theorem resource_name_roundtrip_witness:
  "parseReadResource (readName [''main''] ZSTD (copy_id [7]) 42) (newInstanceSet [''main''])
    = Inr \<lparr>rs_name = readName [''main''] ZSTD (copy_id [7]) 42, rs_digest = copy_id [7], rs_size = 42, rs_compressor = ZSTD, rs_digestFunc = []\<rparr>"
  using resource_name_roundtrip [where inst = "[''main'']" and c = ZSTD and d = "copy_id [7]" and sz = 42
      and I = "newInstanceSet [''main'']" and uuid = "''u''" and meta = "[]"]
  by (simp add: plain_segs_def resourceKeywords_def newInstanceSet_def path_slash_def in64_def)

end
