(* ===== verification/Pending.thy ===== *)
theory Pending
  imports Resource
begin

text \<open>
  The registry of partially received writes (\<^verbatim>\<open>internal/reapi/uploads.go\<close>) and the decoder a compressed
  stream goes through (\<^verbatim>\<open>zstd.go\<close>). A \<^verbatim>\<open>*pending\<close> is an address in a heap, because the registry and the
  handler of a stream share it; the registry maps resource names to addresses. Operations are
  atomic, as the mutex makes them, except that discarding a write's file happens outside the lock,
  which touches nothing of the registry.
\<close>

section \<open>Decoding a stream (zstd.go)\<close>

text \<open>
  The zstd package is a parameter. Of a stream: the plain bytes the decoder has written through
  once it consumed these compressed ones, what the write into the pipe that completed them
  returned, and what comes out when the stream ends there. Of a buffer: both directions whole. Of an
  encoder: whether it can be made, and the frame a body becomes.
\<close>

record zstd =
  zd_out :: "bytes \<Rightarrow> bytes"
  zd_push :: "bytes \<Rightarrow> error option"
  zd_end :: "bytes \<Rightarrow> bytes \<times> error option"
  zd_all :: "bytes \<Rightarrow> bytes result"
  ze_all :: "bytes \<Rightarrow> bytes result"
  ze_new :: "error option"
  ze_stream :: "bytes \<Rightarrow> bytes result"

record decodeSink =
  sk_in :: bytes
  sk_err :: "error option"   \<comment> \<open>what \<^verbatim>\<open>WriteTo\<close> ended with, when writing the plain bytes failed\<close>

definition newDecodeSink :: decodeSink where
  "newDecodeSink = \<lparr>sk_in = [], sk_err = None\<rparr>"

definition sink_Write :: "osenv \<Rightarrow> zstd \<Rightarrow> bytes \<Rightarrow> decodeSink \<Rightarrow> Upload \<Rightarrow> fsys \<Rightarrow> error option \<times> decodeSink \<times> Upload \<times> fsys" where
  "sink_Write E z p sk u fs =
     (case sk_err sk of
        Some err \<Rightarrow> (Some err, sk, u, fs)
      | None \<Rightarrow>
          (let all = sk_in sk @ p;
               fresh = drop (length (zd_out z (sk_in sk))) (zd_out z all);
               ((n, werr), u, fs) = Upload_Write E fresh u fs in
           (case zd_push z all of Some err \<Rightarrow> Some err | None \<Rightarrow> werr, \<lparr>sk_in = all, sk_err = werr\<rparr>, u, fs)))"

definition sink_Finish :: "osenv \<Rightarrow> zstd \<Rightarrow> decodeSink \<Rightarrow> Upload \<Rightarrow> fsys \<Rightarrow> error option \<times> Upload \<times> fsys" where
  "sink_Finish E z sk u fs =
     (case sk_err sk of
        Some err \<Rightarrow> (Some err, u, fs)
      | None \<Rightarrow>
          (let (rest, derr) = zd_end z (sk_in sk);
               ((n, werr), u, fs) = Upload_Write E rest u fs in
           (case derr of Some err \<Rightarrow> Some err | None \<Rightarrow> werr, u, fs)))"

section \<open>Pending writes (uploads.go)\<close>

definition uploadIdleTimeout :: int where "uploadIdleTimeout = 10 * 60 * 1000000000"
definition maxPendingUploads :: nat where "maxPendingUploads = 256"

record pending =
  pn_res :: resource
  pn_up :: Upload
  pn_sink :: "decodeSink option"
  pn_streamStart :: int
  pn_streamBytes :: int
  pn_claimed :: bool
  pn_idleSince :: int

type_synonym addr_of = nat

record uploads =
  ul_byID :: "(string \<times> addr_of) list"
  ul_heap :: "addr_of \<Rightarrow> pending"
  ul_next :: addr_of

text \<open>No address is in use yet; what the heap holds there does not matter.\<close>

definition newUploads :: "(addr_of \<Rightarrow> pending) \<Rightarrow> uploads" where
  "newUploads unused = \<lparr>ul_byID = [], ul_heap = unused, ul_next = 0\<rparr>"

definition pending_at :: "uploads \<Rightarrow> string \<Rightarrow> addr_of option" where
  "pending_at U name = map_of (ul_byID U) name"

definition set_pending :: "addr_of \<Rightarrow> pending \<Rightarrow> uploads \<Rightarrow> uploads" where
  "set_pending a p U = U\<lparr>ul_heap := (ul_heap U)(a := p)\<rparr>"

text \<open>\<^verbatim>\<open>&pending{...}\<close>.\<close>

definition new_pending :: "pending \<Rightarrow> uploads \<Rightarrow> addr_of \<times> uploads" where
  "new_pending p U = (ul_next U, U\<lparr>ul_heap := (ul_heap U)(ul_next U := p), ul_next := Suc (ul_next U)\<rparr>)"

definition committed :: "pending \<Rightarrow> int" where
  "committed p = up_off (pn_up p)"

definition compressed :: "pending \<Rightarrow> bool" where
  "compressed p \<longleftrightarrow> rs_compressor (pn_res p) \<noteq> IDENTITY"

definition abortStream :: "pending \<Rightarrow> pending" where
  "abortStream p = p\<lparr>pn_sink := None\<rparr>"

definition pending_discard :: "osenv \<Rightarrow> addr_of \<Rightarrow> uploads \<Rightarrow> fsys \<Rightarrow> uploads \<times> fsys" where
  "pending_discard E a U fs =
     (let p = abortStream (ul_heap U a);
          (u, fs) = Upload_Discard E (pn_up p) fs in
      (set_pending a (p\<lparr>pn_up := u\<rparr>) U, fs))"

fun discard_each :: "osenv \<Rightarrow> addr_of list \<Rightarrow> uploads \<Rightarrow> fsys \<Rightarrow> uploads \<times> fsys" where
  "discard_each E [] U fs = (U, fs)"
| "discard_each E (a # as) U fs = (let (U, fs) = pending_discard E a U fs in discard_each E as U fs)"

definition takeClaim :: "addr_of \<Rightarrow> uploads \<Rightarrow> uploads" where
  "takeClaim a U = set_pending a ((ul_heap U a)\<lparr>pn_claimed := True\<rparr>) U"

definition uploads_claim :: "string \<Rightarrow> uploads \<Rightarrow> (addr_of option \<times> bool) \<times> uploads" where
  "uploads_claim name U =
     (case pending_at U name of
        None \<Rightarrow> ((None, False), U)
      | Some a \<Rightarrow> (if pn_claimed (ul_heap U a) then ((None, True), U) else ((Some a, False), takeClaim a U)))"

definition delete_name :: "string \<Rightarrow> uploads \<Rightarrow> uploads" where
  "delete_name name U = U\<lparr>ul_byID := filter (\<lambda>x. fst x \<noteq> name) (ul_byID U)\<rparr>"

definition uploads_release :: "int \<Rightarrow> addr_of \<Rightarrow> bool \<Rightarrow> uploads \<Rightarrow> uploads" where
  "uploads_release now a keep U =
     (let U = set_pending a ((ul_heap U a)\<lparr>pn_claimed := False, pn_idleSince := now\<rparr>) U in
      if \<not> keep then delete_name (rs_name (pn_res (ul_heap U a))) U else U)"

text \<open>
  The longest-idle write nobody is streaming into. The order in which Go visits the map decides
  between writes idle since the same instant; here it is the order of the list.
\<close>

fun oldestIdle :: "(addr_of \<Rightarrow> pending) \<Rightarrow> (string \<times> addr_of) list \<Rightarrow> addr_of option \<Rightarrow> addr_of option" where
  "oldestIdle h [] best = best"
| "oldestIdle h ((name, a) # xs) best =
     (if pn_claimed (h a) then oldestIdle h xs best
      else case best of
        None \<Rightarrow> oldestIdle h xs (Some a)
      | Some b \<Rightarrow> (if pn_idleSince (h a) < pn_idleSince (h b) then oldestIdle h xs (Some a) else oldestIdle h xs best))"

text \<open>Each round removes a name, so as many rounds as there are names are enough.\<close>

fun makeRoomLoop :: "nat \<Rightarrow> uploads \<Rightarrow> addr_of list \<Rightarrow> addr_of list \<times> uploads" where
  "makeRoomLoop 0 U evicted = (evicted, U)"
| "makeRoomLoop (Suc n) U evicted =
     (if length (ul_byID U) \<le> maxPendingUploads then (evicted, U)
      else case oldestIdle (ul_heap U) (ul_byID U) None of
        None \<Rightarrow> (evicted, U)
      | Some a \<Rightarrow> makeRoomLoop n (delete_name (rs_name (pn_res (ul_heap U a))) U) (evicted @ [a]))"

definition makeRoomLocked :: "uploads \<Rightarrow> addr_of list \<times> uploads" where
  "makeRoomLocked U = makeRoomLoop (length (ul_byID U)) U []"

definition uploads_begin :: "osenv \<Rightarrow> int \<Rightarrow> addr_of \<Rightarrow> uploads \<Rightarrow> fsys \<Rightarrow> bool \<times> uploads \<times> fsys" where
  "uploads_begin E now a U fs =
     (let name = rs_name (pn_res (ul_heap U a));
          old = pending_at U name in
      if (case old of Some b \<Rightarrow> pn_claimed (ul_heap U b) | None \<Rightarrow> False) then
        (let (U, fs) = pending_discard E a U fs in (False, U, fs))
      else
        (let U = takeClaim a U;
             U = set_pending a ((ul_heap U a)\<lparr>pn_idleSince := now\<rparr>) U;
             U = U\<lparr>ul_byID := AList.update name a (ul_byID U)\<rparr>;
             (evicted, U) = makeRoomLocked U;
             (U, fs) = (case old of Some b \<Rightarrow> pending_discard E b U fs | None \<Rightarrow> (U, fs));
             (U, fs) = discard_each E evicted U fs in
         (True, U, fs)))"

definition uploads_status :: "string \<Rightarrow> uploads \<Rightarrow> int \<times> bool \<times> bool" where
  "uploads_status name U =
     (case pending_at U name of
        None \<Rightarrow> (0, False, False)
      | Some a \<Rightarrow> (if pn_claimed (ul_heap U a) then (0, True, False) else (committed (ul_heap U a), False, True)))"

definition stale_writes :: "int \<Rightarrow> uploads \<Rightarrow> (string \<times> addr_of) list" where
  "stale_writes now U =
     filter (\<lambda>(name, a). \<not> (pn_claimed (ul_heap U a) \<or> now - pn_idleSince (ul_heap U a) < uploadIdleTimeout)) (ul_byID U)"

definition uploads_sweep :: "osenv \<Rightarrow> int \<Rightarrow> uploads \<Rightarrow> fsys \<Rightarrow> nat \<times> uploads \<times> fsys" where
  "uploads_sweep E now U fs =
     (let stale = stale_writes now U;
          U = U\<lparr>ul_byID := filter (\<lambda>x. x \<notin> set stale) (ul_byID U)\<rparr>;
          (U, fs) = discard_each E (map snd stale) U fs in
      (length stale, U, fs))"

definition uploads_discardAll :: "osenv \<Rightarrow> uploads \<Rightarrow> fsys \<Rightarrow> nat \<times> uploads \<times> fsys" where
  "uploads_discardAll E U fs =
     (let stale = map snd (ul_byID U);
          (U, fs) = discard_each E stale (U\<lparr>ul_byID := []\<rparr>) fs in
      (length stale, U, fs))"

text \<open>
  \<^verbatim>\<open>awaitStatus\<close> looks once, and once more each time the claim it waits for is released; the list is
  what the registry is at each look. It ends when the context or the timer does.
\<close>

fun awaitStatus :: "string \<Rightarrow> uploads list \<Rightarrow> (int \<times> bool) rpc" where
  "awaitStatus name [] = Inl Unavailable"
| "awaitStatus name (U # Us) =
     (case uploads_status name U of
        (c, busy, ok) \<Rightarrow> (if ok \<or> \<not> busy then Inr (c, ok) else awaitStatus name Us))"

end
