(* ===== verification/ByteStream.thy ===== *)
theory ByteStream
  imports Pending
begin

text \<open>
  Blobs too large for a batch (\<^verbatim>\<open>internal/reapi/bytestream.go\<close>): reads cut into messages, and writes that a
  client can resume. A client's stream is the requests it sends and how it ends; what the transport
  makes of a message that is sent is a parameter.
\<close>

record ('db, 'r) reapi_env =
  re_K :: "('db, 'r) cache_env"
  re_verify :: bool
  re_instances :: instanceSet
  re_z :: zstd
  re_during :: "uploader \<Rightarrow> uploader \<times> wait_end"
  re_read :: "bytes \<Rightarrow> bytes \<times> error option"   \<comment> \<open>what reading these bytes of a file delivers\<close>

text \<open>\<^verbatim>\<open>Server\<close>: what its handlers share and change.\<close>

record ('db, 'r) reapi =
  ra_cache :: "('db, 'r) cache"
  ra_uploads :: uploads
  ra_bytesRead :: int
  ra_bytesWritten :: int
  ra_present :: int
  ra_missing :: int

section \<open>Cutting a body into messages\<close>

record chunkWriter =
  cw_buf :: bytes
  cw_sent :: "bytes list"

text \<open>\<open>send n\<close> is what sending the n-th message returns.\<close>

definition cw_Flush :: "(nat \<Rightarrow> code option) \<Rightarrow> chunkWriter \<Rightarrow> code option \<times> chunkWriter" where
  "cw_Flush send w =
     (if cw_buf w = [] then (None, w)
      else case send (length (cw_sent w)) of
        Some err \<Rightarrow> (Some err, w)
      | None \<Rightarrow> (None, \<lparr>cw_buf = [], cw_sent = cw_sent w @ [cw_buf w]\<rparr>))"

text \<open>
  Both loops: bytes are taken as far as the buffer has room, and a full buffer is sent. \<^verbatim>\<open>ReadFrom\<close>
  ends with the error the reader ends with, if it is not the end of the file. A buffer is never full
  between rounds, so the test of \<open>n\<close> only makes the function total.
\<close>

function cw_Fill :: "(nat \<Rightarrow> code option) \<Rightarrow> bytes \<Rightarrow> chunkWriter \<Rightarrow> code option \<times> chunkWriter" where
  "cw_Fill send p w =
     (if p = [] then (None, w)
      else
        (let n = min (readChunkSize - length (cw_buf w)) (length p);
             w = w\<lparr>cw_buf := cw_buf w @ take n p\<rparr>;
             (err, w) = (if length (cw_buf w) = readChunkSize then cw_Flush send w else (None, w)) in
         case err of
           Some e \<Rightarrow> (Some e, w)
         | None \<Rightarrow> (if n = 0 then (None, w) else cw_Fill send (drop n p) w)))"
  by pat_completeness auto

termination by (relation "measure (\<lambda>(_, p, _). length p)") (auto simp: Let_def split: if_splits)

declare cw_Fill.simps [simp del]

definition cw_Write :: "(nat \<Rightarrow> code option) \<Rightarrow> bytes \<Rightarrow> chunkWriter \<Rightarrow> code option \<times> chunkWriter" where
  "cw_Write send p w = cw_Fill send p w"

definition cw_ReadFrom :: "(nat \<Rightarrow> code option) \<Rightarrow> bytes \<times> error option \<Rightarrow> chunkWriter \<Rightarrow> code option \<times> chunkWriter" where
  "cw_ReadFrom send r w =
     (case cw_Fill send (fst r) w of
        (Some e, w) \<Rightarrow> (Some e, w)
      | (None, w) \<Rightarrow> (if snd r = None then (None, w) else (Some (Unknown), w)))"

section \<open>Read\<close>

record ReadRequest =
  rr_ResourceName :: string
  rr_ReadOffset :: int
  rr_ReadLimit :: int

definition os_Seek :: "osenv \<Rightarrow> File \<Rightarrow> fsys \<Rightarrow> unit result \<times> fsys" where
  "os_Seek E f = syscall E (\<lambda>fs. (Inr (), fs))"

text \<open>What follows the open: the encoder or the plain copy, and the last message.\<close>

definition sendBody :: "('db, 'r) reapi_env \<Rightarrow> (nat \<Rightarrow> code option) \<Rightarrow> Compressor \<Rightarrow> bytes \<Rightarrow> code option \<times> bytes list" where
  "sendBody S send c src =
     (let w = \<lparr>cw_buf = [], cw_sent = []\<rparr>;
          (err, w) =
            (if c = ZSTD then
               (case ze_new (re_z S) of
                  Some _ \<Rightarrow> (Some Internal, w)
                | None \<Rightarrow>
                    (case re_read S src of
                       (d, Some _) \<Rightarrow> (Some (Unknown), w)
                     | (d, None) \<Rightarrow>
                         (case ze_stream (re_z S) d of
                            Inl _ \<Rightarrow> (Some (Unknown), w)
                          | Inr enc \<Rightarrow> cw_Write send enc w)))
             else cw_ReadFrom send (re_read S src) w) in
      case err of
        Some e \<Rightarrow> (Some e, cw_sent w)
      | None \<Rightarrow> (let (err, w) = cw_Flush send w in (err, cw_sent w)))"

definition ByteStream_Read ::
  "('db, 'r) reapi_env \<Rightarrow> (nat \<Rightarrow> int) \<Rightarrow> (nat \<Rightarrow> code option) \<Rightarrow> ReadRequest \<Rightarrow> ('db, 'r) reapi
     \<Rightarrow> (code option \<times> bytes list) \<times> ('db, 'r) reapi" where
  "ByteStream_Read S clk send req st =
     (case parseReadResource (rr_ResourceName req) (re_instances S) of
        Inl err \<Rightarrow> ((Some err, []), st)
      | Inr res \<Rightarrow>
          (case checkResource (re_verify S) res of
             Some err \<Rightarrow> ((Some err, []), st)
           | None \<Rightarrow>
               (let off = rr_ReadOffset req; limit = rr_ReadLimit req in
                if off < 0 \<or> limit < 0 then ((Some InvalidArgument, []), st)
                else if rs_compressor res \<noteq> IDENTITY \<and> limit \<noteq> 0 then ((Some InvalidArgument, []), st)
                else if rs_digest res = emptyDigest then
                  (if off > 0 then ((Some OutOfRange, []), st) else ((None, []), st))
                else case bazel_Open (re_K S) clk KindCAS (rs_digest res) (ra_cache st) of
                  (None, c) \<Rightarrow> ((Some NotFound, []), st\<lparr>ra_cache := c\<rparr>)
                | (Some (f, sz), c) \<Rightarrow>
                    (let fin = (\<lambda>r fs. (r, st\<lparr>ra_cache := c\<lparr>c_fs := snd (os_Close (ce_E (re_K S)) f fs)\<rparr>\<rparr>)) in
                     if off > sz then fin (Some OutOfRange, []) (c_fs c)
                     else case os_Seek (ce_E (re_K S)) f (c_fs c) of
                       (Inl _, fs) \<Rightarrow> fin (Some Internal, []) fs
                     | (Inr _, fs) \<Rightarrow>
                         (let remaining = sub64 sz off;
                              remaining = (if limit > 0 \<and> limit < remaining then limit else remaining);
                              src = take (nat remaining) (drop (nat off) (i_data (fs_inode fs (f_ino f))));
                              (r, st') = fin (sendBody S send (rs_compressor res) src) fs in
                          (r, st'\<lparr>ra_bytesRead := add64 (ra_bytesRead st') remaining\<rparr>))))))"

section \<open>Write\<close>

record WriteRequest =
  wr_ResourceName :: string
  wr_WriteOffset :: int
  wr_FinishWrite :: bool
  wr_Data :: bytes

datatype stream_end = EOF | Broken code

type_synonym write_stream = "WriteRequest list \<times> stream_end"

fun drain :: "WriteRequest \<Rightarrow> WriteRequest list \<Rightarrow> stream_end \<Rightarrow> code option" where
  "drain req rest fin =
     (if wr_FinishWrite req then None
      else case rest of
        [] \<Rightarrow> (case fin of EOF \<Rightarrow> None | Broken e \<Rightarrow> Some e)
      | r # rs \<Rightarrow> drain r rs fin)"

declare drain.simps [simp del]

definition put_fs :: "fsys \<Rightarrow> ('db, 'r) reapi \<Rightarrow> ('db, 'r) reapi" where
  "put_fs fs st = st\<lparr>ra_cache := (ra_cache st)\<lparr>c_fs := fs\<rparr>\<rparr>"

definition pend :: "('db, 'r) reapi \<Rightarrow> addr_of \<Rightarrow> pending" where
  "pend st a = ul_heap (ra_uploads st) a"

definition set_pend :: "addr_of \<Rightarrow> pending \<Rightarrow> ('db, 'r) reapi \<Rightarrow> ('db, 'r) reapi" where
  "set_pend a p st = st\<lparr>ra_uploads := set_pending a p (ra_uploads st)\<rparr>"

text \<open>The fields of a stream that starts, at an offset.\<close>

definition openStream :: "int \<Rightarrow> pending \<Rightarrow> pending" where
  "openStream off p = p\<lparr>pn_streamStart := off, pn_streamBytes := 0,
     pn_sink := (if compressed p then Some newDecodeSink else pn_sink p)\<rparr>"

definition startStream ::
  "('db, 'r) reapi_env \<Rightarrow> (nat \<Rightarrow> int) \<Rightarrow> resource \<Rightarrow> int \<Rightarrow> ('db, 'r) reapi \<Rightarrow> addr_of rpc \<times> ('db, 'r) reapi" where
  "startStream S clk res off st =
     (if off = 0 then
        (case bazel_Begin (re_K S) KindCAS (rs_digest res) (ra_cache st) of
           (Inl _, c) \<Rightarrow> (Inl Internal, st\<lparr>ra_cache := c\<rparr>)
         | (Inr up, c) \<Rightarrow>
             (let (a, U) = new_pending \<lparr>pn_res = res, pn_up = up, pn_sink = None, pn_streamStart = 0, pn_streamBytes = 0,
                    pn_claimed = False, pn_idleSince = 0\<rparr> (ra_uploads st);
                  (ok, U, fs) = uploads_begin (ce_E (re_K S)) (clk 0) a U (c_fs c);
                  st = st\<lparr>ra_cache := c\<lparr>c_fs := fs\<rparr>, ra_uploads := U\<rparr> in
              if \<not> ok then (Inl Aborted, st) else (Inr a, set_pend a (openStream 0 (pend st a)) st)))
      else
        (case uploads_claim (rs_name res) (ra_uploads st) of
           ((pa, busy), U) \<Rightarrow>
             (let st = st\<lparr>ra_uploads := U\<rparr> in
              if busy then (Inl Aborted, st)
              else case pa of
                None \<Rightarrow> (Inl InvalidArgument, st)
              | Some a \<Rightarrow>
                  (if committed (pend st a) \<noteq> off
                   then (Inl InvalidArgument, st\<lparr>ra_uploads := uploads_release (clk 0) a True (ra_uploads st)\<rparr>)
                   else (Inr a, set_pend a (openStream off (pend st a)) st)))))"

definition finish ::
  "('db, 'r) reapi_env \<Rightarrow> (nat \<Rightarrow> int) \<Rightarrow> addr_of \<Rightarrow> ('db, 'r) reapi \<Rightarrow> int rpc \<times> ('db, 'r) reapi" where
  "finish S clk a st =
     (let p = pend st a;
          (derr, st) =
            (case pn_sink p of
               None \<Rightarrow> (None, st)
             | Some sk \<Rightarrow>
                 (let (err, u, fs) = sink_Finish (ce_E (re_K S)) (re_z S) sk (pn_up p) (c_fs (ra_cache st)) in
                  (err, set_pend a (p\<lparr>pn_up := u, pn_sink := None\<rparr>) (put_fs fs st)))) in
      if derr \<noteq> None then (Inl InvalidArgument, st)
      else
        (let p = pend st a in
         if up_off (pn_up p) \<noteq> rs_size (pn_res p) then (Inl InvalidArgument, st)
         else
           (let (err, u, c) = Upload_Commit (re_K S) (re_verify S) clk (re_during S) (pn_up p) (ra_cache st);
                st = set_pend a (p\<lparr>pn_up := u\<rparr>) (st\<lparr>ra_cache := c\<rparr>) in
            if err = Some ErrDigestMismatch then (Inl InvalidArgument, st)
            else (Inr (if compressed p then add64 (pn_streamStart p) (pn_streamBytes p) else rs_size (pn_res p)), st))))"

definition writeData ::
  "('db, 'r) reapi_env \<Rightarrow> addr_of \<Rightarrow> bytes \<Rightarrow> ('db, 'r) reapi \<Rightarrow> error option \<times> ('db, 'r) reapi" where
  "writeData S a d st =
     (let p = pend st a in
      case pn_sink p of
        None \<Rightarrow>
          (let ((n, err), u, fs) = Upload_Write (ce_E (re_K S)) d (pn_up p) (c_fs (ra_cache st)) in
           (err, set_pend a (p\<lparr>pn_up := u\<rparr>) (put_fs fs st)))
      | Some sk \<Rightarrow>
          (let (err, sk, u, fs) = sink_Write (ce_E (re_K S)) (re_z S) d sk (pn_up p) (c_fs (ra_cache st)) in
           (err, set_pend a (p\<lparr>pn_up := u, pn_sink := Some sk\<rparr>) (put_fs fs st))))"

text \<open>One request of the loop; \<open>None\<close> goes on to the next.\<close>

definition receiveOne ::
  "('db, 'r) reapi_env \<Rightarrow> (nat \<Rightarrow> int) \<Rightarrow> addr_of \<Rightarrow> WriteRequest \<Rightarrow> ('db, 'r) reapi \<Rightarrow> int rpc option \<times> ('db, 'r) reapi" where
  "receiveOne S clk a req st =
     (let p = pend st a in
      if wr_ResourceName req \<noteq> [] \<and> wr_ResourceName req \<noteq> rs_name (pn_res p) then (Some (Inl InvalidArgument), st)
      else if wr_WriteOffset req \<noteq> add64 (pn_streamStart p) (pn_streamBytes p) then (Some (Inl InvalidArgument), st)
      else
        (let (err, st) =
           (if wr_Data req = [] then (None, st)
            else
              (let (err, st) = writeData S a (wr_Data req) st in
               case err of
                 Some e \<Rightarrow> (Some e, st)
               | None \<Rightarrow>
                   (let p = pend st a in
                    (None, set_pend a (p\<lparr>pn_streamBytes := add64 (pn_streamBytes p) (int (length (wr_Data req)))\<rparr>) st)))) in
         if err \<noteq> None then (Some (Inl Internal), st)
         else if wr_FinishWrite req then (let (r, st) = finish S clk a st in (Some r, st))
         else (None, st)))"

fun receive ::
  "('db, 'r) reapi_env \<Rightarrow> (nat \<Rightarrow> int) \<Rightarrow> addr_of \<Rightarrow> WriteRequest \<Rightarrow> WriteRequest list \<Rightarrow> stream_end \<Rightarrow> ('db, 'r) reapi
     \<Rightarrow> int rpc \<times> ('db, 'r) reapi" where
  "receive S clk a req rest fin st =
     (case receiveOne S clk a req st of
        (Some r, st) \<Rightarrow> (r, st)
      | (None, st) \<Rightarrow>
          (case rest of
             [] \<Rightarrow> (case fin of EOF \<Rightarrow> (Inl InvalidArgument, st) | Broken e \<Rightarrow> (Inl e, st))
           | r # rs \<Rightarrow> receive S clk a r rs fin st))"

declare receive.simps [simp del]

definition ByteStream_Write ::
  "('db, 'r) reapi_env \<Rightarrow> (nat \<Rightarrow> int) \<Rightarrow> write_stream \<Rightarrow> ('db, 'r) reapi \<Rightarrow> int rpc \<times> ('db, 'r) reapi" where
  "ByteStream_Write S clk strm st =
     (case fst strm of
        [] \<Rightarrow> (case snd strm of EOF \<Rightarrow> (Inl InvalidArgument, st) | Broken e \<Rightarrow> (Inl e, st))
      | req # rest \<Rightarrow>
          (case parseWriteResource (wr_ResourceName req) (re_instances S) of
             Inl err \<Rightarrow> (Inl err, st)
           | Inr res \<Rightarrow>
               (case checkResource (re_verify S) res of
                  Some err \<Rightarrow> (Inl err, st)
                | None \<Rightarrow>
                    (if wr_WriteOffset req < 0 then (Inl InvalidArgument, st)
                     else if rs_digest res = emptyDigest then
                       (case drain req rest (snd strm) of Some e \<Rightarrow> (Inl e, st) | None \<Rightarrow> (Inr 0, st))
                     else case bazel_Has (re_K S) clk KindCAS (rs_digest res) (ra_cache st) of
                       (True, c) \<Rightarrow> (Inr (if rs_compressor res \<noteq> IDENTITY then - 1 else rs_size res), st\<lparr>ra_cache := c\<rparr>)
                     | (False, c) \<Rightarrow>
                         (case startStream S (\<lambda>i. clk (i + 2)) res (wr_WriteOffset req) (st\<lparr>ra_cache := c\<rparr>) of
                            (Inl err, st) \<Rightarrow> (Inl err, st)
                          | (Inr a, st) \<Rightarrow>
                              (case receive S (\<lambda>i. clk (i + 3)) a req rest (snd strm) st of
                                 (Inl err, st) \<Rightarrow>
                                   (let st = set_pend a (abortStream (pend st a)) st in
                                    (Inl err, st\<lparr>ra_uploads := uploads_release (clk 5) a True (ra_uploads st)\<rparr>))
                               | (Inr n, st) \<Rightarrow>
                                   (let st = st\<lparr>ra_uploads := uploads_release (clk 5) a False (ra_uploads st)\<rparr>;
                                        (U, fs) = pending_discard (ce_E (re_K S)) a (ra_uploads st) (c_fs (ra_cache st));
                                        st = put_fs fs (st\<lparr>ra_uploads := U\<rparr>) in
                                    (Inr n, st\<lparr>ra_bytesWritten := add64 (ra_bytesWritten st) (rs_size (pn_res (pend st a)))\<rparr>))))))))"

definition QueryWriteStatus ::
  "('db, 'r) reapi_env \<Rightarrow> (nat \<Rightarrow> int) \<Rightarrow> string \<Rightarrow> uploads list \<Rightarrow> ('db, 'r) reapi \<Rightarrow> (int \<times> bool) rpc \<times> ('db, 'r) reapi" where
  "QueryWriteStatus S clk name looks st =
     (case parseWriteResource name (re_instances S) of
        Inl err \<Rightarrow> (Inl err, st)
      | Inr res \<Rightarrow>
          (case checkResource (re_verify S) res of
             Some err \<Rightarrow> (Inl err, st)
           | None \<Rightarrow>
               (case awaitStatus name looks of
                  Inl err \<Rightarrow> (Inl err, st)
                | Inr (n, ok) \<Rightarrow>
                    (if ok then (Inr (n, False), st)
                     else
                       (let (present, c) = (if rs_digest res = emptyDigest then (True, ra_cache st)
                                            else bazel_Has (re_K S) clk KindCAS (rs_digest res) (ra_cache st));
                            st = st\<lparr>ra_cache := c\<rparr> in
                        if present then (Inr (if rs_compressor res \<noteq> IDENTITY then - 1 else rs_size res, True), st)
                        else (Inl NotFound, st))))))"

end
