(* ===== verification/CasService.thy ===== *)
theory CasService
  imports ByteStream
begin

text \<open>
  The batch calls of the content-addressable storage (\<^verbatim>\<open>internal/reapi/cas.go\<close>), the action cache
  (\<^verbatim>\<open>actioncache.go\<close>) and the closure check of repository-contents results (\<^verbatim>\<open>rrcc.go\<close>). The encoding of a
  protocol message is a parameter. The n-th item of a batch has its own clock \<open>clk n\<close>; \<open>ctxErr n\<close> is what
  \<^verbatim>\<open>ctx.Err()\<close> answers after it.
\<close>

section \<open>FindMissingBlobs\<close>

fun findMissing ::
  "('db, 'r) reapi_env \<Rightarrow> (nat \<Rightarrow> nat \<Rightarrow> int) \<Rightarrow> (nat \<Rightarrow> code option) \<Rightarrow> nat \<Rightarrow> pb_Digest option list \<Rightarrow> pb_Digest option list
     \<Rightarrow> ('db, 'r) cache \<Rightarrow> pb_Digest option list rpc \<times> ('db, 'r) cache" where
  "findMissing S clk ctxErr n [] missing c = (Inr missing, c)"
| "findMissing S clk ctxErr n (bd # bds) missing c =
     (case reapi_digest bd of
        Inl err \<Rightarrow> (Inl err, c)
      | Inr d \<Rightarrow>
          (if d = emptyDigest then findMissing S clk ctxErr (Suc n) bds missing c
           else
             (let (present, c) = bazel_Has (re_K S) (clk n) KindCAS d c;
                  missing = (if \<not> present then missing @ [bd] else missing) in
              case ctxErr n of
                Some err \<Rightarrow> (Inl err, c)
              | None \<Rightarrow> findMissing S clk ctxErr (Suc n) bds missing c)))"

definition FindMissingBlobs ::
  "('db, 'r) reapi_env \<Rightarrow> (nat \<Rightarrow> nat \<Rightarrow> int) \<Rightarrow> (nat \<Rightarrow> code option) \<Rightarrow> string \<Rightarrow> DigestFunction \<Rightarrow> pb_Digest option list
     \<Rightarrow> ('db, 'r) reapi \<Rightarrow> pb_Digest option list rpc \<times> ('db, 'r) reapi" where
  "FindMissingBlobs S clk ctxErr inst df bds st =
     (case instance_check (re_instances S) inst of
        Some err \<Rightarrow> (Inl err, st)
      | None \<Rightarrow>
          (case checkDigestFunction (re_verify S) df of
             Some err \<Rightarrow> (Inl err, st)
           | None \<Rightarrow>
               (case findMissing S clk ctxErr 0 bds [] (ra_cache st) of
                  (Inl err, c) \<Rightarrow> (Inl err, st\<lparr>ra_cache := c\<rparr>)
                | (Inr missing, c) \<Rightarrow>
                    (Inr missing, st\<lparr>ra_cache := c,
                       ra_missing := add64 (ra_missing st) (int (length missing)),
                       ra_present := add64 (ra_present st) (int (length bds) - int (length missing))\<rparr>))))"

section \<open>BatchUpdateBlobs\<close>

record UpdateRequest =
  ur_Digest :: "pb_Digest option"
  ur_Data :: bytes
  ur_Compressor :: Compressor

definition sizeBytes :: "pb_Digest option \<Rightarrow> int" where
  "sizeBytes bd = (case bd of None \<Rightarrow> 0 | Some d \<Rightarrow> pd_SizeBytes d)"

text \<open>The code of the per-blob status; \<open>OK\<close> is the absent one.\<close>

definition updateOne ::
  "('db, 'r) reapi_env \<Rightarrow> (nat \<Rightarrow> int) \<Rightarrow> UpdateRequest \<Rightarrow> ('db, 'r) reapi \<Rightarrow> code \<times> ('db, 'r) reapi" where
  "updateOne S clk r st =
     (case reapi_digest (ur_Digest r) of
        Inl err \<Rightarrow> (err, st)
      | Inr d \<Rightarrow>
          (case (if ur_Compressor r = IDENTITY then Inr (ur_Data r)
                 else if ur_Compressor r = ZSTD then zd_all (re_z S) (ur_Data r)
                 else Inl ErrParse) of
             Inl _ \<Rightarrow> (InvalidArgument, st)
           | Inr data \<Rightarrow>
               (if int (length data) \<noteq> sizeBytes (ur_Digest r) then (InvalidArgument, st)
                else
                  (let st = st\<lparr>ra_bytesWritten := add64 (ra_bytesWritten st) (int (length data))\<rparr>;
                       (err, c) = bazel_Put (re_K S) (re_verify S) clk (re_during S) KindCAS d ([data], None) (ra_cache st);
                       st = st\<lparr>ra_cache := c\<rparr> in
                   if err = Some ErrDigestMismatch then (InvalidArgument, st) else (OK, st)))))"

fun updateEach ::
  "('db, 'r) reapi_env \<Rightarrow> (nat \<Rightarrow> nat \<Rightarrow> int) \<Rightarrow> nat \<Rightarrow> UpdateRequest list \<Rightarrow> ('db, 'r) reapi
     \<Rightarrow> (pb_Digest option \<times> code) list \<times> ('db, 'r) reapi" where
  "updateEach S clk n [] st = ([], st)"
| "updateEach S clk n (r # rs) st =
     (let (code, st) = updateOne S (clk n) r st;
          (out, st) = updateEach S clk (Suc n) rs st in
      ((ur_Digest r, code) # out, st))"

definition BatchUpdateBlobs ::
  "('db, 'r) reapi_env \<Rightarrow> (nat \<Rightarrow> nat \<Rightarrow> int) \<Rightarrow> string \<Rightarrow> DigestFunction \<Rightarrow> UpdateRequest list \<Rightarrow> ('db, 'r) reapi
     \<Rightarrow> (pb_Digest option \<times> code) list rpc \<times> ('db, 'r) reapi" where
  "BatchUpdateBlobs S clk inst df rs st =
     (case instance_check (re_instances S) inst of
        Some err \<Rightarrow> (Inl err, st)
      | None \<Rightarrow>
          (case checkDigestFunction (re_verify S) df of
             Some err \<Rightarrow> (Inl err, st)
           | None \<Rightarrow> (let (out, st) = updateEach S clk 0 rs st in (Inr out, st))))"

section \<open>BatchReadBlobs\<close>

record ReadResponse =
  br_Digest :: "pb_Digest option"
  br_Status :: code
  br_Data :: bytes
  br_Compressor :: Compressor

definition readOne ::
  "('db, 'r) reapi_env \<Rightarrow> (nat \<Rightarrow> int) \<Rightarrow> pb_Digest option \<Rightarrow> Compressor \<Rightarrow> ('db, 'r) reapi \<Rightarrow> ReadResponse \<times> ('db, 'r) reapi" where
  "readOne S clk bd compr st =
     (let out = \<lparr>br_Digest = bd, br_Status = OK, br_Data = [], br_Compressor = IDENTITY\<rparr> in
      case reapi_digest bd of
        Inl err \<Rightarrow> (out\<lparr>br_Status := err\<rparr>, st)
      | Inr d \<Rightarrow>
          (if d = emptyDigest then (out, st)
           else case bazel_Open (re_K S) clk KindCAS d (ra_cache st) of
             (None, c) \<Rightarrow> (out\<lparr>br_Status := NotFound\<rparr>, st\<lparr>ra_cache := c\<rparr>)
           | (Some (f, sz), c) \<Rightarrow>
               (let body = i_data (fs_inode (c_fs c) (f_ino f));
                    fin = (\<lambda>r. (r, st\<lparr>ra_cache := c\<lparr>c_fs := snd (os_Close (ce_E (re_K S)) f (c_fs c))\<rparr>\<rparr>)) in
                case re_read S (take (nat sz) body) of
                  (data, rerr) \<Rightarrow>
                    (if rerr \<noteq> None \<or> int (length data) < sz then fin (out\<lparr>br_Status := NotFound\<rparr>)
                     else
                       (let (r, st) = fin (if compr = ZSTD then
                              (case ze_all (re_z S) data of
                                 Inl _ \<Rightarrow> out\<lparr>br_Data := data\<rparr>
                               | Inr enc \<Rightarrow> out\<lparr>br_Data := enc, br_Compressor := ZSTD\<rparr>)
                            else out\<lparr>br_Data := data\<rparr>) in
                        (r, st\<lparr>ra_bytesRead := add64 (ra_bytesRead st) (int (length data))\<rparr>))))))"

fun readEach ::
  "('db, 'r) reapi_env \<Rightarrow> (nat \<Rightarrow> nat \<Rightarrow> int) \<Rightarrow> (nat \<Rightarrow> code option) \<Rightarrow> Compressor \<Rightarrow> nat \<Rightarrow> pb_Digest option list \<Rightarrow> ReadResponse list
     \<Rightarrow> ('db, 'r) reapi \<Rightarrow> ReadResponse list rpc \<times> ('db, 'r) reapi" where
  "readEach S clk ctxErr compr n [] out st = (Inr out, st)"
| "readEach S clk ctxErr compr n (bd # bds) out st =
     (let (r, st) = readOne S (clk n) bd compr st in
      case ctxErr n of
        Some err \<Rightarrow> (Inl err, st)
      | None \<Rightarrow> readEach S clk ctxErr compr (Suc n) bds (out @ [r]) st)"

definition BatchReadBlobs ::
  "('db, 'r) reapi_env \<Rightarrow> (nat \<Rightarrow> nat \<Rightarrow> int) \<Rightarrow> (nat \<Rightarrow> code option) \<Rightarrow> string \<Rightarrow> DigestFunction \<Rightarrow> Compressor list \<Rightarrow> pb_Digest option list
     \<Rightarrow> ('db, 'r) reapi \<Rightarrow> ReadResponse list rpc \<times> ('db, 'r) reapi" where
  "BatchReadBlobs S clk ctxErr inst df acceptable bds st =
     (case instance_check (re_instances S) inst of
        Some err \<Rightarrow> (Inl err, st)
      | None \<Rightarrow>
          (case checkDigestFunction (re_verify S) df of
             Some err \<Rightarrow> (Inl err, st)
           | None \<Rightarrow>
               (let total = foldl (\<lambda>t bd. add64 t (sizeBytes bd)) 0 bds;
                    compr = (if ZSTD \<in> set acceptable then ZSTD else IDENTITY) in
                if total > maxBatchTotalSizeBytes then (Inl InvalidArgument, st)
                else readEach S clk ctxErr compr 0 bds [] st)))"

definition GetTree :: "code option" where
  "GetTree = Some Unimplemented"

section \<open>Action results (actioncache.go, rrcc.go)\<close>

record ActionResult =
  ar_OutputFiles :: "(string \<times> pb_Digest option) list"
  ar_OutputDirectories :: "(string \<times> pb_Digest option) list"
  ar_Rest :: bytes   \<comment> \<open>the fields this program does not look at\<close>

record Tree =
  tr_Root :: "pb_Digest option list"             \<comment> \<open>the digests of the files of the root directory\<close>
  tr_Children :: "pb_Digest option list list"

record proto =
  pb_marshal :: "ActionResult \<Rightarrow> bytes result"
  pb_unmarshal :: "bytes \<Rightarrow> ActionResult result"
  pb_unmarshalTree :: "bytes \<Rightarrow> Tree result"

record rrccMetrics =
  rm_complete :: int
  rm_markerMissing :: int
  rm_treeMissing :: int
  rm_fileMissing :: int
  rm_malformed :: int

definition rrccTreeLimit :: int where "rrccTreeLimit = 16 * 2 ^ 20"

text \<open>The last output of that path wins.\<close>

definition lastOf :: "string \<Rightarrow> (string \<times> pb_Digest option) list \<Rightarrow> pb_Digest option" where
  "lastOf path xs = (case filter (\<lambda>x. fst x = path) xs of [] \<Rightarrow> None | ys \<Rightarrow> snd (last ys))"

definition rrccOutputs :: "ActionResult \<Rightarrow> (pb_Digest \<times> pb_Digest) option" where
  "rrccOutputs res =
     (case (lastOf ''.recorded_inputs'' (ar_OutputFiles res), lastOf ''repo_contents'' (ar_OutputDirectories res)) of
        (Some marker, Some tree) \<Rightarrow> Some (marker, tree)
      | _ \<Rightarrow> None)"

definition hasCAS ::
  "('db, 'r) reapi_env \<Rightarrow> (nat \<Rightarrow> int) \<Rightarrow> pb_Digest option \<Rightarrow> ('db, 'r) cache \<Rightarrow> bool \<times> ('db, 'r) cache" where
  "hasCAS S clk bd c =
     (case reapi_digest bd of
        Inl _ \<Rightarrow> (False, c)
      | Inr d \<Rightarrow>
          (if sizeBytes bd = 0 then (d = emptyDigest, c)
           else if d = emptyDigest then (False, c)
           else case bazel_Has (re_K S) clk KindCAS d c of
             (True, c) \<Rightarrow> (True, c)
           | (False, c) \<Rightarrow> bazel_HasRemote (re_K S) KindCAS d c))"

fun hasEach ::
  "('db, 'r) reapi_env \<Rightarrow> (nat \<Rightarrow> nat \<Rightarrow> int) \<Rightarrow> nat \<Rightarrow> pb_Digest option list \<Rightarrow> ('db, 'r) cache \<Rightarrow> bool \<times> ('db, 'r) cache" where
  "hasEach S clk n [] c = (True, c)"
| "hasEach S clk n (bd # bds) c =
     (case hasCAS S (clk n) bd c of
        (False, c) \<Rightarrow> (False, c)
      | (True, c) \<Rightarrow> hasEach S clk (Suc n) bds c)"

text \<open>The tree's body: from the local tier, or through the shared one.\<close>

definition openTree ::
  "('db, 'r) reapi_env \<Rightarrow> (nat \<Rightarrow> int) \<Rightarrow> Digest \<Rightarrow> ('db, 'r) cache \<Rightarrow> (File \<times> int) option \<times> ('db, 'r) cache" where
  "openTree S clk d c =
     (case bazel_OpenLocal (re_K S) clk KindCAS d c of
        (Some x, c) \<Rightarrow> (Some x, c)
      | (None, c) \<Rightarrow>
          (case bazel_HasRemote (re_K S) KindCAS d c of
             (False, c) \<Rightarrow> (None, c)
           | (True, c) \<Rightarrow> bazel_Open (re_K S) (\<lambda>i. clk (i + 4)) KindCAS d c))"

definition validateRRCCLocalClosure ::
  "('db, 'r) reapi_env \<Rightarrow> proto \<Rightarrow> (nat \<Rightarrow> nat \<Rightarrow> int) \<Rightarrow> ActionResult \<Rightarrow> rrccMetrics \<times> ('db, 'r) cache
     \<Rightarrow> bool \<times> rrccMetrics \<times> ('db, 'r) cache" where
  "validateRRCCLocalClosure S pb clk res mc =
     (let (m, c) = mc in
      case rrccOutputs res of
        None \<Rightarrow> (True, m, c)
      | Some (marker, tree) \<Rightarrow>
          (case hasCAS S (clk 0) (Some marker) c of
             (False, c) \<Rightarrow> (False, m\<lparr>rm_markerMissing := add64 (rm_markerMissing m) 1\<rparr>, c)
           | (True, c) \<Rightarrow>
               (let malformed = m\<lparr>rm_malformed := add64 (rm_malformed m) 1\<rparr> in
                case reapi_digest (Some tree) of
                  Inl _ \<Rightarrow> (False, malformed, c)
                | Inr d \<Rightarrow>
                    (case openTree S (clk 1) d c of
                       (None, c) \<Rightarrow> (False, m\<lparr>rm_treeMissing := add64 (rm_treeMissing m) 1\<rparr>, c)
                     | (Some (f, sz), c) \<Rightarrow>
                         (let fin = (\<lambda>c. c\<lparr>c_fs := snd (os_Close (ce_E (re_K S)) f (c_fs c))\<rparr>) in
                          if sz > rrccTreeLimit then (False, malformed, fin c)
                          else case re_read S (take (nat rrccTreeLimit) (i_data (fs_inode (c_fs c) (f_ino f)))) of
                            (body, Some _) \<Rightarrow> (False, malformed, fin c)
                          | (body, None) \<Rightarrow>
                              (case pb_unmarshalTree pb body of
                                 Inl _ \<Rightarrow> (False, malformed, fin c)
                               | Inr t \<Rightarrow>
                                   (case hasEach S clk 2 (concat (tr_Root t # tr_Children t)) c of
                                      (False, c) \<Rightarrow> (False, m\<lparr>rm_fileMissing := add64 (rm_fileMissing m) 1\<rparr>, fin c)
                                    | (True, c) \<Rightarrow> (True, m\<lparr>rm_complete := add64 (rm_complete m) 1\<rparr>, fin c))))))))"

definition GetActionResult ::
  "('db, 'r) reapi_env \<Rightarrow> proto \<Rightarrow> (nat \<Rightarrow> nat \<Rightarrow> int) \<Rightarrow> string \<Rightarrow> DigestFunction \<Rightarrow> pb_Digest option \<Rightarrow> rrccMetrics \<times> ('db, 'r) cache
     \<Rightarrow> ActionResult rpc \<times> rrccMetrics \<times> ('db, 'r) cache" where
  "GetActionResult S pb clk inst df bd mc =
     (let (m, c) = mc in
      case instance_check (re_instances S) inst of
        Some err \<Rightarrow> (Inl err, m, c)
      | None \<Rightarrow>
          (case checkDigestFunction (re_verify S) df of
             Some err \<Rightarrow> (Inl err, m, c)
           | None \<Rightarrow>
               (case reapi_digest bd of
                  Inl err \<Rightarrow> (Inl err, m, c)
                | Inr d \<Rightarrow>
                    (case bazel_Open (re_K S) (clk 0) KindAC d c of
                       (None, c) \<Rightarrow> (Inl NotFound, m, c)
                     | (Some (f, sz), c) \<Rightarrow>
                         (let fin = (\<lambda>c. c\<lparr>c_fs := snd (os_Close (ce_E (re_K S)) f (c_fs c))\<rparr>) in
                          if sz > maxActionResultBytes then (Inl NotFound, m, fin c)
                          else case re_read S (take (nat maxActionResultBytes) (i_data (fs_inode (c_fs c) (f_ino f)))) of
                            (body, Some _) \<Rightarrow> (Inl NotFound, m, fin c)
                          | (body, None) \<Rightarrow>
                              (case pb_unmarshal pb body of
                                 Inl _ \<Rightarrow> (Inl NotFound, m, fin c)
                               | Inr res \<Rightarrow>
                                   (case validateRRCCLocalClosure S pb (\<lambda>n. clk (n + 1)) res (m, c) of
                                      (False, m, c) \<Rightarrow> (Inl NotFound, m, fin c)
                                    | (True, m, c) \<Rightarrow> (Inr res, m, fin c))))))))"

definition UpdateActionResult ::
  "('db, 'r) reapi_env \<Rightarrow> proto \<Rightarrow> (nat \<Rightarrow> int) \<Rightarrow> string \<Rightarrow> DigestFunction \<Rightarrow> pb_Digest option \<Rightarrow> ActionResult option \<Rightarrow> ('db, 'r) cache
     \<Rightarrow> ActionResult rpc \<times> ('db, 'r) cache" where
  "UpdateActionResult S pb clk inst df bd ar c =
     (case instance_check (re_instances S) inst of
        Some err \<Rightarrow> (Inl err, c)
      | None \<Rightarrow>
          (case checkDigestFunction (re_verify S) df of
             Some err \<Rightarrow> (Inl err, c)
           | None \<Rightarrow>
               (case reapi_digest bd of
                  Inl err \<Rightarrow> (Inl err, c)
                | Inr d \<Rightarrow>
                    (case ar of
                       None \<Rightarrow> (Inl InvalidArgument, c)
                     | Some res \<Rightarrow>
                         (case pb_marshal pb res of
                            Inl _ \<Rightarrow> (Inl InvalidArgument, c)
                          | Inr body \<Rightarrow>
                              (let (err, c) = bazel_Put (re_K S) (re_verify S) clk (re_during S) KindAC d ([body], None) c in
                               (Inr res, c)))))))"

end
