(* ===== verification/Pending_Theorems.thy ===== *)
theory Pending_Theorems
  imports Pending Blob_Theorems
begin

text \<open>
  What the registry of partial writes guarantees: a resource name leads to one write, a write that
  is being streamed into is streamed into once and is never taken away by a newcomer, by the cap or
  by the sweep, and the cap holds whenever there is anything to drop.
\<close>

section \<open>Well-formed registries\<close>

definition reg_ok :: "uploads \<Rightarrow> bool" where
  "reg_ok U \<longleftrightarrow> distinct (map fst (ul_byID U))
     \<and> (\<forall>(name, a) \<in> set (ul_byID U). a < ul_next U \<and> rs_name (pn_res (ul_heap U a)) = name)"

definition registered :: "uploads \<Rightarrow> addr_of \<Rightarrow> bool" where
  "registered U a \<longleftrightarrow> (\<exists>name. (name, a) \<in> set (ul_byID U))"

lemma reg_okD:
  assumes "reg_ok U" "(name, a) \<in> set (ul_byID U)"
  shows "a < ul_next U" "rs_name (pn_res (ul_heap U a)) = name" "pending_at U name = Some a"
  using assms by (auto simp: reg_ok_def pending_at_def)

lemma pending_atD: "pending_at U name = Some a \<Longrightarrow> (name, a) \<in> set (ul_byID U)"
  by (simp add: pending_at_def map_of_SomeD)

lemma registered_name: "reg_ok U \<Longrightarrow> registered U a \<longleftrightarrow> pending_at U (rs_name (pn_res (ul_heap U a))) = Some a"
  using reg_okD(2,3) pending_atD unfolding registered_def by metis

text \<open>
  \<open>keeps_streams\<close>: the writes being streamed into stay what they are and where they are; nothing new
  is registered, and what a write was called and whether it is claimed does not change.
\<close>

definition keeps_streams :: "uploads \<Rightarrow> uploads \<Rightarrow> bool" where
  "keeps_streams U U' \<longleftrightarrow> ul_next U' = ul_next U \<and> set (ul_byID U') \<subseteq> set (ul_byID U)
     \<and> (distinct (map fst (ul_byID U)) \<longrightarrow> distinct (map fst (ul_byID U')))
     \<and> (\<forall>a. pn_claimed (ul_heap U' a) = pn_claimed (ul_heap U a) \<and> pn_res (ul_heap U' a) = pn_res (ul_heap U a))
     \<and> (\<forall>a. pn_claimed (ul_heap U a) \<longrightarrow> registered U a \<longrightarrow> registered U' a \<and> ul_heap U' a = ul_heap U a)"

lemma keeps_streams_refl [simp]: "keeps_streams U U"
  by (simp add: keeps_streams_def)

lemma keeps_streams_trans [trans]: "keeps_streams U V \<Longrightarrow> keeps_streams V W \<Longrightarrow> keeps_streams U W"
  unfolding keeps_streams_def by fastforce

lemma keeps_streams_ok: "keeps_streams U U' \<Longrightarrow> reg_ok U \<Longrightarrow> reg_ok U'"
  unfolding keeps_streams_def reg_ok_def by fastforce

lemma discard_keeps:
  assumes "pending_discard E a U fs = (U', fs')" "\<not> (pn_claimed (ul_heap U a) \<and> registered U a)"
  shows "keeps_streams U U'"
proof -
  have "U' = set_pending a (abortStream (ul_heap U a)\<lparr>pn_up := fst (Upload_Discard E (pn_up (abortStream (ul_heap U a))) fs)\<rparr>) U"
    using assms(1) by (simp add: pending_discard_def Let_def split: prod.splits)
  then show ?thesis using assms(2) by (auto simp: keeps_streams_def set_pending_def abortStream_def registered_def)
qed

lemma discard_fields:
  "pending_discard E a U fs = (U', fs') \<Longrightarrow> ul_byID U' = ul_byID U \<and> ul_next U' = ul_next U"
  by (auto simp: pending_discard_def set_pending_def Let_def split: prod.splits)

lemma discard_each_keeps:
  "discard_each E as U fs = (U', fs') \<Longrightarrow> \<forall>a\<in>set as. \<not> pn_claimed (ul_heap U a) \<Longrightarrow> keeps_streams U U' \<and> ul_byID U' = ul_byID U"
proof (induction as arbitrary: U fs)
  case (Cons a as)
  obtain V fs1 where d: "pending_discard E a U fs = (V, fs1)" by fastforce
  have k: "keeps_streams U V" by (rule discard_keeps [OF d]) (use Cons.prems(2) in simp)
  have "\<forall>b\<in>set as. \<not> pn_claimed (ul_heap V b)" using Cons.prems(2) k by (simp add: keeps_streams_def)
  then have "keeps_streams V U' \<and> ul_byID U' = ul_byID V" using Cons.IH Cons.prems(1) d by simp
  then show ?case using keeps_streams_trans [OF k] discard_fields [OF d] by simp
qed simp

lemma delete_keeps:
  assumes "reg_ok U" "(name, a) \<in> set (ul_byID U)" "\<not> pn_claimed (ul_heap U a)"
  shows "keeps_streams U (delete_name name U)"
proof -
  have "distinct (map fst (filter P xs))" if "distinct (map fst xs)" for P and xs :: "(string \<times> addr_of) list"
    using that by (induction xs) auto
  moreover have "registered (delete_name name U) b" if cl: "pn_claimed (ul_heap U b)" and rg: "registered U b" for b
  proof -
    obtain n where n: "(n, b) \<in> set (ul_byID U)" using rg unfolding registered_def by blast
    have "n \<noteq> name" using n assms cl reg_okD(3) by (metis option.inject)
    then show ?thesis using n by (auto simp: registered_def delete_name_def)
  qed
  ultimately show ?thesis by (auto simp: keeps_streams_def delete_name_def)
qed

section \<open>The cap\<close>

definition candidate :: "(addr_of \<Rightarrow> pending) \<Rightarrow> (string \<times> addr_of) set \<Rightarrow> addr_of option \<Rightarrow> bool" where
  "candidate h S r \<longleftrightarrow> (case r of None \<Rightarrow> True | Some a \<Rightarrow> \<not> pn_claimed (h a) \<and> (\<exists>n. (n, a) \<in> S))"

lemma oldestIdle_ok:
  "candidate h S best \<Longrightarrow> set xs \<subseteq> S \<Longrightarrow> candidate h S (oldestIdle h xs best)
     \<and> (oldestIdle h xs best = None \<longrightarrow> best = None \<and> (\<forall>(n, a) \<in> set xs. pn_claimed (h a)))"
proof (induction xs arbitrary: best)
  case (Cons x xs)
  obtain name a where x: "x = (name, a)" by (cases x)
  have here: "candidate h S (Some a)" if "\<not> pn_claimed (h a)"
    using that Cons.prems(2) x by (auto simp: candidate_def)
  show ?case
  proof (cases "pn_claimed (h a)")
    case True
    then show ?thesis using Cons.IH [OF Cons.prems(1)] Cons.prems(2) x by simp
  next
    case False
    then have "oldestIdle h (x # xs) best = oldestIdle h xs best \<and> best \<noteq> None \<or> oldestIdle h (x # xs) best = oldestIdle h xs (Some a)"
      using x by (simp split: option.splits)
    then show ?thesis using Cons.IH [OF Cons.prems(1)] Cons.IH [OF here [OF False]] Cons.prems(2) by auto
  qed
qed simp

lemma makeRoomLoop_ok:
  "makeRoomLoop n U ev = (ev', U') \<Longrightarrow> reg_ok U \<Longrightarrow> length (ul_byID U) \<le> n \<Longrightarrow> \<forall>a\<in>set ev. \<not> pn_claimed (ul_heap U a) \<Longrightarrow>
     keeps_streams U U' \<and> ul_heap U' = ul_heap U \<and> (\<forall>a\<in>set ev'. \<not> pn_claimed (ul_heap U a))
     \<and> (length (ul_byID U') \<le> maxPendingUploads \<or> (\<forall>(name, a) \<in> set (ul_byID U'). pn_claimed (ul_heap U' a)))"
proof (induction n arbitrary: U ev)
  case (Suc n)
  show ?case
  proof (cases "length (ul_byID U) \<le> maxPendingUploads")
    case True
    then show ?thesis using Suc.prems by simp
  next
    case False
    define r where "r = oldestIdle (ul_heap U) (ul_byID U) None"
    note r = r_def [symmetric]
    have O: "candidate (ul_heap U) (set (ul_byID U)) r" "r = None \<longrightarrow> (\<forall>(n, a) \<in> set (ul_byID U). pn_claimed (ul_heap U a))"
      using oldestIdle_ok [of "ul_heap U" "set (ul_byID U)" None "ul_byID U"] unfolding r_def by (simp_all add: candidate_def)
    show ?thesis
    proof (cases r)
      case None
      then show ?thesis using Suc.prems False r O by auto
    next
      case (Some a)
      then obtain name where a: "(name, a) \<in> set (ul_byID U)" "\<not> pn_claimed (ul_heap U a)" using O(1) by (auto simp: candidate_def)
      let ?V = "delete_name name U"
      have nm: "rs_name (pn_res (ul_heap U a)) = name" by (rule reg_okD(2) [OF Suc.prems(2) a(1)])
      then have l: "makeRoomLoop n ?V (ev @ [a]) = (ev', U')" using Suc.prems(1) False r Some by simp
      have k: "keeps_streams U ?V" by (rule delete_keeps [OF Suc.prems(2) a])
      have "length (ul_byID ?V) < length (ul_byID U)"
        using a(1) length_filter_less [of "(name, a)" "ul_byID U" "\<lambda>x. fst x \<noteq> name"] by (simp add: delete_name_def)
      then have "length (ul_byID ?V) \<le> n" using Suc.prems(3) by simp
      moreover have "ul_heap ?V = ul_heap U" by (simp add: delete_name_def)
      ultimately have IH: "keeps_streams ?V U'" "ul_heap U' = ul_heap U" "\<forall>a\<in>set ev'. \<not> pn_claimed (ul_heap U a)"
        "length (ul_byID U') \<le> maxPendingUploads \<or> (\<forall>(name, a) \<in> set (ul_byID U'). pn_claimed (ul_heap U' a))"
        using Suc.IH [OF l keeps_streams_ok [OF k Suc.prems(2)]] Suc.prems(4) a(2) by auto
      then show ?thesis using keeps_streams_trans [OF k] by blast
    qed
  qed
qed auto

section \<open>Starting a write\<close>

lemma update_keys: "distinct (map fst xs) \<Longrightarrow> distinct (map fst (AList.update k v xs))"
  by (rule AList.distinct_update)

lemma set_update_subset: "set (AList.update k v xs) \<subseteq> insert (k, v) (set xs)"
  by (induction xs) auto

lemma in_update: "distinct (map fst xs) \<Longrightarrow> x \<in> set (AList.update k v xs) \<longleftrightarrow> x = (k, v) \<or> x \<in> set xs \<and> fst x \<noteq> k"
  by (induction xs) force+

lemma begin_registers:
  assumes "reg_ok U" "a < ul_next U" "\<not> registered U a" "name = rs_name (pn_res (ul_heap U a))"
    and "\<And>b. pending_at U name = Some b \<Longrightarrow> \<not> pn_claimed (ul_heap U b)"
    and "V = (set_pending a ((ul_heap U a)\<lparr>pn_claimed := True, pn_idleSince := now\<rparr>) U)\<lparr>ul_byID := AList.update name a (ul_byID U)\<rparr>"
  shows "reg_ok V" "registered V a" "pn_claimed (ul_heap V a)" "ul_next V = ul_next U"
    "\<And>b. registered U b \<Longrightarrow> pn_claimed (ul_heap U b) \<Longrightarrow> registered V b \<and> ul_heap V b = ul_heap U b"
    "\<And>b. registered V b \<Longrightarrow> b \<noteq> a \<Longrightarrow> registered U b \<and> ul_heap V b = ul_heap U b"
proof -
  have d: "distinct (map fst (ul_byID U))" using assms(1) by (simp add: reg_ok_def)
  have V: "ul_byID V = AList.update name a (ul_byID U)" "\<And>b. b \<noteq> a \<Longrightarrow> ul_heap V b = ul_heap U b"
    "ul_heap V a = (ul_heap U a)\<lparr>pn_claimed := True, pn_idleSince := now\<rparr>" "ul_next V = ul_next U"
    using assms(6) by (simp_all add: set_pending_def)
  show "ul_next V = ul_next U" "pn_claimed (ul_heap V a)" using V by simp_all
  show "registered V a" using in_update [OF d] V(1) by (auto simp: registered_def)
  have not_a: "b \<noteq> a" if "registered U b" for b using that assms(3) by blast
  show "registered U b \<and> ul_heap V b = ul_heap U b" if "registered V b" "b \<noteq> a" for b
    using that in_update [OF d, of _ name a] V by (auto simp: registered_def)
  show "registered V b \<and> ul_heap V b = ul_heap U b" if rg: "registered U b" and cl: "pn_claimed (ul_heap U b)" for b
  proof -
    obtain n where n: "(n, b) \<in> set (ul_byID U)" using rg unfolding registered_def by blast
    have "n \<noteq> name" using assms(5) cl reg_okD(3) [OF assms(1) n] by blast
    then show ?thesis using n in_update [OF d, of _ name a] V not_a [OF rg] by (auto simp: registered_def)
  qed
  have "x < ul_next V \<and> rs_name (pn_res (ul_heap V x)) = n" if "(n, x) \<in> set (ul_byID V)" for n x
  proof (cases "(n, x) = (name, a)")
    case True
    then show ?thesis using V assms(2,4) by simp
  next
    case False
    then have n: "(n, x) \<in> set (ul_byID U)" using that in_update [OF d, of "(n, x)" name a] V(1) by auto
    then have "x \<noteq> a" using not_a unfolding registered_def by blast
    then show ?thesis using reg_okD(1,2) [OF assms(1) n] V(2,4) by simp
  qed
  then show "reg_ok V" using V(1) update_keys [OF d] by (auto simp: reg_ok_def)
qed

text \<open>Either the name is being written to, and the newcomer alone is dropped, or it takes the claim.\<close>

lemma uploads_begin_ok:
  assumes "reg_ok U" "a < ul_next U" "\<not> registered U a" "uploads_begin E now a U fs = (ok, U', fs')"
  shows "\<not> ok \<Longrightarrow> keeps_streams U U'"
    "ok \<Longrightarrow> reg_ok U' \<and> registered U' a \<and> pn_claimed (ul_heap U' a) \<and> ul_next U' = ul_next U
      \<and> (\<forall>b. registered U b \<longrightarrow> pn_claimed (ul_heap U b) \<longrightarrow> registered U' b \<and> ul_heap U' b = ul_heap U b)
      \<and> (\<forall>b. registered U' b \<longrightarrow> b \<noteq> a \<longrightarrow> registered U b \<and> pn_claimed (ul_heap U' b) = pn_claimed (ul_heap U b))
      \<and> (length (ul_byID U') \<le> maxPendingUploads \<or> (\<forall>(n, b) \<in> set (ul_byID U'). pn_claimed (ul_heap U' b)))"
proof -
  let ?name = "rs_name (pn_res (ul_heap U a))"
  show "keeps_streams U U'" if "\<not> ok"
  proof -
    have "\<exists>fs2. pending_discard E a U fs = (U', fs2)"
      using assms(4) that by (auto simp: uploads_begin_def Let_def split: if_splits prod.splits option.splits)
    then show ?thesis using discard_keeps assms(3) by blast
  qed
  assume ok
  then have free: "\<And>b. pending_at U ?name = Some b \<Longrightarrow> \<not> pn_claimed (ul_heap U b)"
    using assms(4) by (auto simp: uploads_begin_def Let_def split: if_splits prod.splits)
  define V where "V = (set_pending a ((ul_heap U a)\<lparr>pn_claimed := True, pn_idleSince := now\<rparr>) U)\<lparr>ul_byID := AList.update ?name a (ul_byID U)\<rparr>"
  note B = begin_registers [OF assms(1-3) refl free V_def]
  have heapV: "b \<noteq> a \<Longrightarrow> ul_heap V b = ul_heap U b" for b by (simp add: V_def set_pending_def)
  obtain ev W where mr: "makeRoomLocked V = (ev, W)" by fastforce
  note M = makeRoomLoop_ok [OF mr [unfolded makeRoomLocked_def] B(1) order_refl, simplified]
  obtain X fs1 where X: "(case pending_at U ?name of Some b \<Rightarrow> pending_discard E b W fs | None \<Rightarrow> (W, fs)) = (X, fs1)" by fastforce
  have kX: "keeps_streams W X" "ul_byID X = ul_byID W"
  proof (atomize (full), cases "pending_at U ?name")
    case None
    then show "keeps_streams W X \<and> ul_byID X = ul_byID W" using X by simp
  next
    case (Some b)
    then have "registered U b" using pending_atD by (auto simp: registered_def)
    then have "b \<noteq> a" using assms(3) by blast
    then have "\<not> pn_claimed (ul_heap W b)" using M free [OF Some] heapV by simp
    then show "keeps_streams W X \<and> ul_byID X = ul_byID W" using X Some discard_keeps discard_fields by fastforce
  qed
  obtain Y fs2 where Y: "discard_each E ev X fs1 = (Y, fs2)" by fastforce
  have "\<forall>b\<in>set ev. \<not> pn_claimed (ul_heap X b)" using M kX(1) by (simp add: keeps_streams_def)
  note kY = discard_each_keeps [OF Y this]
  have U': "U' = Y"
    using assms(4) \<open>ok\<close> free mr X Y
    by (auto simp: uploads_begin_def Let_def takeClaim_def set_pending_def V_def split: if_splits prod.splits option.splits)
  have k: "keeps_streams V U'" using M kX kY U' keeps_streams_trans by blast
  note K = k [unfolded keeps_streams_def]
  have regsub: "registered V b" if "registered U' b" for b using that K by (auto simp: registered_def)
  have byID: "ul_byID U' = ul_byID W" using kX(2) kY U' by simp
  have cl: "pn_claimed (ul_heap U' b) = pn_claimed (ul_heap W b)" for b
    using M kX(1) kY U' by (simp add: keeps_streams_def)
  have "length (ul_byID U') \<le> maxPendingUploads \<or> (\<forall>(n, b) \<in> set (ul_byID U'). pn_claimed (ul_heap U' b))"
    using M byID cl by auto
  moreover have "registered U' a" using K B(2,3) by blast
  ultimately show "reg_ok U' \<and> registered U' a \<and> pn_claimed (ul_heap U' a) \<and> ul_next U' = ul_next U
      \<and> (\<forall>b. registered U b \<longrightarrow> pn_claimed (ul_heap U b) \<longrightarrow> registered U' b \<and> ul_heap U' b = ul_heap U b)
      \<and> (\<forall>b. registered U' b \<longrightarrow> b \<noteq> a \<longrightarrow> registered U b \<and> pn_claimed (ul_heap U' b) = pn_claimed (ul_heap U b))
      \<and> (length (ul_byID U') \<le> maxPendingUploads \<or> (\<forall>(n, b) \<in> set (ul_byID U'). pn_claimed (ul_heap U' b)))"
    using keeps_streams_ok [OF k B(1)] B(3-6) K regsub by metis
qed

section \<open>Streams\<close>

text \<open>
  The registry with the writes that handlers are streaming into. Handlers begin, claim, make progress
  on what they hold, release it, and discard what they dropped; the sweep runs beside them.
\<close>

inductive reg_step :: "osenv \<Rightarrow> uploads \<times> fsys \<times> addr_of list \<Rightarrow> uploads \<times> fsys \<times> addr_of list \<Rightarrow> bool" for E where
  beginStream: "new_pending p U = (a, V) \<Longrightarrow> uploads_begin E now a V fs = (True, U', fs') \<Longrightarrow>
    reg_step E (U, fs, hs) (U', fs', a # hs)"
| refused: "new_pending p U = (a, V) \<Longrightarrow> uploads_begin E now a V fs = (False, U', fs') \<Longrightarrow>
    reg_step E (U, fs, hs) (U', fs', hs)"
| resume: "uploads_claim name U = ((Some a, False), U') \<Longrightarrow> reg_step E (U, fs, hs) (U', fs, a # hs)"
| progress: "a \<in> set hs \<Longrightarrow> pn_res p = pn_res (ul_heap U a) \<Longrightarrow> pn_claimed p \<Longrightarrow>
    reg_step E (U, fs, hs) (set_pending a p U, fs', hs)"
| release: "a \<in> set hs \<Longrightarrow> reg_step E (U, fs, hs) (uploads_release now a keep U, fs, remove1 a hs)"
| dropped: "\<not> registered U a \<Longrightarrow> pending_discard E a U fs = (U', fs') \<Longrightarrow> reg_step E (U, fs, hs) (U', fs', hs)"
| sweep: "uploads_sweep E now U fs = (n, U', fs') \<Longrightarrow> reg_step E (U, fs, hs) (U', fs', hs)"

definition reg_inv :: "uploads \<times> fsys \<times> addr_of list \<Rightarrow> bool" where
  "reg_inv = (\<lambda>(U, fs, hs). reg_ok U \<and> distinct hs
     \<and> (\<forall>a. registered U a \<and> pn_claimed (ul_heap U a) \<longleftrightarrow> a \<in> set hs))"

lemma reg_inv_keeps:
  assumes "keeps_streams U U'" "reg_inv (U, fs, hs)"
  shows "reg_inv (U', fs', hs)"
proof -
  note K = assms(1) [unfolded keeps_streams_def]
  have "registered U' a \<Longrightarrow> registered U a" for a using K by (auto simp: registered_def)
  then have "registered U' a \<and> pn_claimed (ul_heap U' a) \<longleftrightarrow> registered U a \<and> pn_claimed (ul_heap U a)" for a using K by blast
  then show ?thesis using assms keeps_streams_ok unfolding reg_inv_def by auto
qed

lemma sweep_keeps:
  assumes "uploads_sweep E now U fs = (n, U', fs')"
  shows "keeps_streams U U'"
proof -
  define V where "V = U\<lparr>ul_byID := filter (\<lambda>x. x \<notin> set (stale_writes now U)) (ul_byID U)\<rparr>"
  have idle: "\<not> pn_claimed (ul_heap U a)" if "(m, a) \<in> set (stale_writes now U)" for m a
    using that by (auto simp: stale_writes_def)
  have "distinct (map fst (filter P xs))" if "distinct (map fst xs)" for P and xs :: "(string \<times> addr_of) list"
    using that by (induction xs) auto
  moreover have "registered V a" if "pn_claimed (ul_heap U a)" "registered U a" for a
    using that idle by (auto simp: registered_def V_def)
  ultimately have k: "keeps_streams U V" by (auto simp: keeps_streams_def V_def)
  obtain W fs1 where W: "discard_each E (map snd (stale_writes now U)) V fs = (W, fs1)" by fastforce
  have "\<forall>a\<in>set (map snd (stale_writes now U)). \<not> pn_claimed (ul_heap V a)" using idle by (auto simp: V_def)
  then have "keeps_streams V W" using discard_each_keeps [OF W] by blast
  moreover have "U' = W" using assms W by (simp add: uploads_sweep_def Let_def V_def)
  ultimately show ?thesis using keeps_streams_trans [OF k] by simp
qed

lemma release_inv:
  assumes "reg_inv (U, fs, hs)" "a \<in> set hs"
  shows "reg_inv (uploads_release now a keep U, fs', remove1 a hs)"
proof -
  have I: "reg_ok U" "distinct hs" "\<And>b. registered U b \<and> pn_claimed (ul_heap U b) \<longleftrightarrow> b \<in> set hs"
    using assms(1) unfolding reg_inv_def by auto
  define V where "V = set_pending a ((ul_heap U a)\<lparr>pn_claimed := False, pn_idleSince := now\<rparr>) U"
  have heap: "pn_res (ul_heap V b) = pn_res (ul_heap U b)" "pn_claimed (ul_heap V b) \<longleftrightarrow> b \<noteq> a \<and> pn_claimed (ul_heap U b)" for b
    by (simp_all add: V_def set_pending_def)
  have V: "reg_ok V" "\<And>b. registered V b = registered U b"
    using I(1) heap(1) by (auto simp: reg_ok_def registered_def V_def set_pending_def)
  have "reg_inv (V, fs', remove1 a hs)"
    using V heap(2) I unfolding reg_inv_def by auto
  moreover have "keeps_streams V (delete_name (rs_name (pn_res (ul_heap V a))) V)"
  proof (rule delete_keeps [OF V(1)])
    show "(rs_name (pn_res (ul_heap V a)), a) \<in> set (ul_byID V)"
      using I(3) assms(2) V registered_name [OF V(1)] pending_atD by blast
  qed (simp add: heap)
  ultimately show ?thesis using reg_inv_keeps by (auto simp: uploads_release_def Let_def V_def)
qed

lemma new_pending_fresh:
  assumes "reg_ok U" "new_pending p U = (a, V)"
  shows "reg_ok V" "a < ul_next V" "\<not> registered V a" "ul_byID V = ul_byID U" "b \<noteq> a \<Longrightarrow> ul_heap V b = ul_heap U b"
proof -
  have V: "a = ul_next U" "ul_byID V = ul_byID U" "ul_next V = Suc (ul_next U)" "\<And>b. b \<noteq> a \<Longrightarrow> ul_heap V b = ul_heap U b"
    using assms(2) by (auto simp: new_pending_def)
  have lt: "x < ul_next U" if "(n, x) \<in> set (ul_byID U)" for n x using reg_okD(1) [OF assms(1) that] .
  show "a < ul_next V" "ul_byID V = ul_byID U" "b \<noteq> a \<Longrightarrow> ul_heap V b = ul_heap U b" using V by simp_all
  show "\<not> registered V a" using lt V by (auto simp: registered_def)
  have "x < ul_next V \<and> rs_name (pn_res (ul_heap V x)) = n" if "(n, x) \<in> set (ul_byID U)" for n x
    using reg_okD(1,2) [OF assms(1) that] V by simp
  then show "reg_ok V" using assms(1) V(2) by (auto simp: reg_ok_def)
qed

lemma reg_step_inv:
  assumes "reg_step E x y" "reg_inv x"
  shows "reg_inv y"
  using assms(1)
proof cases
  case (beginStream p U a V now fs U' fs' hs)
  have I: "reg_ok U" "distinct hs" "\<And>b. registered U b \<and> pn_claimed (ul_heap U b) \<longleftrightarrow> b \<in> set hs"
    using assms(2) beginStream(1) unfolding reg_inv_def by auto
  note N = new_pending_fresh [OF I(1) beginStream(3)]
  note B = uploads_begin_ok(2) [OF N(1-3) beginStream(4), simplified]
  have reg: "registered V b = registered U b" for b using N(4) by (simp add: registered_def)
  have na: "b \<noteq> a" if "registered U b" for b using that N(3) reg by blast
  have "registered U' b \<and> pn_claimed (ul_heap U' b) \<longleftrightarrow> b = a \<or> b \<in> set hs" for b
    using B I(3) [of b] reg N(5) na by metis
  moreover have "a \<notin> set hs" using I(3) na by blast
  ultimately show ?thesis using B I(2) unfolding beginStream(2) reg_inv_def by auto
next
  case (refused p U a V now fs U' fs' hs)
  have I: "reg_inv (U, fs, hs)" using assms(2) refused(1) by simp
  then have ok: "reg_ok U" unfolding reg_inv_def by simp
  note N = new_pending_fresh [OF ok refused(3)]
  have reg: "registered V b = registered U b" for b using N(4) by (simp add: registered_def)
  have "ul_heap V b = ul_heap U b" if "registered U b" for b using N(3,5) reg that by metis
  then have "registered V b \<and> pn_claimed (ul_heap V b) \<longleftrightarrow> registered U b \<and> pn_claimed (ul_heap U b)" for b using reg by metis
  then have "reg_inv (V, fs, hs)" using I N(1) unfolding reg_inv_def by simp
  moreover have "keeps_streams V U'" using uploads_begin_ok(1) [OF N(1-3) refused(4)] by simp
  ultimately show ?thesis using reg_inv_keeps refused(2) by simp
next
  case (resume name U a U' fs hs)
  have I: "reg_ok U" "distinct hs" "\<And>b. registered U b \<and> pn_claimed (ul_heap U b) \<longleftrightarrow> b \<in> set hs"
    using assms(2) resume(1) unfolding reg_inv_def by auto
  have c: "pending_at U name = Some a" "\<not> pn_claimed (ul_heap U a)" "U' = takeClaim a U"
    using resume(3) by (auto simp: uploads_claim_def split: option.splits if_splits)
  have "registered U a" using pending_atD [OF c(1)] by (auto simp: registered_def)
  moreover have "reg_ok U'" "\<And>b. registered U' b = registered U b" "\<And>b. pn_claimed (ul_heap U' b) \<longleftrightarrow> b = a \<or> pn_claimed (ul_heap U b)"
    using I(1) c(3) by (auto simp: reg_ok_def registered_def takeClaim_def set_pending_def)
  ultimately show ?thesis using I c(2) unfolding resume(2) reg_inv_def by auto
next
  case (progress a hs p U fs fs')
  then have I: "reg_inv (U, fs, hs)" using assms(2) by simp
  then have "pn_claimed (ul_heap U a)" using progress(3) unfolding reg_inv_def by auto
  then show ?thesis using I progress(4,5) unfolding progress(2) reg_inv_def
    by (auto simp: reg_ok_def registered_def set_pending_def)
next
  case (release a hs U fs now keep)
  then show ?thesis using release_inv assms(2) by simp
next
  case (dropped U a fs U' fs' hs)
  then show ?thesis using discard_keeps reg_inv_keeps assms(2) by blast
next
  case (sweep now U fs n U' fs' hs)
  then show ?thesis using sweep_keeps reg_inv_keeps assms(2) by blast
qed

lemma reg_steps_inv: "(reg_step E)\<^sup>*\<^sup>* x y \<Longrightarrow> reg_inv x \<Longrightarrow> reg_inv y"
  by (induction rule: rtranclp_induct) (auto intro: reg_step_inv)

lemma reg_inv_start: "reg_inv (newUploads unused, fs, [])"
  by (simp add: reg_inv_def reg_ok_def newUploads_def registered_def)

text \<open>
  C38. One stream per write. However streams are begun, refused, resumed, advanced, released and
  dropped, with sweeps in between, each pending write is held by at most one stream, a held write
  stays registered under its resource name (no newcomer, cap or sweep takes it away), and the
  claimed writes are exactly the held ones, so that a write whose stream is gone can be resumed.
\<close>

theorem registry_exclusive:
  assumes "(reg_step E)\<^sup>*\<^sup>* (newUploads unused, fs, []) (U, fs', hs)"
  shows "distinct hs
    \<and> (\<forall>a \<in> set hs. pending_at U (rs_name (pn_res (ul_heap U a))) = Some a)
    \<and> (\<forall>name a. pending_at U name = Some a \<longrightarrow> (pn_claimed (ul_heap U a) \<longleftrightarrow> a \<in> set hs))"
proof -
  have "reg_inv (U, fs', hs)" by (rule reg_steps_inv [OF assms reg_inv_start])
  then have I: "reg_ok U" "distinct hs" "\<And>b. registered U b \<and> pn_claimed (ul_heap U b) \<longleftrightarrow> b \<in> set hs"
    unfolding reg_inv_def by auto
  have "registered U a" if "pending_at U name = Some a" for name a using pending_atD [OF that] by (auto simp: registered_def)
  then show ?thesis using I registered_name [OF I(1)] by blast
qed

definition demo_resource :: "string \<Rightarrow> resource" where
  "demo_resource name = \<lparr>rs_name = name, rs_digest = copy_id [7], rs_size = 3, rs_compressor = IDENTITY, rs_digestFunc = []\<rparr>"

definition demo_pending :: "string \<Rightarrow> pending" where
  "demo_pending name = \<lparr>pn_res = demo_resource name,
     pn_up = \<lparr>up_kind = KindCAS, up_digest = copy_id [7], up_file = \<lparr>f_name = ''/c/s'', f_ino = 0\<rparr>, up_sum = [], up_off = 0, up_done = False\<rparr>,
     pn_sink = None, pn_streamStart = 0, pn_streamBytes = 0, pn_claimed = False, pn_idleSince = 0\<rparr>"

lemma demo_begin:
  "\<exists>V U fs'. new_pending (demo_pending name) (newUploads unused) = (0, V) \<and> uploads_begin E 5 0 V fs = (True, U, fs')
    \<and> ul_byID U = [(name, 0)]"
  by (simp add: newUploads_def new_pending_def uploads_begin_def Let_def pending_at_def takeClaim_def set_pending_def
      demo_pending_def demo_resource_def makeRoomLocked_def maxPendingUploads_def)

theorem registry_exclusive_witness:
  "\<exists>U fs'. (reg_step demo_os)\<^sup>*\<^sup>* (newUploads (\<lambda>_. demo_pending []), demo_fs, []) (U, fs', [0])
    \<and> pending_at U (rs_name (pn_res (ul_heap U 0))) = Some 0 \<and> ul_byID U = [(''n'', 0)]"
proof -
  obtain V U fs' where b: "new_pending (demo_pending ''n'') (newUploads (\<lambda>_. demo_pending [])) = (0, V)" "uploads_begin demo_os 5 0 V demo_fs = (True, U, fs')"
    "ul_byID U = [(''n'', 0)]" using demo_begin by blast
  have run: "(reg_step demo_os)\<^sup>*\<^sup>* (newUploads (\<lambda>_. demo_pending []), demo_fs, []) (U, fs', [0])" by (intro r_into_rtranclp beginStream [OF b(1,2)])
  show ?thesis using registry_exclusive [OF run] run b(3) by (intro exI [of _ U] exI [of _ fs']) simp
qed

text \<open>
  C39. The cap on partial writes. When a write starts, the registry holds at most 256 writes, or every
  write it holds is being streamed into at that moment; making room never discards a write that is.
\<close>

theorem registry_bounded:
  assumes "reg_inv (U, fs, hs)" "new_pending p U = (a, V)" "uploads_begin E now a V fs = (True, U', fs')"
  shows "(length (ul_byID U') \<le> 256 \<or> (\<forall>(name, b) \<in> set (ul_byID U'). b \<in> set (a # hs)))
    \<and> (\<forall>b \<in> set hs. pending_at U' (rs_name (pn_res (ul_heap U b))) = Some b \<and> ul_heap U' b = ul_heap U b)"
proof -
  have I: "reg_ok U" "\<And>b. registered U b \<and> pn_claimed (ul_heap U b) \<longleftrightarrow> b \<in> set hs" using assms(1) unfolding reg_inv_def by auto
  note N = new_pending_fresh [OF I(1) assms(2)]
  note B = uploads_begin_ok(2) [OF N(1-3) assms(3), simplified]
  have reg: "registered V b = registered U b" for b using N(4) by (simp add: registered_def)
  have "reg_inv (U', fs', a # hs)" by (rule reg_step_inv [OF beginStream [OF assms(2,3)] assms(1)])
  then have J: "reg_ok U'" "\<And>b. registered U' b \<and> pn_claimed (ul_heap U' b) \<longleftrightarrow> b \<in> set (a # hs)" unfolding reg_inv_def by auto
  have "b \<in> set (a # hs)" if "(n, b) \<in> set (ul_byID U')" "pn_claimed (ul_heap U' b)" for n b
    using J(2) that by (auto simp: registered_def)
  moreover have "ul_heap U' b = ul_heap U b \<and> pending_at U' (rs_name (pn_res (ul_heap U b))) = Some b" if "b \<in> set hs" for b
  proof -
    have r: "registered U b" "pn_claimed (ul_heap U b)" using I(2) that by blast+
    then have "b \<noteq> a" using N(3) reg by blast
    then have "ul_heap V b = ul_heap U b" by (rule N(5))
    then have "registered U' b" "ul_heap U' b = ul_heap U b" using B r reg by auto
    then show ?thesis using registered_name [OF J(1), of b] by simp
  qed
  moreover have "b \<in> set (a # hs)" if "\<not> length (ul_byID U') \<le> 256" "(n, b) \<in> set (ul_byID U')" for n b
  proof -
    have "\<forall>(m, x) \<in> set (ul_byID U'). pn_claimed (ul_heap U' x)" using B that(1) unfolding maxPendingUploads_def by blast
    then show ?thesis using calculation(1) that(2) by blast
  qed
  ultimately show ?thesis by blast
qed

theorem registry_bounded_witness:
  "\<exists>V U' fs'. new_pending (demo_pending ''n'') (newUploads (\<lambda>_. demo_pending [])) = (0, V) \<and> uploads_begin demo_os 5 0 V demo_fs = (True, U', fs')
    \<and> (length (ul_byID U') \<le> 256 \<or> (\<forall>(name, b) \<in> set (ul_byID U'). b \<in> set [0]))"
proof -
  obtain V U' fs' where b: "new_pending (demo_pending ''n'') (newUploads (\<lambda>_. demo_pending [])) = (0, V)" "uploads_begin demo_os 5 0 V demo_fs = (True, U', fs')"
    using demo_begin by blast
  show ?thesis using registry_bounded [OF reg_inv_start b] b by blast
qed

end
