(* ===== verification/Staging.thy ===== *)
theory Staging
  imports Blob_Theorems
begin

text \<open>
  What the operations on the body store leave alone. Uploads are received into files of the staging
  area while other operations run, so a half-received body must not change under its owner and a
  published one must not change at all. \<open>moves\<close> says of one operation, or of several in a row, which
  files it may touch and which bodies it may add.
\<close>

section \<open>Names of the staging area\<close>

definition stage_name :: "string \<Rightarrow> string \<Rightarrow> bool" where
  "stage_name root q \<longleftrightarrow> (\<exists>s. q = path_join (path_join root stagingDir) ''body'' @ tempMarker @ s)"

lemma stage_not_output: "stage_name root q \<Longrightarrow> q \<noteq> path_join root outputDir @ t"
  by (auto simp: stage_name_def path_join_def stagingDir_def outputDir_def)

lemma stage_not_body: "stage_name root q \<Longrightarrow> q \<noteq> Store_Path root v"
  using stage_not_output [of root q] by (simp add: Store_Path_split path_join_def)

lemma stage_not_temp: "stage_name root q \<Longrightarrow> q \<noteq> Store_Path root v @ t"
  using stage_not_output [of root q] by (simp add: Store_Path_split path_join_def)

section \<open>Frames\<close>

text \<open>
  \<open>framed root X fs fs'\<close>: apart from the files in \<open>X\<close>, no file that existed changed its contents or
  got a new name, and none lost its name in the staging area.
\<close>

definition framed :: "string \<Rightarrow> nat set \<Rightarrow> fsys \<Rightarrow> fsys \<Rightarrow> bool" where
  "framed root X fs fs' \<longleftrightarrow> fs_next fs \<le> fs_next fs'
     \<and> (\<forall>i < fs_next fs. i \<notin> X \<longrightarrow> fs_inode fs' i = fs_inode fs i)
     \<and> (\<forall>q i. lookup fs' q = Some i \<longrightarrow> i < fs_next fs \<longrightarrow> i \<notin> X \<longrightarrow> lookup fs q = Some i)
     \<and> (\<forall>q i. stage_name root q \<longrightarrow> lookup fs q = Some i \<longrightarrow> i \<notin> X \<longrightarrow> lookup fs' q = Some i)"

lemma framed_refl [simp]: "framed root X fs fs"
  by (simp add: framed_def)

lemma framedD:
  assumes "framed root X fs fs'"
  shows "fs_next fs \<le> fs_next fs'" "i < fs_next fs \<Longrightarrow> i \<notin> X \<Longrightarrow> fs_inode fs' i = fs_inode fs i"
    "lookup fs' q = Some i \<Longrightarrow> i < fs_next fs \<Longrightarrow> i \<notin> X \<Longrightarrow> lookup fs q = Some i"
    "stage_name root q \<Longrightarrow> lookup fs q = Some i \<Longrightarrow> i \<notin> X \<Longrightarrow> lookup fs' q = Some i"
  using assms unfolding framed_def by blast+

lemma framedI:
  assumes "fs_next fs \<le> fs_next fs'" "\<And>i. i < fs_next fs \<Longrightarrow> i \<notin> X \<Longrightarrow> fs_inode fs' i = fs_inode fs i"
    "\<And>q i. lookup fs' q = Some i \<Longrightarrow> i < fs_next fs \<Longrightarrow> i \<notin> X \<Longrightarrow> lookup fs q = Some i"
    "\<And>q i. stage_name root q \<Longrightarrow> lookup fs q = Some i \<Longrightarrow> i \<notin> X \<Longrightarrow> lookup fs' q = Some i"
  shows "framed root X fs fs'"
  using assms unfolding framed_def by blast

lemma framed_trans:
  assumes "framed root X fs fs1" "framed root X fs1 fs2"
  shows "framed root X fs fs2"
proof (rule framedI)
  note A = framedD [OF assms(1)] and B = framedD [OF assms(2)]
  show "fs_next fs \<le> fs_next fs2" using A(1) B(1) by simp
  fix i assume i: "i \<notin> X"
  show "fs_inode fs2 i = fs_inode fs i" if "i < fs_next fs" using A(1,2) B(2) i that by simp
  show "lookup fs q = Some i" if "lookup fs2 q = Some i" "i < fs_next fs" for q
    using A(3) [OF B(3)] A(1) i that by simp
  show "lookup fs2 q = Some i" if "stage_name root q" "lookup fs q = Some i" for q
    using B(4) A(4) i that by blast
qed

lemma framed_mono: "framed root X fs fs' \<Longrightarrow> X \<subseteq> Y \<Longrightarrow> framed root Y fs fs'"
  unfolding framed_def by blast

text \<open>A file made since does not matter.\<close>

lemma framed_fresh:
  assumes "framed root X fs fs'" "fs_wf fs" "\<forall>i\<in>X. fs_next fs \<le> i"
  shows "framed root {} fs fs'"
proof (rule framedI)
  note A = framedD [OF assms(1)]
  have X: "i \<notin> X" if "i < fs_next fs" for i using assms(3) that by fastforce
  show "fs_next fs \<le> fs_next fs'" by (rule A(1))
  show "fs_inode fs' i = fs_inode fs i" if "i < fs_next fs" for i using A(2) X that by blast
  show "lookup fs q = Some i" if "lookup fs' q = Some i" "i < fs_next fs" for q i using A(3) X that by blast
  show "lookup fs' q = Some i" if "stage_name root q" "lookup fs q = Some i" for q i
    using A(4) X that assms(2) unfolding fs_wf_def by blast
qed

lemma framed_same_names: "same_names fs fs' \<Longrightarrow> framed root X fs fs'"
  by (simp add: framed_def same_names_def)

lemma framed_same_files: "same_files fs fs' \<Longrightarrow> framed root X fs fs'"
  by (intro framed_same_names same_files_names)

lemma framed_temp:
  assumes "keeps fs fs'" "fresh_temp fs path f fs'"
  shows "framed root X fs fs'"
  using assms by (intro framedI) (auto simp: fresh_temp_def keeps_def split: if_splits)

lemma framed_write:
  assumes "os_Write E f p fs = (r, fs')" "f_ino f \<in> X"
  shows "framed root X fs fs'"
proof (rule framedI)
  note W = os_Write_cases [OF assms(1)]
  show "fs_inode fs' i = fs_inode fs i" if "i \<notin> X" for i using W assms(2) that by metis
qed (use os_Write_cases [OF assms(1)] in simp_all)

lemma framed_link:
  assumes "os_Link E old new fs = (r, fs')" "\<And>i. lookup fs old = Some i \<Longrightarrow> i \<in> X"
  shows "framed root X fs fs'"
proof (cases r)
  case (Inl e)
  then show ?thesis using os_Link_cases [OF assms(1)] framed_same_files by auto
next
  case (Inr u)
  then obtain i where "lookup fs old = Some i" "lookup fs new = None" "lookup fs' = (lookup fs)(new \<mapsto> i)"
      "fs_inode fs' = fs_inode fs" "fs_next fs' = fs_next fs"
    using os_Link_cases [OF assms(1)] by auto
  then show ?thesis using assms(2) by (intro framedI) (auto split: if_splits)
qed

lemma framed_remove:
  assumes "os_Remove E p fs = (r, fs')" "\<And>i. stage_name root p \<Longrightarrow> lookup fs p = Some i \<Longrightarrow> i \<in> X"
  shows "framed root X fs fs'"
proof (cases r)
  case (Inl e)
  then show ?thesis using os_Remove_cases [OF assms(1)] framed_same_files by auto
next
  case (Inr u)
  then have l: "lookup fs' = (lookup fs)(p := None)" "fs_inode fs' = fs_inode fs" "fs_next fs' = fs_next fs"
    using os_Remove_cases [OF assms(1)] by auto
  have "q \<noteq> p" if "stage_name root q" "lookup fs q = Some j" "j \<notin> X" for q j
    using assms(2) that by blast
  then show ?thesis using l by (intro framedI) (auto split: if_splits)
qed

section \<open>Moves of the store\<close>

text \<open>
  \<open>moves root X A fs fs'\<close>: outside \<open>X\<close> files keep their bytes and names, and every body there is
  afterwards was there before or satisfies \<open>A\<close>.
\<close>

definition moves :: "string \<Rightarrow> nat set \<Rightarrow> (OutputID \<Rightarrow> bytes \<Rightarrow> bool) \<Rightarrow> fsys \<Rightarrow> fsys \<Rightarrow> bool" where
  "moves root X A fs fs' \<longleftrightarrow> (store_ok fs root \<longrightarrow> store_ok fs' root \<and> framed root X fs fs'
     \<and> (\<forall>v d. bodies fs' root v = Some d \<longrightarrow> bodies fs root v = Some d \<or> A v d))"

lemma movesD:
  assumes "moves root X A fs fs'" "store_ok fs root"
  shows "store_ok fs' root" "framed root X fs fs'" "bodies fs' root v = Some d \<Longrightarrow> bodies fs root v = Some d \<or> A v d"
  using assms by (simp_all add: moves_def)

lemma moves_refl [simp]: "moves root X A fs fs"
  by (simp add: moves_def)

lemma moves_trans [trans]:
  assumes "moves root X A fs fs1" "moves root X A fs1 fs2"
  shows "moves root X A fs fs2"
proof -
  have "store_ok fs2 root \<and> framed root X fs fs2 \<and> (\<forall>v d. bodies fs2 root v = Some d \<longrightarrow> bodies fs root v = Some d \<or> A v d)"
    if ok: "store_ok fs root"
  proof -
    note M = movesD [OF assms(1) ok]
    note N = movesD [OF assms(2) M(1)]
    show ?thesis using N(1) framed_trans [OF M(2) N(2)] M(3) N(3) by blast
  qed
  then show ?thesis by (simp add: moves_def)
qed

lemma moves_same_files: "same_files fs fs' \<Longrightarrow> moves root X A fs fs'"
  by (simp add: moves_def framed_same_files store_ok_same_files bodies_same_files)

lemma moves_mono: "moves root X A fs fs' \<Longrightarrow> X \<subseteq> Y \<Longrightarrow> moves root Y A fs fs'"
  using framed_mono by (simp add: moves_def) blast

section \<open>The operations\<close>

lemma framed_createTempIn: "createTempIn E path fs = (r, fs') \<Longrightarrow> framed root X fs fs'"
  using createTempIn_ok [of E path fs r fs'] framed_temp framed_same_names by (auto split: sum.splits)

lemma framed_putTemp:
  assumes "putTemp E path tmp body sz fs = (r, fs')" "lookup fs (f_name tmp) = Some (f_ino tmp)"
  shows "framed root {f_ino tmp} fs fs'"
proof -
  obtain wr fs1 st fs2 cl fs3 lk fs4 where w: "os_Write E tmp (fst body) fs = (wr, fs1)"
    and st: "os_Fstat E tmp fs1 = (st, fs2)" and cl: "os_Close E tmp fs2 = (cl, fs3)"
    and lk: "os_Link E (f_name tmp) path fs3 = (lk, fs4)" by (metis surj_pair)
  note W = os_Write_cases [OF w] and S = os_Fstat_cases [OF st] and C = os_Close_same [OF cl]
  have s13: "same_files fs1 fs3" using S C same_files_trans by blast
  have f3: "framed root {f_ino tmp} fs fs3"
    using framed_trans [OF framed_write [OF w] framed_same_files [OF s13]] by simp
  have "lookup fs3 (f_name tmp) = Some (f_ino tmp)" using W same_files_lookup [OF s13] assms(2) by simp
  then have f4: "framed root {f_ino tmp} fs fs4" using framed_trans [OF f3 framed_link [OF lk]] by simp
  have "fs' = fs3 \<or> fs' = fs4"
    using assms(1) w st cl lk by (auto simp: putTemp_def Let_def split: sum.splits option.splits if_splits)
  then show ?thesis using f3 f4 by auto
qed

lemma framed_Put:
  assumes "fs_wf fs" "Store_Put E root v body sz fs = (r, fs')"
  shows "framed root {} fs fs'"
proof (cases "sz < 0")
  case True
  then show ?thesis using assms by (auto simp: Store_Put_def)
next
  case False
  let ?p = "Store_Path root v"
  obtain t fs1 where t: "createTempIn E ?p fs = (t, fs1)" by fastforce
  show ?thesis
  proof (cases t)
    case (Inl e)
    then show ?thesis using assms(2) False t framed_createTempIn [OF t] by (auto simp: Store_Put_def)
  next
    case (Inr tmp)
    then have fresh: "fresh_temp fs ?p tmp fs1" using createTempIn_ok [OF t] by simp
    obtain q fs2 rm fs3 where q: "putTemp E ?p tmp body sz fs1 = (q, fs2)" and rm: "os_Remove E (f_name tmp) fs2 = (rm, fs3)"
      by (metis surj_pair)
    then have out: "fs' = fs3" using assms(2) False t Inr by (auto simp: Store_Put_def Let_def)
    have "lookup fs1 (f_name tmp) = Some (f_ino tmp)" using fresh by (simp add: fresh_temp_def)
    then have "framed root {f_ino tmp} fs1 fs2" by (rule framed_putTemp [OF q])
    moreover have "framed root {f_ino tmp} fs2 fs3"
      using framed_remove [OF rm] stage_not_temp fresh unfolding fresh_temp_def by blast
    ultimately have "framed root {f_ino tmp} fs fs3"
      using framed_createTempIn [OF t] framed_trans by blast
    then show ?thesis using framed_fresh [OF _ assms(1)] fresh out by (simp add: fresh_temp_def)
  qed
qed

lemma moves_Put:
  assumes "Store_Put E root v body sz fs = (r, fs')" "snd body = None \<Longrightarrow> int (length (fst body)) = sz \<Longrightarrow> A v (fst body)"
  shows "moves root X A fs fs'"
proof -
  have "bodies fs root u = Some d \<or> A u d" if "store_ok fs root" "bodies fs' root u = Some d" for u d
    using Store_Put_bodies(3) [OF that(1) assms(1)] that(2) assms(2)
    by (auto simp: publish_def split: sum.splits option.splits if_splits)
  moreover have "framed root X fs fs'" if "store_ok fs root"
    using framed_mono [OF framed_Put [OF _ assms(1)]] that by (simp add: store_ok_def)
  ultimately show ?thesis using Store_Put_bodies(1) assms(1) by (auto simp: moves_def)
qed

lemma moves_Get: "Store_Get E root v fs = (r, fs') \<Longrightarrow> moves root X A fs fs'"
  using Store_Get_cases moves_same_files by blast

lemma moves_Open: "Store_Open E root v fs = (r, fs') \<Longrightarrow> moves root X A fs fs'"
  using Store_Open_cases moves_same_files by blast

lemma moves_Close: "os_Close E f fs = (r, fs') \<Longrightarrow> moves root X A fs fs'"
  by (intro moves_same_files os_Close_same)

lemma moves_Measure: "Store_Measure E root v now fs = (r, fs') \<Longrightarrow> moves root X A fs fs'"
  using os_Stat_cases [of E "Store_Path root v" fs]
  by (intro moves_same_files) (auto simp: Store_Measure_def split: prod.splits sum.splits)

text \<open>Removing a name takes a body away at most.\<close>

lemma moves_unlink:
  assumes "os_Remove E p fs = (r, fs')" "\<And>i. stage_name root p \<Longrightarrow> lookup fs p = Some i \<Longrightarrow> i \<in> X"
  shows "moves root X A fs fs'"
proof -
  note R = os_Remove_cases [OF assms(1)]
  have "lookup fs' q = lookup fs q \<or> lookup fs' q = None" for q
    using R same_files_lookup [of fs fs'] by (cases r) auto
  then have "bodies fs' root v = Some d \<Longrightarrow> bodies fs root v = Some d" for v d
    using R unfolding bodies_def content_def by (metis option.map(1) option.distinct(1))
  moreover have "framed root X fs fs'" by (rule framed_remove [OF assms])
  ultimately show ?thesis using R by (auto simp: moves_def store_ok_def)
qed

lemma moves_Remove: "Store_Remove E root v fs = (r, fs') \<Longrightarrow> moves root X A fs fs'"
proof -
  assume r: "Store_Remove E root v fs = (r, fs')"
  obtain q where "os_Remove E (Store_Path root v) fs = (q, fs')"
    using r by (auto simp: Store_Remove_def split: prod.splits sum.splits)
  then show ?thesis by (rule moves_unlink) (use stage_not_body in blast)
qed

lemma framed_linkIn:
  assumes "linkIn E src path fs = (r, fs')" "\<And>i. lookup fs src = Some i \<Longrightarrow> i \<in> X"
  shows "framed root X fs fs'"
  using linkIn_ok [OF assms(1)] assms(2)
  by (intro framedI) (auto split: sum.splits if_splits)

lemma moves_Adopt:
  assumes "Store_Adopt E root v src sz fs = (r, fs')" "\<And>i. lookup fs src = Some i \<Longrightarrow> i \<in> X"
    and "\<And>d. content fs src = Some d \<Longrightarrow> A v d"
  shows "moves root X A fs fs'"
proof -
  have fr: "framed root X fs fs'" if ok: "store_ok fs root"
  proof -
    let ?p = "Store_Path root v"
    obtain st fs1 where st: "os_Stat E src fs = (st, fs1)" by fastforce
    have s1: "same_files fs fs1" using os_Stat_cases [OF st] by blast
    note f1 = framed_same_files [OF s1, of root X] and l1 = same_files_lookup [OF s1]
    obtain lk fs2 where lk: "linkIn E src ?p fs1 = (lk, fs2)" by fastforce
    have f2: "framed root X fs fs2" using framed_trans [OF f1 framed_linkIn [OF lk]] assms(2) l1 by simp
    have wf2: "fs_wf fs2" using linkIn_ok [OF lk] same_files_wf [OF s1] ok by (simp add: store_ok_def)
    consider "fs' = fs1" | "fs' = fs2" | q fs3 where "os_Stat E ?p fs2 = (q, fs3)" "fs' = fs3"
      | o1 fs3 where "os_Open E src fs2 = (o1, fs3)" "fs' = fs3 \<or> (\<exists>f q fs4 c. o1 = Inr f
          \<and> Store_Put E root v (i_data (fs_inode fs3 (f_ino f)), None) sz fs3 = (q, fs4) \<and> os_Close E f fs4 = (c, fs'))"
      using assms(1) st lk by (auto simp: Store_Adopt_def Let_def split: sum.splits if_splits prod.splits)
    then show ?thesis
    proof cases
      case (3 q fs3)
      then show ?thesis using framed_trans [OF f2] framed_same_files os_Stat_cases by blast
    next
      case (4 o1 fs3)
      have s3: "same_files fs2 fs3" using os_Open_cases [OF 4(1)] by blast
      note f3 = framed_trans [OF f2 framed_same_files [OF s3]]
      have "framed root X fs3 fs'" if "Store_Put E root v (i_data (fs_inode fs3 (f_ino f)), None) sz fs3 = (q, fs4)"
          "os_Close E f fs4 = (c, fs')" for f q fs4 c
        using framed_mono [OF framed_Put [OF same_files_wf [OF s3 wf2] that(1)], of X]
          framed_trans framed_same_files [OF os_Close_same [OF that(2)]] by blast
      then show ?thesis using 4(2) f3 framed_trans by blast
    qed (use f1 f2 in simp_all)
  qed
  have "bodies fs root u = Some d \<or> A u d" if "store_ok fs root" "bodies fs' root u = Some d" for u d
    using Store_Adopt_publishes [OF that(1) assms(1)] that(2) assms(3) by (auto simp: publish_def split: option.splits if_splits)
  then show ?thesis using fr Store_Adopt_bodies(1) assms(1) by (auto simp: moves_def)
qed

end
