(* ===== verification/Cache_Inv.thy ===== *)
theory Cache_Inv
  imports Cache Blob_Theorems Evict_Theorems Remote_Tier
begin

text \<open>
  What holds between the tiers of a cache, and that every operation keeps it: the index is
  consistent, every output it accounts for has its body in the store, and the presence memo
  answers only for actions that are indexed. The invariant speaks of one operation at a time, as
  the steps of \<open>cache_step\<close>; the races inside an operation are the subject of the step relations of
  the components.
\<close>

section \<open>What is assumed of the surroundings\<close>

text \<open>The tier returns values of their Go types: 64-bit sizes and timestamps.\<close>

definition tier_typed :: "'r Backend \<Rightarrow> bool" where
  "tier_typed R \<longleftrightarrow>
     (\<forall>a r v t r'. rb_GetAction R a r = (Inr (v, Some t), r') \<longrightarrow> in64 t)
     \<and> (\<forall>v r b sz r'. rb_GetObject R v r = (Inr (b, sz), r') \<longrightarrow> in64 sz)"

text \<open>The file system allocates a non-negative number of blocks that 63 bits count in bytes.\<close>

definition blocks_ok :: "osenv \<Rightarrow> bool" where
  "blocks_ok E \<longleftrightarrow> (\<forall>t d b. os_blocks E t d = Some b \<longrightarrow> 0 \<le> b \<and> b * blockSize < 2 ^ 63)"

definition env_ok :: "('db, 'r) cache_env \<Rightarrow> bool" where
  "env_ok K \<longleftrightarrow> pebble_ok (ce_P K) \<and> tier_typed (ce_rem K) \<and> blocks_ok (ce_E K)"

lemma env_okD [dest]: "env_ok K \<Longrightarrow> pebble_ok (ce_P K)" "env_ok K \<Longrightarrow> tier_typed (ce_rem K)" "env_ok K \<Longrightarrow> blocks_ok (ce_E K)"
  by (simp_all add: env_ok_def)

section \<open>The index represents one state\<close>

lemma repr_unique:
  assumes "repr P ix s" "repr P ix t"
  shows "s = t"
proof -
  note S = reprD [OF assms(1)] and T = reprD [OF assms(2)]
  have "ents s a = ents t a" for a
  proof (rule ent.enc_option_inj)
    show "map_option encodeEntry (ents s a) = map_option encodeEntry (ents t a)"
      using tables_entry [OF S(2), of a] tables_entry [OF T(2), of a] by simp
  qed (use swf_entry_ok [OF S(1)] swf_entry_ok [OF T(1)] in simp_all)
  moreover have rec: "obj_record s v = obj_record t v" for v
  proof (rule obj.enc_option_inj)
    show "map_option encodeObjRef (obj_record s v) = map_option encodeObjRef (obj_record t v)"
      using tables_obj [OF S(2), of v] tables_obj [OF T(2), of v] by simp
  qed (use obj_record_wf [OF S(1)] obj_record_wf [OF T(1)] in simp_all)
  have "cost s v = cost t v" for v
    using rec [of v] by (cases "cost s v"; cases "cost t v") (simp_all add: obj_record_def)
  ultimately show ?thesis by (simp add: fun_eq_iff)
qed

section \<open>The invariant\<close>

definition cache_repr :: "('db, 'r) cache_env \<Rightarrow> ('db, 'r) cache \<Rightarrow> ispec \<Rightarrow> bool" where
  "cache_repr K c s \<longleftrightarrow>
     repr (ce_P K) (c_idx c) s
     \<and> store_ok (c_fs c) (ce_root K) \<and> dom (cost s) \<subseteq> dom (bodies (c_fs c) (ce_root K))
     \<and> presence_wf (c_present c) \<and> gens_ok (c_present c) \<and> (\<forall>a. current (c_present c) a \<longrightarrow> a \<in> dom (ents s))"

text \<open>The counters have room: for one more action, for the sum of the costs, and for as many
  invalidations of the memo as one operation can cause.\<close>

definition spec_room :: "ispec \<Rightarrow> presence \<Rightarrow> bool" where
  "spec_room s p \<longleftrightarrow> total_cost s < 2 ^ 63 \<and> int (card (dom (ents s))) < 2 ^ 63 - 1
     \<and> int (card (dom (cost s))) < 2 ^ 63 \<and> pr_gen p + int (card (dom (cost s))) + 1 < 2 ^ 64"

definition room :: "('db, 'r) cache_env \<Rightarrow> ('db, 'r) cache \<Rightarrow> bool" where
  "room K c \<longleftrightarrow> (\<forall>s. repr (ce_P K) (c_idx c) s \<longrightarrow> spec_room s (c_present c))"

lemma roomI: "cache_repr K c s \<Longrightarrow> spec_room s (c_present c) \<Longrightarrow> room K c"
  using repr_unique unfolding room_def cache_repr_def by blast

lemma roomD: "room K c \<Longrightarrow> cache_repr K c s \<Longrightarrow> spec_room s (c_present c)"
  by (simp add: room_def cache_repr_def)

lemma cache_reprD:
  assumes "cache_repr K c s"
  shows "repr (ce_P K) (c_idx c) s" "swf s" "store_ok (c_fs c) (ce_root K)"
    "dom (cost s) \<subseteq> dom (bodies (c_fs c) (ce_root K))" "presence_wf (c_present c)" "gens_ok (c_present c)"
    "current (c_present c) a \<Longrightarrow> a \<in> dom (ents s)"
  using assms reprD by (auto simp: cache_repr_def)

text \<open>The invariant does not look at the counters, the queues and the tier.\<close>

lemma cache_repr_other [simp]:
  "cache_repr K (c\<lparr>c_metrics := m\<rparr>) s \<longleftrightarrow> cache_repr K c s"
  "cache_repr K (c\<lparr>c_tier := r\<rparr>) s \<longleftrightarrow> cache_repr K c s"
  "cache_repr K (c\<lparr>c_uploads := u\<rparr>) s \<longleftrightarrow> cache_repr K c s"
  "cache_repr K (c\<lparr>c_touches := t\<rparr>) s \<longleftrightarrow> cache_repr K c s"
  "cache_repr K (c\<lparr>c_prunedSinceCompact := n\<rparr>) s \<longleftrightarrow> cache_repr K c s"
  by (simp_all add: cache_repr_def)

lemma cache_repr_count [simp]:
  "cache_repr K (count_GetLocalHit c) s \<longleftrightarrow> cache_repr K c s"
  "cache_repr K (count_GetRemoteHit c) s \<longleftrightarrow> cache_repr K c s"
  "cache_repr K (count_GetMiss c) s \<longleftrightarrow> cache_repr K c s"
  "cache_repr K (count_GetRepair c) s \<longleftrightarrow> cache_repr K c s"
  "cache_repr K (count_Put c) s \<longleftrightarrow> cache_repr K c s"
  "cache_repr K (count_UploadSkip c) s \<longleftrightarrow> cache_repr K c s"
  "cache_repr K (count_Compactions c) s \<longleftrightarrow> cache_repr K c s"
  "cache_repr K (touch now a t c) s \<longleftrightarrow> cache_repr K c s"
  by (simp_all add: count_defs touch_def)

lemma count_fields [simp]:
  "c_idx (count_GetLocalHit c) = c_idx c" "c_fs (count_GetLocalHit c) = c_fs c" "c_present (count_GetLocalHit c) = c_present c"
  "c_idx (count_GetRemoteHit c) = c_idx c" "c_fs (count_GetRemoteHit c) = c_fs c" "c_present (count_GetRemoteHit c) = c_present c"
  "c_idx (count_GetMiss c) = c_idx c" "c_fs (count_GetMiss c) = c_fs c" "c_present (count_GetMiss c) = c_present c"
  "c_idx (count_GetRepair c) = c_idx c" "c_fs (count_GetRepair c) = c_fs c" "c_present (count_GetRepair c) = c_present c"
  "c_idx (count_Put c) = c_idx c" "c_fs (count_Put c) = c_fs c" "c_present (count_Put c) = c_present c"
  "c_idx (count_UploadSkip c) = c_idx c" "c_fs (count_UploadSkip c) = c_fs c" "c_present (count_UploadSkip c) = c_present c"
  "c_idx (touch now a t c) = c_idx c" "c_fs (touch now a t c) = c_fs c" "c_present (touch now a t c) = c_present c"
  by (simp_all add: count_defs touch_def)

lemma cache_repr_same_files: "same_files (c_fs c) fs \<Longrightarrow> cache_repr K c s \<Longrightarrow> cache_repr K (c\<lparr>c_fs := fs\<rparr>) s"
  using bodies_same_files [of "c_fs c" fs "ce_root K"] store_ok_same_files [of "c_fs c" fs "ce_root K"]
  by (simp add: cache_repr_def)

lemma cache_repr_grows:
  assumes "cache_repr K c s" "keeps (c_fs c) fs" "store_ok fs (ce_root K)"
  shows "cache_repr K (c\<lparr>c_fs := fs\<rparr>) s"
proof -
  have "dom (bodies (c_fs c) (ce_root K)) \<subseteq> dom (bodies fs (ce_root K))"
    using bodies_mono [OF assms(2) cache_reprD(3) [OF assms(1)]] by auto
  then show ?thesis using assms(1,3) unfolding cache_repr_def by simp blast
qed

section \<open>Recording an output\<close>

text \<open>An entry is indexed after its body is in place.\<close>

lemma index_put_repr:
  assumes "pebble_ok (ce_P K)" "cache_repr K c s" "int (card (dom (ents s))) < 2 ^ 63 - 1" "wf_entry e" "in64 d"
    and "bodies (c_fs c) (ce_root K) (OutputID e) \<noteq> None" "Index_Put (ce_P K) (c_idx c) a e d = (r, ix)"
  shows "\<exists>s'. cache_repr K (c\<lparr>c_idx := ix\<rparr>) s' \<and> (s' = s \<and> r \<noteq> None \<or> s' = spec_put a e d s)"
proof -
  note C = cache_reprD [OF assms(2)]
  consider "ix = c_idx c" "r \<noteq> None" | "repr (ce_P K) ix (spec_put a e d s)"
    using Put_refines [OF assms(1) C(1) assms(4,5,3,7)] by blast
  then show ?thesis
  proof cases
    case 1
    then show ?thesis using assms(2) by (intro exI [of _ s]) simp
  next
    case 2
    have "dom (cost (spec_put a e d s)) \<subseteq> insert (OutputID e) (dom (cost s))" "dom (ents s) \<subseteq> dom (ents (spec_put a e d s))"
      by (auto simp: spec_put_def split: if_splits)
    then have "cache_repr K (c\<lparr>c_idx := ix\<rparr>) (spec_put a e d s)"
      using 2 C assms(6) unfolding cache_repr_def by (auto simp: subset_iff)
    then show ?thesis by blast
  qed
qed

section \<open>Reading\<close>

lemma tier_typedD:
  "tier_typed R \<Longrightarrow> rb_GetAction R a r = (Inr (v, Some t), r') \<Longrightarrow> in64 t"
  "tier_typed R \<Longrightarrow> rb_GetObject R v r = (Inr (b, sz), r') \<Longrightarrow> in64 sz"
  unfolding tier_typed_def by blast+

text \<open>The two ends of a remote lookup: a miss, which may have filled a temporary, or a body that is in
  the store before its entry is written.\<close>

lemma getRemote_cases:
  assumes "store_ok (c_fs c) (ce_root K)" "Cache_getRemote K now a c = (res, c')"
  obtains (miss) t fs where "res = None" "c' = count_GetMiss (c\<lparr>c_tier := t, c_fs := fs\<rparr>)"
      "keeps (c_fs c) fs" "store_ok fs (ce_root K)" "bodies fs (ce_root K) = bodies (c_fs c) (ce_root K)"
  | (hit) t fs v mt t1 data cerr sz db perr ix created where
      "rb_GetAction (ce_rem K) a (c_tier c) = (Inr (v, mt), t1)" "RemoteEnabled (ce_cfg K)"
      "rb_GetObject (ce_rem K) v t1 = (Inr ((data, None, cerr), sz), t)"
      "created = (case mt of None \<Rightarrow> now | Some w \<Rightarrow> w)" "int (length data) = sz" "in64 sz \<Longrightarrow> in64 db"
      "Index_Put (ce_P K) (c_idx c) a \<lparr>OutputID = v, Size = sz, CreatedAt = created, LastUsedAt = now\<rparr> db = (perr, ix)"
      "res = Some \<lparr>res_OutputID = v, res_Size = sz, res_DiskPath = Store_Path (ce_root K) v, res_Time = created\<rparr>"
      "c' = count_GetRemoteHit (c\<lparr>c_tier := t, c_fs := fs, c_idx := ix\<rparr>)"
      "keeps (c_fs c) fs" "store_ok fs (ce_root K)"
      "bodies fs (ce_root K) = publish v data (bodies (c_fs c) (ce_root K))"
proof (cases "RemoteEnabled (ce_cfg K)")
  case False
  then show thesis using assms by (intro miss [where t = "c_tier c" and fs = "c_fs c"]) (auto simp: Cache_getRemote_def)
next
  case True
  obtain ga t1 where ga: "rb_GetAction (ce_rem K) a (c_tier c) = (ga, t1)" by fastforce
  show thesis
  proof (cases ga)
    case (Inl err)
    then show thesis using True ga assms by (intro miss [where t = t1 and fs = "c_fs c"]) (auto simp: Cache_getRemote_def)
  next
    case A: (Inr y)
    obtain v mt where y: "y = (v, mt)" by (cases y)
    obtain go t2 where go: "rb_GetObject (ce_rem K) v t1 = (go, t2)" by fastforce
    show thesis
    proof (cases go)
      case (Inl err)
      then show thesis using True ga A y go assms by (intro miss [where t = t2 and fs = "c_fs c"]) (auto simp: Cache_getRemote_def)
    next
      case B: (Inr z)
      obtain data rerr cerr sz where z: "z = ((data, rerr, cerr), sz)" by (metis surj_pair)
      obtain pr fs where p: "Store_Put (ce_E K) (ce_root K) v (data, rerr) sz (c_fs c) = (pr, fs)" by fastforce
      note P = Store_Put_bodies [OF assms(1) p]
      show thesis
      proof (cases pr)
        case (Inl err)
        then show thesis using True ga A y go B z p assms P by (intro miss [where t = t2 and fs = fs]) (auto simp: Cache_getRemote_def)
      next
        case D: (Inr q)
        obtain path db where q: "q = (path, db)" by (cases q)
        define created where "created = (case mt of None \<Rightarrow> now | Some w \<Rightarrow> w)"
        obtain perr ix where ip: "Index_Put (ce_P K) (c_idx c) a
            \<lparr>OutputID = v, Size = sz, CreatedAt = created, LastUsedAt = now\<rparr> db = (perr, ix)" by fastforce
        have out: "res = Some \<lparr>res_OutputID = v, res_Size = sz, res_DiskPath = path, res_Time = created\<rparr>"
          "c' = count_GetRemoteHit (c\<lparr>c_tier := t2, c_fs := fs, c_idx := ix\<rparr>)"
          using True ga A y go B z p D q ip assms(2) by (auto simp: Cache_getRemote_def Let_def created_def)
        show thesis
          using P D q True ga A y go B z ip out created_def
          by (intro hit [where v = v and data = data and sz = sz and t = t2 and created = created and db = db and fs = fs]) auto
      qed
    qed
  qed
qed

lemma getRemote_repr:
  assumes "env_ok K" "cache_repr K c s" "int (card (dom (ents s))) < 2 ^ 63 - 1" "in64 now" "Cache_getRemote K now a c = (r, c')"
  shows "\<exists>s'. cache_repr K c' s' \<and> (\<forall>x. r = Some x \<longrightarrow> bodies (c_fs c') (ce_root K) (res_OutputID x) \<noteq> None)"
proof (cases rule: getRemote_cases [OF cache_reprD(3) [OF assms(2)] assms(5)])
  case (1 t fs)
  then show ?thesis using cache_repr_grows [of K "c\<lparr>c_tier := t\<rparr>" s fs] assms(2) by auto
next
  case (2 t fs v mt t1 data cerr sz db perr ix created)
  have grown: "cache_repr K (c\<lparr>c_tier := t, c_fs := fs\<rparr>) s"
    using cache_repr_grows [of K "c\<lparr>c_tier := t\<rparr>" s fs] assms(2) 2 by simp
  have t: "in64 created" "in64 sz"
    using tier_typedD [OF env_okD(2) [OF assms(1)]] assms(4) 2 by (auto split: option.split)
  have b: "bodies fs (ce_root K) v \<noteq> None" using 2 by (auto simp: publish_def split: option.splits)
  then show ?thesis
    using index_put_repr [OF env_okD(1) [OF assms(1)] grown, of "\<lparr>OutputID = v, Size = sz, CreatedAt = created, LastUsedAt = now\<rparr>" db a perr ix]
      assms(3,4) t 2 by (auto simp: wf_entry_def)
qed

text \<open>A memo that was just invalidated vouches for nothing.\<close>

lemma cache_repr_invalidate:
  assumes "cache_repr K c s" "pr_gen (c_present c) + 1 < 2 ^ 64"
  shows "cache_repr K (c\<lparr>c_present := invalidate (c_present c)\<rparr>) s"
  using assms presence_wf_invalidate [of "c_present c"] gens_ok_invalidate [of "c_present c"] invalidate_current [of "c_present c"]
  by (auto simp: cache_repr_def)

text \<open>The body may go once the index does not account for it.\<close>

lemma Store_Remove_bodies:
  assumes "store_ok fs root" "Store_Remove E root v fs = (r, fs')"
  shows "store_ok fs' root" "u \<noteq> v \<Longrightarrow> bodies fs' root u = bodies fs root u" "r = None \<Longrightarrow> bodies fs' root v = None"
proof -
  note R = Store_Remove_cases [OF assms(2)]
  show "store_ok fs' root" using R assms(1) by (simp add: store_ok_def)
  have inj: "Store_Path root u = Store_Path root v \<longleftrightarrow> u = v" for u using Store_Path_inj by blast
  have "lookup fs' (Store_Path root u) = lookup fs (Store_Path root u)" if "u \<noteq> v" for u
    using R that same_files_lookup [of fs fs'] by (cases r) (auto simp: inj)
  then show "u \<noteq> v \<Longrightarrow> bodies fs' root u = bodies fs root u" using R by (simp add: bodies_def content_def)
  show "r = None \<Longrightarrow> bodies fs' root v = None" using R by (simp add: bodies_None)
qed

lemma Store_Remove_dom:
  "store_ok fs root \<Longrightarrow> Store_Remove E root v fs = (r, fs') \<Longrightarrow> dom (bodies fs root) - {v} \<subseteq> dom (bodies fs' root)"
  using Store_Remove_bodies(2) by (fastforce simp: dom_def)

text \<open>
  A repair: the index forgets the action, and the body goes with it if nothing else uses it. The
  memo is invalidated after the removal, which is what makes the repaired state consistent with it.
\<close>

lemma bodyGone_repair:
  assumes "pebble_ok (ce_P K)" "cache_repr K c s" "pr_gen (c_present c) + 1 < 2 ^ 64"
    and "Cache_bodyGone K a ErrNotExist c = (through, c')"
  shows "through" "\<exists>s'. cache_repr K c' s' \<and> (s' = s \<or> s' = spec_delete a s)"
    "GetRepair (c_metrics c') = add64 (GetRepair (c_metrics c)) 1"
proof -
  note C = cache_reprD [OF assms(2)]
  obtain d ix where d: "Index_Delete (ce_P K) (c_idx c) a = (d, ix)" by fastforce
  show "through" using assms(4) by (auto simp: Cache_bodyGone_def Let_def)
  obtain fs where c': "c' = (count_GetRepair c)\<lparr>c_idx := ix, c_fs := fs, c_present := invalidate (c_present c)\<rparr>"
    and fs: "(\<exists>e. d = Inl e) \<or> d = Inr None \<Longrightarrow> fs = c_fs c"
      "\<And>v. d = Inr (Some v) \<Longrightarrow> \<exists>r. Store_Remove (ce_E K) (ce_root K) v (c_fs c) = (r, fs)"
  proof (cases "\<exists>v. d = Inr (Some v)")
    case True
    then obtain v where v: "d = Inr (Some v)" ..
    obtain r fs1 where r: "Store_Remove (ce_E K) (ce_root K) v (c_fs c) = (r, fs1)" by fastforce
    show thesis using assms(4) d v r by (intro that [of fs1]) (auto simp: Cache_bodyGone_def Let_def)
  next
    case False
    then show thesis using assms(4) d
      by (intro that [of "c_fs c"]) (auto simp: Cache_bodyGone_def Let_def split: sum.splits option.splits)
  qed
  show "GetRepair (c_metrics c') = add64 (GetRepair (c_metrics c)) 1" by (simp add: c' count_GetRepair_def)
  have "\<exists>s'. cache_repr K (c\<lparr>c_idx := ix, c_fs := fs, c_present := invalidate (c_present c)\<rparr>) s' \<and> (s' = s \<or> s' = spec_delete a s)"
  proof (cases d)
    case (Inl e)
    then have "ix = c_idx c" "fs = c_fs c" using Delete_error d fs by auto
    then show ?thesis using cache_repr_invalidate [OF assms(2,3)] by (intro exI [of _ s]) (simp add: cache_repr_def)
  next
    case (Inr ov)
    note D = Delete_refines [OF assms(1) C(1) d [unfolded Inr]]
    have st: "store_ok fs (ce_root K)" "dom (cost (spec_delete a s)) \<subseteq> dom (bodies fs (ce_root K))"
    proof (atomize (full), cases ov)
      case None
      then show "store_ok fs (ce_root K) \<and> dom (cost (spec_delete a s)) \<subseteq> dom (bodies fs (ce_root K))"
        using fs(1) Inr C(3,4) D by (auto simp: cost_delete)
    next
      case (Some v)
      then obtain r where r: "Store_Remove (ce_E K) (ce_root K) v (c_fs c) = (r, fs)" using fs(2) Inr by blast
      have "orphans_on_delete a s = Some v" using D Some by simp
      then have "cost (spec_delete a s) = (cost s)(v := None)" by (auto simp: cost_delete)
      then show "store_ok fs (ce_root K) \<and> dom (cost (spec_delete a s)) \<subseteq> dom (bodies fs (ce_root K))"
        using Store_Remove_bodies(1) [OF C(3) r] Store_Remove_dom [OF C(3) r] C(4) by simp blast
    qed
    have "\<not> current (invalidate (c_present c)) b" for b using invalidate_current C(6) assms(3) .
    then have "cache_repr K (c\<lparr>c_idx := ix, c_fs := fs, c_present := invalidate (c_present c)\<rparr>) (spec_delete a s)"
      using D st C presence_wf_invalidate gens_ok_invalidate [OF C(6) assms(3)] by (simp add: cache_repr_def)
    then show ?thesis by blast
  qed
  then show "\<exists>s'. cache_repr K c' s' \<and> (s' = s \<or> s' = spec_delete a s)"
    unfolding c' by (simp add: cache_repr_def)
qed

lemma card_ents_delete: "swf s \<Longrightarrow> card (dom (ents (spec_delete a s))) \<le> card (dom (ents s))"
  by (auto intro!: card_mono simp: swf_def)

text \<open>What follows a lookup in the body store: the body is served, or it is gone and the tier is asked.\<close>

lemma bodyGone_through:
  assumes "env_ok K" "cache_repr K c s" "room K c" "Cache_bodyGone K a err c = (through, c1)"
  shows "\<exists>s1. cache_repr K c1 s1 \<and> (through \<longrightarrow> int (card (dom (ents s1))) < 2 ^ 63 - 1)"
proof (cases "err = ErrNotExist")
  case True
  have g: "pr_gen (c_present c) + 1 < 2 ^ 64" "int (card (dom (ents s))) < 2 ^ 63 - 1"
    using roomD [OF assms(3,2)] by (auto simp: spec_room_def)
  obtain s1 where "cache_repr K c1 s1" "s1 = s \<or> s1 = spec_delete a s"
    using bodyGone_repair(2) [OF env_okD(1) [OF assms(1)] assms(2) g(1) assms(4) [unfolded True]] by blast
  then show ?thesis
    using g(2) card_ents_delete [OF cache_reprD(2) [OF assms(2)], of a] by (auto intro!: exI [of _ s1])
next
  case False
  then show ?thesis using assms(2,4) by (auto simp: Cache_bodyGone_def intro!: exI [of _ s])
qed

lemma room_same [simp]:
  "room K (c\<lparr>c_fs := fs\<rparr>) \<longleftrightarrow> room K c"
  by (simp add: room_def)

lemma Cache_Get_repr:
  assumes "env_ok K" "cache_repr K c s" "room K c" "in64 (clk 0)" "Cache_Get K clk a c = (res, c')"
  shows "\<exists>s'. cache_repr K c' s' \<and> (\<forall>x. res = Some x \<longrightarrow> bodies (c_fs c') (ce_root K) (res_OutputID x) \<noteq> None)"
proof -
  note ok = env_okD(1) [OF assms(1)]
  have n: "int (card (dom (ents s))) < 2 ^ 63 - 1" using roomD [OF assms(3,2)] by (simp add: spec_room_def)
  consider (err) err where "Index_Get (ce_P K) (c_idx c) a = Inl err" | (none) "Index_Get (ce_P K) (c_idx c) a = Inr None"
    | (found) e where "Index_Get (ce_P K) (c_idx c) a = Inr (Some e)"
    by (metis not_None_eq old.sum.exhaust)
  then show ?thesis
  proof cases
    case err
    then show ?thesis using assms(2,5) by (auto simp: Cache_Get_def)
  next
    case none
    then show ?thesis using getRemote_repr [OF assms(1,2) n assms(4)] assms(5) by (auto simp: Cache_Get_def)
  next
    case found
    obtain g fs where g: "Store_Get (ce_E K) (ce_root K) (OutputID e) (c_fs c) = (g, fs)" by fastforce
    note G = Store_Get_cases [OF g]
    have f: "cache_repr K (c\<lparr>c_fs := fs\<rparr>) s" using cache_repr_same_files G assms(2) by blast
    show ?thesis
    proof (cases g)
      case (Inr y)
      then have "bodies fs (ce_root K) (OutputID e) \<noteq> None"
        using G same_files_lookup [of "c_fs c" fs] by (auto simp: bodies_None)
      then show ?thesis using f Inr g found assms(5) by (auto simp: Cache_Get_def split: prod.splits)
    next
      case (Inl err)
      obtain through c1 where b: "Cache_bodyGone K a err (c\<lparr>c_fs := fs\<rparr>) = (through, c1)" by fastforce
      obtain s1 where s1: "cache_repr K c1 s1" "through \<longrightarrow> int (card (dom (ents s1))) < 2 ^ 63 - 1"
        using bodyGone_through [OF assms(1) f _ b] assms(3) by auto
      have "if through then Cache_getRemote K (clk 0) a c1 = (res, c') else (None, c1) = (res, c')"
        using Inl g found assms(5) b by (auto simp: Cache_Get_def)
      then show ?thesis
        using getRemote_repr [OF assms(1) s1(1) _ assms(4)] s1 by (auto split: if_splits)
    qed
  qed
qed

text \<open>An opened file is the body of the output the result names.\<close>

definition opened :: "('db, 'r) cache_env \<Rightarrow> ('db, 'r) cache \<Rightarrow> File \<Rightarrow> Result \<Rightarrow> bool" where
  "opened K c f x \<longleftrightarrow> (\<exists>d. bodies (c_fs c) (ce_root K) (res_OutputID x) = Some d
     \<and> i_data (fs_inode (c_fs c) (f_ino f)) = d \<and> res_Size x = int (length d))"

lemma Store_Open_bodies:
  assumes "Store_Open E root v fs = (Inr (f, n), fs')"
  shows "bodies fs' root v = Some (i_data (fs_inode fs' (f_ino f))) \<and> n = int (length (i_data (fs_inode fs' (f_ino f))))"
  using Store_Open_cases [OF assms] same_files_lookup [of fs fs'] by (auto simp: bodies_def content_def same_files_def)

lemma openRemote_repr:
  assumes "env_ok K" "cache_repr K c s" "int (card (dom (ents s))) < 2 ^ 63 - 1" "in64 (clk 0)"
    and "Cache_openRemote K clk a c = (res, c')"
  shows "\<exists>s'. cache_repr K c' s' \<and> (\<forall>f x. res = Some (f, x) \<longrightarrow> opened K c' f x)"
proof -
  obtain g c1 where g: "Cache_getRemote K (clk 0) a c = (g, c1)" by fastforce
  obtain s1 where s1: "cache_repr K c1 s1" using getRemote_repr [OF assms(1-4) g] by blast
  show ?thesis
  proof (cases g)
    case None
    then show ?thesis using g s1 assms(5) by (auto simp: Cache_openRemote_def)
  next
    case (Some x)
    obtain q fs where q: "Store_Open (ce_E K) (ce_root K) (res_OutputID x) (c_fs c1) = (q, fs)" by fastforce
    have "same_files (c_fs c1) fs" using Store_Open_cases [OF q] by blast
    then have "cache_repr K (c1\<lparr>c_fs := fs\<rparr>) s1" using s1 cache_repr_same_files by blast
    moreover have "c' = c1\<lparr>c_fs := fs\<rparr>" "\<And>f y. res = Some (f, y) \<Longrightarrow> \<exists>n. q = Inr (f, n) \<and> y = x\<lparr>res_Size := n\<rparr>"
      using g Some q assms(5) by (auto simp: Cache_openRemote_def split: sum.splits prod.splits)
    ultimately show ?thesis using Store_Open_bodies q by (intro exI [of _ s1]) (fastforce simp: opened_def)
  qed
qed

lemma Cache_Open_repr:
  assumes "env_ok K" "cache_repr K c s" "room K c" "in64 (clk 0)" "Cache_Open K clk a c = (res, c')"
  shows "\<exists>s'. cache_repr K c' s' \<and> (\<forall>f x. res = Some (f, x) \<longrightarrow> opened K c' f x)"
proof -
  have n: "int (card (dom (ents s))) < 2 ^ 63 - 1" using roomD [OF assms(3,2)] by (simp add: spec_room_def)
  consider (err) err where "Index_Get (ce_P K) (c_idx c) a = Inl err" | (none) "Index_Get (ce_P K) (c_idx c) a = Inr None"
    | (found) e where "Index_Get (ce_P K) (c_idx c) a = Inr (Some e)"
    by (metis not_None_eq old.sum.exhaust)
  then show ?thesis
  proof cases
    case err
    then show ?thesis using assms(2,5) by (auto simp: Cache_Open_def)
  next
    case none
    then show ?thesis using openRemote_repr [where clk = clk, OF assms(1,2) n assms(4)] assms(5) by (auto simp: Cache_Open_def)
  next
    case found
    obtain q fs where q: "Store_Open (ce_E K) (ce_root K) (OutputID e) (c_fs c) = (q, fs)" by fastforce
    have f: "cache_repr K (c\<lparr>c_fs := fs\<rparr>) s" using cache_repr_same_files Store_Open_cases [OF q] assms(2) by blast
    show ?thesis
    proof (cases q)
      case (Inr y)
      obtain fl n where y: "y = (fl, n)" by (cases y)
      then show ?thesis using f Inr q found assms(5) Store_Open_bodies [of "ce_E K" "ce_root K" "OutputID e" "c_fs c" fl n fs]
        by (auto simp: Cache_Open_def opened_def)
    next
      case (Inl err)
      obtain through c1 where b: "Cache_bodyGone K a err (c\<lparr>c_fs := fs\<rparr>) = (through, c1)" by fastforce
      obtain s1 where s1: "cache_repr K c1 s1" "through \<longrightarrow> int (card (dom (ents s1))) < 2 ^ 63 - 1"
        using bodyGone_through [OF assms(1) f _ b] assms(3) by auto
      have "if through then Cache_openRemote K clk a c1 = (res, c') else (None, c1) = (res, c')"
        using Inl q found assms(5) b by (auto simp: Cache_Open_def)
      then show ?thesis
        using openRemote_repr [where clk = clk, OF assms(1) s1(1) _ assms(4)] s1 by (auto split: if_splits)
    qed
  qed
qed

lemma HasRemote_repr: "cache_repr K c s \<Longrightarrow> cache_repr K (snd (Cache_HasRemote K a c)) s"
  by (simp add: Cache_HasRemote_def split: sum.split prod.split)

text \<open>A positive answer is right: the action is indexed and its body is in the store.\<close>

lemma Cache_Has_repr:
  assumes "pebble_ok (ce_P K)" "cache_repr K c s" "Cache_Has K clk a c = (b, c')"
  shows "cache_repr K c' s" "b \<Longrightarrow> \<exists>e. ents s a = Some e \<and> bodies (c_fs c') (ce_root K) (OutputID e) \<noteq> None"
proof -
  note C = cache_reprD [OF assms(2)]
  let ?p = "snd (presence_lookup (c_present c) a (clk 0))"
  have p: "cache_repr K (c\<lparr>c_present := ?p\<rparr>) s"
    using assms(2) presence_wf_lookup [OF C(5)] gens_ok_lookup [OF C(6)] by (simp add: cache_repr_def)
  have body: "ents s a = Some e \<Longrightarrow> bodies (c_fs c) (ce_root K) (OutputID e) \<noteq> None" for e
    using swf_cost [OF C(2)] C(4) by fastforce
  have "cache_repr K c' s \<and> (b \<longrightarrow> (\<exists>e. ents s a = Some e \<and> bodies (c_fs c') (ce_root K) (OutputID e) \<noteq> None))"
  proof (cases "fst (presence_lookup (c_present c) a (clk 0))")
    case (Some t)
    then have "a \<in> dom (ents s)" using C(7) fresh_current presence_lookup_iff by blast
    moreover have "c' = touch (clk 1) a t (c\<lparr>c_present := ?p\<rparr>)"
      using Some assms(3) by (auto simp: Cache_Has_def Let_def split: prod.splits)
    ultimately show ?thesis using p body by auto
  next
    case None
    define c1 where "c1 = c\<lparr>c_present := ?p\<rparr>"
    have probe: "Cache_Has K clk a c =
       (case Index_Get (ce_P K) (c_idx c) a of
             Inl err \<Rightarrow> (False, c1)
           | Inr None \<Rightarrow> (False, c1)
           | Inr (Some e) \<Rightarrow>
               (case Store_Get (ce_E K) (ce_root K) (OutputID e) (c_fs c) of
                  (Inl err, fs) \<Rightarrow> (False, c1\<lparr>c_fs := fs\<rparr>)
                | (Inr _, fs) \<Rightarrow>
                     (True, (touch (clk 1) a (LastUsedAt e) (c1\<lparr>c_fs := fs\<rparr>))\<lparr>c_present :=
                        remember ?p a (generation ?p) (clk 0) (touchedAt (ce_cfg K) (LastUsedAt e) (clk 0))\<rparr>)))"
      using None by (cases "presence_lookup (c_present c) a (clk 0)")
        (auto simp: Cache_Has_def Let_def c1_def split: sum.split option.split prod.split)
    have p1: "cache_repr K c1 s" using p by (simp add: c1_def)
    consider "b = False" "c' = c1"
      | e g fs where "Index_Get (ce_P K) (c_idx c) a = Inr (Some e)"
          "Store_Get (ce_E K) (ce_root K) (OutputID e) (c_fs c) = (g, fs)"
      using assms(3) unfolding probe by (auto split: sum.splits option.splits prod.splits)
    then show ?thesis
    proof cases
      case 2
      have e: "ents s a = Some e" using Get_refines [OF assms(1) C(1) 2(1)] by simp
      note sf = conjunct1 [OF Store_Get_cases [OF 2(2)]]
      have f: "cache_repr K (c1\<lparr>c_fs := fs\<rparr>) s" using cache_repr_same_files [OF _ p1] sf by (simp add: c1_def)
      show ?thesis
      proof (cases g)
        case (Inl err)
        then show ?thesis using assms(3) f unfolding probe by (simp add: 2)
      next
        case (Inr y)
        let ?r = "remember ?p a (generation ?p) (clk 0) (touchedAt (ce_cfg K) (LastUsedAt e) (clk 0))"
        have out: "b" "c' = (touch (clk 1) a (LastUsedAt e) (c1\<lparr>c_fs := fs\<rparr>))\<lparr>c_present := ?r\<rparr>"
          using Inr assms(3) unfolding probe by (auto simp: 2)
        have "presence_wf ?p" "gens_ok ?p" using cache_reprD(5,6) [OF p] by simp_all
        then have "presence_wf ?r" "gens_ok ?r" "\<And>b. current ?r b \<Longrightarrow> current (c_present c) b \<or> b = a"
          using presence_wf_remember gens_ok_remember current_remember
          by (auto simp: generation_def dest: current_remember)
        then have "cache_repr K c' s" using f C(7) e unfolding out(2) by (auto simp: cache_repr_def)
        moreover have "bodies fs (ce_root K) = bodies (c_fs c) (ce_root K)" by (rule bodies_same_files [OF sf])
        ultimately show ?thesis using e body by (auto simp: out(2) c1_def)
      qed
    qed (use p1 in simp)
  qed
  then show "cache_repr K c' s" "b \<Longrightarrow> \<exists>e. ents s a = Some e \<and> bodies (c_fs c') (ce_root K) (OutputID e) \<noteq> None" by auto
qed

section \<open>Writing\<close>

lemma fs_record [simp]: "c_fs (Cache_record K clk during a v path sz db c) = c_fs c"
  by (simp add: Cache_record_def Let_def count_defs split: prod.split)

lemma Cache_record_repr:
  assumes "env_ok K" "cache_repr K c s" "room K c" "in64 (clk 0)" "in64 sz" "in64 db" "bodies (c_fs c) (ce_root K) v \<noteq> None"
  shows "\<exists>s' e. cache_repr K (Cache_record K clk during a v path sz db c) s'
    \<and> e = \<lparr>OutputID = v, Size = sz, CreatedAt = clk 0, LastUsedAt = clk 0\<rparr>
    \<and> (s' = s \<and> fst (Index_Put (ce_P K) (c_idx c) a e db) \<noteq> None \<or> s' = spec_put a e db s)
    \<and> c_fs (Cache_record K clk during a v path sz db c) = c_fs c
    \<and> c_idx (Cache_record K clk during a v path sz db c) = snd (Index_Put (ce_P K) (c_idx c) a e db)"
proof -
  let ?e = "\<lparr>OutputID = v, Size = sz, CreatedAt = clk 0, LastUsedAt = clk 0\<rparr>"
  have n: "int (card (dom (ents s))) < 2 ^ 63 - 1" using roomD [OF assms(3,2)] by (simp add: spec_room_def)
  obtain r ix where ip: "Index_Put (ce_P K) (c_idx c) a ?e db = (r, ix)" by fastforce
  obtain s' where s': "cache_repr K (c\<lparr>c_idx := ix\<rparr>) s'" "s' = s \<and> r \<noteq> None \<or> s' = spec_put a ?e db s"
    using index_put_repr [OF env_okD(1) [OF assms(1)] assms(2) n, of ?e db a r ix] assms(4-7) ip
    by (auto simp: wf_entry_def)
  let ?c = "Cache_record K clk during a v path sz db c"
  have "cache_repr K ?c s' \<and> c_fs ?c = c_fs c \<and> c_idx ?c = ix"
    using s'(1) ip by (simp add: Cache_record_def Let_def split: prod.split)
  then show ?thesis using s'(2) ip by (intro exI [of _ s'] exI [of _ ?e]) auto
qed

lemma Cache_Put_repr:
  assumes "env_ok K" "cache_repr K c s" "room K c" "in64 (clk 0)" "in64 sz" "Cache_Put K clk during a v body sz c = (r, c')"
  shows "\<exists>s'. cache_repr K c' s'"
proof -
  obtain q fs where q: "Store_Put (ce_E K) (ce_root K) v body sz (c_fs c) = (q, fs)" by fastforce
  note P = Store_Put_bodies [OF cache_reprD(3) [OF assms(2)] q]
  have g: "cache_repr K (c\<lparr>c_fs := fs\<rparr>) s" by (rule cache_repr_grows [OF assms(2) P(2,1)])
  show ?thesis
  proof (cases q)
    case (Inl e)
    then show ?thesis using g q assms(6) by (auto simp: Cache_Put_def)
  next
    case (Inr y)
    obtain path db where y: "y = (path, db)" by (cases y)
    have b: "bodies fs (ce_root K) v \<noteq> None" "in64 db" using P(3) Inr y assms(5) by (auto simp: publish_def split: option.splits)
    have "c' = Cache_record K clk during a v path sz db (c\<lparr>c_fs := fs\<rparr>)" using q Inr y assms(6) by (auto simp: Cache_Put_def)
    then show ?thesis using Cache_record_repr [where clk = clk and v = v and during = during and a = a and path = path, OF assms(1) g _ assms(4,5) b(2)] assms(3) b(1) by auto
  qed
qed

text \<open>Adopting measures a body another writer may have left, so its length is bounded too.\<close>

lemma Cache_PutStaged_repr:
  assumes "env_ok K" "cache_repr K c s" "room K c" "in64 (clk 0)" "in64 sz"
    and "\<forall>d. bodies (c_fs c) (ce_root K) v = Some d \<longrightarrow> int (length d) < 2 ^ 63"
    and "Cache_PutStaged K clk during a v staged sz c = (r, c')"
  shows "\<exists>s'. cache_repr K c' s'"
proof -
  obtain q fs where q: "Store_Adopt (ce_E K) (ce_root K) v staged sz (c_fs c) = (q, fs)" by fastforce
  note A = Store_Adopt_bodies [OF cache_reprD(3) [OF assms(2)] q]
  have g: "cache_repr K (c\<lparr>c_fs := fs\<rparr>) s" by (rule cache_repr_grows [OF assms(2) A(2,1)])
  show ?thesis
  proof (cases q)
    case (Inl e)
    then show ?thesis using g q assms(7) by (auto simp: Cache_PutStaged_def)
  next
    case (Inr y)
    obtain path db lk where y: "y = (path, db, lk)" by (metis surj_pair)
    have b: "bodies fs (ce_root K) v \<noteq> None" "in64 db" using A(3) [of path db lk] Inr y assms(5,6) by auto
    have "c' = Cache_record K clk during a v path sz db (c\<lparr>c_fs := fs\<rparr>)" using q Inr y assms(7) by (auto simp: Cache_PutStaged_def)
    then show ?thesis using Cache_record_repr [where clk = clk and v = v and during = during and a = a and path = path, OF assms(1) g _ assms(4,5) b(2)] assms(3) b(1) by auto
  qed
qed

section \<open>The background workers\<close>

lemma Cache_upload_repr: "cache_repr K c s \<Longrightarrow> cache_repr K (Cache_upload K c) s"
proof (cases "u_jobs (c_uploads c)")
  case (Cons j js)
  assume *: "cache_repr K c s"
  obtain fs m t where r: "uploader_run (ce_E K) (ce_rem K) (Cache_superseded K c) j (c_fs c) (c_metrics c) (c_tier c) = (fs, m, t)"
    by (metis surj_pair)
  have "cache_repr K (c\<lparr>c_fs := fs\<rparr>) s" by (rule cache_repr_same_files [OF run_same_files [OF r] *])
  then show ?thesis using Cons r by (simp add: Cache_upload_def cache_repr_def)
qed (simp add: Cache_upload_def)

lemma Cache_touches_repr:
  assumes "env_ok K" "cache_repr K c s" "in64 now"
  shows "\<exists>s'. cache_repr K (Cache_touches K now c) s' \<and> same_outputs s s'"
proof -
  note C = cache_reprD [OF assms(2)]
  obtain t ix where r: "toucher_run (index_touch (ce_P K)) now (c_touches c) (c_idx c) = (t, ix)" by fastforce
  have "touched_from (ce_P K) s (ix_closed (c_idx c)) (c_idx c)" using C(1) by (auto simp: touched_from_def)
  then obtain s' where s': "repr (ce_P K) ix s'" "same_outputs s s'"
    using tch.run_keeps [OF _ assms(3) r] assms(1) by (auto simp: touched_from_def)
  then have "cost s' = cost s" "dom (ents s') = dom (ents s)"
    by (auto simp: same_outputs_def dom_def) (metis option.map_disc_iff not_None_eq)+
  then have "cache_repr K (c\<lparr>c_touches := t, c_idx := ix\<rparr>) s'" using s' assms(2) by (simp add: cache_repr_def)
  then show ?thesis using s'(2) r by (auto simp: Cache_touches_def)
qed

section \<open>Re-measuring\<close>

lemma settled_lru_time:
  "blocks_ok E \<Longrightarrow> fi = file_info E fs i \<Longrightarrow> settledBytes fi now = (n, True) \<Longrightarrow> lru_time n"
proof -
  assume *: "blocks_ok E" "fi = file_info E fs i" "settledBytes fi now = (n, True)"
  then obtain b where b: "fi_Blocks fi = Some b" "n = wrap64 (b * blockSize)"
    by (auto simp: settledBytes_def Let_def split: option.splits if_splits)
  then have "0 \<le> b * blockSize" "b * blockSize < 2 ^ 63" using *(1,2) by (auto simp: blocks_ok_def file_info_def blockSize_def)
  then show "lru_time n" using b(2) by (simp add: lru_time_def wrap64_id in64_def)
qed

lemma Store_Measure_cases:
  assumes "blocks_ok E" "Store_Measure E root v now fs = (r, fs')"
  shows "same_files fs fs'" "r = Inr (n, True) \<Longrightarrow> lru_time n"
proof -
  obtain q fs1 where q: "os_Stat E (Store_Path root v) fs = (q, fs1)" by fastforce
  show "same_files fs fs'" using os_Stat_cases [OF q] assms(2) q by (auto simp: Store_Measure_def split: sum.splits)
  assume "r = Inr (n, True)"
  then obtain fi where fi: "q = Inr fi" "settledBytes fi now = (n, True)"
    using assms(2) q by (auto simp: Store_Measure_def split: sum.splits)
  then obtain fs0 i where "fi = file_info E fs0 i"
    using q by (auto simp: os_Stat_def syscall_def Let_def split: option.splits)
  then show "lru_time n" using settled_lru_time [OF assms(1)] fi(2) by blast
qed

text \<open>A correction is a settled measurement of an object of the list.\<close>

lemma reconcileLoop_ok:
  assumes "blocks_ok (ce_E K)"
  shows "reconcileLoop K ctxErr now obs r cs fs = ((e, r', cs'), fs') \<Longrightarrow> distinct (map fst cs) \<Longrightarrow> \<forall>x\<in>set cs. lru_time (snd x)
    \<Longrightarrow> same_files fs fs' \<and> distinct (map fst cs') \<and> (\<forall>x\<in>set cs'. lru_time (snd x))
        \<and> fst ` set cs' \<subseteq> fst ` set cs \<union> oc_OutputID ` set obs"
proof (induction obs arbitrary: r cs fs)
  case Nil
  then show ?case by simp
next
  case (Cons ob obs)
  obtain q fs1 where m: "Store_Measure (ce_E K) (ce_root K) (oc_OutputID ob) now fs = (q, fs1)" by fastforce
  note M = Store_Measure_cases [OF assms m]
  show ?case
  proof (cases "ctxErr fs")
    case (Some err)
    then show ?thesis using Cons.prems by auto
  next
    case None
    obtain r1 cs1 where s: "reconcileLoop K ctxErr now obs r1 cs1 fs1 = ((e, r', cs'), fs')"
      and cs1: "cs1 = cs \<or> (\<exists>n. q = Inr (n, True) \<and> cs1 = AList.update (oc_OutputID ob) n cs)"
      using Cons.prems(1) None m by (auto simp: Let_def split: sum.splits prod.splits if_splits)
    have u: "set (AList.update k n cs) \<subseteq> insert (k, n) (set cs)" for k n by (induction cs) auto
    have "distinct (map fst cs1)" using cs1 Cons.prems(2) by (auto intro: distinct_update)
    moreover have "\<forall>x\<in>set cs1. lru_time (snd x)" using cs1 Cons.prems(3) M(2) u by fastforce
    moreover have "fst ` set cs1 \<subseteq> insert (oc_OutputID ob) (fst ` set cs)"
    proof (cases "cs1 = cs")
      case False
      then obtain n where "cs1 = AList.update (oc_OutputID ob) n cs" using cs1 by blast
      then show ?thesis using image_mono [OF u [of "oc_OutputID ob" n], of fst] by simp
    qed auto
    ultimately show ?thesis using Cons.IH [OF s] same_files_trans [OF M(1)] by simp blast
  qed
qed

lemma Reconcile_repr:
  assumes "env_ok K" "cache_repr K c s" "Cache_Reconcile K ctxErr now c = ((r, e), c')"
  shows "\<exists>s'. cache_repr K c' s' \<and> ents s' = ents s \<and> dom (cost s') = dom (cost s) \<and> c_present c' = c_present c
    \<and> ix_closed (c_idx c') = ix_closed (c_idx c)"
proof (cases "Index_Objects (ce_P K) (c_idx c)")
  case (Inl err)
  then show ?thesis using assms(2,3) by (auto simp: Cache_Reconcile_def)
next
  case (Inr obs)
  define r0 where "r0 = (case Index_Stats (c_idx c) of Inr st \<Rightarrow> zero_ReconcileResult\<lparr>rr_Before := st_DiskBytes st\<rparr>
    | Inl _ \<Rightarrow> zero_ReconcileResult)"
  obtain le r1 cs fs where L: "reconcileLoop K ctxErr now obs r0 [] (c_fs c) = ((le, r1, cs), fs)" by (metis surj_pair)
  have Lp: "same_files (c_fs c) fs" "distinct (map fst cs)" "\<forall>x\<in>set cs. lru_time (snd x)"
    using reconcileLoop_ok [OF env_okD(3) [OF assms(1)] L] by simp_all
  have f: "cache_repr K (c\<lparr>c_fs := fs\<rparr>) s" by (rule cache_repr_same_files [OF Lp(1) assms(2)])
  show ?thesis
  proof (cases le)
    case (Some err)
    then show ?thesis using Inr L f assms(3) by (auto simp: Cache_Reconcile_def Let_def r0_def)
  next
    case None
    obtain q ix where q: "Index_Remeasure (ce_P K) (c_idx c) cs = (q, ix)" by fastforce
    have c': "c' = c\<lparr>c_fs := fs, c_idx := ix\<rparr>"
      using Inr L None q assms(3) by (auto simp: Cache_Reconcile_def Let_def r0_def split: sum.splits)
    show ?thesis
    proof (cases q)
      case (Inl err)
      then have "ix = c_idx c" using q by (auto simp: Index_Remeasure_def split: if_splits sum.splits)
      then show ?thesis using c' f by auto
    next
      case (Inr y)
      obtain n dl where y: "y = (n, dl)" by (cases y)
      have R: "repr (ce_P K) ix (recost_all cs s)" "ix_closed ix = ix_closed (c_idx c)"
        using Remeasure_refines [OF env_okD(1) [OF assms(1)] cache_reprD(1) [OF assms(2)] Lp(2,3)] q Inr y by auto
      then have "cache_repr K (c\<lparr>c_fs := fs, c_idx := ix\<rparr>) (recost_all cs s)"
        using f by (simp add: cache_repr_def recost_all_keeps)
      then show ?thesis using c' R(2) by (intro exI [of _ "recost_all cs s"]) (simp add: recost_all_keeps)
    qed
  qed
qed

lemma reconcileBeforeEvicting_repr:
  assumes "env_ok K" "cache_repr K c s"
  shows "\<exists>s'. cache_repr K (reconcileBeforeEvicting K ctxErr now maxB c) s' \<and> ents s' = ents s \<and> dom (cost s') = dom (cost s)
    \<and> ix_closed (c_idx (reconcileBeforeEvicting K ctxErr now maxB c)) = ix_closed (c_idx c)"
proof -
  obtain r e c' where R: "Cache_Reconcile K ctxErr now c = ((r, e), c')" by (metis surj_pair)
  obtain s' where "cache_repr K c' s'" "ents s' = ents s" "dom (cost s') = dom (cost s)" "ix_closed (c_idx c') = ix_closed (c_idx c)"
    using Reconcile_repr [OF assms R] by blast
  then show ?thesis using assms(2) R
    by (cases "reconcileBeforeEvicting K ctxErr now maxB c = c") (auto simp: reconcileBeforeEvicting_def split: sum.splits if_splits)
qed

lemma maybeCompact_repr:
  assumes "env_ok K" "cache_repr K c s"
  shows "cache_repr K (maybeCompact K n c) s"
proof -
  obtain r ix where x: "Index_Compact (ce_P K) (c_idx c) = (r, ix)" by fastforce
  have "repr (ce_P K) ix s"
    using x cache_reprD(1) [OF assms(2)] pb_compactD [OF env_okD(1) [OF assms(1)]]
    by (auto simp: Index_Compact_def repr_def counters_ok_def split: if_splits sum.splits)
  then have "cache_repr K (c\<lparr>c_idx := ix\<rparr>) s" using assms(2) by (simp add: cache_repr_def)
  then show ?thesis using assms(2) x
    by (auto simp: maybeCompact_def Let_def cache_repr_def count_Compactions_def split: option.split)
qed

end
