(* ===== verification/Cache_Eviction.thy ===== *)
theory Cache_Eviction
  imports Cache_Inv
begin

text \<open>
  An eviction pass seen from the cache: the callback removes bodies and invalidates the memo while
  the index prunes, chunk by chunk. What ties the two together holds after every chunk, so it
  holds however the pass ends.
\<close>

section \<open>The callback\<close>

lemma invalidate_funpow:
  "presence_wf p \<Longrightarrow> gens_ok p \<Longrightarrow> pr_gen p + int n < 2 ^ 64 \<Longrightarrow>
     presence_wf ((invalidate ^^ n) p) \<and> gens_ok ((invalidate ^^ n) p) \<and> pr_gen ((invalidate ^^ n) p) = pr_gen p + int n
     \<and> (\<forall>a. current ((invalidate ^^ n) p) a \<longrightarrow> n = 0)"
proof (induction n)
  case (Suc n)
  let ?q = "(invalidate ^^ n) p"
  have q: "presence_wf ?q" "gens_ok ?q" "pr_gen ?q = pr_gen p + int n" "pr_gen ?q + 1 < 2 ^ 64" using Suc by auto
  then have "0 \<le> pr_gen ?q" by (simp add: gens_ok_def)
  then have "pr_gen (invalidate ?q) = pr_gen ?q + 1" using q(4) by (simp add: invalidate_def)
  then show ?case using q presence_wf_invalidate gens_ok_invalidate invalidate_current by simp
qed simp

lemma report_callbacks:
  "store_ok fs (ce_root K) \<Longrightarrow> report (evict_callbacks K ctxErr) vs (fs, p) = (e, (fs', p')) \<Longrightarrow>
     e = None \<and> store_ok fs' (ce_root K) \<and> p' = (invalidate ^^ length vs) p
     \<and> dom (bodies fs (ce_root K)) - set vs \<subseteq> dom (bodies fs' (ce_root K))
     \<and> bodies fs' (ce_root K) \<subseteq>\<^sub>m bodies fs (ce_root K)
     \<and> (no_faults (ce_E K) \<longrightarrow> dom (bodies fs' (ce_root K)) \<inter> set vs = {})"
proof (induction vs arbitrary: fs p)
  case (Cons v vs)
  obtain r fs1 where r: "Store_Remove (ce_E K) (ce_root K) v fs = (r, fs1)" by fastforce
  note R = Store_Remove_bodies [OF Cons.prems(1) r] and D = Store_Remove_dom [OF Cons.prems(1) r]
  have "report (evict_callbacks K ctxErr) vs (fs1, invalidate p) = (e, (fs', p'))"
    using Cons.prems(2) r by (simp add: evict_callbacks_def)
  note IH = Cons.IH [OF R(1) this]
  have "bodies fs1 (ce_root K) u = bodies fs (ce_root K) u" if "bodies fs1 (ce_root K) u \<noteq> None" for u
  proof (cases "u = v")
    case True
    show ?thesis
    proof (cases r)
      case None
      then show ?thesis using R(3) True that by simp
    next
      case (Some err)
      then have "same_files fs fs1" using Store_Remove_cases [OF r] by simp
      then show ?thesis using bodies_same_files by metis
    qed
  qed (use R(2) in simp)
  then have m: "bodies fs1 (ce_root K) \<subseteq>\<^sub>m bodies fs (ce_root K)" by (auto simp: map_le_def)
  have gone: "bodies fs1 (ce_root K) v = None" if "no_faults (ce_E K)"
  proof -
    have "r = None"
      using r that by (auto simp: Store_Remove_def os_Remove_def syscall_def Let_def no_faults_def split: sum.splits option.splits if_splits)
    then show ?thesis by (rule R(3))
  qed
  have "bodies fs' (ce_root K) v = None" if "no_faults (ce_E K)"
    using gone [OF that] IH by (metis domIff map_le_implies_dom_le subsetD)
  then show ?case using IH D map_le_trans [OF _ m] by (auto simp: funpow_swap1)
qed simp

section \<open>What holds after every chunk\<close>

definition sweep_inv :: "('db, 'r) cache_env \<Rightarrow> ispec \<Rightarrow> 'db index \<Rightarrow> EvictResult \<Rightarrow> fsys \<times> presence \<Rightarrow> bool" where
  "sweep_inv K s0 ix res = (\<lambda>(fs, p). \<exists>s.
     repr (ce_P K) ix s \<and> total_cost s < 2 ^ 63 \<and> ents s \<subseteq>\<^sub>m ents s0
     \<and> ActionsPruned res = int (card (dom (ents s0))) - int (card (dom (ents s)))
     \<and> store_ok fs (ce_root K) \<and> dom (cost s) \<subseteq> dom (bodies fs (ce_root K))
     \<and> presence_wf p \<and> gens_ok p \<and> (\<forall>a. current p a \<longrightarrow> a \<in> dom (ents s0))
     \<and> pr_gen p + int (card (dom (cost s))) + 1 < 2 ^ 64)"

text \<open>A chunk takes \<open>s\<close> to \<open>s'\<close> and forgets the outputs \<open>vs\<close>.\<close>

lemma sweep_step:
  assumes "repr (ce_P K) ix s" "total_cost s < 2 ^ 63" "ents s \<subseteq>\<^sub>m ents s0"
    and "ActionsPruned res = int (card (dom (ents s0))) - int (card (dom (ents s)))"
    and "store_ok fs (ce_root K)" "dom (cost s) \<subseteq> dom (bodies fs (ce_root K))"
    and "presence_wf p" "gens_ok p" "\<forall>a. current p a \<longrightarrow> a \<in> dom (ents s0)"
    and "pr_gen p + int (card (dom (cost s))) + 1 < 2 ^ 64"
    and s': "repr (ce_P K) ix' s'" "total_cost s' \<le> total_cost s" "ents s' \<subseteq>\<^sub>m ents s"
      "\<And>v. cost s' v = (if v \<in> set vs then None else cost s v)" "distinct vs" "set vs \<subseteq> dom (cost s)"
      "ActionsPruned res' = ActionsPruned res + int (card (dom (ents s))) - int (card (dom (ents s')))"
    and r: "report (evict_callbacks K ctxErr) vs (fs, p) = (e, w')"
  shows "sweep_inv K s0 ix' res' w'"
proof -
  obtain fs' p' where w': "w' = (fs', p')" by (cases w')
  note R = report_callbacks [OF assms(5) r [unfolded w']]
  have fin: "finite (dom (cost s))" using reprD(1) [OF assms(1)] by (simp add: swf_def)
  have dom': "dom (cost s') = dom (cost s) - set vs" using s'(4) by (auto split: if_splits)
  have "card (set vs) \<le> card (dom (cost s))" using card_mono fin s'(6) by blast
  then have n: "int (card (dom (cost s'))) = int (card (dom (cost s))) - int (length vs)" "length vs \<le> card (dom (cost s))"
    using card_Diff_subset [of "set vs" "dom (cost s)"] s'(5,6) by (simp_all add: dom' distinct_card)
  then have "pr_gen p + int (length vs) < 2 ^ 64" using assms(10) by linarith
  note I = invalidate_funpow [OF assms(7,8) this]
  have "\<forall>a. current p' a \<longrightarrow> a \<in> dom (ents s0)"
    using I R assms(9) by (metis funpow_0)
  moreover have "pr_gen p' + int (card (dom (cost s'))) + 1 < 2 ^ 64" using I R n assms(10) by simp
  moreover have "dom (cost s') \<subseteq> dom (bodies fs' (ce_root K))" using dom' assms(6) R by blast
  moreover have "ActionsPruned res' = int (card (dom (ents s0))) - int (card (dom (ents s')))" using assms(4) s'(7) by simp
  ultimately show ?thesis
    using R I s'(1,2) assms(2) map_le_trans [OF s'(3) assms(3)] unfolding w' sweep_inv_def by auto
qed

lemma reap_actions: "reapChunk P ix res = (Inr x, ix', res') \<Longrightarrow> ActionsPruned res' = ActionsPruned res"
  by (auto simp: reapChunk_def result_simps split: sum.splits if_splits)

lemma sweep_reap:
  assumes "pebble_ok (ce_P K)" "sweep_inv K s0 ix res w" "reapChunk (ce_P K) ix res = (Inr (vs, again), ix', res')"
    and "report (evict_callbacks K ctxErr) vs w = (e, w')"
  shows "sweep_inv K s0 ix' res' w'"
proof -
  obtain fs p where w: "w = (fs, p)" by (cases w)
  obtain s where s: "repr (ce_P K) ix s" "total_cost s < 2 ^ 63" "ents s \<subseteq>\<^sub>m ents s0"
    "ActionsPruned res = int (card (dom (ents s0))) - int (card (dom (ents s)))"
    "store_ok fs (ce_root K)" "dom (cost s) \<subseteq> dom (bodies fs (ce_root K))"
    "presence_wf p" "gens_ok p" "\<forall>a. current p a \<longrightarrow> a \<in> dom (ents s0)"
    "pr_gen p + int (card (dom (cost s))) + 1 < 2 ^ 64"
    using assms(2) unfolding w sweep_inv_def by auto
  note swf = reprD(1) [OF s(1)]
  obtain Z where Z: "zero_listing s Z" using zero_listing_exists [OF swf] ..
  note R = reapChunk_refines [OF assms(1) s(1) Z assms(3)]
  have vs: "set vs \<subseteq> zero_objs s" "distinct vs"
    using R(2) Z zero_listing_distinct [OF Z] set_take_subset [of 1000 Z] by (auto simp: zero_listing_def)
  show ?thesis
  proof (rule sweep_step [OF s, where s' = "forget_all vs s" and vs = vs and ctxErr = ctxErr and e = e])
    show "repr (ce_P K) ix' (forget_all vs s)" using R(1,2) by simp
    show "total_cost (forget_all vs s) \<le> total_cost s" by (rule total_cost_forget_all_le [OF swf vs])
    show "set vs \<subseteq> dom (cost s)" using vs(1) by (auto simp: zero_objs_def)
    show "report (evict_callbacks K ctxErr) vs (fs, p) = (e, w')" using assms(4) w by simp
  qed (use vs(2) reap_actions [OF assms(3)] in \<open>simp_all add: forget_all_cost\<close>)
qed

lemma sweep_evict:
  assumes "pebble_ok (ce_P K)" "int (card (dom (ents s0))) < 2 ^ 63" "finite (dom (ents s0))" "sweep_inv K s0 ix res w"
    and "evictChunk (ce_P K) ix ttl cutoff maxB res = (Inr (vs, again), ix', res')"
    and "report (evict_callbacks K ctxErr) vs w = (e, w')"
  shows "sweep_inv K s0 ix' res' w'"
proof -
  obtain fs p where w: "w = (fs, p)" by (cases w)
  obtain s where s: "repr (ce_P K) ix s" "total_cost s < 2 ^ 63" "ents s \<subseteq>\<^sub>m ents s0"
    "ActionsPruned res = int (card (dom (ents s0))) - int (card (dom (ents s)))"
    "store_ok fs (ce_root K)" "dom (cost s) \<subseteq> dom (bodies fs (ce_root K))"
    "presence_wf p" "gens_ok p" "\<forall>a. current p a \<longrightarrow> a \<in> dom (ents s0)"
    "pr_gen p + int (card (dom (cost s))) + 1 < 2 ^ 64"
    using assms(4) unfolding w sweep_inv_def by auto
  note swf = reprD(1) [OF s(1)]
  obtain L where L: "lru_listing s L" using lru_listing_exists [OF swf] ..
  define us where "us = victims (must_go ttl cutoff maxB) 1000 L s"
  note E = evictChunk_refines [OF assms(1) s(1,2) L us_def assms(5)]
  obtain n where n: "us = map snd (take n L)" using victims_prefix us_def by blast
  have us: "distinct us" "set us \<subseteq> dom (ents s)"
  proof -
    have "distinct (map snd L)" using lru_listing_sorted [OF swf L] by (simp add: lru_sorted_def)
    then show "distinct us" using n by (metis distinct_take take_map)
    have "snd x \<in> dom (ents s)" if "x \<in> set L" for x using that L by (auto simp: lru_listing_def lru_order_def)
    then show "set us \<subseteq> dom (ents s)" using n by (auto dest: in_set_takeD)
  qed
  have le: "card (dom (ents s)) \<le> card (dom (ents s0))"
    by (rule card_mono [OF assms(3) map_le_implies_dom_le [OF s(3)]])
  have dom': "dom (ents (delete_all us s)) = dom (ents s) - set us" by (auto simp: ents_delete_all split: if_splits)
  have fin: "finite (dom (ents s))" using swf by (simp add: swf_def)
  have "card (set us) \<le> card (dom (ents s))" using card_mono fin us(2) by blast
  then have k: "int (card (dom (ents (delete_all us s)))) = int (card (dom (ents s))) - int (length us)"
    using card_Diff_subset [of "set us" "dom (ents s)"] us by (simp add: dom' distinct_card)
  have acts: "ActionsPruned res' = ActionsPruned res + int (length us)"
  proof (cases again)
    case True
    have "in64 (ActionsPruned res + int (length us))" using s(4) assms(2) le k by (auto simp: in64_def)
    then show ?thesis using E(5) [OF True] by (simp add: tally_def add64_exact)
  next
    case False
    then show ?thesis using E(4,6) by simp
  qed
  show ?thesis
  proof (rule sweep_step [OF s, where s' = "delete_all us s" and vs = vs and ctxErr = ctxErr and e = e])
    show "repr (ce_P K) ix' (delete_all us s)" by (rule E(1))
    show "total_cost (delete_all us s) \<le> total_cost s" by (rule total_cost_delete_all_le [OF swf])
    show "ents (delete_all us s) \<subseteq>\<^sub>m ents s" by (auto simp: map_le_def ents_delete_all split: if_splits)
    show "cost (delete_all us s) v = (if v \<in> set vs then None else cost s v)" for v
      using orphan_list_cost [OF swf] E(3) by simp
    show "distinct vs" "set vs \<subseteq> dom (cost s)" using orphan_list_distinct [OF swf] orphan_list_subset [OF swf] E(3) by auto
    show "ActionsPruned res' = ActionsPruned res + int (card (dom (ents s))) - int (card (dom (ents (delete_all us s))))"
      using acts k by simp
    show "report (evict_callbacks K ctxErr) vs (fs, p) = (e, w')" using assms(6) w by simp
  qed
qed

text \<open>What both kinds of chunk keep, the pass keeps.\<close>

lemma Evict_keeps:
  assumes reap: "\<And>ix res w vs again ix' res' e w'. J ix res w \<Longrightarrow> reapChunk P ix res = (Inr (vs, again), ix', res') \<Longrightarrow>
      report E vs w = (e, w') \<Longrightarrow> J ix' res' w'"
    and evict: "\<And>b cut ix res w vs again ix' res' e w'. J ix res w \<Longrightarrow>
      evictChunk P ix b cut maxB res = (Inr (vs, again), ix', res') \<Longrightarrow> report E vs w = (e, w') \<Longrightarrow> J ix' res' w'"
    and "J ix empty_EvictResult w" "Index_Evict fuel P E ix maxB ttl now w = Some (e, ix', res', w')"
  shows "J ix' res' w'"
proof -
  have R: "J ix2 res2 w2" if "J ix1 res1 w1" "reapZeroRefs fuel P E ix1 res1 w1 = Some (e2, ix2, res2, w2)"
    for ix1 res1 w1 ix2 res2 w2 e2
    by (rule rpl.loop_inv [where J = J, OF _ that]) (rule reap, assumption+)
  have V: "J ix2 res2 w2" if "J ix1 res1 w1" "evictPass fuel P E b cut maxB ix1 res1 w1 = Some (e2, ix2, res2, w2)"
    for b cut ix1 res1 w1 ix2 res2 w2 e2
    by (rule evl.loop_inv [where J = J, OF _ that]) (rule evict, assumption+)
  let ?cut = "if ttl > 0 then sub64 now ttl else 0"
  show ?thesis
  proof (cases "ix_closed ix")
    case True
    then show ?thesis using assms(3,4) by (simp add: Index_Evict_def)
  next
    case opened: False
    show ?thesis
    proof (cases "ix_zeroRefs ix > 0")
      case False
      then have "evictPass fuel P E (ttl > 0) ?cut maxB ix empty_EvictResult w = Some (e, ix', res', w')"
        using opened assms(4) by (simp add: Index_Evict_def Let_def)
      then show ?thesis using V [OF assms(3)] by blast
    next
      case True
      then obtain e1 ix1 res1 w1 where r: "reapZeroRefs fuel P E ix empty_EvictResult w = Some (e1, ix1, res1, w1)"
        and k: "(ix', res', w') = (ix1, res1, w1) \<or> evictPass fuel P E (ttl > 0) ?cut maxB ix1 res1 w1 = Some (e, ix', res', w')"
        using opened assms(4) unfolding Index_Evict_def Let_def
        by (cases "reapZeroRefs fuel P E ix empty_EvictResult w") (auto split: option.splits)
      have J1: "J ix1 res1 w1" using R [OF assms(3) r] .
      then show ?thesis using V [OF J1] k by blast
    qed
  qed
qed

lemma sweep_Evict:
  assumes "pebble_ok (ce_P K)" "int (card (dom (ents s0))) < 2 ^ 63" "finite (dom (ents s0))"
    and "sweep_inv K s0 ix empty_EvictResult w"
    and "Index_Evict fuel (ce_P K) (evict_callbacks K ctxErr) ix maxB ttl now w = Some (e, ix', res', w')"
  shows "sweep_inv K s0 ix' res' w'"
proof (rule Evict_keeps [where J = "sweep_inv K s0", OF _ _ assms(4,5)])
qed (rule sweep_reap [OF assms(1)] sweep_evict [OF assms(1-3)], assumption+)+

section \<open>EvictWith\<close>

lemma sweep_start:
  assumes "cache_repr K c s" "spec_room s (c_present c)"
  shows "sweep_inv K s (c_idx c) empty_EvictResult (c_fs c, c_present c)"
  using cache_reprD [OF assms(1)] assms(2)
  by (auto simp: sweep_inv_def spec_room_def empty_EvictResult_def intro!: exI [of _ s])

lemma EvictWith_repr:
  assumes "env_ok K" "cache_repr K c s" "room K (reconcileBeforeEvicting K ctxErr (clk 0) maxB c)"
    and "Cache_EvictWith fuel K ctxErr clk maxB ttl c = Some (r, c')"
  shows "\<exists>s'. cache_repr K c' s' \<and> ents s' \<subseteq>\<^sub>m ents s"
proof -
  define c1 where "c1 = reconcileBeforeEvicting K ctxErr (clk 0) maxB c"
  obtain s1 where s1: "cache_repr K c1 s1" "ents s1 = ents s"
    using reconcileBeforeEvicting_repr [OF assms(1,2)] unfolding c1_def by blast
  note rm = roomD [OF assms(3) [folded c1_def] s1(1)] and ok = env_okD(1) [OF assms(1)]
  obtain e ix res fs p where run: "Index_Evict fuel (ce_P K) (evict_callbacks K ctxErr) (c_idx c1) maxB ttl (clk 1) (c_fs c1, c_present c1)
      = Some (e, ix, res, (fs, p))"
    using assms(4) unfolding Cache_EvictWith_def c1_def [symmetric] Let_def by (auto split: option.splits)
  define c2 where "c2 = c1\<lparr>c_idx := ix, c_fs := fs, c_present := (if ActionsPruned res > 0 then invalidate p else p)\<rparr>"
  have c': "c' = c2 \<or> c' = maybeCompact K (ActionsPruned res) c2"
    using assms(4) run unfolding Cache_EvictWith_def c1_def [symmetric] Let_def c2_def
    by (auto split: option.splits if_splits)
  have fin: "finite (dom (ents s1))" and lt: "int (card (dom (ents s1))) < 2 ^ 63"
    using cache_reprD(2) [OF s1(1)] rm by (auto simp: swf_def spec_room_def)
  obtain s2 where s2: "repr (ce_P K) ix s2" "ents s2 \<subseteq>\<^sub>m ents s1"
    "ActionsPruned res = int (card (dom (ents s1))) - int (card (dom (ents s2)))"
    "store_ok fs (ce_root K)" "dom (cost s2) \<subseteq> dom (bodies fs (ce_root K))"
    "presence_wf p" "gens_ok p" "\<forall>a. current p a \<longrightarrow> a \<in> dom (ents s1)" "pr_gen p + int (card (dom (cost s2))) + 1 < 2 ^ 64"
    using sweep_Evict [OF ok lt fin sweep_start [OF s1(1) rm] run] unfolding sweep_inv_def by auto
  have g: "pr_gen p + 1 < 2 ^ 64" using s2(9) by linarith
  have "cache_repr K c2 s2"
  proof (cases "ActionsPruned res > 0")
    case True
    then show ?thesis
      using s2 presence_wf_invalidate [OF s2(6)] gens_ok_invalidate [OF s2(7) g] invalidate_current [OF s2(7) g]
      by (simp add: cache_repr_def c2_def)
  next
    case False
    then have "dom (ents s2) = dom (ents s1)"
      using s2(3) card_subset_eq [OF fin map_le_implies_dom_le [OF s2(2)]] card_mono [OF fin map_le_implies_dom_le [OF s2(2)]] by linarith
    then show ?thesis using False s2 by (simp add: cache_repr_def c2_def)
  qed
  then show ?thesis using c' maybeCompact_repr [OF assms(1)] s2(2) s1(2) by auto
qed

end
