(* ===== verification/Content.thy ===== *)
theory Content
  imports Staging Cache_Eviction Bazel
begin

text \<open>
  Content addressing. The operations of the Bazel adapter and the maintenance of the cache move the
  body store in a way that adds only bodies that hash to their name, and no operation touches a
  file another upload is being received into. Uploads are open across other operations, so the
  statement is about sequences of steps in any order.
\<close>

section \<open>Bodies that hash to their name\<close>

definition addr :: "OutputID \<Rightarrow> bytes \<Rightarrow> bool" where
  "addr v d \<longleftrightarrow> sha256 d = v"

definition addressed :: "fsys \<Rightarrow> string \<Rightarrow> bool" where
  "addressed fs root \<longleftrightarrow> (\<forall>v d. bodies fs root v = Some d \<longrightarrow> addr v d)"

text \<open>
  What is relied on of the shared tier, which the code does not verify: a body that arrives whole
  and of the declared size is the one its name promises.
\<close>

definition tier_addressed :: "'r Backend \<Rightarrow> bool" where
  "tier_addressed R \<longleftrightarrow>
     (\<forall>v r d cerr sz r'. rb_GetObject R v r = (Inr ((d, None, cerr), sz), r') \<longrightarrow> int (length d) = sz \<longrightarrow> addr v d)"

lemma tier_addressedD:
  "tier_addressed R \<Longrightarrow> rb_GetObject R v r = (Inr ((d, None, cerr), sz), r') \<Longrightarrow> int (length d) = sz \<Longrightarrow> addr v d"
  unfolding tier_addressed_def by blast

lemma moves_addressed: "moves root X addr fs fs' \<Longrightarrow> store_ok fs root \<Longrightarrow> addressed fs root \<Longrightarrow> addressed fs' root"
  unfolding addressed_def by (meson movesD(3))

section \<open>How the operations of the cache move the store\<close>

lemma moves_getRemote:
  assumes "tier_addressed (ce_rem K)" "Cache_getRemote K now a c = (r, c')"
  shows "moves (ce_root K) X addr (c_fs c) (c_fs c')"
proof -
  have "c_fs c' = c_fs c \<or> (\<exists>v d rerr cerr sz t t' q. rb_GetObject (ce_rem K) v t = (Inr ((d, rerr, cerr), sz), t')
      \<and> Store_Put (ce_E K) (ce_root K) v (d, rerr) sz (c_fs c) = (q, c_fs c'))"
    using assms(2)
    by (auto simp: Cache_getRemote_def Let_def split: if_splits prod.splits sum.splits) metis+
  then show ?thesis
  proof (elim disjE exE conjE)
    fix v d rerr cerr sz t t' q
    assume g: "rb_GetObject (ce_rem K) v t = (Inr ((d, rerr, cerr), sz), t')"
      and p: "Store_Put (ce_E K) (ce_root K) v (d, rerr) sz (c_fs c) = (q, c_fs c')"
    show ?thesis by (rule moves_Put [OF p]) (use tier_addressedD [OF assms(1)] g in auto)
  qed simp
qed

lemma moves_bodyGone:
  assumes "Cache_bodyGone K a err c = (th, c')"
  shows "moves (ce_root K) X A (c_fs c) (c_fs c')"
proof -
  have "c_fs c' = c_fs c \<or> (\<exists>v r. Store_Remove (ce_E K) (ce_root K) v (c_fs c) = (r, c_fs c'))"
    using assms by (auto simp: Cache_bodyGone_def Let_def count_defs split: if_splits prod.splits sum.splits option.splits)
  then show ?thesis using moves_Remove by fastforce
qed

lemma moves_openRemote:
  assumes "tier_addressed (ce_rem K)" "Cache_openRemote K clk a c = (r, c')"
  shows "moves (ce_root K) X addr (c_fs c) (c_fs c')"
proof -
  obtain g c1 where g: "Cache_getRemote K (clk 0) a c = (g, c1)" by fastforce
  have "c' = c1 \<or> (\<exists>v q fs. Store_Open (ce_E K) (ce_root K) v (c_fs c1) = (q, fs) \<and> c' = c1\<lparr>c_fs := fs\<rparr>)"
    using assms(2) g by (auto simp: Cache_openRemote_def split: option.splits prod.splits sum.splits)
  then have "moves (ce_root K) X addr (c_fs c1) (c_fs c')" using moves_Open by auto
  then show ?thesis using moves_getRemote [OF assms(1) g] moves_trans by blast
qed

lemma moves_Cache_Open:
  assumes "tier_addressed (ce_rem K)" "Cache_Open K clk a c = (r, c')"
  shows "moves (ce_root K) X addr (c_fs c) (c_fs c')"
proof -
  show ?thesis
  proof (cases "Index_Get (ce_P K) (c_idx c) a")
    case (Inl err)
    then show ?thesis using assms(2) by (auto simp: Cache_Open_def)
  next
    case I: (Inr m)
    show ?thesis
    proof (cases m)
      case None
      then show ?thesis using I assms moves_openRemote by (simp add: Cache_Open_def) blast
    next
      case (Some e)
      obtain q fs where q: "Store_Open (ce_E K) (ce_root K) (OutputID e) (c_fs c) = (q, fs)" by fastforce
      have o: "moves (ce_root K) X addr (c_fs c) fs" by (rule moves_Open [OF q])
      show ?thesis
      proof (cases q)
        case (Inr y)
        then show ?thesis using I Some q o assms(2) by (auto simp: Cache_Open_def split: prod.splits)
      next
        case (Inl err)
        obtain th c1 where b: "Cache_bodyGone K a err (c\<lparr>c_fs := fs\<rparr>) = (th, c1)" by fastforce
        have b1: "moves (ce_root K) X addr (c_fs c) (c_fs c1)" using moves_trans [OF o] moves_bodyGone [OF b] by simp
        have "if th then Cache_openRemote K clk a c1 = (r, c') else c' = c1"
          using I Some q Inl b assms(2) by (auto simp: Cache_Open_def split: if_splits)
        then show ?thesis using b1 moves_trans [OF b1] moves_openRemote [OF assms(1)] by (auto split: if_splits)
      qed
    qed
  qed
qed

lemma moves_Cache_Has: "Cache_Has K clk a c = (r, c') \<Longrightarrow> moves (ce_root K) X A (c_fs c) (c_fs c')"
proof -
  assume "Cache_Has K clk a c = (r, c')"
  then have "c_fs c' = c_fs c \<or> (\<exists>v q. Store_Get (ce_E K) (ce_root K) v (c_fs c) = (q, c_fs c'))"
    by (auto simp: Cache_Has_def Let_def touch_def split: option.splits prod.splits sum.splits)
  then show ?thesis using moves_Get by fastforce
qed

lemma fs_HasRemote: "Cache_HasRemote K a c = (r, c') \<Longrightarrow> c_fs c' = c_fs c"
  by (auto simp: Cache_HasRemote_def split: if_splits prod.splits sum.splits)

lemma moves_PutStaged:
  assumes "Cache_PutStaged K clk during a v staged sz c = (r, c')" "\<And>i. lookup (c_fs c) staged = Some i \<Longrightarrow> i \<in> X"
    and "\<And>d. content (c_fs c) staged = Some d \<Longrightarrow> A v d"
  shows "moves (ce_root K) X A (c_fs c) (c_fs c')"
proof -
  obtain q where "Store_Adopt (ce_E K) (ce_root K) v staged sz (c_fs c) = (q, c_fs c')"
    using assms(1) by (auto simp: Cache_PutStaged_def split: prod.splits sum.splits)
  then show ?thesis by (rule moves_Adopt) (use assms(2,3) in blast)+
qed

lemma moves_upload: "moves (ce_root K) X A (c_fs c) (c_fs (Cache_upload K c))"
  by (auto simp: Cache_upload_def Let_def split: list.split prod.split intro!: moves_same_files dest: run_same_files)

lemma fs_touches [simp]: "c_fs (Cache_touches K now c) = c_fs c"
  by (simp add: Cache_touches_def split: prod.split)

lemma moves_reconcileLoop:
  "reconcileLoop K ctxErr now obs r cs fs = (x, fs') \<Longrightarrow> moves (ce_root K) X A fs fs'"
proof (induction obs arbitrary: r cs fs)
  case (Cons ob obs)
  show ?case
  proof (cases "ctxErr fs")
    case (Some err)
    then show ?thesis using Cons.prems by simp
  next
    case None
    obtain m fs1 where m: "Store_Measure (ce_E K) (ce_root K) (oc_OutputID ob) now fs = (m, fs1)" by fastforce
    have "\<exists>r' cs'. reconcileLoop K ctxErr now obs r' cs' fs1 = (x, fs')"
      using Cons.prems None m by (cases m) (auto simp: Let_def split: if_splits prod.splits)
    then show ?thesis using moves_trans [OF moves_Measure [OF m]] Cons.IH by blast
  qed
qed simp

lemma moves_Reconcile:
  assumes "Cache_Reconcile K ctxErr now c = (r, c')"
  shows "moves (ce_root K) X A (c_fs c) (c_fs c')"
proof (cases "Index_Objects (ce_P K) (c_idx c)")
  case (Inl err)
  then show ?thesis using assms by (auto simp: Cache_Reconcile_def Let_def)
next
  case (Inr objects)
  define r0 where "r0 = (case Index_Stats (c_idx c) of Inr st \<Rightarrow> zero_ReconcileResult\<lparr>rr_Before := st_DiskBytes st\<rparr> | Inl _ \<Rightarrow> zero_ReconcileResult)"
  obtain e r1 cs fs where l: "reconcileLoop K ctxErr now objects r0 [] (c_fs c) = ((e, r1, cs), fs)" by (metis surj_pair)
  have "c_fs c' = fs"
    using assms Inr l unfolding Cache_Reconcile_def Let_def r0_def [symmetric]
    by (auto split: option.splits prod.splits sum.splits)
  then show ?thesis using moves_reconcileLoop [OF l] by simp
qed

lemma moves_reconcileBefore: "moves (ce_root K) X A (c_fs c) (c_fs (reconcileBeforeEvicting K ctxErr now maxB c))"
  using moves_Reconcile [of K ctxErr now c]
  by (auto simp: reconcileBeforeEvicting_def split: sum.split prod.split)

lemma moves_report:
  "report (evict_callbacks K ctxErr) vs (fs, p) = (e, (fs', p')) \<Longrightarrow> moves (ce_root K) X A fs fs'"
proof (induction vs arbitrary: fs p)
  case (Cons v vs)
  obtain r fs1 where r: "Store_Remove (ce_E K) (ce_root K) v fs = (r, fs1)" by fastforce
  have "report (evict_callbacks K ctxErr) vs (fs1, invalidate p) = (e, (fs', p'))"
    using Cons.prems r by (simp add: evict_callbacks_def)
  then show ?case using moves_trans [OF moves_Remove [OF r]] Cons.IH by blast
qed simp

lemma moves_EvictWith:
  assumes "Cache_EvictWith fuel K ctxErr clk maxB ttl c = Some (r, c')"
  shows "moves (ce_root K) X A (c_fs c) (c_fs c')"
proof -
  define c1 where "c1 = reconcileBeforeEvicting K ctxErr (clk 0) maxB c"
  obtain e ix res fs p where run: "Index_Evict fuel (ce_P K) (evict_callbacks K ctxErr) (c_idx c1) maxB ttl (clk 1) (c_fs c1, c_present c1)
      = Some (e, ix, res, (fs, p))" and fs: "c_fs c' = fs"
    using assms unfolding Cache_EvictWith_def c1_def [symmetric] Let_def
    by (auto simp: maybeCompact_def Let_def count_defs split: option.splits if_splits prod.splits)
  let ?J = "\<lambda>_ _ w. moves (ce_root K) X A (c_fs c1) (fst w)"
  have "?J ix res (fs, p)"
  proof (rule Evict_keeps [where J = ?J, OF _ _ _ run])
    fix w vs e w' assume "?J ix res w" "report (evict_callbacks K ctxErr) vs w = (e, w')"
    then show "?J ix res w'" using moves_report moves_trans by (metis prod.collapse)
  next
    fix w vs e w' assume "?J ix res w" "report (evict_callbacks K ctxErr) vs w = (e, w')"
    then show "?J ix res w'" using moves_report moves_trans by (metis prod.collapse)
  qed simp
  then show ?thesis using moves_trans [OF moves_reconcileBefore] fs unfolding c1_def by auto
qed

end
