(* ===== verification/Cache_Theorems.thy ===== *)
theory Cache_Theorems
  imports Cache_Eviction
begin

text \<open>
  What a cache promises its callers: the tiers agree after any sequence of operations, what was put
  is served, a dangling entry is repaired, a failing tier is a miss, every lookup is counted once,
  and an eviction pass meets its limits on disk as well as in the index.
\<close>

section \<open>Sequences of operations\<close>

inductive cache_step :: "('db, 'r) cache_env \<Rightarrow> ('db, 'r) cache \<Rightarrow> ('db, 'r) cache \<Rightarrow> bool" for K where
  get: "room K c \<Longrightarrow> in64 (clk 0) \<Longrightarrow> cache_step K c (snd (Cache_Get K clk a c))"
| openBody: "room K c \<Longrightarrow> in64 (clk 0) \<Longrightarrow> cache_step K c (snd (Cache_Open K clk a c))"
| has: "cache_step K c (snd (Cache_Has K clk a c))"
| hasRemote: "cache_step K c (snd (Cache_HasRemote K a c))"
| put: "room K c \<Longrightarrow> in64 (clk 0) \<Longrightarrow> in64 sz \<Longrightarrow> cache_step K c (snd (Cache_Put K clk during a v body sz c))"
| putStaged: "room K c \<Longrightarrow> in64 (clk 0) \<Longrightarrow> in64 sz \<Longrightarrow>
    \<forall>d. bodies (c_fs c) (ce_root K) v = Some d \<longrightarrow> int (length d) < 2 ^ 63 \<Longrightarrow>
    cache_step K c (snd (Cache_PutStaged K clk during a v staged sz c))"
| upload: "cache_step K c (Cache_upload K c)"
| touches: "in64 now \<Longrightarrow> cache_step K c (Cache_touches K now c)"
| reconcile: "cache_step K c (snd (Cache_Reconcile K ctxErr now c))"
| evictWith: "room K (reconcileBeforeEvicting K ctxErr (clk 0) maxBytes c) \<Longrightarrow>
    Cache_EvictWith fuel K ctxErr clk maxBytes ttl c = Some (r, c') \<Longrightarrow> cache_step K c c'"
| evictNow: "room K (reconcileBeforeEvicting K ctxErr (clk 0) maxBytes (snd (Cache_Reconcile K ctxErr (clk 2) c))) \<Longrightarrow>
    Cache_EvictNow fuel K ctxErr clk maxBytes ttl c = Some (r, c') \<Longrightarrow> cache_step K c c'"

lemma EvictNow_repr:
  assumes "env_ok K" "cache_repr K c s" "room K (reconcileBeforeEvicting K ctxErr (clk 0) maxB (snd (Cache_Reconcile K ctxErr (clk 2) c)))"
    and "Cache_EvictNow fuel K ctxErr clk maxB ttl c = Some (r, c')"
  shows "\<exists>s'. cache_repr K c' s'"
proof -
  obtain rec rerr c1 where R: "Cache_Reconcile K ctxErr (clk 2) c = ((rec, rerr), c1)" by (metis surj_pair)
  obtain s1 where s1: "cache_repr K c1 s1" using Reconcile_repr [OF assms(1,2) R] by blast
  obtain q where "Cache_EvictWith fuel K ctxErr clk maxB ttl c1 = Some (q, c')"
    using assms(4) R by (auto simp: Cache_EvictNow_def split: option.splits)
  then show ?thesis using EvictWith_repr [OF assms(1) s1] assms(3) R by fastforce
qed

lemma cache_step_repr:
  assumes "cache_step K c c'" "env_ok K" "\<exists>s. cache_repr K c s"
  shows "\<exists>s. cache_repr K c' s"
proof -
  obtain s where s: "cache_repr K c s" using assms(3) ..
  note ok = assms(2) env_okD(1) [OF assms(2)]
  from assms(1) show ?thesis
  proof cases
    case (get clk a)
    then show ?thesis using Cache_Get_repr [OF ok(1) s get(2), of clk a] by (metis prod.collapse)
  next
    case (openBody clk a)
    then show ?thesis using Cache_Open_repr [OF ok(1) s openBody(2), of clk a] by (metis prod.collapse)
  next
    case (has clk a)
    then show ?thesis using Cache_Has_repr(1) [OF ok(2) s] by (metis prod.collapse)
  next
    case (hasRemote a)
    then show ?thesis using HasRemote_repr [OF s] by blast
  next
    case (put clk sz during a v body)
    then show ?thesis using Cache_Put_repr [OF ok(1) s put(2), of clk sz] by (metis prod.collapse)
  next
    case (putStaged clk sz v during a staged)
    then show ?thesis using Cache_PutStaged_repr [OF ok(1) s putStaged(2), of clk sz v] by (metis prod.collapse)
  next
    case upload
    then show ?thesis using Cache_upload_repr [OF s] by blast
  next
    case (touches now)
    then show ?thesis using Cache_touches_repr [OF ok(1) s] by blast
  next
    case (reconcile ctxErr now)
    then show ?thesis using Reconcile_repr [OF ok(1) s] by (metis prod.collapse)
  next
    case (evictWith ctxErr clk maxBytes fuel ttl r)
    then show ?thesis using EvictWith_repr [OF ok(1) s] by blast
  next
    case (evictNow ctxErr clk maxBytes fuel ttl r)
    then show ?thesis using EvictNow_repr [OF ok(1) s] by blast
  qed
qed

lemma cache_steps_repr: "(cache_step K)\<^sup>*\<^sup>* c c' \<Longrightarrow> env_ok K \<Longrightarrow> \<exists>s. cache_repr K c s \<Longrightarrow> \<exists>s. cache_repr K c' s"
  by (induction rule: rtranclp_induct) (auto intro: cache_step_repr)

lemma Cache_New_repr:
  assumes "repr (ce_P K) ix s" "store_ok fs (ce_root K)" "dom (cost s) \<subseteq> dom (bodies fs (ce_root K))"
  shows "cache_repr K (Cache_New K ix fs t) s"
proof -
  have "\<not> current empty_presence a" for a by (simp add: current_def empty_presence_def)
  then show ?thesis using assms by (simp add: cache_repr_def Cache_New_def)
qed

section \<open>Undisturbed operations\<close>

lemma Store_Get_ok:
  assumes "no_faults E" "bodies fs root v \<noteq> None"
  shows "\<exists>n fs'. Store_Get E root v fs = (Inr (Store_Path root v, n), fs')"
proof -
  obtain i where "lookup fs (Store_Path root v) = Some i" using assms(2) by (auto simp: bodies_None)
  then show ?thesis using assms(1) by (simp add: Store_Get_def os_Stat_def syscall_def Let_def no_faults_def lookup_def)
qed

lemma Store_Get_gone:
  assumes "no_faults E" "bodies fs root v = None"
  shows "\<exists>fs'. Store_Get E root v fs = (Inl ErrNotExist, fs')"
  using assms by (simp add: bodies_None Store_Get_def os_Stat_def syscall_def Let_def no_faults_def lookup_def)

text \<open>Recording a body that is in place, with an index that works.\<close>

lemma Cache_record_serves:
  assumes "env_ok K" "pebble_healthy (ce_P K)" "cache_repr K c s" "room K c" "\<not> ix_closed (c_idx c)"
    and "in64 (clk 0)" "0 \<le> clk 0" "in64 sz" "0 \<le> sz" "in64 n" "0 \<le> n" "bodies (c_fs c) (ce_root K) v \<noteq> None"
  shows "cache_repr K (Cache_record K clk during a v path sz n c)
      (spec_put a \<lparr>OutputID = v, Size = sz, CreatedAt = clk 0, LastUsedAt = clk 0\<rparr> n s)"
    "\<not> ix_closed (c_idx (Cache_record K clk during a v path sz n c))"
proof -
  let ?e = "\<lparr>OutputID = v, Size = sz, CreatedAt = clk 0, LastUsedAt = clk 0\<rparr>"
  let ?c = "Cache_record K clk during a v path sz n c"
  note C = cache_reprD [OF assms(3)] and ok = env_okD(1) [OF assms(1)]
  have v: "validateEntry ?e n = None" using assms(7,9,11) by (simp add: validateEntry_def)
  have k: "int (card (dom (ents s))) < 2 ^ 63 - 1" using roomD [OF assms(4,3)] by (simp add: spec_room_def)
  have put: "fst (Index_Put (ce_P K) (c_idx c) a ?e n) = None" by (rule Put_healthy [OF ok assms(2) C(1) assms(5) v])
  have op: "\<not> ix_closed (snd (Index_Put (ce_P K) (c_idx c) a ?e n))"
    using Put_healthy_refines [OF ok assms(2) C(1) assms(5) _ assms(10) v k] assms(6,8) by (simp add: wf_entry_def)
  obtain s' where s': "cache_repr K ?c s'" "s' = spec_put a ?e n s" "c_idx ?c = snd (Index_Put (ce_P K) (c_idx c) a ?e n)"
    using Cache_record_repr [where clk = clk and v = v and during = during and a = a and path = path, OF assms(1,3,4,6,8,10,12)]
      put by fastforce
  show "cache_repr K ?c (spec_put a ?e n s)" using s'(1,2) by simp
  show "\<not> ix_closed (c_idx ?c)" using op s'(3) by simp
qed

lemma Cache_Put_serves:
  assumes "env_ok K" "pebble_healthy (ce_P K)" "no_faults (ce_E K)" "cache_repr K c s" "room K c" "\<not> ix_closed (c_idx c)"
    and "in64 (clk 0)" "0 \<le> clk 0" "in64 sz" "int (length d) = sz" "clear_way (ce_E K) (c_fs c) (Store_Path (ce_root K) v)"
  shows "\<exists>c' s' n. Cache_Put K clk during a v (d, None) sz c = (Inr (Store_Path (ce_root K) v), c') \<and> cache_repr K c' s'
    \<and> \<not> ix_closed (c_idx c') \<and> s' = spec_put a \<lparr>OutputID = v, Size = sz, CreatedAt = clk 0, LastUsedAt = clk 0\<rparr> n s
    \<and> bodies (c_fs c') (ce_root K) = publish v d (bodies (c_fs c) (ce_root K))"
proof -
  let ?p = "Store_Path (ce_root K) v"
  note C = cache_reprD [OF assms(4)]
  obtain q fs where q: "Store_Put (ce_E K) (ce_root K) v (d, None) sz (c_fs c) = (q, fs)" by fastforce
  obtain n where n: "q = Inr (?p, n)" using Store_Put_succeeds [OF C(3) assms(3,11,10) q] by blast
  note P = Store_Put_bodies [OF C(3) q]
  have g: "cache_repr K (c\<lparr>c_fs := fs\<rparr>) s" by (rule cache_repr_grows [OF assms(4) P(2,1)])
  have b: "bodies fs (ce_root K) = publish v d (bodies (c_fs c) (ce_root K))" "sz \<le> n" "in64 n" "bodies fs (ce_root K) v \<noteq> None"
    using P(3) n assms(9) by (auto simp: publish_def split: option.splits)
  have nn: "0 \<le> sz" "0 \<le> n" using assms(10) b(2) by auto
  note R = Cache_record_serves [where clk = clk and v = v and n = n, OF assms(1,2) g _ _ assms(7-9) nn(1) b(3) nn(2)]
  show ?thesis
    using q n b(1,4) R [of during a ?p] assms(5,6)
    by (intro exI [of _ "Cache_record K clk during a v ?p sz n (c\<lparr>c_fs := fs\<rparr>)"] exI exI [of _ n])
       (simp add: Cache_Put_def)
qed

lemma Cache_Get_local:
  assumes "env_ok K" "pebble_healthy (ce_P K)" "no_faults (ce_E K)" "cache_repr K c s" "\<not> ix_closed (c_idx c)" "ents s a = Some e"
  shows "\<exists>c'. Cache_Get K clk a c = (Some \<lparr>res_OutputID = OutputID e, res_Size = Size e,
      res_DiskPath = Store_Path (ce_root K) (OutputID e), res_Time = CreatedAt e\<rparr>, c')"
proof -
  note C = cache_reprD [OF assms(4)]
  have "bodies (c_fs c) (ce_root K) (OutputID e) \<noteq> None" using swf_cost [OF C(2) assms(6)] C(4) by auto
  then obtain n fs where "Store_Get (ce_E K) (ce_root K) (OutputID e) (c_fs c) = (Inr (Store_Path (ce_root K) (OutputID e), n), fs)"
    using Store_Get_ok [OF assms(3)] by blast
  then show ?thesis
    using Get_healthy [OF env_okD(1) [OF assms(1)] assms(2) C(1) assms(5), of a] assms(6) by (simp add: Cache_Get_def)
qed

lemma Cache_Has_local:
  assumes "env_ok K" "pebble_healthy (ce_P K)" "no_faults (ce_E K)" "cache_repr K c s" "\<not> ix_closed (c_idx c)" "ents s a = Some e"
  shows "fst (Cache_Has K clk a c)"
proof -
  note C = cache_reprD [OF assms(4)]
  have "bodies (c_fs c) (ce_root K) (OutputID e) \<noteq> None" using swf_cost [OF C(2) assms(6)] C(4) by auto
  then obtain n fs where "Store_Get (ce_E K) (ce_root K) (OutputID e) (c_fs c) = (Inr (Store_Path (ce_root K) (OutputID e), n), fs)"
    using Store_Get_ok [OF assms(3)] by blast
  then show ?thesis
    using Get_healthy [OF env_okD(1) [OF assms(1)] assms(2) C(1) assms(5), of a] assms(6)
    by (simp add: Cache_Has_def Let_def split: prod.split option.split)
qed

text \<open>How a lookup is counted.\<close>

lemma add64_left_comm: "add64 x (add64 y z) = add64 y (add64 x z)"
  by (metis add64_assoc add64_comm)

lemma lookups_up:
  "add64 (add64 (add64 x 1) y) z = add64 (add64 (add64 x y) z) 1"
  "add64 (add64 x (add64 y 1)) z = add64 (add64 (add64 x y) z) 1"
  "add64 (add64 x y) (add64 z 1) = add64 (add64 (add64 x y) z) 1"
  "add64 (add64 x 1) y = add64 (add64 x y) 1" "add64 x (add64 y 1) = add64 (add64 x y) 1"
  by (simp_all add: add64_assoc add64_comm add64_left_comm)

lemma count_lookups:
  "Activity_Lookups (c_metrics (count_GetLocalHit c)) = add64 (Activity_Lookups (c_metrics c)) 1"
  "Activity_Lookups (c_metrics (count_GetRemoteHit c)) = add64 (Activity_Lookups (c_metrics c)) 1"
  "Activity_Lookups (c_metrics (count_GetMiss c)) = add64 (Activity_Lookups (c_metrics c)) 1"
  "Activity_Hits (c_metrics (count_GetLocalHit c)) = add64 (Activity_Hits (c_metrics c)) 1"
  "Activity_Hits (c_metrics (count_GetRemoteHit c)) = add64 (Activity_Hits (c_metrics c)) 1"
  "Activity_Hits (c_metrics (count_GetMiss c)) = Activity_Hits (c_metrics c)"
  "Activity_Lookups (c_metrics (count_GetRepair c)) = Activity_Lookups (c_metrics c)"
  "Activity_Hits (c_metrics (count_GetRepair c)) = Activity_Hits (c_metrics c)"
  "c_metrics (touch now a t c) = c_metrics c"
  by (simp_all add: count_defs Activity_Lookups_def Activity_Hits_def lookups_up touch_def)

definition counted_once :: "bool \<Rightarrow> ('db, 'r) cache \<Rightarrow> ('db, 'r) cache \<Rightarrow> bool" where
  "counted_once hit c c' \<longleftrightarrow> Activity_Lookups (c_metrics c') = add64 (Activity_Lookups (c_metrics c)) 1
     \<and> Activity_Hits (c_metrics c') = (if hit then add64 (Activity_Hits (c_metrics c)) 1 else Activity_Hits (c_metrics c))"

lemma getRemote_counted: "case Cache_getRemote K now a c of (res, c') \<Rightarrow> counted_once (res \<noteq> None) c c'"
proof -
  have base: "counted_once False c (count_GetMiss (c\<lparr>c_tier := t\<rparr>))" "counted_once False c (count_GetMiss (c\<lparr>c_tier := t, c_fs := fs\<rparr>))"
    "counted_once True c (count_GetRemoteHit (c\<lparr>c_tier := t, c_fs := fs, c_idx := ix\<rparr>))" "counted_once False c (count_GetMiss c)" for t fs ix
    by (simp_all add: counted_once_def count_lookups)
  show ?thesis using base by (simp add: Cache_getRemote_def Let_def split: prod.split sum.split)
qed

lemma bodyGone_counted:
  "case Cache_bodyGone K a err c of (through, c') \<Rightarrow>
     if through then Activity_Lookups (c_metrics c') = Activity_Lookups (c_metrics c) \<and> Activity_Hits (c_metrics c') = Activity_Hits (c_metrics c)
     else counted_once False c c'"
proof -
  have "Activity_Lookups (c_metrics (count_GetRepair c)) = Activity_Lookups (c_metrics c)"
    "Activity_Hits (c_metrics (count_GetRepair c)) = Activity_Hits (c_metrics c)" by (simp_all add: count_lookups)
  then show ?thesis
    by (auto simp: Cache_bodyGone_def Let_def counted_once_def count_lookups split: sum.split option.split prod.split)
qed

section \<open>A cache for the witnesses\<close>

definition demo_cfg :: Config where
  "demo_cfg = \<lparr>ConfigFile = [], Dir = ''/c'', MaxBytes = 100, TTL = 0, TouchGranularity = 0, S3Bucket = [], S3Region = [],
     S3Prefix = [], S3EndpointURL = [], MinUploadSize = 0, UploadConcurrency = 4, UploadQueueDepth = 0, UploadBlockTimeout = 0,
     IdleTimeout = 0, EvictInterval = 0, CompactAfterPruned = 0, BazelAddr = [], BazelGRPCAddr = [], PprofAddr = [],
     BazelMonitoring = False, BazelInstanceNames = [], DisableBazelVerify = False, DisableEviction = False,
     DisableDaemon = False, Log = LogOff\<rparr>"

definition demo_env_of :: "osenv \<Rightarrow> (ref_db, unit) cache_env" where
  "demo_env_of E = \<lparr>ce_P = ref_pebble, ce_E = E, ce_rem = Noop, ce_cfg = demo_cfg, ce_root = ''/c''\<rparr>"

definition demo_os8 :: osenv where
  "demo_os8 = demo_os\<lparr>os_blocks := \<lambda>_ _. Some 8\<rparr>"

definition demo_K :: "(ref_db, unit) cache_env" where
  "demo_K = demo_env_of demo_os8"

definition demo_cache :: "(ref_db, unit) cache" where
  "demo_cache = Cache_New demo_K empty_index demo_fs ()"

lemma demo_K_simps [simp]:
  "ce_P demo_K = ref_pebble" "ce_E demo_K = demo_os8" "ce_rem demo_K = Noop" "ce_cfg demo_K = demo_cfg" "ce_root demo_K = ''/c''"
  "RemoteEnabled demo_cfg = False"
  by (simp_all add: demo_K_def demo_env_of_def demo_cfg_def RemoteEnabled_def)

lemma demo_cache_simps [simp]:
  "c_idx demo_cache = empty_index" "c_fs demo_cache = demo_fs" "c_present demo_cache = empty_presence"
  by (simp_all add: demo_cache_def Cache_New_def)

lemma env_ok_demo: "env_ok demo_K"
  by (simp add: env_ok_def pebble_ok_ref tier_typed_def Noop_def blocks_ok_def demo_os8_def blockSize_def)

lemma no_faults_demo8: "no_faults demo_os8"
  using no_faults_demo by (simp add: no_faults_def demo_os8_def)

lemma clear_way_demo8: "clear_way demo_os8 demo_fs (Store_Path ''/c'' v)"
  using clear_way_demo by (simp add: clear_way_def demo_os8_def)

lemma cache_repr_demo: "cache_repr demo_K demo_cache empty_spec"
proof -
  have "dom (cost empty_spec) = {}" by (simp add: empty_spec_def)
  then show ?thesis unfolding demo_cache_def by (intro Cache_New_repr) (simp_all add: repr_empty store_ok_demo)
qed

lemma room_demo: "room demo_K demo_cache"
  by (rule roomI [OF cache_repr_demo]) (simp add: spec_room_def empty_spec_def total_cost_def empty_presence_def)

section \<open>Properties\<close>

text \<open>
  C1. The tiers agree. Start a cache on a consistent index whose outputs all have their bodies, and
  run any sequence of its operations and of the turns of its background workers, on any tier and
  with any system call failing, while the counters have room. Then the index is consistent, every
  entry's body is in the store, so is the body of every output the budget accounts for, and the
  presence memo never answers for an action that is not indexed.
\<close>

theorem cache_invariant:
  assumes "env_ok K" "repr (ce_P K) ix s" "store_ok fs (ce_root K)" "dom (cost s) \<subseteq> dom (bodies fs (ce_root K))"
    and "(cache_step K)\<^sup>*\<^sup>* (Cache_New K ix fs t) c"
  shows "\<exists>s'. repr (ce_P K) (c_idx c) s'
    \<and> (\<forall>a e. ents s' a = Some e \<longrightarrow> bodies (c_fs c) (ce_root K) (OutputID e) \<noteq> None)
    \<and> (\<forall>v n. cost s' v = Some n \<longrightarrow> bodies (c_fs c) (ce_root K) v \<noteq> None)
    \<and> (\<forall>a now u. fst (presence_lookup (c_present c) a now) = Some u \<longrightarrow> ents s' a \<noteq> None)"
proof -
  obtain s' where s': "cache_repr K c s'"
    using cache_steps_repr [OF assms(5,1)] Cache_New_repr [OF assms(2-4)] by blast
  note C = cache_reprD [OF s']
  have b: "bodies (c_fs c) (ce_root K) v \<noteq> None" if "cost s' v = Some n" for v n using C(4) that by auto
  have "bodies (c_fs c) (ce_root K) (OutputID e) \<noteq> None" if "ents s' a = Some e" for a e
    using swf_cost [OF C(2) that] b by blast
  moreover have "ents s' a \<noteq> None" if "fst (presence_lookup (c_present c) a now) = Some u" for a now u
    using that C(7) fresh_current presence_lookup_iff by blast
  ultimately show ?thesis using C(1) b by (intro exI [of _ s'] conjI allI impI) assumption+
qed

theorem cache_invariant_witness:
  "\<exists>c s'. (cache_step demo_K)\<^sup>*\<^sup>* demo_cache c
    \<and> c = snd (Cache_Put demo_K (\<lambda>_. 20) (\<lambda>u. (u, Timeout)) (demo_id 1) (demo_id 7) ([1, 2, 3], None) 3 demo_cache)
    \<and> repr (ce_P demo_K) (c_idx c) s'
    \<and> (\<forall>a e. ents s' a = Some e \<longrightarrow> bodies (c_fs c) (ce_root demo_K) (OutputID e) \<noteq> None)
    \<and> (\<forall>v n. cost s' v = Some n \<longrightarrow> bodies (c_fs c) (ce_root demo_K) v \<noteq> None)
    \<and> (\<forall>a now u. fst (presence_lookup (c_present c) a now) = Some u \<longrightarrow> ents s' a \<noteq> None)"
proof -
  define c where "c = snd (Cache_Put demo_K (\<lambda>_. 20) (\<lambda>u. (u, Timeout)) (demo_id 1) (demo_id 7) ([1, 2, 3], None) 3 demo_cache)"
  have st: "cache_step demo_K demo_cache c"
    unfolding c_def by (rule cache_step.put [OF room_demo]) (simp_all add: in64_def)
  have run: "(cache_step demo_K)\<^sup>*\<^sup>* (Cache_New demo_K empty_index demo_fs ()) c" using st by (simp add: demo_cache_def)
  have start: "repr (ce_P demo_K) empty_index empty_spec" "store_ok demo_fs (ce_root demo_K)"
    "dom (cost empty_spec) \<subseteq> dom (bodies demo_fs (ce_root demo_K))"
    by (simp_all add: repr_empty store_ok_demo) (simp add: empty_spec_def)
  have steps: "(cache_step demo_K)\<^sup>*\<^sup>* demo_cache c" using st by (rule r_into_rtranclp)
  obtain s' where s': "repr (ce_P demo_K) (c_idx c) s'
    \<and> (\<forall>a e. ents s' a = Some e \<longrightarrow> bodies (c_fs c) (ce_root demo_K) (OutputID e) \<noteq> None)
    \<and> (\<forall>v n. cost s' v = Some n \<longrightarrow> bodies (c_fs c) (ce_root demo_K) v \<noteq> None)
    \<and> (\<forall>a now u. fst (presence_lookup (c_present c) a now) = Some u \<longrightarrow> ents s' a \<noteq> None)"
    using cache_invariant [OF env_ok_demo start run] ..
  show ?thesis by (rule exI [of _ c], rule exI [of _ s'], intro conjI [OF steps] conjI [OF c_def] s')
qed

text \<open>
  What is put is served. On an undisturbed machine \<^verbatim>\<open>Put\<close> of a complete body of the declared size
  succeeds with the path of the body, whether or not a shared tier is configured and however its
  queue behaves; a later \<^verbatim>\<open>Get\<close> of the action is a hit with the recorded output, size and time,
  and at that path is the body, or the one an earlier writer published under the same name.
\<close>

theorem put_is_served:
  assumes "env_ok K" "pebble_healthy (ce_P K)" "no_faults (ce_E K)" "cache_repr K c s" "room K c" "\<not> ix_closed (c_idx c)"
    and "in64 (clk 0)" "0 \<le> clk 0" "in64 sz" "int (length d) = sz" "clear_way (ce_E K) (c_fs c) (Store_Path (ce_root K) v)"
  shows "\<exists>c' c''. Cache_Put K clk during a v (d, None) sz c = (Inr (Store_Path (ce_root K) v), c')
    \<and> Cache_Get K clk' a c' = (Some \<lparr>res_OutputID = v, res_Size = sz, res_DiskPath = Store_Path (ce_root K) v, res_Time = clk 0\<rparr>, c'')
    \<and> bodies (c_fs c') (ce_root K) v = (case bodies (c_fs c) (ce_root K) v of None \<Rightarrow> Some d | Some old \<Rightarrow> Some old)"
proof -
  obtain c' s' n where P: "Cache_Put K clk during a v (d, None) sz c = (Inr (Store_Path (ce_root K) v), c')" "cache_repr K c' s'"
    "\<not> ix_closed (c_idx c')" "s' = spec_put a \<lparr>OutputID = v, Size = sz, CreatedAt = clk 0, LastUsedAt = clk 0\<rparr> n s"
    "bodies (c_fs c') (ce_root K) = publish v d (bodies (c_fs c) (ce_root K))"
    using Cache_Put_serves [where clk = clk, OF assms] by blast
  have "ents s' a = Some \<lparr>OutputID = v, Size = sz, CreatedAt = clk 0, LastUsedAt = clk 0\<rparr>" using P(4) by (simp add: spec_put_def)
  from Cache_Get_local [OF assms(1-3) P(2,3) this, of clk'] P(1,5) show ?thesis
    by (auto simp: publish_def split: option.split)
qed

theorem put_is_served_witness:
  "\<exists>c' c''. Cache_Put demo_K (\<lambda>_. 20) (\<lambda>u. (u, Timeout)) (demo_id 1) (demo_id 7) ([1, 2, 3], None) 3 demo_cache
      = (Inr (Store_Path ''/c'' (demo_id 7)), c')
    \<and> Cache_Get demo_K (\<lambda>_. 30) (demo_id 1) c' = (Some \<lparr>res_OutputID = demo_id 7, res_Size = 3,
        res_DiskPath = Store_Path ''/c'' (demo_id 7), res_Time = 20\<rparr>, c'')
    \<and> bodies (c_fs c') ''/c'' (demo_id 7) = Some [1, 2, 3]"
  using put_is_served [where K = demo_K and c = demo_cache and clk = "\<lambda>_. 20" and clk' = "\<lambda>_. 30" and sz = 3 and d = "[1, 2, 3]"
      and v = "demo_id 7" and a = "demo_id 1" and during = "\<lambda>u. (u, Timeout)", OF env_ok_demo _ _ cache_repr_demo room_demo]
  by (simp add: pebble_healthy_ref no_faults_demo8 clear_way_demo8 in64_def demo_no_body empty_index_def)

text \<open>
  A positive probe is right. When \<^verbatim>\<open>Has\<close> says yes, from the memo or from the index, the action is
  indexed and its body is in the store; the probe changes no entry and no body.
\<close>

theorem Has_sound:
  assumes "env_ok K" "cache_repr K c s" "Cache_Has K clk a c = (True, c')"
  shows "cache_repr K c' s \<and> (\<exists>e. ents s a = Some e \<and> bodies (c_fs c') (ce_root K) (OutputID e) \<noteq> None)"
  using Cache_Has_repr [OF env_okD(1) [OF assms(1)] assms(2,3)] by blast

theorem Has_sound_witness:
  "\<exists>c c' s. Cache_Has demo_K (\<lambda>_. 30) (demo_id 1) c = (True, c')
    \<and> cache_repr demo_K c' s \<and> (\<exists>e. ents s (demo_id 1) = Some e \<and> bodies (c_fs c') (ce_root demo_K) (OutputID e) \<noteq> None)"
proof -
  obtain c s n where c: "cache_repr demo_K c s" "\<not> ix_closed (c_idx c)"
    "s = spec_put (demo_id 1) \<lparr>OutputID = demo_id 7, Size = 3, CreatedAt = 20, LastUsedAt = 20\<rparr> n empty_spec"
    using Cache_Put_serves [where K = demo_K and c = demo_cache and clk = "\<lambda>_. 20" and sz = 3 and d = "[1, 2, 3]"
      and v = "demo_id 7" and a = "demo_id 1" and during = "\<lambda>u. (u, Timeout)", OF env_ok_demo _ _ cache_repr_demo room_demo]
    by (auto simp: pebble_healthy_ref no_faults_demo8 clear_way_demo8 in64_def empty_index_def)
  have "fst (Cache_Has demo_K (\<lambda>_. 30) (demo_id 1) c)"
    using Cache_Has_local [OF env_ok_demo _ _ c(1,2), of "demo_id 1"] c(3)
    by (simp add: pebble_healthy_ref no_faults_demo8 spec_put_def)
  then obtain c' where h: "Cache_Has demo_K (\<lambda>_. 30) (demo_id 1) c = (True, c')" by (metis (full_types) prod.collapse)
  then show ?thesis using Has_sound [OF env_ok_demo c(1) h] by blast
qed

text \<open>
  C24. Every lookup is counted once, as what it was: \<^verbatim>\<open>Get\<close> moves the sum of the local hits, the
  remote hits and the misses by exactly one, and the hits by one exactly when it found something;
  this includes the paths through a failing index, an unreadable body, a repair and the tier.
\<close>

theorem Get_counted:
  "counted_once (fst (Cache_Get K clk a c) \<noteq> None) c (snd (Cache_Get K clk a c))"
proof -
  have remote: "counted_once (fst (Cache_getRemote K now a x) \<noteq> None) x (snd (Cache_getRemote K now a x))" for now x
    using getRemote_counted [where K = K and now = now and a = a and c = x] by (simp add: case_prod_beta)
  have base: "counted_once False c (count_GetMiss c)"
    "counted_once True c (count_GetLocalHit (touch now a t (c\<lparr>c_fs := fs\<rparr>)))" for now t fs
    by (simp_all add: counted_once_def count_lookups)
  have gone: "counted_once (fst (if \<not> th then (None, c1) else Cache_getRemote K (clk 0) a c1) \<noteq> None) c
      (snd (if \<not> th then (None, c1) else Cache_getRemote K (clk 0) a c1))"
    if "Cache_bodyGone K a err (c\<lparr>c_fs := fs\<rparr>) = (th, c1)" for err fs th c1
    using bodyGone_counted [where K = K and a = a and err = err and c = "c\<lparr>c_fs := fs\<rparr>"] remote [of "clk 0" c1] that
    by (cases th) (simp_all add: counted_once_def)
  show ?thesis using base remote gone
    by (simp add: Cache_Get_def Let_def split: sum.split option.split prod.split)
qed

text \<open>
  C23. A dangling entry is repaired. When \<^verbatim>\<open>Get\<close> finds an action indexed but its body gone, whatever
  removed it, the action is deleted from the index (and its output forgotten if that was the last
  reference), one repair is counted, the memo vouches for nothing any more, and the lookup goes on
  to the shared tier as if the action had never been indexed.
\<close>

theorem Get_repairs:
  assumes "pebble_ok (ce_P K)" "pebble_healthy (ce_P K)" "no_faults (ce_E K)" "repr (ce_P K) (c_idx c) s" "\<not> ix_closed (c_idx c)"
    and "ents s a = Some e" "bodies (c_fs c) (ce_root K) (OutputID e) = None"
    and "gens_ok (c_present c)" "pr_gen (c_present c) + 1 < 2 ^ 64"
  shows "\<exists>c1. Cache_Get K clk a c = Cache_getRemote K (clk 0) a c1 \<and> repr (ce_P K) (c_idx c1) (spec_delete a s)
    \<and> GetRepair (c_metrics c1) = add64 (GetRepair (c_metrics c)) 1
    \<and> (\<forall>b now. fst (presence_lookup (c_present c1) b now) = None)"
proof -
  obtain fs where g: "Store_Get (ce_E K) (ce_root K) (OutputID e) (c_fs c) = (Inl ErrNotExist, fs)"
    using Store_Get_gone [OF assms(3,7)] by blast
  obtain r ix where d: "Index_Delete (ce_P K) (c_idx c) a = (Inr r, ix)" using Delete_healthy [OF assms(1,2,4,5)] by blast
  have ix: "repr (ce_P K) ix (spec_delete a s)" using Delete_refines [OF assms(1,4) d] by blast
  have "\<not> current (invalidate (c_present c)) b" for b using invalidate_current [OF assms(8,9)] .
  then have p: "fst (presence_lookup (invalidate (c_present c)) b now) = None" for b now
    using presence_lookup_None fresh_current by blast
  obtain c1 where c1: "Cache_bodyGone K a ErrNotExist (c\<lparr>c_fs := fs\<rparr>) = (True, c1)" "c_idx c1 = ix"
      "c_present c1 = invalidate (c_present c)" "GetRepair (c_metrics c1) = add64 (GetRepair (c_metrics c)) 1"
    using d by (cases r) (auto simp: Cache_bodyGone_def Let_def count_GetRepair_def split: prod.split)
  have "Cache_Get K clk a c = Cache_getRemote K (clk 0) a c1"
    using Get_healthy [OF assms(1,2,4,5), of a] assms(6) g c1(1) by (simp add: Cache_Get_def)
  then show ?thesis using c1 ix p by auto
qed

theorem Get_repairs_witness:
  "\<exists>c1. Cache_Get demo_K (\<lambda>_. 30) (demo_id 1) (demo_cache\<lparr>c_idx := demo_index\<rparr>) = Cache_getRemote demo_K 30 (demo_id 1) c1
    \<and> repr (ce_P demo_K) (c_idx c1) (spec_delete (demo_id 1) demo_spec)
    \<and> GetRepair (c_metrics c1) = add64 (GetRepair (c_metrics (demo_cache\<lparr>c_idx := demo_index\<rparr>))) 1
    \<and> (\<forall>b now. fst (presence_lookup (c_present c1) b now) = None)"
  using Get_repairs [where K = demo_K and c = "demo_cache\<lparr>c_idx := demo_index\<rparr>" and s = demo_spec and a = "demo_id 1"
      and e = "demo_entry 7 20" and clk = "\<lambda>_. 30"] demo_open repr_demo
  by (simp add: pebble_ok_ref pebble_healthy_ref no_faults_demo8 demo_no_body) (simp add: empty_presence_def)

text \<open>
  C22. A fault-in from the shared tier. When an action is not indexed and the tier returns a record and
  a complete body of the size it declares, an undisturbed \<^verbatim>\<open>Get\<close> is a hit with that output, the body
  is published locally, and the action is indexed, so that the next lookup is local.
\<close>

theorem remote_hit_faults_in:
  assumes "env_ok K" "pebble_healthy (ce_P K)" "no_faults (ce_E K)" "cache_repr K c s" "room K c" "\<not> ix_closed (c_idx c)"
    and "in64 (clk 0)" "0 \<le> clk 0" "ents s a = None" "RemoteEnabled (ce_cfg K)"
    and "rb_GetAction (ce_rem K) a (c_tier c) = (Inr (v, Some t), r1)" "0 \<le> t"
    and "rb_GetObject (ce_rem K) v r1 = (Inr ((d, None, cerr), sz), r2)" "int (length d) = sz"
    and "clear_way (ce_E K) (c_fs c) (Store_Path (ce_root K) v)"
  shows "\<exists>c' s' n. Cache_Get K clk a c = (Some \<lparr>res_OutputID = v, res_Size = sz, res_DiskPath = Store_Path (ce_root K) v, res_Time = t\<rparr>, c')
    \<and> cache_repr K c' s' \<and> ents s' a = Some \<lparr>OutputID = v, Size = sz, CreatedAt = t, LastUsedAt = clk 0\<rparr>
    \<and> bodies (c_fs c') (ce_root K) = publish v d (bodies (c_fs c) (ce_root K))"
proof -
  note C = cache_reprD [OF assms(4)] and ok = env_okD(1) [OF assms(1)]
  let ?e = "\<lparr>OutputID = v, Size = sz, CreatedAt = t, LastUsedAt = clk 0\<rparr>"
  have t: "in64 t" "in64 sz" using tier_typedD [OF env_okD(2) [OF assms(1)]] assms(11,13) by blast+
  obtain q fs where q: "Store_Put (ce_E K) (ce_root K) v (d, None) sz (c_fs c) = (q, fs)" by fastforce
  obtain n where n: "q = Inr (Store_Path (ce_root K) v, n)" using Store_Put_succeeds [OF C(3) assms(3,15,14) q] by blast
  note P = Store_Put_bodies [OF C(3) q]
  have b: "bodies fs (ce_root K) = publish v d (bodies (c_fs c) (ce_root K))" "sz \<le> n" "in64 n" "bodies fs (ce_root K) v \<noteq> None"
    using P(3) n t(2) by (auto simp: publish_def split: option.splits)
  have g: "cache_repr K (c\<lparr>c_tier := r2, c_fs := fs\<rparr>) s"
    using cache_repr_grows [of K "c\<lparr>c_tier := r2\<rparr>" s fs] assms(4) P(1,2) by simp
  obtain perr ix where ip: "Index_Put (ce_P K) (c_idx c) a ?e n = (perr, ix)" by fastforce
  have "validateEntry ?e n = None" using assms(8,12,14) b(2) by (simp add: validateEntry_def)
  then have "perr = None" using Put_healthy [OF ok assms(2) C(1) assms(6)] ip by (metis fst_conv)
  moreover have "int (card (dom (ents s))) < 2 ^ 63 - 1" using roomD [OF assms(5,4)] by (simp add: spec_room_def)
  ultimately obtain s' where s': "cache_repr K (c\<lparr>c_tier := r2, c_fs := fs, c_idx := ix\<rparr>) s'" "s' = spec_put a ?e n s"
    using index_put_repr [OF ok g, of ?e n a perr ix] assms(7) t b ip by (auto simp: wf_entry_def)
  have "Cache_Get K clk a c = (Some \<lparr>res_OutputID = v, res_Size = sz, res_DiskPath = Store_Path (ce_root K) v, res_Time = t\<rparr>,
      count_GetRemoteHit (c\<lparr>c_tier := r2, c_fs := fs, c_idx := ix\<rparr>))"
    using Get_healthy [OF ok assms(2) C(1) assms(6), of a] assms(9-11,13) q n ip by (simp add: Cache_Get_def Cache_getRemote_def)
  moreover have "ents s' a = Some ?e" using s'(2) by (simp add: spec_put_def)
  ultimately show ?thesis using s'(1) b(1) by auto
qed

text \<open>The tier of the witness: one body, published under every name.\<close>

definition demo_tier :: "unit Backend" where
  "demo_tier = Noop\<lparr>rb_GetAction := \<lambda>a r. (Inr (demo_id 7, Some 15), r), rb_GetObject := \<lambda>v r. (Inr (([1, 2], None, None), 2), r)\<rparr>"

definition demo_KR :: "(ref_db, unit) cache_env" where
  "demo_KR = demo_K\<lparr>ce_rem := demo_tier, ce_cfg := demo_cfg\<lparr>S3Bucket := ''b''\<rparr>\<rparr>"

theorem remote_hit_faults_in_witness:
  "\<exists>c' s' n. Cache_Get demo_KR (\<lambda>_. 30) (demo_id 1) demo_cache = (Some \<lparr>res_OutputID = demo_id 7, res_Size = 2,
      res_DiskPath = Store_Path ''/c'' (demo_id 7), res_Time = 15\<rparr>, c')
    \<and> cache_repr demo_KR c' s' \<and> ents s' (demo_id 1) = Some \<lparr>OutputID = demo_id 7, Size = 2, CreatedAt = 15, LastUsedAt = 30\<rparr>
    \<and> bodies (c_fs c') ''/c'' = publish (demo_id 7) [1, 2] (bodies demo_fs ''/c'')"
proof -
  have f: "ce_P demo_KR = ref_pebble" "ce_E demo_KR = demo_os8" "ce_root demo_KR = ''/c''" "ce_rem demo_KR = demo_tier"
    "RemoteEnabled (ce_cfg demo_KR)" by (simp_all add: demo_KR_def RemoteEnabled_def)
  have "env_ok demo_KR" using env_ok_demo f by (auto simp: env_ok_def tier_typed_def demo_tier_def in64_def)
  moreover have "cache_repr demo_KR demo_cache empty_spec" using cache_repr_demo f by (simp add: cache_repr_def)
  moreover have "room demo_KR demo_cache" using room_demo f by (simp add: room_def)
  ultimately show ?thesis
    using remote_hit_faults_in [where K = demo_KR and c = demo_cache and s = empty_spec and clk = "\<lambda>_. 30" and a = "demo_id 1"
        and v = "demo_id 7" and t = 15 and d = "[1, 2]" and sz = 2 and cerr = None and ?r1.0 = "()" and ?r2.0 = "()"] f
    by (simp add: pebble_healthy_ref no_faults_demo8 clear_way_demo8 in64_def demo_tier_def)
       (simp add: empty_index_def empty_spec_def)
qed

text \<open>
  C21. Eviction frees the disk. With a store whose calls succeed, no system call failing and a context
  that does not end, \<^verbatim>\<open>EvictWith\<close> succeeds; afterwards every remaining entry was used within the time
  to live and the recorded costs are within the budget (for the limits that are set), no
  unreferenced output is left, every entry that remains is the one it was, and the body of every
  output the index no longer accounts for is gone from the store.
\<close>

theorem EvictWith_frees_disk:
  assumes "env_ok K" "pebble_healthy (ce_P K)" "no_faults (ce_E K)" "\<forall>fs. ctxErr fs = None" "cache_repr K c s"
    and "room K (reconcileBeforeEvicting K ctxErr (clk 0) maxBytes c)" "\<not> ix_closed (c_idx c)" "in64 (clk 1 - ttl)"
    and "card (dom (ents s)) < fuel" "card (dom (cost s)) < fuel"
  shows "\<exists>res c' s'. Cache_EvictWith fuel K ctxErr clk maxBytes ttl c = Some ((res, None), c') \<and> cache_repr K c' s'
    \<and> (ttl > 0 \<longrightarrow> (\<forall>a e. ents s' a = Some e \<longrightarrow> clk 1 - ttl \<le> LastUsedAt e))
    \<and> (maxBytes > 0 \<longrightarrow> total_cost s' \<le> maxBytes) \<and> zero_objs s' = {} \<and> ents s' \<subseteq>\<^sub>m ents s
    \<and> (\<forall>v \<in> dom (cost s) - dom (cost s'). bodies (c_fs c') (ce_root K) v = None)"
proof -
  let ?E = "evict_callbacks K ctxErr"
  define c1 where "c1 = reconcileBeforeEvicting K ctxErr (clk 0) maxBytes c"
  obtain s1 where s1: "cache_repr K c1 s1" "ents s1 = ents s" "dom (cost s1) = dom (cost s)" "\<not> ix_closed (c_idx c1)"
    using reconcileBeforeEvicting_repr [OF assms(1,5)] assms(7) unfolding c1_def by metis
  note C = cache_reprD [OF s1(1)] and ok = env_okD(1) [OF assms(1)]
  have rm: "total_cost s1 < 2 ^ 63" "int (card (dom (cost s1))) < 2 ^ 63"
    using roomD [OF assms(6) [folded c1_def] s1(1)] by (simp_all add: spec_room_def)
  have quiet: "env_quiet ?E" using assms(4) by (simp add: env_quiet_def evict_callbacks_def split: prod.split)
  obtain ix res fs p where run: "Index_Evict fuel (ce_P K) ?E (c_idx c1) maxBytes ttl (clk 1) (c_fs c1, c_present c1)
      = Some (None, ix, res, (fs, p))"
    using Evict_healthy [OF ok assms(2) quiet C(1) s1(4) rm] assms(9,10) s1(2,3) by (metis surj_pair)
  obtain vs s2 where o: "evict_outcome maxBytes ttl (clk 1) s1 vs s2" and r: "repr (ce_P K) ix s2"
      and rep: "report ?E vs (c_fs c1, c_present c1) = (None, (fs, p))"
    using Evict_done [OF ok C(1) s1(4) rm assms(8) run] by blast
  define c2 where "c2 = c1\<lparr>c_idx := ix, c_fs := fs, c_present := (if ActionsPruned res > 0 then invalidate p else p)\<rparr>"
  define c' where "c' = maybeCompact K (ActionsPruned res) c2"
  have out: "Cache_EvictWith fuel K ctxErr clk maxBytes ttl c = Some ((res, None), c')"
    using run unfolding Cache_EvictWith_def c1_def [symmetric] Let_def c'_def c2_def by simp
  obtain s' where s': "cache_repr K c' s'" using EvictWith_repr [OF assms(1,5,6) out] by blast
  have "repr (ce_P K) (c_idx c') s2" "c_fs c' = fs"
    using r pb_compactD [OF ok]
    by (auto simp: c'_def c2_def maybeCompact_def Let_def Index_Compact_def count_Compactions_def repr_def counters_ok_def
        split: sum.split option.split)
  then have s2: "s' = s2" "c_fs c' = fs" using repr_unique cache_reprD(1) [OF s'] by blast+
  have gone: "dom (bodies fs (ce_root K)) \<inter> set vs = {}" using report_callbacks [OF C(3) rep] assms(3) by blast
  have "bodies (c_fs c') (ce_root K) v = None" if "v \<in> dom (cost s) - dom (cost s')" for v
    using that gone outcome_reported(2) [OF C(2) o] s1(3) s2 by (metis Diff_iff IntI domIff empty_iff)
  moreover have "zero_objs s' = {}"
    using o s2(1) by (auto simp: evict_outcome_def evict_walk_def zero_objs_delete_all)
  moreover have "ents s' \<subseteq>\<^sub>m ents s" using outcome_entries [OF o] s1(2) s2(1) by (auto simp: map_le_def)
  ultimately show ?thesis using out s' outcome_limits [OF o] s2(1) by blast
qed

theorem EvictWith_frees_disk_witness:
  "\<exists>c res c' s'. c_idx c = demo_index \<and> bodies (c_fs c) ''/c'' (demo_id 7) = Some [1, 2, 3]
    \<and> Cache_EvictWith 5 demo_K (\<lambda>_. None) (\<lambda>_. 1000) 0 500 c = Some ((res, None), c') \<and> cache_repr demo_K c' s'
    \<and> (\<forall>a e. ents s' a = Some e \<longrightarrow> 500 \<le> LastUsedAt e)
    \<and> (\<forall>v \<in> dom (cost demo_spec) - dom (cost s'). bodies (c_fs c') ''/c'' v = None)"
proof -
  obtain r fs where q: "Store_Put demo_os8 ''/c'' (demo_id 7) ([1, 2, 3], None) 3 demo_fs = (r, fs)" by fastforce
  obtain n where n: "r = Inr (Store_Path ''/c'' (demo_id 7), n)"
    using Store_Put_succeeds [OF store_ok_demo no_faults_demo8 clear_way_demo8 _ q] by auto
  note P = Store_Put_bodies [OF store_ok_demo q]
  have b: "bodies fs ''/c'' (demo_id 7) = Some [1, 2, 3]" using P(3) n by (simp add: publish_def demo_no_body)
  define c where "c = Cache_New demo_K demo_index fs ()"
  have c: "cache_repr demo_K c demo_spec"
    unfolding c_def by (rule Cache_New_repr) (use repr_demo P(1) b in \<open>auto\<close>)
  have same: "reconcileBeforeEvicting demo_K (\<lambda>_. None) 1000 0 c = c" by (simp add: reconcileBeforeEvicting_def)
  have room: "room demo_K c"
    by (rule roomI [OF c]) (simp add: spec_room_def c_def Cache_New_def, simp add: empty_presence_def)
  have f: "c_idx c = demo_index" "c_fs c = fs" by (simp_all add: c_def Cache_New_def)
  have hyps: "pebble_healthy (ce_P demo_K)" "no_faults (ce_E demo_K)" "\<forall>fs::fsys. (None :: error option) = None"
    "room demo_K (reconcileBeforeEvicting demo_K (\<lambda>_. None) 1000 0 c)" "\<not> ix_closed (c_idx c)" "in64 (1000 - 500)"
    "card (dom (ents demo_spec)) < 5" "card (dom (cost demo_spec)) < 5"
    using room same demo_open f(1) by (simp_all add: pebble_healthy_ref no_faults_demo8 in64_def)
  obtain res c' s' where "Cache_EvictWith 5 demo_K (\<lambda>_. None) (\<lambda>_. 1000) 0 500 c = Some ((res, None), c')" "cache_repr demo_K c' s'"
    "\<forall>a e. ents s' a = Some e \<longrightarrow> 1000 - 500 \<le> LastUsedAt e"
    "\<forall>v \<in> dom (cost demo_spec) - dom (cost s'). bodies (c_fs c') (ce_root demo_K) v = None"
    using EvictWith_frees_disk [where ctxErr = "\<lambda>_. None" and clk = "\<lambda>_. 1000" and maxBytes = 0 and ttl = 500,
        OF env_ok_demo hyps(1-3) c hyps(4-8)] by auto
  then show ?thesis using f b by (intro exI [of _ c] exI [of _ res] exI [of _ c'] exI [of _ s']) simp
qed

end
