(* ===== verification/Content_Theorems.thy ===== *)
theory Content_Theorems
  imports Content Cache_Theorems
begin

text \<open>
  Uploads interleaved with everything else: what each open upload has received is what its file
  holds and what its hash covers, and only bodies that hash to their name are published.
\<close>

section \<open>Open uploads\<close>

text \<open>
  An upload owns its name in the staging area; until it is finished that is the only name of its
  file, and the file holds what the hash was fed.
\<close>

definition upload_ok :: "string \<Rightarrow> fsys \<Rightarrow> Upload \<Rightarrow> bool" where
  "upload_ok root fs u \<longleftrightarrow> stage_name root (f_name (up_file u)) \<and> lookup fs (f_name (up_file u)) = Some (f_ino (up_file u))
     \<and> (\<not> up_done u \<longrightarrow> (\<forall>q. lookup fs q = Some (f_ino (up_file u)) \<longrightarrow> q = f_name (up_file u))
          \<and> i_data (fs_inode fs (f_ino (up_file u))) = up_sum u)"

lemma upload_okD:
  assumes "upload_ok root fs u"
  shows "stage_name root (f_name (up_file u))" "lookup fs (f_name (up_file u)) = Some (f_ino (up_file u))"
    "\<not> up_done u \<Longrightarrow> lookup fs q = Some (f_ino (up_file u)) \<Longrightarrow> q = f_name (up_file u)"
    "\<not> up_done u \<Longrightarrow> i_data (fs_inode fs (f_ino (up_file u))) = up_sum u"
  using assms unfolding upload_ok_def by blast+

lemma upload_ok_framed:
  assumes "upload_ok root fs u" "framed root X fs fs'" "fs_wf fs" "f_ino (up_file u) \<notin> X"
  shows "upload_ok root fs' u"
proof -
  note U = upload_okD [OF assms(1)] and F = framedD [OF assms(2)]
  have i: "f_ino (up_file u) < fs_next fs" using U(2) assms(3) by (auto simp: fs_wf_def)
  have "lookup fs' (f_name (up_file u)) = Some (f_ino (up_file u))" by (rule F(4) [OF U(1,2) assms(4)])
  moreover have "q = f_name (up_file u)" if "\<not> up_done u" "lookup fs' q = Some (f_ino (up_file u))" for q
    using U(3) [OF that(1) F(3) [OF that(2) i assms(4)]] .
  moreover have "fs_inode fs' (f_ino (up_file u)) = fs_inode fs (f_ino (up_file u))" by (rule F(2) [OF i assms(4)])
  ultimately show ?thesis using U(1,4) unfolding upload_ok_def by simp
qed

lemma moves_Stage:
  assumes "Store_Stage E root fs = (r, fs')"
  shows "moves root {} A fs fs'" "fs_wf fs \<Longrightarrow> bodies fs' root = bodies fs root"
    "fs_wf fs \<Longrightarrow> r = Inr f \<Longrightarrow> f_ino f = fs_next fs"
    "fs_wf fs \<Longrightarrow> r = Inr f \<Longrightarrow> up_file u = f \<Longrightarrow> up_sum u = [] \<Longrightarrow> upload_ok root fs' u"
proof -
  let ?p = "path_join (path_join root stagingDir) ''body''"
  have t: "createTempIn E ?p fs = (r, fs')" using assms by (simp add: Store_Stage_def)
  note T = createTempIn_ok [OF t]
  have name: "stage_name root (f_name f)" if "r = Inr f" for f
    using T that by (auto simp: fresh_temp_def stage_name_def)
  have len: "length x \<noteq> length root + 75" if "length x \<le> length ?p - 1" for x :: string
    using that by (simp add: path_join_def stagingDir_def)
  have "bodies fs' root v = bodies fs root v" if "fs_wf fs" for v
  proof (cases r)
    case (Inl e)
    then show ?thesis using T by (simp add: same_names_def bodies_def content_def)
  next
    case (Inr f)
    have "Store_Path root v \<noteq> f_name f" using stage_not_body [OF name [OF Inr]] by metis
    then have "lookup fs' (Store_Path root v) = lookup fs (Store_Path root v)" using T Inr by (simp add: fresh_temp_def)
    moreover have "fs_inode fs' i = fs_inode fs i" if "lookup fs (Store_Path root v) = Some i" for i
      using T \<open>fs_wf fs\<close> that by (simp add: keeps_def fs_wf_def)
    ultimately show ?thesis by (cases "lookup fs (Store_Path root v)") (simp_all add: bodies_def content_def)
  qed
  then show b: "bodies fs' root = bodies fs root" if "fs_wf fs" using that by blast
  have "store_ok fs' root" if "store_ok fs root"
    using T that len length_Store_Path [of root] unfolding store_ok_def by metis
  then show "moves root {} A fs fs'"
    using framed_createTempIn [OF t, of root "{}"] b by (simp add: moves_def store_ok_def)
  show "f_ino f = fs_next fs" if "r = Inr f" using T that by (simp add: fresh_temp_def)
  show "upload_ok root fs' u" if "fs_wf fs" "r = Inr f" "up_file u = f" "up_sum u = []"
    using T that name [OF that(2)] by (auto simp: upload_ok_def fresh_temp_def fs_wf_def split: if_splits)
qed

text \<open>A write reaches no published body, and the hash is fed what the file got, even when the write fails half way.\<close>

lemma Upload_Write_ok:
  assumes "upload_ok root fs u" "store_ok fs root" "Upload_Write E p u fs = (r, u', fs')"
  shows "moves root {f_ino (up_file u)} A fs fs'" "upload_ok root fs' u'" "up_file u' = up_file u" "bodies fs' root = bodies fs root"
proof (atomize (full), cases "up_done u")
  case True
  then show "(moves root {f_ino (up_file u)} A fs fs' \<and> upload_ok root fs' u') \<and> up_file u' = up_file u \<and> bodies fs' root = bodies fs root"
    using assms(1,3) by (auto simp: Upload_Write_def)
next
  case False
  note U = upload_okD [OF assms(1)]
  obtain q fs1 where w: "os_Write E (up_file u) p fs = (q, fs1)" by fastforce
  note W = os_Write_cases [OF w]
  have d: "i_data (fs_inode fs1 (f_ino (up_file u))) = up_sum u @ take (written p q) p"
    using w U(4) [OF False] by (auto simp: os_Write_def Let_def written_def min_def split: option.splits)
  have out: "fs' = fs1" "up_file u' = up_file u" "up_done u' = up_done u" "up_sum u' = up_sum u @ take (written p q) p"
    using assms(3) False w by (auto simp: Upload_Write_def Let_def split: if_splits sum.splits)
  have "bodies fs1 root v = bodies fs root v" for v
  proof (cases "lookup fs (Store_Path root v)")
    case None
    then show ?thesis using W by (simp add: bodies_def content_def)
  next
    case (Some i)
    then have "i \<noteq> f_ino (up_file u)" using U(3) [OF False] stage_not_body [OF U(1)] by metis
    then show ?thesis using W Some by (simp add: bodies_def content_def)
  qed
  moreover have "store_ok fs1 root" using assms(2) W by (simp add: store_ok_def fs_wf_def)
  moreover have "framed root {f_ino (up_file u)} fs fs1" by (rule framed_write [OF w]) simp
  moreover have "upload_ok root fs1 u'" using U W d out unfolding upload_ok_def by simp
  ultimately show "(moves root {f_ino (up_file u)} A fs fs' \<and> upload_ok root fs' u') \<and> up_file u' = up_file u \<and> bodies fs' root = bodies fs root"
    using out by (simp add: moves_def fun_eq_iff)
qed

lemma Upload_Discard_moves:
  assumes "upload_ok root fs u" "Upload_Discard E u fs = (u', fs')"
  shows "moves root {f_ino (up_file u)} A fs fs'"
proof -
  obtain c fs1 q where c: "os_Close E (up_file u) fs = (c, fs1)" and q: "os_Remove E (f_name (up_file u)) fs1 = (q, fs')"
    using assms(2) by (auto simp: Upload_Discard_def Let_def split: prod.splits)
  have "lookup fs1 = lookup fs" by (rule same_files_lookup [OF os_Close_same [OF c]])
  then have "moves root {f_ino (up_file u)} A fs1 fs'" using moves_unlink [OF q] upload_okD(2) [OF assms(1)] by simp
  then show ?thesis using moves_trans [OF moves_Close [OF c]] by blast
qed

lemma Upload_Commit_moves:
  assumes "upload_ok (ce_root K) (c_fs c) u" "Upload_Commit K True clk during u c = (r, u', c')"
  shows "moves (ce_root K) {f_ino (up_file u)} addr (c_fs c) (c_fs c')" "up_file u' = up_file u" "up_done u'"
proof -
  note U = upload_okD [OF assms(1)]
  show "up_file u' = up_file u" "up_done u'"
    using assms(2) by (auto simp: Upload_Commit_def Let_def split: if_splits prod.splits sum.splits)
  show "moves (ce_root K) {f_ino (up_file u)} addr (c_fs c) (c_fs c')"
  proof (cases "up_done u")
    case True
    then show ?thesis using assms(2) by (simp add: Upload_Commit_def)
  next
    case False
    obtain q fs where q: "os_Close (ce_E K) (up_file u) (c_fs c) = (q, fs)" by fastforce
    note s = os_Close_same [OF q]
    note l = same_files_lookup [OF s]
    let ?v = "if up_kind u = KindCAS then up_digest u else sha256 (up_sum u)"
    have "c_fs c' = fs \<or> addr ?v (up_sum u) \<and> (\<exists>x. Cache_PutStaged K clk during (Kind_actionID (up_kind u) (up_digest u)) ?v
        (f_name (up_file u)) (up_off u) (c\<lparr>c_fs := fs\<rparr>) = (x, c'))"
      using assms(2) False q
      by (auto simp: Upload_Commit_def Let_def addr_def Digest_outputID_def split: if_splits prod.splits sum.splits)
    moreover have "moves (ce_root K) {f_ino (up_file u)} addr fs (c_fs c')"
      if a: "addr ?v (up_sum u)" and p: "Cache_PutStaged K clk during (Kind_actionID (up_kind u) (up_digest u)) ?v
        (f_name (up_file u)) (up_off u) (c\<lparr>c_fs := fs\<rparr>) = (x, c')" for x
    proof -
      have "content fs (f_name (up_file u)) = Some (up_sum u)"
        using U(2,4) False same_files_content [OF s] by (simp add: content_def)
      then show ?thesis using moves_PutStaged [OF p, of "{f_ino (up_file u)}" addr] a U(2) l by simp
    qed
    ultimately show ?thesis using moves_trans [OF moves_Close [OF q]] moves_Close [OF q] by blast
  qed
qed

text \<open>The staged name outlives the commit.\<close>

lemma Upload_Commit_name:
  assumes "upload_ok (ce_root K) (c_fs c) u" "store_ok (c_fs c) (ce_root K)" "Upload_Commit K True clk during u c = (r, u', c')"
  shows "lookup (c_fs c') (f_name (up_file u)) = Some (f_ino (up_file u))"
proof -
  note U = upload_okD(2) [OF assms(1)]
  obtain q fs where q: "os_Close (ce_E K) (up_file u) (c_fs c) = (q, fs)" by fastforce
  note s = os_Close_same [OF q]
  have "c_fs c' = c_fs c \<or> c_fs c' = fs
      \<or> (\<exists>v x. Store_Adopt (ce_E K) (ce_root K) v (f_name (up_file u)) (up_off u) fs = (x, c_fs c'))"
    using assms(3) q
    by (auto simp: Upload_Commit_def Cache_PutStaged_def Let_def split: if_splits prod.splits sum.splits)
  then show ?thesis
  proof (elim disjE exE)
    fix v x assume "Store_Adopt (ce_E K) (ce_root K) v (f_name (up_file u)) (up_off u) fs = (x, c_fs c')"
    then have "keeps fs (c_fs c')" using Store_Adopt_bodies(2) store_ok_same_files [OF s assms(2)] by blast
    then show ?thesis using U same_files_lookup [OF s] by (simp add: keeps_def)
  qed (use U same_files_lookup [OF s] in simp_all)
qed

section \<open>Steps\<close>

text \<open>
  A cache with the uploads that are open, by handle. Each step is one call of one client, or one
  piece of maintenance; whatever the daemon does is a sequence of them.
\<close>

type_synonym ('db, 'r) bazel_sys = "('db, 'r) cache \<times> (nat \<rightharpoonup> Upload)"

inductive bazel_step :: "('db, 'r) cache_env \<Rightarrow> ('db, 'r) bazel_sys \<Rightarrow> ('db, 'r) bazel_sys \<Rightarrow> bool" for K where
  beginUpload: "bazel_Begin K k d c = (Inr u, c') \<Longrightarrow> ups h = None \<Longrightarrow> bazel_step K (c, ups) (c', ups(h \<mapsto> u))"
| beginFails: "bazel_Begin K k d c = (Inl err, c') \<Longrightarrow> bazel_step K (c, ups) (c', ups)"
| writePiece: "ups h = Some u \<Longrightarrow> Upload_Write (ce_E K) p u (c_fs c) = (r, u', fs) \<Longrightarrow>
    bazel_step K (c, ups) (c\<lparr>c_fs := fs\<rparr>, ups(h \<mapsto> u'))"
| commit: "ups h = Some u \<Longrightarrow> Upload_Commit K True clk during u c = (r, u', c') \<Longrightarrow>
    bazel_step K (c, ups) (c', ups(h \<mapsto> u'))"
| discard: "ups h = Some u \<Longrightarrow> Upload_Discard (ce_E K) u (c_fs c) = (u', fs) \<Longrightarrow>
    bazel_step K (c, ups) (c\<lparr>c_fs := fs\<rparr>, ups(h := None))"
| openBody: "bazel_Open K clk k d c = (r, c') \<Longrightarrow> bazel_step K (c, ups) (c', ups)"
| has: "bazel_Has K clk k d c = (r, c') \<Longrightarrow> bazel_step K (c, ups) (c', ups)"
| hasRemote: "bazel_HasRemote K k d c = (r, c') \<Longrightarrow> bazel_step K (c, ups) (c', ups)"
| upload: "bazel_step K (c, ups) (Cache_upload K c, ups)"
| touches: "bazel_step K (c, ups) (Cache_touches K now c, ups)"
| reconcile: "Cache_Reconcile K ctxErr now c = (r, c') \<Longrightarrow> bazel_step K (c, ups) (c', ups)"
| evictWith: "Cache_EvictWith fuel K ctxErr clk maxBytes ttl c = Some (r, c') \<Longrightarrow> bazel_step K (c, ups) (c', ups)"

definition sys_inv :: "('db, 'r) cache_env \<Rightarrow> ('db, 'r) bazel_sys \<Rightarrow> bool" where
  "sys_inv K = (\<lambda>(c, ups). store_ok (c_fs c) (ce_root K) \<and> addressed (c_fs c) (ce_root K)
     \<and> (\<forall>h u. ups h = Some u \<longrightarrow> upload_ok (ce_root K) (c_fs c) u)
     \<and> (\<forall>h g u w. ups h = Some u \<longrightarrow> ups g = Some w \<longrightarrow> f_ino (up_file u) = f_ino (up_file w) \<longrightarrow> h = g))"

text \<open>A step that works on the file of one upload, or on none, and is told what became of that upload.\<close>

lemma sys_inv_move:
  assumes "sys_inv K (c, ups)" "moves (ce_root K) X addr (c_fs c) (c_fs c')"
    and "\<And>g u. ups' g = Some u \<Longrightarrow> g \<noteq> h \<Longrightarrow> ups g = Some u \<and> f_ino (up_file u) \<notin> X"
    and "\<And>u. ups' h = Some u \<Longrightarrow> upload_ok (ce_root K) (c_fs c') u
      \<and> (\<forall>g w. g \<noteq> h \<longrightarrow> ups g = Some w \<longrightarrow> f_ino (up_file w) \<noteq> f_ino (up_file u))"
  shows "sys_inv K (c', ups')"
proof -
  have I: "store_ok (c_fs c) (ce_root K)" "addressed (c_fs c) (ce_root K)" "fs_wf (c_fs c)"
    "\<And>h u. ups h = Some u \<Longrightarrow> upload_ok (ce_root K) (c_fs c) u"
    "\<And>h g u w. ups h = Some u \<Longrightarrow> ups g = Some w \<Longrightarrow> f_ino (up_file u) = f_ino (up_file w) \<Longrightarrow> h = g"
    using assms(1) unfolding sys_inv_def store_ok_def by auto
  note M = movesD [OF assms(2) I(1)]
  have "upload_ok (ce_root K) (c_fs c') u" if "ups' g = Some u" for g u
  proof (cases "g = h")
    case False
    then show ?thesis using upload_ok_framed [OF I(4) M(2) I(3)] assms(3) [OF that] by blast
  qed (use assms(4) that in blast)
  moreover have "g = k" if "ups' g = Some u" "ups' k = Some w" "f_ino (up_file u) = f_ino (up_file w)" for g k u w
    using that assms(3,4) I(5) by metis
  ultimately show ?thesis using M(1) moves_addressed [OF assms(2) I(1,2)] unfolding sys_inv_def by auto
qed

text \<open>Most steps touch no open upload.\<close>

lemma sys_inv_same: "sys_inv K (c, ups) \<Longrightarrow> moves (ce_root K) {} addr (c_fs c) (c_fs c') \<Longrightarrow> sys_inv K (c', ups)"
proof -
  assume I: "sys_inv K (c, ups)" and M: "moves (ce_root K) {} addr (c_fs c) (c_fs c')"
  then have "store_ok (c_fs c) (ce_root K)" "\<forall>h u. ups h = Some u \<longrightarrow> upload_ok (ce_root K) (c_fs c) u" unfolding sys_inv_def by auto
  then have "upload_ok (ce_root K) (c_fs c') u" if "ups h = Some u" for h u
    using upload_ok_framed movesD(2) [OF M] that unfolding store_ok_def by blast
  moreover have "f_ino (up_file w) \<noteq> f_ino (up_file u)" if "ups h = Some u" "ups g = Some w" "g \<noteq> h" for g h u w
    using I that unfolding sys_inv_def by auto
  ultimately show ?thesis by (intro sys_inv_move [OF I M, where h = 0]) blast+
qed

lemma bazel_step_inv:
  assumes "bazel_step K x y" "tier_addressed (ce_rem K)" "sys_inv K x"
  shows "sys_inv K y"
  using assms(1)
proof cases
  case (beginUpload k d c u c' ups h)
  have I: "sys_inv K (c, ups)" using assms(3) beginUpload by simp
  then have wf: "fs_wf (c_fs c)" and U: "\<And>h u. ups h = Some u \<Longrightarrow> upload_ok (ce_root K) (c_fs c) u"
    unfolding sys_inv_def store_ok_def by auto
  obtain f fs where s: "Store_Stage (ce_E K) (ce_root K) (c_fs c) = (Inr f, fs)" and c': "c' = c\<lparr>c_fs := fs\<rparr>"
    and u: "up_file u = f" "up_sum u = []" using beginUpload(3) by (auto simp: bazel_Begin_def split: prod.splits sum.splits)
  note S = moves_Stage [OF s]
  show ?thesis unfolding beginUpload
  proof (rule sys_inv_move [OF I, where X = "{}" and h = h])
    show "moves (ce_root K) {} addr (c_fs c) (c_fs c')" using S(1) c' by simp
    have "f_ino (up_file w) \<noteq> f_ino (up_file u)" if "ups g = Some w" for g w
    proof -
      have "f_ino (up_file w) < fs_next (c_fs c)" using upload_okD(2) [OF U [OF that]] wf unfolding fs_wf_def by blast
      then show ?thesis using S(3) [OF wf refl] u by simp
    qed
    moreover have "upload_ok (ce_root K) (c_fs c') u" using S(4) [OF wf refl u] c' by simp
    ultimately show "upload_ok (ce_root K) (c_fs c') v \<and> (\<forall>g w. g \<noteq> h \<longrightarrow> ups g = Some w \<longrightarrow> f_ino (up_file w) \<noteq> f_ino (up_file v))"
      if "(ups(h \<mapsto> u)) h = Some v" for v
      using that by simp
  qed simp
next
  case (beginFails k d c err c' ups)
  then have "Store_Stage (ce_E K) (ce_root K) (c_fs c) = (Inl err, c_fs c')"
    by (auto simp: bazel_Begin_def split: prod.splits sum.splits)
  then show ?thesis using moves_Stage(1) sys_inv_same assms(3) beginFails by metis
next
  case (writePiece ups h u p c r u' fs)
  have I: "sys_inv K (c, ups)" using assms(3) writePiece by simp
  then have "upload_ok (ce_root K) (c_fs c) u" "store_ok (c_fs c) (ce_root K)" using writePiece(3) unfolding sys_inv_def by auto
  note W = Upload_Write_ok [OF this writePiece(4)]
  have D: "f_ino (up_file w) \<noteq> f_ino (up_file u)" if "ups g = Some w" "g \<noteq> h" for g w
    using I that writePiece(3) unfolding sys_inv_def by auto
  show ?thesis unfolding writePiece
    by (rule sys_inv_move [OF I, where X = "{f_ino (up_file u)}" and h = h]) (use W D in auto)
next
  case (commit ups h u clk during c r u' c')
  have I: "sys_inv K (c, ups)" using assms(3) commit by simp
  then have U: "upload_ok (ce_root K) (c_fs c) u" and ok: "store_ok (c_fs c) (ce_root K)" using commit(3) unfolding sys_inv_def by auto
  note W = Upload_Commit_moves [OF U commit(4)]
  have D: "f_ino (up_file w) \<noteq> f_ino (up_file u)" if "ups g = Some w" "g \<noteq> h" for g w
    using I that commit(3) unfolding sys_inv_def by auto
  have "lookup (c_fs c') (f_name (up_file u)) = Some (f_ino (up_file u))"
    using Upload_Commit_name [OF U ok commit(4)] .
  then have "upload_ok (ce_root K) (c_fs c') u'" using upload_okD(1) [OF U] W(2,3) by (simp add: upload_ok_def)
  then show ?thesis unfolding commit
    by (intro sys_inv_move [OF I W(1), where h = h]) (use W D in auto)
next
  case (discard ups h u c u' fs)
  have I: "sys_inv K (c, ups)" using assms(3) discard by simp
  then have U: "upload_ok (ce_root K) (c_fs c) u" using discard(3) unfolding sys_inv_def by auto
  have D: "f_ino (up_file w) \<noteq> f_ino (up_file u)" if "ups g = Some w" "g \<noteq> h" for g w
    using I that discard(3) unfolding sys_inv_def by auto
  show ?thesis unfolding discard
    by (rule sys_inv_move [OF I, where X = "{f_ino (up_file u)}" and h = h])
       (use Upload_Discard_moves [OF U discard(4)] D in auto)
next
  case (openBody clk k d c r c' ups)
  then have "\<exists>q. Cache_Open K clk (Kind_actionID k d) c = (q, c')" by (auto simp: bazel_Open_def split: prod.splits option.splits)
  then show ?thesis using moves_Cache_Open [OF assms(2)] sys_inv_same assms(3) openBody by metis
next
  case (has clk k d c r c' ups)
  then show ?thesis using moves_Cache_Has sys_inv_same assms(3) by (metis bazel_Has_def)
next
  case (hasRemote k d c r c' ups)
  then have "c_fs c' = c_fs c" using fs_HasRemote by (metis bazel_HasRemote_def)
  then show ?thesis using sys_inv_same assms(3) hasRemote by (metis moves_refl)
next
  case (upload c ups)
  then show ?thesis using sys_inv_same moves_upload assms(3) by metis
next
  case (touches c ups now)
  then show ?thesis using sys_inv_same assms(3) by (metis fs_touches moves_refl)
next
  case (reconcile ctxErr now c r c' ups)
  then show ?thesis using sys_inv_same moves_Reconcile assms(3) by metis
next
  case (evictWith fuel ctxErr clk maxBytes ttl c r c' ups)
  then show ?thesis using sys_inv_same moves_EvictWith assms(3) by metis
qed

end
