(* ===== verification/Bazel_Theorems.thy ===== *)
theory Bazel_Theorems
  imports Content_Theorems
begin

text \<open>
  The Bazel adapter over HTTP: what is put is what is got, a body that does not hash to its digest
  is refused and leaves nothing behind, and every body of the store hashes to its name whatever the
  order in which uploads, reads and evictions happen.
\<close>

section \<open>An upload that nothing disturbs\<close>

definition stagePath :: "string \<Rightarrow> string" where
  "stagePath root = path_join (path_join root stagingDir) ''body''"

lemma Store_Stage_succeeds:
  assumes "no_faults E" "clear_way E fs (stagePath root)"
  shows "\<exists>s fs'. Store_Stage E root fs = (Inr \<lparr>f_name = stagePath root @ tempMarker @ s, f_ino = fs_next fs\<rparr>, fs')"
proof -
  have "slash \<notin> set ''body''" "path_join root stagingDir \<noteq> []" by (simp_all add: slash_def path_join_def)
  then show ?thesis
    using createTempIn_free [OF assms, of "path_join root stagingDir" "''body''"] by (auto simp: Store_Stage_def stagePath_def)
qed

lemma linkIn_succeeds:
  assumes "no_faults E" "lookup fs src = Some i" "os_dev E src = os_dev E path" "path = path_join d n" "slash \<notin> set n" "d \<noteq> []"
    and "linkIn E src path fs = (r, fs')"
  shows "r = Inr () \<or> r = Inl ErrExist"
proof -
  have dn: "dirname path = d" using assms(4,5) by simp
  have link: "q = Inr () \<or> q = Inl ErrExist \<or> q = Inl ErrNotExist \<and> d \<notin> set (fs_dirs g)"
    if "os_Link E src path g = (q, g')" "lookup g src = Some i" for q g g'
    using that assms(1,3) dn by (auto simp: os_Link_def syscall_def Let_def no_faults_def lookup_def split: if_splits)
  obtain q fs1 where q: "os_Link E src path fs = (q, fs1)" by fastforce
  show ?thesis
  proof (cases "q = Inl ErrNotExist")
    case False
    then show ?thesis using link [OF q assms(2)] q assms(7) by (auto simp: linkIn_def)
  next
    case True
    obtain m fs2 where m: "os_MkdirAll E d fs1 = (m, fs2)" by fastforce
    note M = os_MkdirAll_cases [OF m]
    have mr: "m = Inr ()" using m assms(1) by (auto simp: os_MkdirAll_def syscall_def Let_def no_faults_def)
    have "lookup fs1 = lookup fs" using os_Link_cases [OF q] True same_files_lookup [of fs fs1] by simp
    then have "lookup fs2 src = Some i" "d \<in> set (fs_dirs fs2)" using M mr assms(2,6) by simp_all
    moreover have "os_Link E src path fs2 = (r, fs')" using assms(7) q True m mr dn by (simp add: linkIn_def)
    ultimately show ?thesis using link by blast
  qed
qed

lemma Store_Adopt_succeeds:
  assumes "store_ok fs root" "no_faults E" "content fs src = Some d" "int (length d) = sz"
    and "os_dev E src = os_dev E (Store_Path root v)" "Store_Adopt E root v src sz fs = (r, fs')"
  shows "\<exists>n linked. r = Inr (Store_Path root v, n, linked) \<and> 0 \<le> n"
proof -
  let ?p = "Store_Path root v"
  obtain i where i: "lookup fs src = Some i" "i_data (fs_inode fs i) = d" using assms(3) by (auto simp: content_def)
  obtain st fs1 where st: "os_Stat E src fs = (st, fs1)" by fastforce
  have s1: "same_files fs fs1" using os_Stat_cases [OF st] by blast
  obtain fi where fi: "st = Inr fi" "fi_Size fi = sz"
    using st assms(2,4) i by (auto simp: os_Stat_def syscall_def Let_def no_faults_def lookup_def file_info_def)
  obtain lk fs2 where lk: "linkIn E src ?p fs1 = (lk, fs2)" by fastforce
  have "path_join (path_join root outputDir) (take 2 (id_String v)) \<noteq> []" by (simp add: path_join_def)
  then consider "lk = Inr ()" | "lk = Inl ErrExist"
    using linkIn_succeeds [OF assms(2) _ assms(5) Store_Path_split slash_id(1) _ lk] same_files_lookup [OF s1] i(1) by auto
  then show ?thesis
  proof cases
    case 1
    then show ?thesis using assms(4,6) st fi lk diskBytes_ge [of fi] by (auto simp: Store_Adopt_def Let_def)
  next
    case 2
    note L = linkIn_ok [OF lk]
    have "?p \<notin> set (fs_dirs fs2)"
      using L s1 assms(1) length_Store_Path [of root v] by (fastforce simp: store_ok_def same_files_def)
    then obtain j where j: "lookup fs2 ?p = Some j" using L 2 by auto
    obtain q fs3 where q: "os_Stat E ?p fs2 = (q, fs3)" by fastforce
    obtain fj where "q = Inr fj" "0 \<le> fi_Size fj"
      using q assms(2) j by (auto simp: os_Stat_def syscall_def Let_def no_faults_def lookup_def file_info_def)
    then show ?thesis using assms(6) st fi lk 2 q diskBytes_ge [of fj] by (auto simp: Store_Adopt_def Let_def)
  qed
qed

text \<open>Received piece by piece: no error means that every byte is in the file and in the hash.\<close>

lemma copyLoop_grows: "copyLoop E ps rerr u fs = (e, u', fs') \<Longrightarrow> length (up_sum u) \<le> length (up_sum u')"
proof (induction ps arbitrary: u fs)
  case (Cons p ps)
  obtain n err u1 fs1 where w: "Upload_Write E p u fs = ((n, err), u1, fs1)" by (metis surj_pair)
  then have "length (up_sum u) \<le> length (up_sum u1)"
    by (auto simp: Upload_Write_def Let_def split: if_splits prod.splits)
  then show ?case using Cons.prems Cons.IH [of u1 fs1] w by (auto split: option.splits)
qed simp

lemma copyLoop_bytes:
  "copyLoop E ps rerr u fs = (e, u', fs') \<Longrightarrow> up_kind u' = up_kind u \<and> up_digest u' = up_digest u \<and> up_file u' = up_file u
     \<and> up_done u' = up_done u \<and> (e = None \<longrightarrow> rerr = None \<and> up_sum u' = up_sum u @ concat ps)
     \<and> (up_off u = int (length (up_sum u)) \<longrightarrow> in64 (int (length (up_sum u'))) \<longrightarrow> up_off u' = int (length (up_sum u')))"
proof (induction ps arbitrary: u fs)
  case (Cons p ps)
  obtain n err u1 fs1 where w: "Upload_Write E p u fs = ((n, err), u1, fs1)" by (metis surj_pair)
  have u1: "up_kind u1 = up_kind u" "up_digest u1 = up_digest u" "up_file u1 = up_file u" "up_done u1 = up_done u"
    and s1: "up_sum u1 = up_sum u @ take n p" "n \<le> length p" "err = None \<Longrightarrow> n = length p"
    and o1: "up_off u1 = (if n > 0 then add64 (up_off u) (int n) else up_off u)"
    using w by (auto simp: Upload_Write_def Let_def written_def split: if_splits sum.splits prod.splits error.splits)
  have off: "up_off u1 = int (length (up_sum u1))" if "up_off u = int (length (up_sum u))" "in64 (int (length (up_sum u1)))"
    using that s1(1,2) o1 by (auto simp: add64_exact)
  show ?case
  proof (cases err)
    case (Some x)
    then show ?thesis using Cons.prems w u1 off by auto
  next
    case None
    then have l: "copyLoop E ps rerr u1 fs1 = (e, u', fs')" using Cons.prems w by simp
    have "length (up_sum u1) \<le> length (up_sum u')" using copyLoop_grows [OF l] .
    then have "in64 (int (length (up_sum u')) ) \<longrightarrow> in64 (int (length (up_sum u1)))" by (auto simp: in64_def)
    then show ?thesis using Cons.IH [OF l] u1 s1 None off by auto
  qed
qed auto

lemma copyLoop_ok:
  "copyLoop E ps rerr u fs = (e, u', fs') \<Longrightarrow> upload_ok root fs u \<Longrightarrow> store_ok fs root \<Longrightarrow>
     store_ok fs' root \<and> upload_ok root fs' u' \<and> bodies fs' root = bodies fs root"
proof (induction ps arbitrary: u fs)
  case (Cons p ps)
  obtain n err u1 fs1 where w: "Upload_Write E p u fs = ((n, err), u1, fs1)" by (metis surj_pair)
  note W = Upload_Write_ok [OF Cons.prems(2,3) w]
  have ok1: "store_ok fs1 root" using movesD(1) [OF W(1) Cons.prems(3)] .
  show ?case
  proof (cases err)
    case (Some x)
    then show ?thesis using Cons.prems(1) w W ok1 by simp
  next
    case None
    then have "copyLoop E ps rerr u1 fs1 = (e, u', fs')" using Cons.prems(1) w by simp
    then show ?thesis using Cons.IH W(2,4) ok1 by simp
  qed
qed simp

lemma copyLoop_succeeds:
  "no_faults E \<Longrightarrow> \<not> up_done u \<Longrightarrow> \<exists>u' fs'. copyLoop E ps None u fs = (None, u', fs')"
proof (induction ps arbitrary: u fs)
  case (Cons p ps)
  obtain n u1 fs1 where w: "Upload_Write E p u fs = ((n, None), u1, fs1)" "\<not> up_done u1"
    using Cons.prems by (auto simp: Upload_Write_def os_Write_def Let_def no_faults_def split: if_splits)
  then show ?case using Cons.IH [OF Cons.prems(1) w(2)] by simp
qed simp

lemma Upload_Discard_bodies:
  assumes "stage_name root (f_name (up_file u))" "store_ok fs root" "Upload_Discard E u fs = (u', fs')"
  shows "store_ok fs' root" "bodies fs' root = bodies fs root"
proof -
  obtain c fs1 q where c: "os_Close E (up_file u) fs = (c, fs1)" and q: "os_Remove E (f_name (up_file u)) fs1 = (q, fs')"
    using assms(3) by (auto simp: Upload_Discard_def Let_def split: prod.splits)
  note s = os_Close_same [OF c] and R = os_Remove_cases [OF q]
  show "store_ok fs' root" using R store_ok_same_files [OF s assms(2)] by (simp add: store_ok_def)
  have "lookup fs' (Store_Path root v) = lookup fs1 (Store_Path root v)" for v
    using R same_files_lookup [of fs1 fs'] stage_not_body [OF assms(1), of v] by (cases q) auto
  then show "bodies fs' root = bodies fs root"
    using R bodies_same_files [OF s, of root] by (auto simp: bodies_def content_def fun_eq_iff)
qed

lemma cache_repr_bodies:
  assumes "cache_repr K c s" "store_ok fs (ce_root K)" "bodies fs (ce_root K) = bodies (c_fs c) (ce_root K)"
  shows "cache_repr K (c\<lparr>c_fs := fs\<rparr>) s"
  using assms by (simp add: cache_repr_def)

section \<open>The phases of a put\<close>

text \<open>From an open cache to a staged file that holds the whole body.\<close>

lemma receive_succeeds:
  assumes "no_faults (ce_E K)" "store_ok (c_fs c) (ce_root K)" "clear_way (ce_E K) (c_fs c) (stagePath (ce_root K))"
    and "in64 (int (length (concat ps)))"
  shows "\<exists>u0 fs0 u fs. bazel_Begin K k d c = (Inr u0, c\<lparr>c_fs := fs0\<rparr>) \<and> copyLoop (ce_E K) ps None u0 fs0 = (None, u, fs)
    \<and> up_kind u = k \<and> up_digest u = d \<and> up_sum u = concat ps \<and> up_off u = int (length (concat ps)) \<and> \<not> up_done u
    \<and> (\<exists>t. f_name (up_file u) = stagePath (ce_root K) @ tempMarker @ t) \<and> upload_ok (ce_root K) fs u
    \<and> store_ok fs (ce_root K) \<and> bodies fs (ce_root K) = bodies (c_fs c) (ce_root K)"
proof -
  obtain t fs0 where st: "Store_Stage (ce_E K) (ce_root K) (c_fs c)
      = (Inr \<lparr>f_name = stagePath (ce_root K) @ tempMarker @ t, f_ino = fs_next (c_fs c)\<rparr>, fs0)"
    using Store_Stage_succeeds [OF assms(1,3)] by blast
  let ?f = "\<lparr>f_name = stagePath (ce_root K) @ tempMarker @ t, f_ino = fs_next (c_fs c)\<rparr>"
  let ?u = "\<lparr>up_kind = k, up_digest = d, up_file = ?f, up_sum = [], up_off = 0, up_done = False\<rparr>"
  have wf: "fs_wf (c_fs c)" using assms(2) by (simp add: store_ok_def)
  have b: "bazel_Begin K k d c = (Inr ?u, c\<lparr>c_fs := fs0\<rparr>)" using st by (simp add: bazel_Begin_def)
  have ok0: "upload_ok (ce_root K) fs0 ?u" using moves_Stage(4) [OF st wf refl, of ?u] by simp
  have st0: "store_ok fs0 (ce_root K)" using movesD(1) [OF moves_Stage(1) [OF st] assms(2)] .
  obtain u fs where cl: "copyLoop (ce_E K) ps None ?u fs0 = (None, u, fs)" using copyLoop_succeeds [OF assms(1), of ?u ps fs0] by auto
  note B = copyLoop_bytes [OF cl] and O = copyLoop_ok [OF cl ok0 st0]
  show ?thesis using b cl B O moves_Stage(2) [OF st wf] assms(4)
    by (intro exI [of _ ?u] exI [of _ fs0] exI [of _ u] exI [of _ fs]) simp
qed

text \<open>From the staged file to an indexed body.\<close>

lemma Upload_Commit_serves:
  assumes "env_ok K" "pebble_healthy (ce_P K)" "no_faults (ce_E K)" "cache_repr K c s" "room K c" "\<not> ix_closed (c_idx c)"
    and "in64 (clk 0)" "0 \<le> clk 0" "upload_ok (ce_root K) (c_fs c) u" "\<not> up_done u" "up_off u = int (length (up_sum u))" "in64 (up_off u)"
    and "v = (if up_kind u = KindCAS then up_digest u else sha256 (up_sum u))"
    and "verify \<Longrightarrow> up_kind u = KindCAS \<Longrightarrow> sha256 (up_sum u) = up_digest u"
    and "os_dev (ce_E K) (f_name (up_file u)) = os_dev (ce_E K) (Store_Path (ce_root K) v)"
    and "bodies (c_fs c) (ce_root K) v = None \<or> bodies (c_fs c) (ce_root K) v = Some (up_sum u)"
  shows "\<exists>u' c' s'. Upload_Commit K verify clk during u c = (None, u', c') \<and> cache_repr K c' s' \<and> \<not> ix_closed (c_idx c')
    \<and> ents s' (Kind_actionID (up_kind u) (up_digest u)) = Some \<lparr>OutputID = v, Size = up_off u, CreatedAt = clk 0, LastUsedAt = clk 0\<rparr>
    \<and> bodies (c_fs c') (ce_root K) v = Some (up_sum u) \<and> up_file u' = up_file u"
proof -
  note C = cache_reprD [OF assms(4)] and U = upload_okD [OF assms(9)]
  obtain cl fs where cl: "os_Close (ce_E K) (up_file u) (c_fs c) = (cl, fs)" by fastforce
  note s = os_Close_same [OF cl]
  have clr: "cl = Inr ()" using cl assms(3) by (auto simp: os_Close_def syscall_def Let_def no_faults_def)
  have src: "content fs (f_name (up_file u)) = Some (up_sum u)"
    using U(2,4) assms(10) same_files_content [OF s] by (simp add: content_def)
  have st: "store_ok fs (ce_root K)" by (rule store_ok_same_files [OF s C(3)])
  have bs: "bodies fs (ce_root K) = bodies (c_fs c) (ce_root K)" by (rule bodies_same_files [OF s])
  obtain r fs2 where ad: "Store_Adopt (ce_E K) (ce_root K) v (f_name (up_file u)) (up_off u) fs = (r, fs2)" by fastforce
  obtain n linked where n: "r = Inr (Store_Path (ce_root K) v, n, linked)" "0 \<le> n"
    using Store_Adopt_succeeds [OF st assms(3) src assms(11) [symmetric] assms(15) ad] by blast
  note A = Store_Adopt_bodies [OF st ad] and P = Store_Adopt_publishes [OF st ad]
  have lt: "int (length (up_sum u)) < 2 ^ 63" using assms(11,12) by (simp add: in64_def)
  then have "in64 n" using A(3) [OF n(1)] assms(12,16) bs by auto
  have b2: "bodies fs2 (ce_root K) v = Some (up_sum u)"
    using A(3) [OF n(1)] P assms(16) bs src by (auto simp: publish_def split: option.splits)
  have g: "cache_repr K (c\<lparr>c_fs := fs2\<rparr>) s"
    using cache_repr_grows [OF cache_repr_same_files [OF s assms(4)], of fs2] A(1,2) by simp
  let ?c = "Cache_record K clk during (Kind_actionID (up_kind u) (up_digest u)) v (Store_Path (ce_root K) v) (up_off u) n (c\<lparr>c_fs := fs2\<rparr>)"
  note R = Cache_record_serves [where clk = clk and v = v and n = n, OF assms(1,2) g _ _ assms(7,8,12) _ \<open>in64 n\<close> n(2)]
  have "Upload_Commit K verify clk during u c = (None, u\<lparr>up_done := True\<rparr>, ?c)"
    using assms(10,13,14) cl clr ad n
    by (auto simp: Upload_Commit_def Let_def Cache_PutStaged_def Digest_outputID_def)
  then show ?thesis
    using R [of during "Kind_actionID (up_kind u) (up_digest u)" "Store_Path (ce_root K) v"] assms(5,6,11) b2
    by (intro exI [of _ "u\<lparr>up_done := True\<rparr>"] exI [of _ ?c] exI) (auto simp: spec_put_def)
qed

lemma Cache_Open_local:
  assumes "env_ok K" "pebble_healthy (ce_P K)" "no_faults (ce_E K)" "cache_repr K c s" "\<not> ix_closed (c_idx c)"
    and "ents s a = Some e" "bodies (c_fs c) (ce_root K) (OutputID e) = Some d"
  shows "\<exists>f x c'. Cache_Open K clk a c = (Some (f, x), c') \<and> res_Size x = int (length d)
    \<and> i_data (fs_inode (c_fs c') (f_ino f)) = d"
proof -
  obtain q fs where q: "Store_Open (ce_E K) (ce_root K) (OutputID e) (c_fs c) = (q, fs)" by fastforce
  obtain i where "lookup (c_fs c) (Store_Path (ce_root K) (OutputID e)) = Some i" using assms(7) by (auto simp: bodies_def content_def)
  then obtain f n where f: "q = Inr (f, n)"
    using q assms(3) by (auto simp: Store_Open_def os_Open_def os_Fstat_def syscall_def Let_def no_faults_def lookup_def)
  note B = Store_Open_bodies [OF q [unfolded f]]
  have "bodies fs (ce_root K) = bodies (c_fs c) (ce_root K)" using Store_Open_cases [OF q] bodies_same_files by blast
  then show ?thesis
    using Get_healthy [OF env_okD(1) [OF assms(1)] assms(2) cache_reprD(1) [OF assms(4)] assms(5), of a] assms(6,7) q f B
    by (simp add: Cache_Open_def)
qed

section \<open>Paths\<close>

lemma cut_first: "x \<notin> set a \<Longrightarrow> cut x (a @ x # b) = Some (a, b)"
  by (induction a) auto

definition cachePath :: "Kind \<Rightarrow> Digest \<Rightarrow> string" where
  "cachePath k d = ''/'' @ Kind_String k @ ''/'' @ id_String d"

lemma parsePath_cachePath [simp]: "parsePath (cachePath k d) = Some (k, d)"
proof -
  have "CHR ''/'' \<notin> set (Kind_String k)" by (cases k) (simp_all add: Kind_String_def)
  then show ?thesis using cut_first [of "CHR ''/''" "Kind_String k" "id_String d"]
    by (cases k) (simp_all add: parsePath_def cachePath_def Kind_String_def)
qed

section \<open>Put, then get\<close>

lemma bazel_Has_absent:
  assumes "env_ok K" "pebble_healthy (ce_P K)" "cache_repr K c s" "room K c" "\<not> ix_closed (c_idx c)" "ents s (Kind_actionID k d) = None"
  shows "\<exists>p. bazel_Has K clk k d c = (False, c\<lparr>c_present := p\<rparr>) \<and> cache_repr K (c\<lparr>c_present := p\<rparr>) s \<and> room K (c\<lparr>c_present := p\<rparr>)"
proof -
  let ?a = "Kind_actionID k d"
  note C = cache_reprD [OF assms(3)]
  have "\<not> current (c_present c) ?a" using C(7) assms(6) by blast
  then have "fst (presence_lookup (c_present c) ?a (clk 0)) = None" using presence_lookup_None fresh_current by blast
  then obtain p where p: "presence_lookup (c_present c) ?a (clk 0) = (None, p)" by (metis prod.collapse)
  then have h: "bazel_Has K clk k d c = (False, c\<lparr>c_present := p\<rparr>)"
    using Get_healthy [OF env_okD(1) [OF assms(1)] assms(2) C(1) assms(5), of ?a] assms(6)
    by (simp add: bazel_Has_def Cache_Has_def Let_def)
  have "cache_repr K (c\<lparr>c_present := p\<rparr>) s"
    using Cache_Has_repr(1) [OF env_okD(1) [OF assms(1)] assms(3)] h by (simp add: bazel_Has_def)
  moreover have "pr_gen p = pr_gen (c_present c)"
    using p by (auto simp: presence_lookup_def Let_def split: option.splits if_splits)
  then have "room K (c\<lparr>c_present := p\<rparr>)" using assms(4) by (simp add: room_def spec_room_def)
  ultimately show ?thesis using h by blast
qed

text \<open>Nothing is in the way of an upload: no name of the staging area is taken, and the store is one device.\<close>

definition staging_clear :: "osenv \<Rightarrow> fsys \<Rightarrow> string \<Rightarrow> bool" where
  "staging_clear E fs root \<longleftrightarrow> clear_way E fs (stagePath root)
     \<and> (\<forall>t v. os_dev E (stagePath root @ tempMarker @ t) = os_dev E (Store_Path root v))"

lemma bazel_Put_serves:
  assumes "env_ok K" "pebble_healthy (ce_P K)" "no_faults (ce_E K)" "cache_repr K c s" "room K c" "\<not> ix_closed (c_idx c)"
    and "in64 (clk 2)" "0 \<le> clk 2" "staging_clear (ce_E K) (c_fs c) (ce_root K)" "in64 (int (length (concat ps)))"
    and "k = KindCAS \<Longrightarrow> ents s (Kind_actionID k d) = None" "verify \<Longrightarrow> k = KindCAS \<Longrightarrow> sha256 (concat ps) = d"
    and "v = (if k = KindCAS then d else sha256 (concat ps))"
    and "bodies (c_fs c) (ce_root K) v = None \<or> bodies (c_fs c) (ce_root K) v = Some (concat ps)"
  shows "\<exists>c' s'. bazel_Put K verify clk during k d (ps, None) c = (None, c') \<and> cache_repr K c' s' \<and> \<not> ix_closed (c_idx c')
    \<and> ents s' (Kind_actionID k d) = Some \<lparr>OutputID = v, Size = int (length (concat ps)), CreatedAt = clk 2, LastUsedAt = clk 2\<rparr>
    \<and> bodies (c_fs c') (ce_root K) v = Some (concat ps)"
proof -
  obtain c1 where c1: "(if k = KindCAS then bazel_Has K clk k d c else (False, c)) = (False, c1)" "cache_repr K c1 s" "room K c1"
      "c_fs c1 = c_fs c" "c_idx c1 = c_idx c"
  proof (cases "k = KindCAS")
    case True
    then show thesis using bazel_Has_absent [OF assms(1,2,4-6) assms(11), of clk] that by fastforce
  next
    case False
    then show thesis using that [of c] assms(4,5) by simp
  qed
  have cl: "clear_way (ce_E K) (c_fs c1) (stagePath (ce_root K))" using assms(9) c1(4) by (simp add: staging_clear_def)
  obtain u0 fs0 u fs t where B: "bazel_Begin K k d c1 = (Inr u0, c1\<lparr>c_fs := fs0\<rparr>)" "copyLoop (ce_E K) ps None u0 fs0 = (None, u, fs)"
    and u: "up_kind u = k" "up_digest u = d" "up_sum u = concat ps" "up_off u = int (length (concat ps))" "\<not> up_done u"
      "f_name (up_file u) = stagePath (ce_root K) @ tempMarker @ t" "upload_ok (ce_root K) fs u"
    and st: "store_ok fs (ce_root K)" "bodies fs (ce_root K) = bodies (c_fs c1) (ce_root K)"
    using receive_succeeds [OF assms(3) cache_reprD(3) [OF c1(2)] cl assms(10)] by blast
  have r2: "cache_repr K (c1\<lparr>c_fs := fs\<rparr>) s" by (rule cache_repr_bodies [OF c1(2) st])
  define ck where "ck = (\<lambda>i. clk (i + 2))"
  have ck: "ck 0 = clk 2" "in64 (ck 0)" "0 \<le> ck 0" using assms(7,8) by (simp_all add: ck_def numeral_2_eq_2)
  have hyps: "room K (c1\<lparr>c_fs := fs\<rparr>)" "\<not> ix_closed (c_idx (c1\<lparr>c_fs := fs\<rparr>))" "upload_ok (ce_root K) (c_fs (c1\<lparr>c_fs := fs\<rparr>)) u"
    "up_off u = int (length (up_sum u))" "in64 (up_off u)" "v = (if up_kind u = KindCAS then up_digest u else sha256 (up_sum u))"
    "os_dev (ce_E K) (f_name (up_file u)) = os_dev (ce_E K) (Store_Path (ce_root K) v)"
    "bodies (c_fs (c1\<lparr>c_fs := fs\<rparr>)) (ce_root K) v = None \<or> bodies (c_fs (c1\<lparr>c_fs := fs\<rparr>)) (ce_root K) v = Some (up_sum u)"
    using u c1 assms(6,9,10,13,14) st unfolding staging_clear_def by simp_all
  have vf: "verify \<Longrightarrow> up_kind u = KindCAS \<Longrightarrow> sha256 (up_sum u) = up_digest u" using u assms(12) by simp
  obtain u' c' s' where Cm: "Upload_Commit K verify (\<lambda>i. clk (i + 2)) during u (c1\<lparr>c_fs := fs\<rparr>) = (None, u', c')"
    "cache_repr K c' s'" "\<not> ix_closed (c_idx c')" "up_file u' = up_file u" "bodies (c_fs c') (ce_root K) v = Some (concat ps)"
    "ents s' (Kind_actionID k d) = Some \<lparr>OutputID = v, Size = int (length (concat ps)), CreatedAt = clk 2, LastUsedAt = clk 2\<rparr>"
    using Upload_Commit_serves [where clk = ck and during = during and verify = verify,
        OF assms(1-3) r2 hyps(1,2) ck(2,3) hyps(3) u(5) hyps(4-6) _ hyps(7,8)] vf u(1-4) ck(1) unfolding ck_def by auto
  obtain w fs' where D: "Upload_Discard (ce_E K) u' (c_fs c') = (w, fs')" by fastforce
  have sn: "stage_name (ce_root K) (f_name (up_file u'))" using upload_okD(1) [OF u(7)] Cm(4) by simp
  note X = Upload_Discard_bodies [OF sn cache_reprD(3) [OF Cm(2)] D]
  have "cache_repr K (c'\<lparr>c_fs := fs'\<rparr>) s'" by (rule cache_repr_bodies [OF Cm(2) X])
  moreover have "bazel_Put K verify clk during k d (ps, None) c = (None, c'\<lparr>c_fs := fs'\<rparr>)"
    unfolding bazel_Put_def c1(1) Let_def using B Cm(1) D by simp
  ultimately show ?thesis using Cm X(2) by (intro exI [of _ "c'\<lparr>c_fs := fs'\<rparr>"] exI [of _ s']) simp
qed

text \<open>
  C3. Put, then get, over HTTP. On a cache that nothing disturbs, a \<^verbatim>\<open>PUT\<close> of a body, in whatever
  pieces it arrives, is answered with 200, and a \<^verbatim>\<open>GET\<close> of the same path with 200, the length of the
  body and its bytes; for a digest that addresses content the body has to hash to it when bodies
  are verified, for an action result it need not.
\<close>

theorem http_put_get:
  assumes "env_ok K" "pebble_healthy (ce_P K)" "no_faults (ce_E K)" "cache_repr K c s" "room K c" "\<not> ix_closed (c_idx c)"
    and "in64 (clk 2)" "0 \<le> clk 2" "staging_clear (ce_E K) (c_fs c) (ce_root K)" "in64 (int (length (concat ps)))"
    and "k = KindCAS \<longrightarrow> ents s (Kind_actionID k d) = None" "verify \<longrightarrow> k = KindCAS \<longrightarrow> sha256 (concat ps) = d"
    and "v = (if k = KindCAS then d else sha256 (concat ps))"
    and "bodies (c_fs c) (ce_root K) v = None \<or> bodies (c_fs c) (ce_root K) v = Some (concat ps)"
  shows "\<exists>c' c'' resp. ServeHTTP K verify mon clk during sent \<lparr>rq_method = ''PUT'', rq_path = cachePath k d, rq_body = (ps, None)\<rparr> c = (resp, c')
    \<and> rs_status resp = 200
    \<and> ServeHTTP K verify mon clk' during sent \<lparr>rq_method = ''GET'', rq_path = cachePath k d, rq_body = b\<rparr> c'
      = (\<lparr>rs_status = 200, rs_length = Some (int (length (concat ps))), rs_body = sent (concat ps)\<rparr>, c'')"
proof -
  have path: "cachePath k d \<noteq> ''/status''" "cachePath k d \<noteq> ''/metrics''" "cachePath k d \<noteq> ''/stats''"
    by (cases k; simp add: cachePath_def Kind_String_def)+
  obtain c' s' where P: "bazel_Put K verify clk during k d (ps, None) c = (None, c')" "cache_repr K c' s'" "\<not> ix_closed (c_idx c')"
    "ents s' (Kind_actionID k d) = Some \<lparr>OutputID = v, Size = int (length (concat ps)), CreatedAt = clk 2, LastUsedAt = clk 2\<rparr>"
    "bodies (c_fs c') (ce_root K) v = Some (concat ps)"
    using bazel_Put_serves [where clk = clk, OF assms(1-10) _ _ assms(13,14)] assms(11,12) by blast
  obtain f x c'' where O: "Cache_Open K clk' (Kind_actionID k d) c' = (Some (f, x), c'')" "res_Size x = int (length (concat ps))"
    "i_data (fs_inode (c_fs c'') (f_ino f)) = concat ps"
    using Cache_Open_local [OF assms(1-3) P(2,3,4)] P(5) by fastforce
  show ?thesis using P(1) O path
    by (auto simp: ServeHTTP_def Handler_put_def Handler_get_def bazel_Open_def Let_def split: prod.split)
qed

text \<open>The cache of the witnesses, with an empty staging area.\<close>

definition clean_fs :: fsys where
  "clean_fs = demo_fs\<lparr>fs_names := []\<rparr>"

definition clean_cache :: "(ref_db, unit) cache" where
  "clean_cache = Cache_New demo_K empty_index clean_fs ()"

lemma clean_cache_simps [simp]:
  "c_fs clean_cache = clean_fs" "c_idx clean_cache = empty_index" "bodies clean_fs root v = None"
  by (simp_all add: clean_cache_def Cache_New_def clean_fs_def bodies_def content_def lookup_def)

lemma store_ok_clean: "store_ok clean_fs ''/c''"
  using store_ok_demo by (simp add: store_ok_def clean_fs_def fs_wf_def lookup_def)

lemma cache_repr_clean: "cache_repr demo_K clean_cache empty_spec"
proof -
  have "dom (cost empty_spec) \<subseteq> dom (bodies clean_fs ''/c'')" by (simp add: empty_spec_def)
  then show ?thesis unfolding clean_cache_def by (intro Cache_New_repr) (simp_all add: repr_empty store_ok_clean)
qed

lemma room_clean: "room demo_K clean_cache"
proof -
  have "c_present clean_cache = c_present demo_cache" "c_idx clean_cache = c_idx demo_cache"
    by (simp_all add: clean_cache_def demo_cache_def Cache_New_def)
  then show ?thesis using room_demo unfolding room_def by (simp only:)
qed

lemma staging_clean: "staging_clear demo_os8 clean_fs ''/c''"
proof -
  have "stagePath ''/c'' @ tempMarker @ t \<notin> set (fs_dirs clean_fs)" for t
    by (simp add: clean_fs_def demo_fs_def stagePath_def path_join_def stagingDir_def tempMarker_def slash_def)
  then show ?thesis by (simp add: staging_clear_def clear_way_def clean_fs_def lookup_def demo_os8_def demo_os_def)
qed

lemmas clean_hyps = env_ok_demo pebble_healthy_ref no_faults_demo8 cache_repr_clean room_clean

theorem http_put_get_witness:
  "\<exists>c' c'' resp. ServeHTTP demo_K True \<lparr>mon_status = None, mon_metrics = None, mon_stats = None\<rparr> (\<lambda>_. 20) (\<lambda>u. (u, Timeout)) id
      \<lparr>rq_method = ''PUT'', rq_path = cachePath KindCAS (sha256 [1, 2, 3]), rq_body = ([[1, 2], [], [3]], None)\<rparr> clean_cache = (resp, c')
    \<and> rs_status resp = 200
    \<and> ServeHTTP demo_K True \<lparr>mon_status = None, mon_metrics = None, mon_stats = None\<rparr> (\<lambda>_. 30) (\<lambda>u. (u, Timeout)) id
        \<lparr>rq_method = ''GET'', rq_path = cachePath KindCAS (sha256 [1, 2, 3]), rq_body = ([], None)\<rparr> c'
      = (\<lparr>rs_status = 200, rs_length = Some 3, rs_body = [1, 2, 3]\<rparr>, c'')"
  using http_put_get [where K = demo_K and c = clean_cache and s = empty_spec and clk = "\<lambda>_. 20" and clk' = "\<lambda>_. 30" and k = KindCAS
      and ps = "[[1, 2], [], [3]]" and d = "sha256 [1, 2, 3]" and v = "sha256 [1, 2, 3]" and verify = True and sent = id
      and during = "\<lambda>u. (u, Timeout)" and mon = "\<lparr>mon_status = None, mon_metrics = None, mon_stats = None\<rparr>" and b = "([], None)"]
    clean_hyps staging_clean by (simp add: in64_def empty_index_def empty_spec_def)

section \<open>Content addressing\<close>

lemma bazel_steps_inv:
  "(bazel_step K)\<^sup>*\<^sup>* x y \<Longrightarrow> tier_addressed (ce_rem K) \<Longrightarrow> sys_inv K x \<Longrightarrow> sys_inv K y"
  by (induction rule: rtranclp_induct) (auto intro: bazel_step_inv)



section \<open>Bodies that do not hash to their digest\<close>

text \<open>Only the comparison of digests answers with a mismatch.\<close>

lemma os_no_mismatch:
  "os_Stat E p fs = (Inl e, fs') \<Longrightarrow> e \<noteq> ErrDigestMismatch"
  "os_Open E p fs = (Inl e, fs') \<Longrightarrow> e \<noteq> ErrDigestMismatch"
  "os_Fstat E f fs = (Inl e, fs') \<Longrightarrow> e \<noteq> ErrDigestMismatch"
  "os_Close E f fs = (Inl e, fs') \<Longrightarrow> e \<noteq> ErrDigestMismatch"
  "os_Create E p fs = (Inl e, fs') \<Longrightarrow> e \<noteq> ErrDigestMismatch"
  "os_Write E f d fs = (Inl e, fs') \<Longrightarrow> e \<noteq> ErrDigestMismatch"
  "os_Link E p q fs = (Inl e, fs') \<Longrightarrow> e \<noteq> ErrDigestMismatch"
  "os_MkdirAll E p fs = (Inl e, fs') \<Longrightarrow> e \<noteq> ErrDigestMismatch"
  by (auto simp: os_Stat_def os_Open_def os_Fstat_def os_Close_def os_Create_def os_Write_def os_Link_def os_MkdirAll_def
      syscall_def Let_def split: option.splits if_splits)

lemma createTempLoop_no_mismatch: "createTempLoop n E path fs = (Inl e, fs') \<Longrightarrow> e \<noteq> ErrDigestMismatch"
  by (induction n arbitrary: fs) (auto simp: Let_def os_no_mismatch split: prod.splits sum.splits if_splits)

lemma createTempIn_no_mismatch: "createTempIn E path fs = (Inl e, fs') \<Longrightarrow> e \<noteq> ErrDigestMismatch"
  by (auto simp: createTempIn_def createTemp_def split: prod.splits sum.splits if_splits
      dest: createTempLoop_no_mismatch os_no_mismatch)

lemma Store_Put_no_mismatch:
  "Store_Put E root v (d, None) sz fs = (Inl e, fs') \<Longrightarrow> e \<noteq> ErrDigestMismatch"
  by (auto simp: Store_Put_def putTemp_def Let_def split: prod.splits sum.splits if_splits
      dest: createTempIn_no_mismatch os_no_mismatch)

lemma linkIn_no_mismatch: "linkIn E src path fs = (Inl e, fs') \<Longrightarrow> e \<noteq> ErrDigestMismatch"
  by (auto simp: linkIn_def split: prod.splits sum.splits if_splits dest: os_no_mismatch)

lemma Store_Adopt_no_mismatch: "Store_Adopt E root v src sz fs = (Inl e, fs') \<Longrightarrow> e \<noteq> ErrDigestMismatch"
  by (auto simp: Store_Adopt_def Let_def result_simps split: prod.splits sum.splits if_splits
      dest: os_no_mismatch linkIn_no_mismatch Store_Put_no_mismatch)

lemma PutStaged_no_mismatch: "Cache_PutStaged K clk during a v p sz c = (Inl e, c') \<Longrightarrow> e \<noteq> ErrDigestMismatch"
  by (auto simp: Cache_PutStaged_def split: prod.splits sum.splits dest: Store_Adopt_no_mismatch)

lemma copyLoop_no_mismatch: "copyLoop E ps None u fs = (Some e, u', fs') \<Longrightarrow> e \<noteq> ErrDigestMismatch"
proof (induction ps arbitrary: u fs)
  case (Cons p ps)
  obtain n err u1 fs1 where w: "Upload_Write E p u fs = ((n, err), u1, fs1)" by (metis surj_pair)
  show ?case
  proof (cases err)
    case (Some x)
    then have "x \<noteq> ErrDigestMismatch"
      using w by (auto simp: Upload_Write_def Let_def split: if_splits prod.splits sum.splits dest: os_no_mismatch)
    then show ?thesis using Cons.prems w Some by simp
  next
    case None
    then show ?thesis using Cons w by simp
  qed
qed simp

lemma Commit_mismatch:
  assumes "Upload_Commit K True clk during u c = (r, u', c')" "up_kind u = KindCAS" "\<not> up_done u"
  shows "r = Some ErrDigestMismatch \<Longrightarrow> sha256 (up_sum u) \<noteq> up_digest u"
    "sha256 (up_sum u) \<noteq> up_digest u \<Longrightarrow> same_files (c_fs c) (c_fs c') \<and> (no_faults (ce_E K) \<longrightarrow> r = Some ErrDigestMismatch)"
    "up_file u' = up_file u"
proof -
  obtain q fs where q: "os_Close (ce_E K) (up_file u) (c_fs c) = (q, fs)" by fastforce
  have nf: "q = Inr ()" if "no_faults (ce_E K)"
    using q that by (auto simp: os_Close_def syscall_def Let_def no_faults_def)
  show "sha256 (up_sum u) \<noteq> up_digest u" if "r = Some ErrDigestMismatch"
    using assms q that
    by (auto simp: Upload_Commit_def Let_def split: if_splits sum.splits prod.splits dest: PutStaged_no_mismatch os_no_mismatch)
  show "same_files (c_fs c) (c_fs c') \<and> (no_faults (ce_E K) \<longrightarrow> r = Some ErrDigestMismatch)" if "sha256 (up_sum u) \<noteq> up_digest u"
    using assms q that nf os_Close_same [OF q]
    by (auto simp: Upload_Commit_def Let_def split: if_splits sum.splits)
  show "up_file u' = up_file u"
    using assms(1) by (auto simp: Upload_Commit_def Let_def split: if_splits sum.splits prod.splits)
qed

lemma bazel_Put_digest:
  assumes "store_ok (c_fs c) (ce_root K)" "bazel_Put K True clk during KindCAS d (ps, None) c = (r, c')"
  shows "r = Some ErrDigestMismatch \<Longrightarrow> sha256 (concat ps) \<noteq> d"
    "sha256 (concat ps) \<noteq> d \<Longrightarrow> bodies (c_fs c') (ce_root K) = bodies (c_fs c) (ce_root K)"
    "sha256 (concat ps) \<noteq> d \<Longrightarrow> no_faults (ce_E K) \<Longrightarrow> staging_clear (ce_E K) (c_fs c) (ce_root K) \<Longrightarrow>
       \<not> fst (bazel_Has K clk KindCAS d c) \<Longrightarrow> r = Some ErrDigestMismatch"
proof -
  let ?R = "ce_root K" and ?ck = "\<lambda>i. clk (i + 2)"
  obtain has c1 where h: "bazel_Has K clk KindCAS d c = (has, c1)" by fastforce
  have "c_fs c1 = c_fs c \<or> (\<exists>v q. Store_Get (ce_E K) ?R v (c_fs c) = (q, c_fs c1))"
    using h by (auto simp: bazel_Has_def Cache_Has_def Let_def touch_def split: option.splits prod.splits sum.splits)
  then have s1: "same_files (c_fs c) (c_fs c1)" using Store_Get_cases same_files_refl by metis
  note st1 = store_ok_same_files [OF s1 assms(1)] and b1 = bodies_same_files [OF s1, of ?R]
  have wf1: "fs_wf (c_fs c1)" using st1 by (simp add: store_ok_def)
  obtain bg c2 where bg: "bazel_Begin K KindCAS d c1 = (bg, c2)" by fastforce
  have "(r = Some ErrDigestMismatch \<longrightarrow> sha256 (concat ps) \<noteq> d)
    \<and> (sha256 (concat ps) \<noteq> d \<longrightarrow> bodies (c_fs c') ?R = bodies (c_fs c) ?R
       \<and> (no_faults (ce_E K) \<longrightarrow> (\<forall>e. bg \<noteq> Inl e) \<longrightarrow> \<not> has \<longrightarrow> r = Some ErrDigestMismatch))"
  proof (cases has)
    case True
    then show ?thesis using assms(2) h b1 by (simp add: bazel_Put_def)
  next
    case False
    show ?thesis
    proof (cases bg)
      case (Inl e)
      have "Store_Stage (ce_E K) ?R (c_fs c1) = (Inl e, c_fs c2)" using bg Inl by (auto simp: bazel_Begin_def split: prod.splits sum.splits)
      then show ?thesis using assms(2) h False bg Inl moves_Stage(2) wf1 b1 createTempIn_no_mismatch
        by (fastforce simp: bazel_Put_def Store_Stage_def)
    next
      case (Inr u)
      obtain f where sg: "Store_Stage (ce_E K) ?R (c_fs c1) = (Inr f, c_fs c2)"
        and u: "up_file u = f" "up_sum u = []" "up_kind u = KindCAS" "up_digest u = d" "\<not> up_done u"
        using bg Inr by (auto simp: bazel_Begin_def split: prod.splits sum.splits)
      have U: "upload_ok ?R (c_fs c2) u" by (rule moves_Stage(4) [OF sg wf1 refl u(1,2)])
      have st2: "store_ok (c_fs c2) ?R" by (rule movesD(1) [OF moves_Stage(1) [OF sg] st1])
      have b2: "bodies (c_fs c2) ?R = bodies (c_fs c) ?R" using moves_Stage(2) [OF sg wf1] b1 by simp
      obtain e u1 fs1 where cl: "copyLoop (ce_E K) ps None u (c_fs c2) = (e, u1, fs1)" by (metis surj_pair)
      note B = copyLoop_bytes [OF cl] and O = copyLoop_ok [OF cl U st2]
      have sn: "stage_name ?R (f_name (up_file u1))" using upload_okD(1) O by blast
      show ?thesis
      proof (cases e)
        case (Some x)
        obtain w fs' where D: "Upload_Discard (ce_E K) u1 fs1 = (w, fs')" by fastforce
        have "r = Some x" "c_fs c' = fs'" using assms(2) h False bg Inr cl Some D by (auto simp: bazel_Put_def)
        moreover have "x \<noteq> ErrDigestMismatch" "\<not> no_faults (ce_E K)"
          using copyLoop_no_mismatch cl Some copyLoop_succeeds [of "ce_E K" u ps "c_fs c2"] u(5) by auto
        ultimately show ?thesis using Upload_Discard_bodies(2) [OF sn _ D] O b2 by simp
      next
        case None
        then have sum: "up_sum u1 = concat ps" "up_kind u1 = KindCAS" "up_digest u1 = d" "\<not> up_done u1" using B u by auto
        obtain r1 u2 c3 where cm: "Upload_Commit K True ?ck during u1 (c2\<lparr>c_fs := fs1\<rparr>) = (r1, u2, c3)" by (metis surj_pair)
        note M = Commit_mismatch [OF cm sum(2,4)]
        obtain w fs' where D: "Upload_Discard (ce_E K) u2 (c_fs c3) = (w, fs')" by fastforce
        have out: "r = r1" "c_fs c' = fs'" using assms(2) h False bg Inr cl None cm D by (auto simp: bazel_Put_def)
        have "bodies fs' ?R = bodies (c_fs c) ?R" if "sha256 (concat ps) \<noteq> d"
        proof -
          have s3: "same_files fs1 (c_fs c3)" using M(2) that sum by simp
          then have "bodies fs' ?R = bodies (c_fs c3) ?R"
            using Upload_Discard_bodies(2) [OF _ _ D] store_ok_same_files O sn M(3) by metis
          then show ?thesis using bodies_same_files [OF s3, of ?R] O b2 by simp
        qed
        then show ?thesis using M(1,2) out sum by auto
      qed
    qed
  qed
  moreover have "\<forall>e. bg \<noteq> Inl e" if "no_faults (ce_E K)" "staging_clear (ce_E K) (c_fs c) ?R"
  proof -
    have "clear_way (ce_E K) (c_fs c1) (stagePath ?R)"
      using that(2) same_files_lookup [OF s1] s1 by (simp add: staging_clear_def clear_way_def same_files_def)
    from Store_Stage_succeeds [OF that(1) this] obtain f g where "Store_Stage (ce_E K) ?R (c_fs c1) = (Inr f, g)" by blast
    then show ?thesis using bg by (auto simp: bazel_Begin_def)
  qed
  ultimately show "r = Some ErrDigestMismatch \<Longrightarrow> sha256 (concat ps) \<noteq> d"
    "sha256 (concat ps) \<noteq> d \<Longrightarrow> bodies (c_fs c') ?R = bodies (c_fs c) ?R"
    "sha256 (concat ps) \<noteq> d \<Longrightarrow> no_faults (ce_E K) \<Longrightarrow> staging_clear (ce_E K) (c_fs c) ?R \<Longrightarrow>
       \<not> fst (bazel_Has K clk KindCAS d c) \<Longrightarrow> r = Some ErrDigestMismatch"
    using h by auto
qed



end
