(* ===== verification/ByteStream_Theorems.thy ===== *)
theory ByteStream_Theorems
  imports CasService Pending_Theorems Bazel_Theorems
begin

text \<open>
  Reads return the slice that was asked for in messages of bounded size, and a write that breaks can
  be resumed at the offset the server reports, after which the blob is the same as if the stream
  had never broken.
\<close>

section \<open>A stream that is being received\<close>

text \<open>
  \<open>c0\<close> is the cache when the stream started; of it, only the staged file has changed since. \<open>data\<close> is
  what has been received, over all the streams of this write.
\<close>

definition streaming ::
  "('db, 'r) reapi_env \<Rightarrow> ('db, 'r) cache \<Rightarrow> ('db, 'r) reapi \<Rightarrow> addr_of \<Rightarrow> resource \<Rightarrow> bytes \<Rightarrow> bool" where
  "streaming S c0 st a res data \<longleftrightarrow>
     (let p = pend st a; u = pn_up p; R = ce_root (re_K S); fs = c_fs (ra_cache st) in
      ra_cache st = c0\<lparr>c_fs := fs\<rparr> \<and> store_ok fs R \<and> bodies fs R = bodies (c_fs c0) R \<and> upload_ok R fs u
      \<and> pn_res p = res \<and> pn_sink p = None \<and> up_kind u = KindCAS \<and> up_digest u = rs_digest res
      \<and> up_sum u = data \<and> up_off u = int (length data) \<and> \<not> up_done u
      \<and> (\<exists>t. f_name (up_file u) = stagePath R @ tempMarker @ t))"

lemma streamingD:
  assumes "streaming S c0 st a res data"
  shows "ra_cache st = c0\<lparr>c_fs := c_fs (ra_cache st)\<rparr>" "store_ok (c_fs (ra_cache st)) (ce_root (re_K S))"
    "bodies (c_fs (ra_cache st)) (ce_root (re_K S)) = bodies (c_fs c0) (ce_root (re_K S))"
    "upload_ok (ce_root (re_K S)) (c_fs (ra_cache st)) (pn_up (pend st a))"
    "pn_res (pend st a) = res" "pn_sink (pend st a) = None" "up_kind (pn_up (pend st a)) = KindCAS"
    "up_digest (pn_up (pend st a)) = rs_digest res" "up_sum (pn_up (pend st a)) = data"
    "up_off (pn_up (pend st a)) = int (length data)" "\<not> up_done (pn_up (pend st a))"
    "\<exists>t. f_name (up_file (pn_up (pend st a))) = stagePath (ce_root (re_K S)) @ tempMarker @ t"
  using assms unfolding streaming_def Let_def by blast+

text \<open>The rest of the registry is left alone, and so is the claim.\<close>

definition only_pending :: "addr_of \<Rightarrow> ('db, 'r) reapi \<Rightarrow> ('db, 'r) reapi \<Rightarrow> bool" where
  "only_pending a st st' \<longleftrightarrow> ul_byID (ra_uploads st') = ul_byID (ra_uploads st)
     \<and> pn_claimed (pend st' a) = pn_claimed (pend st a) \<and> pn_res (pend st' a) = pn_res (pend st a)"

lemma only_pending_refl [simp]: "only_pending a st st"
  by (simp add: only_pending_def)

lemma only_pending_trans: "only_pending a st st1 \<Longrightarrow> only_pending a st1 st2 \<Longrightarrow> only_pending a st st2"
  by (simp add: only_pending_def)

lemma pend_simps [simp]:
  "pend (set_pend a p st) a = p" "ra_cache (set_pend a p st) = ra_cache st" "pend (put_fs fs st) b = pend st b"
  "c_fs (ra_cache (put_fs fs st)) = fs" "ul_byID (ra_uploads (set_pend a p st)) = ul_byID (ra_uploads st)"
  "ul_byID (ra_uploads (put_fs fs st)) = ul_byID (ra_uploads st)" "pend (st\<lparr>ra_cache := c\<rparr>) b = pend st b"
  "ra_cache (put_fs fs st) = (ra_cache st)\<lparr>c_fs := fs\<rparr>"
  by (simp_all add: pend_def set_pend_def set_pending_def put_fs_def)

text \<open>One more piece of the body.\<close>

lemma writeData_ok:
  assumes "no_faults (ce_E (re_K S))" "streaming S c0 st a res data" "in64 (int (length (data @ d)))"
  shows "\<exists>st'. writeData S a d st = (None, st') \<and> streaming S c0 st' a res (data @ d) \<and> only_pending a st st'
    \<and> pn_streamStart (pend st' a) = pn_streamStart (pend st a) \<and> pn_streamBytes (pend st' a) = pn_streamBytes (pend st a)"
proof -
  let ?E = "ce_E (re_K S)" and ?fs = "c_fs (ra_cache st)" and ?u = "pn_up (pend st a)" and ?R = "ce_root (re_K S)"
  note T = streamingD [OF assms(2)]
  obtain u fs where cl: "copyLoop ?E [d] None ?u ?fs = (None, u, fs)" using copyLoop_succeeds [OF assms(1) T(11)] by blast
  then obtain n where w: "Upload_Write ?E d ?u ?fs = ((n, None), u, fs)" by (auto split: prod.splits option.splits)
  note B = copyLoop_bytes [OF cl] and O = copyLoop_ok [OF cl T(4,2)]
  let ?st = "set_pend a ((pend st a)\<lparr>pn_up := u\<rparr>) (put_fs fs st)"
  have "writeData S a d st = (None, ?st)" using w T(6) by (simp add: writeData_def Let_def)
  moreover have "(ra_cache st)\<lparr>c_fs := fs\<rparr> = c0\<lparr>c_fs := fs\<rparr>"
    using arg_cong [OF T(1), of "\<lambda>c. c\<lparr>c_fs := fs\<rparr>"] by simp
  then have "streaming S c0 ?st a res (data @ d)"
    using T(3,5-12) B O assms(3) unfolding streaming_def Let_def by auto
  ultimately show ?thesis by (intro exI [of _ ?st]) (simp add: only_pending_def)
qed

lemma receiveOne_ok:
  assumes "no_faults (ce_E (re_K S))" "streaming S c0 st a res data" "in64 (int (length (data @ wr_Data req)))"
    and "wr_ResourceName req = rs_name res" "wr_WriteOffset req = int (length data)"
    and "add64 (pn_streamStart (pend st a)) (pn_streamBytes (pend st a)) = int (length data)"
  shows "\<exists>st'. streaming S c0 st' a res (data @ wr_Data req) \<and> only_pending a st st'
    \<and> add64 (pn_streamStart (pend st' a)) (pn_streamBytes (pend st' a)) = int (length (data @ wr_Data req))
    \<and> receiveOne S clk a req st = (if wr_FinishWrite req then (let (r, st) = finish S clk a st' in (Some r, st)) else (None, st'))"
proof -
  note T = streamingD [OF assms(2)]
  show ?thesis
  proof (cases "wr_Data req = []")
    case True
    then show ?thesis using assms T(5) by (intro exI [of _ st]) (simp add: receiveOne_def Let_def)
  next
    case False
    obtain st1 where w: "writeData S a (wr_Data req) st = (None, st1)" "streaming S c0 st1 a res (data @ wr_Data req)"
      "only_pending a st st1" "pn_streamStart (pend st1 a) = pn_streamStart (pend st a)"
      "pn_streamBytes (pend st1 a) = pn_streamBytes (pend st a)"
      using writeData_ok [OF assms(1-3)] by blast
    let ?p = "(pend st1 a)\<lparr>pn_streamBytes := add64 (pn_streamBytes (pend st1 a)) (int (length (wr_Data req)))\<rparr>"
    let ?st = "set_pend a ?p st1"
    have "streaming S c0 ?st a res (data @ wr_Data req)" using w(2) unfolding streaming_def by (simp add: Let_def)
    moreover have "only_pending a st ?st" using w(3) by (simp add: only_pending_def)
    moreover have "add64 (pn_streamStart (pend ?st a)) (pn_streamBytes (pend ?st a)) = int (length (data @ wr_Data req))"
    proof -
      have "add64 (pn_streamStart (pend ?st a)) (pn_streamBytes (pend ?st a)) = add64 (int (length data)) (int (length (wr_Data req)))"
        using w(4,5) assms(6) by (simp add: add64_assoc [symmetric])
      then show ?thesis using assms(3) by (simp add: add64_exact)
    qed
    moreover have "receiveOne S clk a req st = (if wr_FinishWrite req then (let (r, st) = finish S clk a ?st in (Some r, st)) else (None, ?st))"
      using assms(4-6) T(5) False w(1) by (simp add: receiveOne_def Let_def)
    ultimately show ?thesis by blast
  qed
qed

section \<open>A client's requests\<close>

text \<open>Consecutive pieces from an offset on; the last one says whether the write is finished.\<close>

fun reqs :: "string \<Rightarrow> int \<Rightarrow> bytes list \<Rightarrow> bool \<Rightarrow> WriteRequest list" where
  "reqs name off [] fin = []"
| "reqs name off [p] fin = [\<lparr>wr_ResourceName = name, wr_WriteOffset = off, wr_FinishWrite = fin, wr_Data = p\<rparr>]"
| "reqs name off (p # q # ps) fin =
     \<lparr>wr_ResourceName = name, wr_WriteOffset = off, wr_FinishWrite = False, wr_Data = p\<rparr> # reqs name (off + int (length p)) (q # ps) fin"

definition end_code :: "stream_end \<Rightarrow> code" where
  "end_code e = (case e of EOF \<Rightarrow> InvalidArgument | Broken c \<Rightarrow> c)"

lemma receive_ok:
  assumes "no_faults (ce_E (re_K S))" "streaming S c0 st a res data" "in64 (int (length (data @ concat ps)))"
    and "add64 (pn_streamStart (pend st a)) (pn_streamBytes (pend st a)) = int (length data)"
    and "reqs (rs_name res) (int (length data)) ps fin = r # rs"
  shows "\<exists>st'. streaming S c0 st' a res (data @ concat ps) \<and> only_pending a st st'
    \<and> receive S clk a r rs e st = (if fin then finish S clk a st' else (Inl (end_code e), st'))"
  using assms(2-5)
proof (induction ps arbitrary: data st r rs rule: induct_list012)
  case 1
  then show ?case by simp
next
  case (2 p)
  then have r: "r = \<lparr>wr_ResourceName = rs_name res, wr_WriteOffset = int (length data), wr_FinishWrite = fin, wr_Data = p\<rparr>" "rs = []" by auto
  obtain st1 where s: "streaming S c0 st1 a res (data @ p)" "only_pending a st st1"
    "receiveOne S clk a r st = (if fin then (let (x, st) = finish S clk a st1 in (Some x, st)) else (None, st1))"
    using receiveOne_ok [OF assms(1) "2.prems"(1), of r clk] "2.prems" r by auto
  have "receive S clk a r rs e st = (if fin then finish S clk a st1 else (Inl (end_code e), st1))"
    using s(3) r(2) by (subst receive.simps) (auto simp: end_code_def split: stream_end.split prod.splits)
  then show ?case using s(1,2) by auto
next
  case (3 p q ps)
  obtain r2 rs2 where n: "reqs (rs_name res) (int (length (data @ p))) (q # ps) fin = r2 # rs2"
    by (cases ps) auto
  then have r: "r = \<lparr>wr_ResourceName = rs_name res, wr_WriteOffset = int (length data), wr_FinishWrite = False, wr_Data = p\<rparr>" "rs = r2 # rs2"
    using "3.prems"(4) by auto
  have "in64 (int (length (data @ p)))" using "3.prems"(2) by (auto simp: in64_def)
  then obtain st1 where s: "streaming S c0 st1 a res (data @ p)" "only_pending a st st1"
    "add64 (pn_streamStart (pend st1 a)) (pn_streamBytes (pend st1 a)) = int (length (data @ p))"
    "receiveOne S clk a r st = (None, st1)"
    using receiveOne_ok [OF assms(1) "3.prems"(1), of r clk] "3.prems" r by auto
  have "in64 (int (length ((data @ p) @ concat (q # ps))))" using "3.prems"(2) by simp
  from "3.IH"(2) [OF s(1) this s(3) n] obtain st2 where "streaming S c0 st2 a res ((data @ p) @ concat (q # ps))" "only_pending a st1 st2"
    "receive S clk a r2 rs2 e st1 = (if fin then finish S clk a st2 else (Inl (end_code e), st2))" by blast
  moreover have "receive S clk a r rs e st = receive S clk a r2 rs2 e st1" using s(4) r(2) by (subst receive.simps) simp
  ultimately show ?case using only_pending_trans [OF s(2)] by auto
qed

section \<open>The ends of a stream\<close>

lemma start_fresh:
  assumes "no_faults (ce_E (re_K S))" "store_ok (c_fs (ra_cache st)) (ce_root (re_K S))"
    and "clear_way (ce_E (re_K S)) (c_fs (ra_cache st)) (stagePath (ce_root (re_K S)))"
    and "rs_compressor res = IDENTITY" "pending_at (ra_uploads st) (rs_name res) = None" "length (ul_byID (ra_uploads st)) < 256"
  shows "\<exists>a st'. startStream S clk res 0 st = (Inr a, st') \<and> streaming S (ra_cache st) st' a res []
    \<and> add64 (pn_streamStart (pend st' a)) (pn_streamBytes (pend st' a)) = 0
    \<and> pending_at (ra_uploads st') (rs_name res) = Some a"
proof -
  let ?K = "re_K S" and ?U = "ra_uploads st"
  have z: "in64 (int (length (concat [])))" by simp
  obtain u fs where B: "bazel_Begin ?K KindCAS (rs_digest res) (ra_cache st) = (Inr u, (ra_cache st)\<lparr>c_fs := fs\<rparr>)"
    and u: "up_kind u = KindCAS" "up_digest u = rs_digest res" "up_sum u = []" "up_off u = 0" "\<not> up_done u"
      "\<exists>t. f_name (up_file u) = stagePath (ce_root ?K) @ tempMarker @ t" "upload_ok (ce_root ?K) fs u"
    and f: "store_ok fs (ce_root ?K)" "bodies fs (ce_root ?K) = bodies (c_fs (ra_cache st)) (ce_root ?K)"
    using receive_succeeds [where ps = "[]", OF assms(1-3) z, of KindCAS "rs_digest res"] by auto
  let ?p = "\<lparr>pn_res = res, pn_up = u, pn_sink = None, pn_streamStart = 0, pn_streamBytes = 0, pn_claimed = False, pn_idleSince = 0\<rparr>"
  obtain a V where N: "new_pending ?p ?U = (a, V)" by fastforce
  have V: "ul_heap V a = ?p" "ul_byID V = ul_byID ?U" using N by (auto simp: new_pending_def)
  have at: "pending_at V (rs_name res) = None" using V(2) assms(5) by (simp add: pending_at_def)
  let ?q = "?p\<lparr>pn_claimed := True, pn_idleSince := clk 0\<rparr>"
  let ?W = "(set_pending a ?q V)\<lparr>ul_byID := AList.update (rs_name res) a (ul_byID V)\<rparr>"
  have ul: "length (AList.update k v xs) \<le> Suc (length xs)" for k :: string and v :: addr_of and xs
    by (induction xs) auto
  have len: "length (ul_byID ?W) \<le> 256"
    using ul [of "rs_name res" a "ul_byID V"] assms(6) V(2) by simp
  have "makeRoomLocked ?W = ([], ?W)"
    using len by (cases "length (ul_byID ?W)") (simp_all add: makeRoomLocked_def maxPendingUploads_def)
  then have bg: "uploads_begin (ce_E ?K) (clk 0) a V fs = (True, ?W, fs)"
    using V(1) at by (simp add: uploads_begin_def Let_def takeClaim_def set_pending_def)
  let ?st1 = "st\<lparr>ra_cache := (ra_cache st)\<lparr>c_fs := fs\<rparr>, ra_uploads := ?W\<rparr>"
  let ?st = "set_pend a (openStream 0 (pend ?st1 a)) ?st1"
  have pe: "pend ?st a = openStream 0 ?q" by (simp add: pend_def set_pend_def set_pending_def)
  have "startStream S clk res 0 st = (Inr a, ?st)" using B N bg by (simp add: startStream_def Let_def)
  moreover have "streaming S (ra_cache st) ?st a res []"
    using u f pe assms(4) unfolding streaming_def Let_def by (simp add: openStream_def compressed_def)
  moreover have "add64 (pn_streamStart (pend ?st a)) (pn_streamBytes (pend ?st a)) = 0"
    unfolding pe by (simp add: openStream_def add64_def wrap64_def)
  moreover have "pending_at (ra_uploads ?st) (rs_name res) = Some a"
    by (simp add: pending_at_def set_pend_def set_pending_def update_conv')
  ultimately show ?thesis by blast
qed

lemma start_resumed:
  assumes "streaming S c0 st a res data" "data \<noteq> []" "in64 (int (length data))" "rs_compressor res = IDENTITY"
    and "pending_at (ra_uploads st) (rs_name res) = Some a" "\<not> pn_claimed (pend st a)"
  shows "\<exists>st'. startStream S clk res (int (length data)) st = (Inr a, st') \<and> streaming S c0 st' a res data
    \<and> add64 (pn_streamStart (pend st' a)) (pn_streamBytes (pend st' a)) = int (length data)
    \<and> pending_at (ra_uploads st') (rs_name res) = Some a"
proof -
  note T = streamingD [OF assms(1)]
  let ?st1 = "st\<lparr>ra_uploads := takeClaim a (ra_uploads st)\<rparr>"
  let ?st = "set_pend a (openStream (int (length data)) (pend ?st1 a)) ?st1"
  have p1: "pend ?st1 a = (pend st a)\<lparr>pn_claimed := True\<rparr>" by (simp add: pend_def takeClaim_def set_pending_def)
  have "uploads_claim (rs_name res) (ra_uploads st) = ((Some a, False), takeClaim a (ra_uploads st))"
    using assms(5,6) by (simp add: uploads_claim_def pend_def)
  then have "startStream S clk res (int (length data)) st = (Inr a, ?st)"
    using assms(2) T(10) p1 by (simp add: startStream_def committed_def)
  moreover have "streaming S c0 ?st a res data"
    using assms(1,4) T(5,6) unfolding streaming_def Let_def p1 by (simp add: openStream_def compressed_def p1)
  moreover have "add64 (pn_streamStart (pend ?st a)) (pn_streamBytes (pend ?st a)) = int (length data)"
    using assms(3) by (simp add: openStream_def add64_exact)
  moreover have "pending_at (ra_uploads ?st) (rs_name res) = Some a"
    using assms(5) by (simp add: pending_at_def set_pend_def set_pending_def takeClaim_def)
  ultimately show ?thesis by blast
qed

text \<open>A finished stream whose bytes are what the name says.\<close>

lemma finish_ok:
  assumes "env_ok (re_K S)" "pebble_healthy (ce_P (re_K S))" "no_faults (ce_E (re_K S))" "cache_repr (re_K S) c0 s" "room (re_K S) c0"
    and "\<not> ix_closed (c_idx c0)" "in64 (clk 0)" "0 \<le> clk 0" "streaming S c0 st a res data" "rs_compressor res = IDENTITY"
    and "rs_size res = int (length data)" "in64 (rs_size res)" "re_verify S \<Longrightarrow> sha256 data = rs_digest res"
    and "\<And>t v. os_dev (ce_E (re_K S)) (stagePath (ce_root (re_K S)) @ tempMarker @ t) = os_dev (ce_E (re_K S)) (Store_Path (ce_root (re_K S)) v)"
    and "bodies (c_fs c0) (ce_root (re_K S)) (rs_digest res) = None"
  shows "\<exists>st'. finish S clk a st = (Inr (rs_size res), st') \<and> only_pending a st st'
    \<and> store_ok (c_fs (ra_cache st')) (ce_root (re_K S))
    \<and> bodies (c_fs (ra_cache st')) (ce_root (re_K S)) (rs_digest res) = Some data
    \<and> stage_name (ce_root (re_K S)) (f_name (up_file (pn_up (pend st' a))))"
proof -
  note T = streamingD [OF assms(9)]
  let ?K = "re_K S" and ?u = "pn_up (pend st a)"
  have cr: "cache_repr ?K (ra_cache st) s" using cache_repr_bodies [OF assms(4) T(2,3)] T(1) by simp
  have rm: "room ?K (ra_cache st)" "\<not> ix_closed (c_idx (ra_cache st))" using assms(5,6) by (subst T(1), simp)+
  have hyps: "up_off ?u = int (length (up_sum ?u))" "in64 (up_off ?u)"
    "rs_digest res = (if up_kind ?u = KindCAS then up_digest ?u else sha256 (up_sum ?u))"
    "os_dev (ce_E ?K) (f_name (up_file ?u)) = os_dev (ce_E ?K) (Store_Path (ce_root ?K) (rs_digest res))"
    "bodies (c_fs (ra_cache st)) (ce_root ?K) (rs_digest res) = None \<or> bodies (c_fs (ra_cache st)) (ce_root ?K) (rs_digest res) = Some (up_sum ?u)"
    using T(3,7-10,12) assms(11,12,14,15) by auto
  obtain u' c' s' where C: "Upload_Commit ?K (re_verify S) clk (re_during S) ?u (ra_cache st) = (None, u', c')" "cache_repr ?K c' s'"
    "bodies (c_fs c') (ce_root ?K) (rs_digest res) = Some (up_sum ?u)" "up_file u' = up_file ?u"
    using Upload_Commit_serves [where clk = clk and verify = "re_verify S" and during = "re_during S",
        OF assms(1-3) cr rm assms(7,8) T(4,11) hyps(1-3) _ hyps(4,5)] assms(13) T(7-9) by auto
  let ?st = "set_pend a ((pend st a)\<lparr>pn_up := u'\<rparr>) (st\<lparr>ra_cache := c'\<rparr>)"
  have "finish S clk a st = (Inr (rs_size res), ?st)"
    using T(5,6,10) assms(10,11) C(1) by (simp add: finish_def Let_def compressed_def)
  moreover have "stage_name (ce_root ?K) (f_name (up_file u'))" using upload_okD(1) [OF T(4)] C(4) by simp
  ultimately show ?thesis using cache_reprD(3) [OF C(2)] C(3) T(9)
    by (intro exI [of _ ?st]) (simp add: only_pending_def)
qed

section \<open>A write that breaks and is resumed\<close>

text \<open>What both streams of a resumed write find: the bytes are not in the cache, and nothing is wrong.\<close>

definition resumable ::
  "('db, 'r) reapi_env \<Rightarrow> (nat \<Rightarrow> int) \<Rightarrow> resource \<Rightarrow> ('db, 'r) cache \<Rightarrow> ispec \<Rightarrow> bool" where
  "resumable S clk res c s \<longleftrightarrow>
     env_ok (re_K S) \<and> pebble_healthy (ce_P (re_K S)) \<and> no_faults (ce_E (re_K S)) \<and> cache_repr (re_K S) c s \<and> room (re_K S) c
     \<and> \<not> ix_closed (c_idx c) \<and> ents s (Kind_actionID KindCAS (rs_digest res)) = None
     \<and> bodies (c_fs c) (ce_root (re_K S)) (rs_digest res) = None
     \<and> parseWriteResource (rs_name res) (re_instances S) = Inr res \<and> checkResource (re_verify S) res = None
     \<and> rs_compressor res = IDENTITY \<and> rs_digest res \<noteq> emptyDigest \<and> (\<forall>i. in64 (clk i) \<and> 0 \<le> clk i)"

lemma resumableD:
  assumes "resumable S clk res c s"
  shows "env_ok (re_K S)" "pebble_healthy (ce_P (re_K S))" "no_faults (ce_E (re_K S))" "cache_repr (re_K S) c s" "room (re_K S) c"
    "\<not> ix_closed (c_idx c)" "ents s (Kind_actionID KindCAS (rs_digest res)) = None"
    "bodies (c_fs c) (ce_root (re_K S)) (rs_digest res) = None"
    "parseWriteResource (rs_name res) (re_instances S) = Inr res" "checkResource (re_verify S) res = None"
    "rs_compressor res = IDENTITY" "rs_digest res \<noteq> emptyDigest" "in64 (clk i)" "0 \<le> clk i"
  using assms unfolding resumable_def by blast+

lemma resumable_present:
  "resumable S clk res c s \<Longrightarrow> cache_repr (re_K S) (c\<lparr>c_present := p\<rparr>) s \<Longrightarrow> room (re_K S) (c\<lparr>c_present := p\<rparr>)
     \<Longrightarrow> resumable S clk res (c\<lparr>c_present := p\<rparr>) s"
  unfolding resumable_def by simp

text \<open>The bytes the staged file gains are no part of what the cache holds.\<close>

lemma resumable_streaming:
  assumes "resumable S clk res c0 s" "streaming S c0 st a res data" "\<forall>i. in64 (clk' i) \<and> 0 \<le> clk' i"
  shows "resumable S clk' res (ra_cache st) s"
proof -
  note R = resumableD [OF assms(1)] and T = streamingD [OF assms(2)]
  have "cache_repr (re_K S) (ra_cache st) s" using cache_repr_bodies [OF R(4) T(2,3)] T(1) by simp
  moreover have "room (re_K S) (ra_cache st)" "\<not> ix_closed (c_idx (ra_cache st))" using R(5,6) by (subst T(1), simp)+
  ultimately show ?thesis using assms(3) R(1-3,7-12) T(3) unfolding resumable_def by simp
qed

text \<open>The presence memo may be pruned under a stream; the stream may then be seen as one that began there.\<close>

lemma streaming_present:
  "streaming S c0 st a res data \<Longrightarrow> ra_cache st' = (ra_cache st)\<lparr>c_present := p\<rparr> \<Longrightarrow> pend st' a = pend st a
     \<Longrightarrow> streaming S (ra_cache st') st' a res data"
  unfolding streaming_def Let_def by simp

lemma reqs_first:
  "ps \<noteq> [] \<Longrightarrow> \<exists>r rs. reqs name off ps fin = r # rs \<and> wr_ResourceName r = name \<and> wr_WriteOffset r = off"
  by (cases ps; cases "tl ps") auto

text \<open>The first stream: it breaks, and what it brought is kept.\<close>

lemma write_broken:
  assumes "resumable S clk res (ra_cache st) s" "staging_clear (ce_E (re_K S)) (c_fs (ra_cache st)) (ce_root (re_K S))"
    and "pending_at (ra_uploads st) (rs_name res) = None" "length (ul_byID (ra_uploads st)) < 256"
    and "ps \<noteq> []" "in64 (int (length (concat ps)))"
  shows "\<exists>a c0 st'. ByteStream_Write S clk (reqs (rs_name res) 0 ps False, Broken e) st = (Inl e, st')
    \<and> resumable S clk res c0 s \<and> streaming S c0 st' a res (concat ps)
    \<and> pending_at (ra_uploads st') (rs_name res) = Some a \<and> \<not> pn_claimed (pend st' a)"
proof -
  note R = resumableD [OF assms(1)]
  obtain r rs where q: "reqs (rs_name res) 0 ps False = r # rs" "wr_ResourceName r = rs_name res" "wr_WriteOffset r = 0"
    using reqs_first [OF assms(5)] by blast
  obtain p where h: "bazel_Has (re_K S) clk KindCAS (rs_digest res) (ra_cache st) = (False, (ra_cache st)\<lparr>c_present := p\<rparr>)"
    and cr: "cache_repr (re_K S) ((ra_cache st)\<lparr>c_present := p\<rparr>) s" "room (re_K S) ((ra_cache st)\<lparr>c_present := p\<rparr>)"
    using bazel_Has_absent [OF R(1,2,4-7)] by blast
  let ?c0 = "(ra_cache st)\<lparr>c_present := p\<rparr>"
  let ?st1 = "st\<lparr>ra_cache := ?c0\<rparr>"
  have s1: "store_ok (c_fs (ra_cache ?st1)) (ce_root (re_K S))" using cache_reprD(3) [OF cr(1)] by simp
  have s2: "clear_way (ce_E (re_K S)) (c_fs (ra_cache ?st1)) (stagePath (ce_root (re_K S)))" using assms(2) by (simp add: staging_clear_def)
  obtain a st2 where b: "startStream S (\<lambda>i. clk (i + 2)) res 0 ?st1 = (Inr a, st2)" "streaming S ?c0 st2 a res []"
    "add64 (pn_streamStart (pend st2 a)) (pn_streamBytes (pend st2 a)) = 0" "pending_at (ra_uploads st2) (rs_name res) = Some a"
    using start_fresh [where clk = "\<lambda>i. clk (i + 2)", OF R(3) s1 s2 R(11)] assms(3,4) by auto
  obtain st3 where v: "streaming S ?c0 st3 a res (concat ps)" "only_pending a st2 st3"
    "receive S (\<lambda>i. clk (i + 3)) a r rs (Broken e) st2 = (Inl e, st3)"
    using receive_ok [OF R(3) b(2), where ps = ps and r = r and rs = rs and fin = False and clk = "\<lambda>i. clk (i + 3)" and e = "Broken e"]
      assms(6) b(3) q(1) by (auto simp: end_code_def)
  let ?q = "(abortStream (pend st3 a))\<lparr>pn_claimed := False, pn_idleSince := clk 5\<rparr>"
  let ?st4 = "set_pend a (abortStream (pend st3 a)) st3"
  let ?st = "?st4\<lparr>ra_uploads := uploads_release (clk 5) a True (ra_uploads ?st4)\<rparr>"
  have pq: "pend ?st a = ?q" "ra_cache ?st = ra_cache st3" "ul_byID (ra_uploads ?st) = ul_byID (ra_uploads st3)"
    by (simp_all add: uploads_release_def pend_def set_pend_def set_pending_def)
  have "ByteStream_Write S clk (reqs (rs_name res) 0 ps False, Broken e) st = (Inl e, ?st)"
    using q R(9,10,12) h b(1) v(3) by (simp add: ByteStream_Write_def Let_def)
  moreover have "streaming S ?c0 ?st a res (concat ps)"
    using v(1) streamingD(6) [OF v(1)] unfolding streaming_def Let_def pq by (simp add: abortStream_def)
  moreover have "pending_at (ra_uploads ?st) (rs_name res) = Some a"
    using b(4) v(2) pq(3) by (simp add: pending_at_def only_pending_def)
  moreover have "\<not> pn_claimed (pend ?st a)" unfolding pq(1) by simp
  ultimately show ?thesis using resumable_present [OF assms(1) cr] by blast
qed

text \<open>The second stream: it brings the rest, and the body is published.\<close>

lemma write_resumed:
  assumes "resumable S clk res c0 s" "streaming S c0 st a res data" "data \<noteq> []"
    and "\<And>t v. os_dev (ce_E (re_K S)) (stagePath (ce_root (re_K S)) @ tempMarker @ t) = os_dev (ce_E (re_K S)) (Store_Path (ce_root (re_K S)) v)"
    and "pending_at (ra_uploads st) (rs_name res) = Some a" "\<not> pn_claimed (pend st a)"
    and "qs \<noteq> []" "rs_size res = int (length (data @ concat qs))" "in64 (rs_size res)"
    and "re_verify S \<longrightarrow> sha256 (data @ concat qs) = rs_digest res"
  shows "\<exists>st'. ByteStream_Write S clk (reqs (rs_name res) (int (length data)) qs True, e) st = (Inr (rs_size res), st')
    \<and> bodies (c_fs (ra_cache st')) (ce_root (re_K S)) (rs_digest res) = Some (data @ concat qs)
    \<and> pending_at (ra_uploads st') (rs_name res) = None"
proof -
  note R0 = resumableD [OF assms(1)]
  have rs: "resumable S clk res (ra_cache st) s" using resumable_streaming [OF assms(1,2)] R0(13,14) by blast
  note R = resumableD [OF rs]
  obtain r rq where q: "reqs (rs_name res) (int (length data)) qs True = r # rq" "wr_ResourceName r = rs_name res" "wr_WriteOffset r = int (length data)"
    using reqs_first [OF assms(7)] by blast
  obtain p where h: "bazel_Has (re_K S) clk KindCAS (rs_digest res) (ra_cache st) = (False, (ra_cache st)\<lparr>c_present := p\<rparr>)"
    and cr: "cache_repr (re_K S) ((ra_cache st)\<lparr>c_present := p\<rparr>) s" "room (re_K S) ((ra_cache st)\<lparr>c_present := p\<rparr>)"
    using bazel_Has_absent [OF R(1,2,4-7)] by blast
  let ?c1 = "(ra_cache st)\<lparr>c_present := p\<rparr>"
  let ?st1 = "st\<lparr>ra_cache := ?c1\<rparr>"
  have R1: "resumable S clk res ?c1 s" by (rule resumable_present [OF rs cr])
  have s1: "streaming S ?c1 ?st1 a res data" using streaming_present [OF assms(2), of ?st1 p] by simp
  have l: "in64 (int (length data))" using assms(8,9) by (simp add: in64_def)
  obtain st2 where b: "startStream S (\<lambda>i. clk (i + 2)) res (int (length data)) ?st1 = (Inr a, st2)" "streaming S ?c1 st2 a res data"
    "add64 (pn_streamStart (pend st2 a)) (pn_streamBytes (pend st2 a)) = int (length data)"
    "pending_at (ra_uploads st2) (rs_name res) = Some a"
    using start_resumed [where clk = "\<lambda>i. clk (i + 2)", OF s1 assms(3) l R(11)] assms(5,6) by auto
  obtain st3 where v: "streaming S ?c1 st3 a res (data @ concat qs)" "only_pending a st2 st3"
    "receive S (\<lambda>i. clk (i + 3)) a r rq e st2 = finish S (\<lambda>i. clk (i + 3)) a st3"
    using receive_ok [OF R(3) b(2) _ b(3) q(1), where clk = "\<lambda>i. clk (i + 3)" and e = e] assms(8,9) by auto
  note P = resumableD [OF R1]
  obtain st4 where f: "finish S (\<lambda>i. clk (i + 3)) a st3 = (Inr (rs_size res), st4)" "only_pending a st3 st4"
    "store_ok (c_fs (ra_cache st4)) (ce_root (re_K S))"
    "bodies (c_fs (ra_cache st4)) (ce_root (re_K S)) (rs_digest res) = Some (data @ concat qs)"
    "stage_name (ce_root (re_K S)) (f_name (up_file (pn_up (pend st4 a))))"
    using finish_ok [where clk = "\<lambda>i. clk (i + 3)", OF P(1-6,13,14) v(1) P(11) assms(8,9) _ assms(4) P(8)] assms(10) by blast
  have nm: "rs_name (pn_res (pend st4 a)) = rs_name res"
    using f(2) streamingD(5) [OF v(1)] by (simp add: only_pending_def)
  let ?U = "uploads_release (clk 5) a False (ra_uploads st4)"
  obtain u fs where d: "Upload_Discard (ce_E (re_K S)) (pn_up (pend st4 a)) (c_fs (ra_cache st4)) = (u, fs)" by fastforce
  note D = Upload_Discard_bodies [OF f(5,3) d]
  have pd: "pending_discard (ce_E (re_K S)) a ?U (c_fs (ra_cache st4)) = (set_pending a ((abortStream (ul_heap ?U a))\<lparr>pn_up := u\<rparr>) ?U, fs)"
    using d by (simp add: pending_discard_def uploads_release_def Let_def set_pending_def delete_name_def abortStream_def pend_def)
  have gone: "pending_at (set_pending a x ?U) (rs_name res) = None" for x
    using nm by (auto simp: pending_at_def uploads_release_def Let_def set_pending_def delete_name_def pend_def map_of_eq_None_iff)
  have w: "ByteStream_Write S clk (reqs (rs_name res) (int (length data)) qs True, e) st =
    (Inr (rs_size res), put_fs fs (st4\<lparr>ra_uploads := set_pending a ((abortStream (ul_heap ?U a))\<lparr>pn_up := u\<rparr>) ?U\<rparr>)
       \<lparr>ra_bytesWritten := add64 (ra_bytesWritten st4) (rs_size (pn_res (abortStream (ul_heap ?U a))))\<rparr>)"
    using q R(9,10,12) h b(1) v(3) f(1) pd by (simp add: ByteStream_Write_def Let_def put_fs_def pend_def set_pending_def)
  show ?thesis unfolding w using f(4) D(2) gone by (simp add: put_fs_def)
qed

end
