(* ===== verification/Sha256_Vectors.thy ===== *)
theory Sha256_Vectors
  imports Sha256
begin

text \<open>
  Two test vectors of FIPS 180-4, evaluated by the kernel: the hash of \<^verbatim>\<open>Sha256.thy\<close> is SHA-256 and not
  merely some function with 32-byte results.
\<close>

lemma sha_sum_abc:
  "sha_sum [97, 98, 99] =
    [0xba, 0x78, 0x16, 0xbf, 0x8f, 0x01, 0xcf, 0xea, 0x41, 0x41, 0x40, 0xde, 0x5d, 0xae, 0x22, 0x23,
     0xb0, 0x03, 0x61, 0xa3, 0x96, 0x17, 0x7a, 0x9c, 0xb4, 0x10, 0xff, 0x61, 0xf2, 0x00, 0x15, 0xad]"
  by code_simp

lemma sha_sum_empty:
  "sha_sum [] =
    [0xe3, 0xb0, 0xc4, 0x42, 0x98, 0xfc, 0x1c, 0x14, 0x9a, 0xfb, 0xf4, 0xc8, 0x99, 0x6f, 0xb9, 0x24,
     0x27, 0xae, 0x41, 0xe4, 0x64, 0x9b, 0x93, 0x4c, 0xa4, 0x95, 0x99, 0x1b, 0x78, 0x52, 0xb8, 0x55]"
  by code_simp

lemma sha256_abc_nonempty: "sha256 [97, 98, 99] \<noteq> sha256 []"
proof
  assume "sha256 [97, 98, 99] = sha256 []"
  then have "id_bytes (sha256 [97, 98, 99]) = id_bytes (sha256 [])" by simp
  then show False unfolding id_bytes_sha256 sha_sum_abc sha_sum_empty by simp
qed

end
