(* ===== verification/Resume_Theorems.thy ===== *)
theory Resume_Theorems
  imports ByteStream_Theorems Sha256_Vectors
begin

text \<open>
  A write that breaks can be resumed at the offset the server reports, after which the blob is the same
  as if the stream had never broken.
\<close>

text \<open>
  C5. A broken write is resumed. A client streams the first pieces of a blob the cache does not have, and
  its stream breaks: the error is returned and the bytes are kept. The write status it then asks
  for is exactly the number of bytes sent, not complete; a second stream from that offset with the
  remaining pieces is acknowledged with the blob's size, the store holds exactly the pieces of both
  streams under the blob's digest, and the registry has forgotten the write.
\<close>

theorem broken_write_resumes:
  assumes "resumable S clk res (ra_cache st) s" "staging_clear (ce_E (re_K S)) (c_fs (ra_cache st)) (ce_root (re_K S))"
    and "pending_at (ra_uploads st) (rs_name res) = None" "length (ul_byID (ra_uploads st)) < 256"
    and "concat ps \<noteq> []" "qs \<noteq> []" "rs_size res = int (length (concat (ps @ qs)))" "in64 (rs_size res)"
    and "re_verify S \<longrightarrow> sha256 (concat (ps @ qs)) = rs_digest res" "\<forall>i. in64 (clk2 i) \<and> 0 \<le> clk2 i"
  shows "\<exists>st1 st2. ByteStream_Write S clk (reqs (rs_name res) 0 ps False, Broken e) st = (Inl e, st1)
    \<and> QueryWriteStatus S clk1 (rs_name res) [ra_uploads st1] st1 = (Inr (int (length (concat ps)), False), st1)
    \<and> ByteStream_Write S clk2 (reqs (rs_name res) (int (length (concat ps))) qs True, EOF) st1 = (Inr (rs_size res), st2)
    \<and> bodies (c_fs (ra_cache st2)) (ce_root (re_K S)) (rs_digest res) = Some (concat (ps @ qs))
    \<and> pending_at (ra_uploads st2) (rs_name res) = None"
proof -
  have ps: "ps \<noteq> []" "in64 (int (length (concat ps)))" using assms(5,7,8) by (auto simp: in64_def)
  note D = resumableD [OF assms(1)]
  obtain a c0 st1 where w: "ByteStream_Write S clk (reqs (rs_name res) 0 ps False, Broken e) st = (Inl e, st1)"
    "resumable S clk res c0 s" "streaming S c0 st1 a res (concat ps)"
    "pending_at (ra_uploads st1) (rs_name res) = Some a" "\<not> pn_claimed (pend st1 a)"
    using write_broken [OF assms(1-4) ps] by blast
  have "uploads_status (rs_name res) (ra_uploads st1) = (int (length (concat ps)), False, True)"
    using w(4,5) streamingD(10) [OF w(3)] by (simp add: uploads_status_def committed_def pend_def)
  then have q: "QueryWriteStatus S clk1 (rs_name res) [ra_uploads st1] st1 = (Inr (int (length (concat ps)), False), st1)"
    using D(9,10) by (simp add: QueryWriteStatus_def)
  have r2: "resumable S clk2 res c0 s" using w(2) assms(10) unfolding resumable_def by blast
  have "\<And>t v. os_dev (ce_E (re_K S)) (stagePath (ce_root (re_K S)) @ tempMarker @ t) = os_dev (ce_E (re_K S)) (Store_Path (ce_root (re_K S)) v)"
    using assms(2) by (simp add: staging_clear_def)
  from write_resumed [OF r2 w(3) assms(5) this w(4,5) assms(6)] obtain st2 where
    "ByteStream_Write S clk2 (reqs (rs_name res) (int (length (concat ps))) qs True, EOF) st1 = (Inr (rs_size res), st2)"
    "bodies (c_fs (ra_cache st2)) (ce_root (re_K S)) (rs_digest res) = Some (concat (ps @ qs))"
    "pending_at (ra_uploads st2) (rs_name res) = None"
    using assms(7-9) by auto
  then show ?thesis using w(1) q by blast
qed

text \<open>A server on the clean cache, with a decoder and encoder that are the identity.\<close>

definition demo_S :: "(ref_db, unit) reapi_env" where
  "demo_S = \<lparr>re_K = demo_K, re_verify = True, re_instances = newInstanceSet [],
     re_z = \<lparr>zd_out = id, zd_push = (\<lambda>_. None), zd_end = (\<lambda>_. ([], None)), zd_all = Inr, ze_all = Inr, ze_new = None, ze_stream = Inr\<rparr>,
     re_during = (\<lambda>u. (u, Timeout)), re_read = (\<lambda>b. (b, None))\<rparr>"

definition demo_reapi :: "(ref_db, unit) reapi" where
  "demo_reapi = \<lparr>ra_cache = clean_cache, ra_uploads = newUploads (\<lambda>_. demo_pending []), ra_bytesRead = 0, ra_bytesWritten = 0,
     ra_present = 0, ra_missing = 0\<rparr>"

definition demo_res :: resource where
  "demo_res = \<lparr>rs_name = writeName [] ''u'' IDENTITY (sha256 [97, 98, 99]) 3 [], rs_digest = sha256 [97, 98, 99], rs_size = 3,
     rs_compressor = IDENTITY, rs_digestFunc = []\<rparr>"

lemma demo_res_parse: "parseWriteResource (rs_name demo_res) (newInstanceSet []) = Inr demo_res"
  using parseWrite_name [where inst = "[]" and I = "newInstanceSet []" and uuid = "''u''" and meta = "[]" and sz = 3 and c = IDENTITY
      and d = "sha256 [97, 98, 99]"]
  by (simp add: demo_res_def plain_segs_def newInstanceSet_def path_slash_def in64_def)

lemma demo_resumable: "resumable demo_S (\<lambda>_. 20) demo_res (ra_cache demo_reapi) empty_spec"
  using clean_hyps demo_res_parse sha256_abc_nonempty
  by (simp add: resumable_def demo_S_def demo_reapi_def empty_index_def empty_spec_def in64_def emptyDigest_def demo_res_def checkResource_def)

theorem broken_write_resumes_witness:
  "\<exists>st1 st2. ByteStream_Write demo_S (\<lambda>_. 20) (reqs (rs_name demo_res) 0 [[97], [98]] False, Broken Unavailable) demo_reapi = (Inl Unavailable, st1)
    \<and> QueryWriteStatus demo_S (\<lambda>_. 30) (rs_name demo_res) [ra_uploads st1] st1 = (Inr (2, False), st1)
    \<and> ByteStream_Write demo_S (\<lambda>_. 40) (reqs (rs_name demo_res) 2 [[99]] True, EOF) st1 = (Inr 3, st2)
    \<and> bodies (c_fs (ra_cache st2)) ''/c'' (sha256 [97, 98, 99]) = Some [97, 98, 99]
    \<and> pending_at (ra_uploads st2) (rs_name demo_res) = None"
  using broken_write_resumes [OF demo_resumable, where ps = "[[97], [98]]" and qs = "[[99]]" and e = Unavailable and ?clk1.0 = "\<lambda>_. 30"
      and ?clk2.0 = "\<lambda>_. 40"] staging_clean
  by (simp add: demo_S_def demo_reapi_def demo_res_def newUploads_def pending_at_def in64_def)

end
