(* ===== verification/Read_Theorems.thy ===== *)
theory Read_Theorems
  imports Resume_Theorems
begin

text \<open>
  The buffered loop a body is sent with against its reference definition: the body is cut into messages
  of \<^verbatim>\<open>readChunkSize\<close> bytes, the last one shorter, and they are sent in order until one fails.
\<close>

function chunks :: "nat \<Rightarrow> bytes \<Rightarrow> bytes list" where
  "chunks n xs = (if n = 0 \<or> xs = [] then [] else take n xs # chunks n (drop n xs))"
  by pat_completeness auto

termination by (relation "measure (\<lambda>(_, xs). length xs)") auto

declare chunks.simps [simp del]

fun deliver :: "(nat \<Rightarrow> code option) \<Rightarrow> nat \<Rightarrow> bytes list \<Rightarrow> code option \<times> bytes list" where
  "deliver send i [] = (None, [])"
| "deliver send i (m # ms) =
     (case send i of
        Some e \<Rightarrow> (Some e, [])
      | None \<Rightarrow> (let (e, xs) = deliver send (Suc i) ms in (e, m # xs)))"

lemma chunks_Nil [simp]: "chunks n [] = []"
  by (simp add: chunks.simps)

lemma chunks_short: "xs \<noteq> [] \<Longrightarrow> length xs < n \<Longrightarrow> chunks n xs = [xs]"
  by (simp add: chunks.simps [of n xs])

lemma chunks_full: "n \<noteq> 0 \<Longrightarrow> length xs = n \<Longrightarrow> chunks n (xs @ ys) = xs # chunks n ys"
  by (subst chunks.simps) auto

lemma concat_chunks: "n \<noteq> 0 \<Longrightarrow> concat (chunks n xs) = xs"
  by (induction n xs rule: chunks.induct) (subst chunks.simps, auto)

lemma chunks_bounded: "m \<in> set (chunks n xs) \<Longrightarrow> m \<noteq> [] \<and> length m \<le> n"
  by (induction n xs rule: chunks.induct) (subst (asm) (2) chunks.simps, auto split: if_splits)

lemma readChunkSize_pos [simp]: "0 < readChunkSize"
  by (simp add: readChunkSize_def)

text \<open>The writer's loop and the flush after it.\<close>

definition fill_flush :: "(nat \<Rightarrow> code option) \<Rightarrow> bytes \<Rightarrow> chunkWriter \<Rightarrow> code option \<times> bytes list" where
  "fill_flush send p w =
     (case cw_Fill send p w of
        (Some e, w) \<Rightarrow> (Some e, cw_sent w)
      | (None, w) \<Rightarrow> (let (err, w) = cw_Flush send w in (err, cw_sent w)))"

lemma fill_flush_deliver:
  "length (cw_buf w) < readChunkSize \<Longrightarrow> fill_flush send p w =
     (let (e, ms) = deliver send (length (cw_sent w)) (chunks readChunkSize (cw_buf w @ p)) in (e, cw_sent w @ ms))"
proof (induction send p w rule: cw_Fill.induct)
  case (1 send p w)
  let ?C = readChunkSize
  let ?n = "min (?C - length (cw_buf w)) (length p)"
  let ?w = "w\<lparr>cw_buf := cw_buf w @ take ?n p\<rparr>"
  show ?case
  proof (cases "p = []")
    case True
    then show ?thesis using 1(2) chunks_short [of "cw_buf w" ?C]
      by (cases "cw_buf w = []") (auto simp: fill_flush_def cw_Fill.simps [of send "[]"] cw_Flush_def split: option.split)
  next
    case False
    then have n: "?n \<noteq> 0" using 1(2) by simp
    have bw: "cw_buf ?w = cw_buf w @ take ?n p" by simp
    have ne: "cw_buf ?w \<noteq> []" using False n unfolding bw append_is_Nil_conv take_eq_Nil by blast
    show ?thesis
    proof (cases "length (cw_buf ?w) = ?C")
      case full: True
      have cut: "cw_buf w @ p = (cw_buf w @ take ?n p) @ drop ?n p" by simp
      have ch: "chunks ?C (cw_buf w @ p) = (cw_buf w @ take ?n p) # chunks ?C (drop ?n p)"
        unfolding cut using full by (intro chunks_full) simp_all
      show ?thesis
      proof (cases "send (length (cw_sent w))")
        case None
        let ?v = "\<lparr>cw_buf = [], cw_sent = cw_sent w @ [cw_buf w @ take ?n p]\<rparr>"
        have fl: "cw_Flush send ?w = (None, ?v)" unfolding cw_Flush_def if_not_P [OF ne] using None by simp
        have "fill_flush send p w = fill_flush send (drop ?n p) ?v"
          using False n full fl by (simp add: fill_flush_def cw_Fill.simps [of send p] Let_def)
        also have "\<dots> = (let (e, ms) = deliver send (length (cw_sent ?v)) (chunks ?C (cw_buf ?v @ drop ?n p)) in (e, cw_sent ?v @ ms))"
          by (rule 1(1) [OF False refl refl _ _ _ n]) (use full fl in \<open>simp_all\<close>)
        finally show ?thesis using None ch by (simp add: Let_def case_prod_beta)
      next
        case (Some e)
        have "cw_Flush send ?w = (Some e, ?w)" unfolding cw_Flush_def if_not_P [OF ne] using Some by simp
        then show ?thesis using False n full ch Some by (simp add: fill_flush_def cw_Fill.simps [of send p] Let_def)
      qed
    next
      case part: False
      have all: "take ?n p = p" "drop ?n p = []" using part 1(2) by auto
      have lt: "length (cw_buf w @ p) < ?C" using part 1(2) all(1) by auto
      have "cw_Fill send p w = (None, w\<lparr>cw_buf := cw_buf w @ p\<rparr>)"
        using False n part all by (simp add: cw_Fill.simps [of send p] cw_Fill.simps [of send "[]"] Let_def)
      then show ?thesis using False chunks_short [OF _ lt] by (auto simp: fill_flush_def cw_Flush_def split: option.split)
    qed
  qed
qed

lemma sendBody_deliver:
  assumes "re_read S src = (src, None)" "c = IDENTITY"
  shows "sendBody S send c src = deliver send 0 (chunks readChunkSize src)"
  using fill_flush_deliver [of "\<lparr>cw_buf = [], cw_sent = []\<rparr>" send src] assms
  by (auto simp: sendBody_def cw_ReadFrom_def fill_flush_def Let_def case_prod_beta split: option.splits prod.splits)

lemma deliver_all: "(\<And>i. send i = None) \<Longrightarrow> deliver send n ms = (None, ms)"
  by (induction ms arbitrary: n) simp_all

text \<open>
  C6. A read against its reference. For every blob in the cache and every offset and limit, what
  \<^verbatim>\<open>ByteStream.Read\<close> sends is what cutting the slice that was asked for into chunks and sending them in
  order gives, up to the first message that fails, whose error it returns: the first chunk starts
  at the offset, no message is empty or longer than \<^verbatim>\<open>readChunkSize\<close>, they join to the slice, and an
  offset past the end is \<^verbatim>\<open>OutOfRange\<close> with nothing sent.
\<close>

theorem read_reference:
  assumes "env_ok (re_K S)" "pebble_healthy (ce_P (re_K S))" "no_faults (ce_E (re_K S))" "cache_repr (re_K S) (ra_cache st) s"
    and "\<not> ix_closed (c_idx (ra_cache st))" "parseReadResource (rr_ResourceName req) (re_instances S) = Inr res"
    and "checkResource (re_verify S) res = None" "rs_compressor res = IDENTITY" "rs_digest res \<noteq> emptyDigest"
    and "ents s (Kind_actionID KindCAS (rs_digest res)) = Some ent"
    and "bodies (c_fs (ra_cache st)) (ce_root (re_K S)) (OutputID ent) = Some d" "in64 (int (length d))"
    and "0 \<le> rr_ReadOffset req" "0 \<le> rr_ReadLimit req" "\<And>b. re_read S b = (b, None)"
    and "want = (if rr_ReadLimit req = 0 then id else take (nat (rr_ReadLimit req))) (drop (nat (rr_ReadOffset req)) d)"
  shows "fst (ByteStream_Read S clk send req st)
      = (if int (length d) < rr_ReadOffset req then (Some OutOfRange, []) else deliver send 0 (chunks readChunkSize want))
    \<and> concat (chunks readChunkSize want) = want
    \<and> (\<forall>m. m \<in> set (chunks readChunkSize want) \<longrightarrow> m \<noteq> [] \<and> length m \<le> readChunkSize)"
proof -
  obtain f x c where O: "Cache_Open (re_K S) clk (Kind_actionID KindCAS (rs_digest res)) (ra_cache st) = (Some (f, x), c)"
    "res_Size x = int (length d)" "i_data (fs_inode (c_fs c) (f_ino f)) = d"
    using Cache_Open_local [where clk = clk, OF assms(1-5,10,11)] by blast
  have b: "bazel_Open (re_K S) clk KindCAS (rs_digest res) (ra_cache st) = (Some (f, int (length d)), c)"
    using O by (simp add: bazel_Open_def)
  have k: "os_Seek (ce_E (re_K S)) f (c_fs c) = (Inr (), (c_fs c)\<lparr>fs_clock := Suc (fs_clock (c_fs c))\<rparr>)"
    using assms(3) by (simp add: os_Seek_def syscall_def no_faults_def Let_def)
  let ?off = "rr_ReadOffset req" and ?lim = "rr_ReadLimit req"
  let ?rem = "if ?lim > 0 \<and> ?lim < int (length d) - ?off then ?lim else int (length d) - ?off"
  have sub: "sub64 (int (length d)) ?off = int (length d) - ?off" if "?off \<le> int (length d)"
    using that assms(12,13) by (intro sub64_exact) (simp add: in64_def)
  have sl: "take (nat ?rem) (drop (nat ?off) d) = want" if "?off \<le> int (length d)"
    using that assms(13,14,16) by (auto simp: nat_diff_distrib)
  have "fst (ByteStream_Read S clk send req st)
      = (if int (length d) < ?off then (Some OutOfRange, []) else deliver send 0 (chunks readChunkSize want))"
  proof (cases "int (length d) < ?off")
    case True
    then show ?thesis using b assms(6-9,13,14) by (simp add: ByteStream_Read_def Let_def)
  next
    case False
    then show ?thesis using b k O(3) sub sl assms(6-9,13,14) sendBody_deliver [where S = S and src = want and send = send, OF assms(15) refl]
      by (simp add: ByteStream_Read_def Let_def split: prod.splits)
  qed
  then show ?thesis using concat_chunks [of readChunkSize want] chunks_bounded [of _ readChunkSize want] by auto
qed

lemma demo_read_parse:
  "parseReadResource (readName [] IDENTITY (sha256 [97, 98, 99]) 3) (newInstanceSet [])
    = Inr (demo_res\<lparr>rs_name := readName [] IDENTITY (sha256 [97, 98, 99]) 3\<rparr>)"
proof -
  have k: "blobSegs IDENTITY (sha256 [97, 98, 99]) 3 = ''blobs'' # [id_String (sha256 [97, 98, 99]), FormatInt 3]"
    by (simp add: blobSegs_def)
  have "plain_segs ([] @ ''blobs'' # [id_String (sha256 [97, 98, 99]), FormatInt 3])"
    using blobSegs_plain [of IDENTITY "sha256 [97, 98, 99]" 3] unfolding k by simp
  from trimInstance_join [OF this, of "newInstanceSet []"]
  have "trimInstance (readName [] IDENTITY (sha256 [97, 98, 99]) 3) (newInstanceSet []) = Inr (blobSegs IDENTITY (sha256 [97, 98, 99]) 3)"
    unfolding readName_def k by (simp add: resourceKeywords_def newInstanceSet_def)
  then show ?thesis using parseBlobRef_segs [of 3 IDENTITY _ _ "[]"] by (simp add: parseReadResource_def demo_res_def in64_def)
qed

theorem read_reference_witness:
  "\<exists>c'. bazel_Put demo_K True (\<lambda>_. 20) (\<lambda>u. (u, Timeout)) KindCAS (sha256 [97, 98, 99]) ([[97, 98], [99]], None) clean_cache = (None, c')
    \<and> fst (ByteStream_Read demo_S (\<lambda>_. 30) (\<lambda>_. None)
        \<lparr>rr_ResourceName = readName [] IDENTITY (sha256 [97, 98, 99]) 3, rr_ReadOffset = 1, rr_ReadLimit = 0\<rparr> (demo_reapi\<lparr>ra_cache := c'\<rparr>))
      = (None, [[98, 99]])"
proof -
  let ?d = "sha256 [97, 98, 99]"
  obtain c' s' where P: "bazel_Put demo_K True (\<lambda>_. 20) (\<lambda>u. (u, Timeout)) KindCAS ?d ([[97, 98], [99]], None) clean_cache = (None, c')"
    "cache_repr demo_K c' s'" "\<not> ix_closed (c_idx c')"
    "ents s' (Kind_actionID KindCAS ?d) = Some \<lparr>OutputID = ?d, Size = 3, CreatedAt = 20, LastUsedAt = 20\<rparr>"
    "bodies (c_fs c') ''/c'' ?d = Some [97, 98, 99]"
    using bazel_Put_serves [where K = demo_K and c = clean_cache and s = empty_spec and clk = "\<lambda>_. 20" and k = KindCAS and ps = "[[97, 98], [99]]"
        and d = ?d and v = ?d and verify = True and during = "\<lambda>u. (u, Timeout)"] clean_hyps staging_clean
    by (auto simp: in64_def empty_index_def empty_spec_def)
  have sm: "re_K demo_S = demo_K" "re_instances demo_S = newInstanceSet []" "\<And>b. re_read demo_S b = (b, None)"
    "ra_cache (demo_reapi\<lparr>ra_cache := c'\<rparr>) = c'"
    by (simp_all add: demo_S_def demo_reapi_def)
  have ch: "chunks readChunkSize [98, 99] = [[98, 99]]" by (rule chunks_short) (simp_all add: readChunkSize_def)
  show ?thesis
    using read_reference [where S = demo_S and st = "demo_reapi\<lparr>ra_cache := c'\<rparr>" and s = s' and d = "[97, 98, 99]" and send = "\<lambda>_. None"
        and req = "\<lparr>rr_ResourceName = readName [] IDENTITY ?d 3, rr_ReadOffset = 1, rr_ReadLimit = 0\<rparr>" and clk = "\<lambda>_. 30" and want = "[98, 99]"
        and res = "demo_res\<lparr>rs_name := readName [] IDENTITY ?d 3\<rparr>" and ent = "\<lparr>OutputID = ?d, Size = 3, CreatedAt = 20, LastUsedAt = 20\<rparr>"]
      P clean_hyps demo_read_parse sha256_abc_nonempty ch unfolding sm
    by (simp add: demo_res_def checkResource_def emptyDigest_def in64_def deliver_all)
qed

end
