(* ===== verification/Wire.thy ===== *)
theory Wire
  imports Strconv
begin

text \<open>
  The messages of the GOCACHEPROG protocol (\<^verbatim>\<open>internal/wire/wire.go\<close>). An error text is the error it is
  the text of; a time is its count of nanoseconds.
\<close>

type_synonym Cmd = string

definition CmdGet :: Cmd where "CmdGet = ''get''"
definition CmdPut :: Cmd where "CmdPut = ''put''"
definition CmdClose :: Cmd where "CmdClose = ''close''"

lemmas cmd_defs = CmdGet_def CmdPut_def CmdClose_def

record Request =
  q_ID :: int
  q_Command :: Cmd
  q_ActionID :: bytes
  q_OutputID :: bytes
  q_BodySize :: int

record Response =
  r_ID :: int
  r_Err :: "error option"
  r_KnownCommands :: "Cmd list"
  r_Miss :: bool
  r_OutputID :: bytes
  r_Size :: int
  r_Time :: "int option"
  r_DiskPath :: string

text \<open>The zero value.\<close>

definition Response0 :: Response where
  "Response0 = \<lparr>r_ID = 0, r_Err = None, r_KnownCommands = [], r_Miss = False, r_OutputID = [], r_Size = 0, r_Time = None, r_DiskPath = []\<rparr>"

definition KnownCommands :: "Cmd list" where
  "KnownCommands = [CmdGet, CmdPut, CmdClose]"

definition Request_Action :: "Request \<Rightarrow> ActionID result" where
  "Request_Action r = ActionIDFromBytes (q_ActionID r)"

definition Request_Output :: "Request \<Rightarrow> OutputID result" where
  "Request_Output r = OutputIDFromBytes (q_OutputID r)"

definition SetOutputID :: "OutputID \<Rightarrow> Response \<Rightarrow> Response" where
  "SetOutputID v r = r\<lparr>r_OutputID := id_bytes v\<rparr>"

section \<open>What a decoder delivers\<close>

text \<open>
  A request and, for a put that has one, its body: the bytes and the error it ends with if it does not
  end cleanly. \<open>fr_drained\<close> is whether the body had been read to its end when writing it out failed.
\<close>

record frame =
  fr_req :: Request
  fr_body :: "(bytes \<times> error option) option"
  fr_drained :: bool

end
