(* ===== verification/Session.thy ===== *)
theory Session
  imports Wire Cache_Theorems "HOL-Library.Multiset"
begin

text \<open>
  A session of the GOCACHEPROG protocol (\<^verbatim>\<open>session\<close>, \<^verbatim>\<open>handleGet\<close>, \<^verbatim>\<open>handlePut\<close> and \<^verbatim>\<open>ServeMisses\<close> of
  \<^verbatim>\<open>internal/daemon/server.go\<close>) over the requests the decoder delivers. Puts are served by the loop
  itself; a get is served by a goroutine of its own, so the session is a step relation in which a
  get that is in flight may be answered at any later moment, and in which the cache may change
  between two steps as other sessions and the timers change it.
\<close>

section \<open>The handlers\<close>

definition handleGet :: "('db, 'r) cache_env \<Rightarrow> (nat \<Rightarrow> int) \<Rightarrow> int \<Rightarrow> bytes \<Rightarrow> ('db, 'r) cache \<Rightarrow> Response \<times> ('db, 'r) cache" where
  "handleGet K clk ident actionID c =
     (case ActionIDFromBytes actionID of
        Inl err \<Rightarrow> (Response0\<lparr>r_ID := ident, r_Err := Some err\<rparr>, c)
      | Inr a \<Rightarrow>
          (case Cache_Get K clk a c of
             (None, c) \<Rightarrow> (Response0\<lparr>r_ID := ident, r_Miss := True\<rparr>, c)
           | (Some res, c) \<Rightarrow>
               (Response0\<lparr>r_ID := ident, r_OutputID := id_bytes (res_OutputID res), r_Size := res_Size res,
                  r_DiskPath := res_DiskPath res, r_Time := Some (res_Time res)\<rparr>, c)))"

text \<open>\<^verbatim>\<open>emptyReader\<close> is the body with no bytes.\<close>

definition handlePut ::
  "('db, 'r) cache_env \<Rightarrow> (nat \<Rightarrow> int) \<Rightarrow> (uploader \<Rightarrow> uploader \<times> wait_end) \<Rightarrow> Request \<Rightarrow> (bytes \<times> error option) option
     \<Rightarrow> ('db, 'r) cache \<Rightarrow> Response \<times> ('db, 'r) cache" where
  "handlePut K clk during req body c =
     (case ActionIDFromBytes (q_ActionID req) of
        Inl err \<Rightarrow> (Response0\<lparr>r_ID := q_ID req, r_Err := Some err\<rparr>, c)
      | Inr a \<Rightarrow>
          (case OutputIDFromBytes (q_OutputID req) of
             Inl err \<Rightarrow> (Response0\<lparr>r_ID := q_ID req, r_Err := Some err\<rparr>, c)
           | Inr v \<Rightarrow>
               (let body = (case body of None \<Rightarrow> ([], None) | Some b \<Rightarrow> b) in
                case Cache_Put K clk during a v body (q_BodySize req) c of
                  (Inl err, c) \<Rightarrow> (Response0\<lparr>r_ID := q_ID req, r_Err := Some err\<rparr>, c)
                | (Inr path, c) \<Rightarrow> (Response0\<lparr>r_ID := q_ID req, r_DiskPath := path\<rparr>, c))))"

text \<open>
  Whether the body had been read to its end when the put returned; if not, the decoder refuses to go
  on. The identifiers are checked and the temporary is created before the first byte is read.
\<close>

definition bodyRead :: "('db, 'r) cache_env \<Rightarrow> frame \<Rightarrow> fsys \<Rightarrow> bool" where
  "bodyRead K fr fs =
     (case (ActionIDFromBytes (q_ActionID (fr_req fr)), OutputIDFromBytes (q_OutputID (fr_req fr))) of
        (Inr _, Inr v) \<Rightarrow>
          (case createTempIn (ce_E K) (Store_Path (ce_root K) v) fs of
             (Inl _, fs) \<Rightarrow> False
           | (Inr tmp, fs) \<Rightarrow>
               (case os_Write (ce_E K) tmp (case fr_body fr of None \<Rightarrow> [] | Some b \<Rightarrow> fst b) fs of
                  (Inl _, _) \<Rightarrow> fr_drained fr
                | (Inr _, _) \<Rightarrow> True))
      | _ \<Rightarrow> False)"

text \<open>Whether \<^verbatim>\<open>Decoder.Next\<close> can go on after the put: the body was read, and did not end in an error.\<close>

definition putLeaves :: "('db, 'r) cache_env \<Rightarrow> frame \<Rightarrow> fsys \<Rightarrow> bool" where
  "putLeaves K fr fs = (case fr_body fr of None \<Rightarrow> True | Some (_, err) \<Rightarrow> err = None \<and> bodyRead K fr fs)"

section \<open>The loop\<close>

text \<open>
  \<open>ss_in\<close> is what the decoder has still to deliver, after which it ends; \<open>ss_running\<close> says that the loop
  has not returned. \<open>ss_seen\<close> are the identifiers of the requests the loop received and \<open>ss_lost\<close> those
  of the requests whose answer could not be written or which a cancelled context abandoned.
\<close>

record ('db, 'r) sess =
  ss_in :: "frame list"
  ss_running :: bool
  ss_inflight :: "(int \<times> bytes) list"
  ss_out :: "Response list"
  ss_seen :: "int list"
  ss_lost :: "int list"
  ss_cache :: "('db, 'r) cache"

definition maxConcurrentGets :: nat where "maxConcurrentGets = 64"

definition handshake :: Response where
  "handshake = Response0\<lparr>r_KnownCommands := KnownCommands\<rparr>"

definition session_start :: "frame list \<Rightarrow> ('db, 'r) cache \<Rightarrow> ('db, 'r) sess" where
  "session_start frs c = \<lparr>ss_in = frs, ss_running = True, ss_inflight = [], ss_out = [handshake], ss_seen = [], ss_lost = [], ss_cache = c\<rparr>"

definition answer :: "Response \<Rightarrow> ('db, 'r) sess \<Rightarrow> ('db, 'r) sess" where
  "answer r st = st\<lparr>ss_out := ss_out st @ [r]\<rparr>"

definition lose :: "int \<Rightarrow> ('db, 'r) sess \<Rightarrow> ('db, 'r) sess" where
  "lose ident st = st\<lparr>ss_lost := ss_lost st @ [ident]\<rparr>"

text \<open>\<open>wr\<close> is whether writing the response succeeds.\<close>

definition encode :: "bool \<Rightarrow> Response \<Rightarrow> ('db, 'r) sess \<Rightarrow> ('db, 'r) sess" where
  "encode wr r st = (if wr then answer r st else lose (r_ID r) st)"

definition received :: "frame \<Rightarrow> ('db, 'r) sess \<Rightarrow> ('db, 'r) sess" where
  "received fr st = st\<lparr>ss_in := tl (ss_in st), ss_seen := ss_seen st @ [q_ID (fr_req fr)]\<rparr>"

definition servePut ::
  "('db, 'r) cache_env \<Rightarrow> (nat \<Rightarrow> int) \<Rightarrow> (uploader \<Rightarrow> uploader \<times> wait_end) \<Rightarrow> bool \<Rightarrow> frame \<Rightarrow> ('db, 'r) sess \<Rightarrow> ('db, 'r) sess" where
  "servePut K clk during wr fr st =
     (let (r, c) = handlePut K clk during (fr_req fr) (fr_body fr) (ss_cache st);
          go = putLeaves K fr (c_fs (ss_cache st));
          st = encode wr r ((received fr st)\<lparr>ss_cache := c\<rparr>) in
      if \<not> wr then st\<lparr>ss_running := False\<rparr>
      else if \<not> go then st\<lparr>ss_in := []\<rparr> else st)"

definition serveUnknown :: "bool \<Rightarrow> frame \<Rightarrow> ('db, 'r) sess \<Rightarrow> ('db, 'r) sess" where
  "serveUnknown wr fr st =
     (let st = encode wr (Response0\<lparr>r_ID := q_ID (fr_req fr), r_Err := Some ErrParse\<rparr>) (received fr st) in
      if wr then st else st\<lparr>ss_running := False\<rparr>)"

definition finishGet :: "('db, 'r) cache_env \<Rightarrow> (nat \<Rightarrow> int) \<Rightarrow> bool \<Rightarrow> int \<times> bytes \<Rightarrow> ('db, 'r) sess \<Rightarrow> ('db, 'r) sess" where
  "finishGet K clk wr g st =
     (let (r, c) = handleGet K clk (fst g) (snd g) (ss_cache st) in
      encode wr r (st\<lparr>ss_inflight := remove1 g (ss_inflight st), ss_cache := c\<rparr>))"

text \<open>
  The steps of a session whose limit of gets in flight is \<open>limit\<close>: the loop takes a request, a
  goroutine answers its get, the loop gives up waiting for a slot because the daemon stops, the
  stream ends, and the cache changes for other reasons.
\<close>

inductive sess_step :: "('db, 'r) cache_env \<Rightarrow> nat \<Rightarrow> ('db, 'r) sess \<Rightarrow> ('db, 'r) sess \<Rightarrow> bool" for K limit where
  takeGet: "ss_running st \<Longrightarrow> ss_in st = fr # frs \<Longrightarrow> q_Command (fr_req fr) = CmdGet \<Longrightarrow> length (ss_inflight st) < limit \<Longrightarrow>
    sess_step K limit st ((received fr st)\<lparr>ss_inflight := ss_inflight st @ [(q_ID (fr_req fr), q_ActionID (fr_req fr))]\<rparr>)"
| abandonGet: "ss_running st \<Longrightarrow> ss_in st = fr # frs \<Longrightarrow> q_Command (fr_req fr) = CmdGet \<Longrightarrow>
    sess_step K limit st ((lose (q_ID (fr_req fr)) (received fr st))\<lparr>ss_running := False\<rparr>)"
| answerGet: "g \<in> set (ss_inflight st) \<Longrightarrow> sess_step K limit st (finishGet K clk wr g st)"
| takePut: "ss_running st \<Longrightarrow> ss_in st = fr # frs \<Longrightarrow> q_Command (fr_req fr) = CmdPut \<Longrightarrow>
    sess_step K limit st (servePut K clk during wr fr st)"
| takeClose: "ss_running st \<Longrightarrow> ss_in st = fr # frs \<Longrightarrow> q_Command (fr_req fr) = CmdClose \<Longrightarrow> ss_inflight st = [] \<Longrightarrow>
    sess_step K limit st ((encode wr (Response0\<lparr>r_ID := q_ID (fr_req fr)\<rparr>) (received fr st))\<lparr>ss_running := False\<rparr>)"
| takeUnknown: "ss_running st \<Longrightarrow> ss_in st = fr # frs \<Longrightarrow> q_Command (fr_req fr) \<notin> set KnownCommands \<Longrightarrow>
    sess_step K limit st (serveUnknown wr fr st)"
| streamEnds: "ss_running st \<Longrightarrow> ss_in st = [] \<Longrightarrow> sess_step K limit st (st\<lparr>ss_running := False\<rparr>)"
| others: "sess_step K limit st (st\<lparr>ss_cache := c'\<rparr>)"

section \<open>Serving nothing\<close>

text \<open>
  The floor beneath every other fallback. \<open>wr n\<close> is whether the n-th response can be written, the
  handshake being the 0th, and \<open>fin\<close> the error the decoder ends with, if it is not the end of the stream.
\<close>

fun missLoop :: "(nat \<Rightarrow> bool) \<Rightarrow> nat \<Rightarrow> error option \<Rightarrow> frame list \<Rightarrow> Response list \<times> error option" where
  "missLoop wr n fin [] = ([], fin)"
| "missLoop wr n fin (fr # frs) =
     (case fr_body fr of
        Some (_, Some err) \<Rightarrow> ([], Some err)
      | _ \<Rightarrow>
          (let resp = Response0\<lparr>r_ID := q_ID (fr_req fr), r_Miss := (q_Command (fr_req fr) = CmdGet)\<rparr> in
           if \<not> wr n then ([], Some (ErrIO n))
           else if q_Command (fr_req fr) = CmdClose then ([resp], None)
           else (let (out, err) = missLoop wr (Suc n) fin frs in (resp # out, err))))"

definition ServeMisses :: "(nat \<Rightarrow> bool) \<Rightarrow> error option \<Rightarrow> frame list \<Rightarrow> Response list \<times> error option" where
  "ServeMisses wr fin frs =
     (if \<not> wr 0 then ([], Some (ErrIO 0))
      else (let (out, err) = missLoop wr 1 fin frs in (handshake # out, err)))"

end
