(* ===== verification/Session_Theorems.thy ===== *)
theory Session_Theorems
  imports Session Bazel_Theorems "HOL-Library.Sublist"
begin

text \<open>
  Every request of a session is answered once, whatever order the gets finish in; a close is answered
  last; and what a put stores a get is answered with. A put that fails before its body is read ends
  the session.
\<close>

lemmas sess_defs = received_def encode_def answer_def lose_def

text \<open>
  The accounting: answered, lost and in flight are what was received, and what was received is a
  prefix of what was sent. A close is the last request taken, and when it is taken nothing is in
  flight.
\<close>

definition accounted :: "('db, 'r) sess \<Rightarrow> bool" where
  "accounted st \<longleftrightarrow>
     mset (map r_ID (tl (ss_out st))) + mset (ss_lost st) + mset (map fst (ss_inflight st)) = mset (ss_seen st)"

definition closes :: "frame \<Rightarrow> bool" where
  "closes fr \<longleftrightarrow> q_Command (fr_req fr) = CmdClose"

definition progress :: "frame list \<Rightarrow> ('db, 'r) sess \<Rightarrow> bool" where
  "progress frs st \<longleftrightarrow>
     (\<exists>pre rest. frs = pre @ ss_in st @ rest \<and> ss_seen st = map (q_ID \<circ> fr_req) pre \<and> (\<forall>fr \<in> set (butlast pre). \<not> closes fr)
        \<and> (pre \<noteq> [] \<longrightarrow> closes (last pre) \<longrightarrow> \<not> ss_running st \<and> ss_inflight st = []))"

definition sess_inv :: "nat \<Rightarrow> frame list \<Rightarrow> ('db, 'r) sess \<Rightarrow> bool" where
  "sess_inv limit frs st \<longleftrightarrow>
     ss_out st \<noteq> [] \<and> hd (ss_out st) = handshake \<and> accounted st \<and> length (ss_inflight st) \<le> limit \<and> progress frs st"

lemma handler_ID [simp]:
  "r_ID (fst (handleGet K clk ident a c)) = ident" "r_ID (fst (handlePut K clk during req body c)) = q_ID req"
  by (simp_all add: handleGet_def handlePut_def Let_def split: sum.splits prod.splits option.splits)

lemma image_mset_remove1: "x \<in> set xs \<Longrightarrow> image_mset f (mset xs) = add_mset (f x) (image_mset f (mset (remove1 x xs)))"
  by (induction xs) auto

text \<open>Taking the next request, with the loop running: no close has been taken yet.\<close>

lemma progress_take:
  assumes "progress frs st" "ss_running st" "ss_in st = fr # later" "ss_seen st' = ss_seen st @ [q_ID (fr_req fr)]"
    and "ss_in st' = later \<or> ss_in st' = []" "closes fr \<Longrightarrow> \<not> ss_running st' \<and> ss_inflight st' = []"
  shows "progress frs st'"
proof -
  obtain pre rest where P: "frs = pre @ fr # later @ rest" "ss_seen st = map (q_ID \<circ> fr_req) pre" "\<forall>x \<in> set (butlast pre). \<not> closes x"
    "pre \<noteq> [] \<longrightarrow> \<not> closes (last pre)"
    using assms(1-3) unfolding progress_def by auto
  have no: "\<forall>x \<in> set pre. \<not> closes x" using P(3,4) by (cases pre rule: rev_cases) auto
  show ?thesis unfolding progress_def
  proof (intro exI conjI)
    show "frs = (pre @ [fr]) @ ss_in st' @ (if ss_in st' = [] then later @ rest else rest)" using P(1) assms(5) by auto
  qed (use P(2) no assms(4,6) in auto)
qed

lemma sess_step_inv:
  assumes "sess_step K limit st st'" "sess_inv limit frs st"
  shows "sess_inv limit frs st'"
proof -
  have I: "ss_out st \<noteq> []" "hd (ss_out st) = handshake" "accounted st" "length (ss_inflight st) \<le> limit" "progress frs st"
    using assms(2) unfolding sess_inv_def by auto
  obtain x xs where o: "ss_out st = x # xs" using I(1) by (cases "ss_out st") auto
  from assms(1) show ?thesis
  proof cases
    case (takeGet fr later)
    have "progress frs st'"
      by (rule progress_take [OF I(5) takeGet(2,3)]) (use takeGet in \<open>auto simp: received_def closes_def cmd_defs\<close>)
    then show ?thesis using I takeGet by (auto simp: sess_inv_def accounted_def sess_defs)
  next
    case (abandonGet fr later)
    have "progress frs st'"
      by (rule progress_take [OF I(5) abandonGet(2,3)]) (use abandonGet in \<open>auto simp: received_def lose_def closes_def cmd_defs\<close>)
    then show ?thesis using I abandonGet by (auto simp: sess_inv_def accounted_def sess_defs)
  next
    case (answerGet g clk wr)
    obtain r c where r: "handleGet K clk (fst g) (snd g) (ss_cache st) = (r, c)" by fastforce
    have id: "r_ID r = fst g" using handler_ID(1) [of K clk "fst g" "snd g" "ss_cache st"] r by simp
    have m: "mset (map fst (ss_inflight st)) = add_mset (fst g) (mset (map fst (remove1 g (ss_inflight st))))"
      using image_mset_remove1 [OF answerGet(2), of fst] by simp
    have "progress frs st'"
      using I(5) answerGet r by (cases wr) (auto simp: progress_def finishGet_def sess_defs)
    moreover have "accounted st'" using I(3) answerGet(1) r id m o
      by (cases wr) (simp_all add: accounted_def finishGet_def sess_defs)
    moreover have "length (ss_inflight st') \<le> limit" using I(4) answerGet r
      by (cases wr) (simp_all add: finishGet_def sess_defs length_remove1)
    ultimately show ?thesis using I(1,2) answerGet(1) r by (cases wr) (simp_all add: sess_inv_def finishGet_def sess_defs)
  next
    case (takePut fr later clk during wr)
    obtain r c where r: "handlePut K clk during (fr_req fr) (fr_body fr) (ss_cache st) = (r, c)" by fastforce
    have id: "r_ID r = q_ID (fr_req fr)" using handler_ID(2) [of K clk during "fr_req fr" "fr_body fr" "ss_cache st"] r by simp
    have "progress frs st'"
      by (rule progress_take [OF I(5) takePut(2,3)])
        (use takePut r in \<open>auto simp: servePut_def sess_defs closes_def cmd_defs Let_def\<close>)
    then show ?thesis using I takePut(1) r id o by (auto simp: sess_inv_def accounted_def servePut_def sess_defs Let_def)
  next
    case (takeClose fr later wr)
    have "progress frs st'"
      by (rule progress_take [OF I(5) takeClose(2,3)]) (use takeClose in \<open>auto simp: sess_defs\<close>)
    then show ?thesis using I takeClose o by (auto simp: sess_inv_def accounted_def sess_defs)
  next
    case (takeUnknown fr later wr)
    have "progress frs st'"
      by (rule progress_take [OF I(5) takeUnknown(2,3)])
        (use takeUnknown in \<open>auto simp: serveUnknown_def sess_defs closes_def KnownCommands_def Let_def\<close>)
    then show ?thesis using I takeUnknown(1) o by (auto simp: sess_inv_def accounted_def serveUnknown_def sess_defs Let_def)
  next
    case streamEnds
    then show ?thesis using I by (auto simp: sess_inv_def accounted_def progress_def)
  next
    case (others c')
    then show ?thesis using I by (auto simp: sess_inv_def accounted_def progress_def)
  qed
qed

lemma sess_steps_inv: "(sess_step K limit)\<^sup>*\<^sup>* st st' \<Longrightarrow> sess_inv limit frs st \<Longrightarrow> sess_inv limit frs st'"
  by (induction rule: rtranclp_induct) (auto intro: sess_step_inv)

lemma sess_inv_start: "sess_inv limit frs (session_start frs c)"
  by (auto simp: sess_inv_def session_start_def accounted_def progress_def)

text \<open>
  C8. Every request is answered once. However the gets of a session finish, responses fail to be
  written and the cache changes underneath, the requests received so far are a prefix of those
  sent, and each of them has exactly one response, or is a get still in flight, or was lost with
  its connection or to a shutdown; no more gets than the limit are in flight; the handshake comes
  first; and a close is the last request received, answered only when no get is in flight, so that
  nothing is written after its answer.
\<close>

theorem session_answers:
  assumes "(sess_step K limit)\<^sup>*\<^sup>* (session_start frs c) st"
  shows "hd (ss_out st) = handshake \<and> length (ss_inflight st) \<le> limit
    \<and> mset (map r_ID (tl (ss_out st))) + mset (ss_lost st) + mset (map fst (ss_inflight st)) = mset (ss_seen st)
    \<and> (\<exists>pre rest. frs = pre @ rest \<and> ss_seen st = map (q_ID \<circ> fr_req) pre
        \<and> (\<forall>i < length pre. q_Command (fr_req (pre ! i)) = CmdClose \<longrightarrow>
             Suc i = length pre \<and> \<not> ss_running st \<and> ss_inflight st = []))"
proof -
  have I: "sess_inv limit frs st" using sess_steps_inv [OF assms sess_inv_start] .
  then obtain pre rest where P: "frs = pre @ ss_in st @ rest" "ss_seen st = map (q_ID \<circ> fr_req) pre" "\<forall>fr \<in> set (butlast pre). \<not> closes fr"
    "pre \<noteq> [] \<longrightarrow> closes (last pre) \<longrightarrow> \<not> ss_running st \<and> ss_inflight st = []"
    unfolding sess_inv_def progress_def by blast
  have "Suc i = length pre \<and> \<not> ss_running st \<and> ss_inflight st = []" if i: "i < length pre" "closes (pre ! i)" for i
  proof -
    have "\<not> i < length (butlast pre)" using i(2) P(3) nth_mem [of i "butlast pre"] by (auto simp: nth_butlast)
    then have n: "Suc i = length pre" using i(1) by simp
    then have "pre \<noteq> []" by auto
    moreover from this have "last pre = pre ! i" using n by (metis diff_Suc_1 last_conv_nth)
    ultimately show ?thesis using n i(2) P(4) by simp
  qed
  then show ?thesis using I P(1,2) unfolding sess_inv_def accounted_def closes_def by blast
qed

definition demo_frame :: "int \<Rightarrow> Cmd \<Rightarrow> bytes \<Rightarrow> frame" where
  "demo_frame n cmd a = \<lparr>fr_req = \<lparr>q_ID = n, q_Command = cmd, q_ActionID = a, q_OutputID = [], q_BodySize = 0\<rparr>, fr_body = None, fr_drained = False\<rparr>"

text \<open>Two gets that finish in the other order, and a close.\<close>

theorem session_answers_witness:
  "\<exists>st. (sess_step demo_K 64)\<^sup>*\<^sup>* (session_start [demo_frame 1 CmdGet [], demo_frame 2 CmdGet [], demo_frame 3 CmdClose []] demo_cache) st
    \<and> map r_ID (tl (ss_out st)) = [2, 1, 3]
    \<and> mset (map r_ID (tl (ss_out st))) + mset (ss_lost st) + mset (map fst (ss_inflight st)) = mset (ss_seen st)"
proof -
  let ?f1 = "demo_frame 1 CmdGet []" and ?f2 = "demo_frame 2 CmdGet []" and ?f3 = "demo_frame 3 CmdClose []"
  let ?st0 = "session_start [?f1, ?f2, ?f3] demo_cache :: (ref_db, unit) sess"
  let ?st1 = "(received ?f1 ?st0)\<lparr>ss_inflight := [(1, [])]\<rparr>"
  let ?st2 = "(received ?f2 ?st1)\<lparr>ss_inflight := [(1, []), (2, [])]\<rparr>"
  let ?st3 = "finishGet demo_K (\<lambda>_. 0) True (2, []) ?st2"
  let ?st4 = "finishGet demo_K (\<lambda>_. 0) True (1, []) ?st3"
  let ?st5 = "(encode True (Response0\<lparr>r_ID := 3\<rparr>) (received ?f3 ?st4))\<lparr>ss_running := False\<rparr>"
  note e = session_start_def demo_frame_def sess_defs finishGet_def handleGet_def ActionIDFromBytes_def id_Size_def
  have "sess_step demo_K 64 ?st0 ?st1" using takeGet [of ?st0 ?f1 "[?f2, ?f3]" 64 demo_K] by (simp add: e)
  moreover have "sess_step demo_K 64 ?st1 ?st2" using takeGet [of ?st1 ?f2 "[?f3]" 64 demo_K] by (simp add: e)
  moreover have "sess_step demo_K 64 ?st2 ?st3" by (rule answerGet) (simp add: e)
  moreover have "sess_step demo_K 64 ?st3 ?st4" by (rule answerGet) (simp add: e)
  moreover have "sess_step demo_K 64 ?st4 ?st5" using takeClose [of ?st4 ?f3 "[]" demo_K 64 True] by (simp add: e)
  ultimately have run: "(sess_step demo_K 64)\<^sup>*\<^sup>* ?st0 ?st5" by (meson r_into_rtranclp rtranclp_trans)
  then show ?thesis using session_answers [OF run] by (intro exI [of _ ?st5]) (simp add: e)
qed

section \<open>What a put stores a get is answered with\<close>

lemma id_from_bytes [simp]: "ActionIDFromBytes (id_bytes a) = Inr a" "OutputIDFromBytes (id_bytes v) = Inr v"
  by (simp_all add: ActionIDFromBytes_def OutputIDFromBytes_def id_Size_def)

text \<open>A put that succeeded has read its body.\<close>

lemma Cache_Put_read:
  assumes "Cache_Put K clk during a v (d, e) sz c = (Inr path, c')"
  shows "\<exists>tmp fs fs'. createTempIn (ce_E K) (Store_Path (ce_root K) v) (c_fs c) = (Inr tmp, fs) \<and> os_Write (ce_E K) tmp d fs = (Inr (), fs') \<and> e = None"
  using assms by (auto simp: Cache_Put_def Store_Put_def putTemp_def Let_def split: sum.splits prod.splits if_splits option.splits)

text \<open>
  C7. The build gets back what it put. On an undisturbed machine a put with a body of the declared
  size, or with none, is answered with its path and leaves the session ready for the next request;
  a later get of the action is answered with the output identifier, the size and the time of the
  put, and at the path of the answer is the body, or the one an earlier writer published under
  that identifier.
\<close>

theorem gocacheprog_put_get:
  assumes "env_ok K" "pebble_healthy (ce_P K)" "no_faults (ce_E K)" "cache_repr K (ss_cache st) s" "room K (ss_cache st)"
    and "\<not> ix_closed (c_idx (ss_cache st))" "in64 (clk 0)" "0 \<le> clk 0" "in64 (int (length d))"
    and "clear_way (ce_E K) (c_fs (ss_cache st)) (Store_Path (ce_root K) v)" "ss_in st = fr # frs"
    and "q_ActionID (fr_req fr) = id_bytes a" "q_OutputID (fr_req fr) = id_bytes v" "q_BodySize (fr_req fr) = int (length d)"
    and "fr_body fr = (if d = [] then None else Some (d, None))" "path = Store_Path (ce_root K) v"
  shows "\<exists>st'. servePut K clk during True fr st = st' \<and> ss_in st' = frs \<and> ss_running st' = ss_running st
    \<and> ss_out st' = ss_out st @ [Response0\<lparr>r_ID := q_ID (fr_req fr), r_DiskPath := path\<rparr>]
    \<and> fst (handleGet K clk' ident (id_bytes a) (ss_cache st')) = Response0\<lparr>r_ID := ident, r_OutputID := id_bytes v,
        r_Size := int (length d), r_Time := Some (clk 0), r_DiskPath := path\<rparr>
    \<and> content (c_fs (ss_cache st')) path = Some (case content (c_fs (ss_cache st)) path of None \<Rightarrow> d | Some old \<Rightarrow> old)"
proof -
  let ?c = "ss_cache st"
  obtain c' s' n where P: "Cache_Put K clk during a v (d, None) (int (length d)) ?c = (Inr path, c')" "cache_repr K c' s'"
    "\<not> ix_closed (c_idx c')" "s' = spec_put a \<lparr>OutputID = v, Size = int (length d), CreatedAt = clk 0, LastUsedAt = clk 0\<rparr> n s"
    "bodies (c_fs c') (ce_root K) = publish v d (bodies (c_fs ?c) (ce_root K))"
    using Cache_Put_serves [where clk = clk, OF assms(1-9) refl assms(10)] assms(16) by blast
  have "ents s' a = Some \<lparr>OutputID = v, Size = int (length d), CreatedAt = clk 0, LastUsedAt = clk 0\<rparr>" using P(4) by (simp add: spec_put_def)
  then obtain c'' where G: "Cache_Get K clk' a c' = (Some \<lparr>res_OutputID = v, res_Size = int (length d), res_DiskPath = path, res_Time = clk 0\<rparr>, c'')"
    using Cache_Get_local [OF assms(1-3) P(2,3)] assms(16) by fastforce
  have h: "handlePut K clk during (fr_req fr) (fr_body fr) ?c = (Response0\<lparr>r_ID := q_ID (fr_req fr), r_DiskPath := path\<rparr>, c')"
    using P(1) assms(12-15) by (auto simp: handlePut_def)
  have go: "putLeaves K fr (c_fs ?c)"
    using Cache_Put_read [OF P(1)] assms(12,13,15) by (auto simp: putLeaves_def bodyRead_def)
  have out: "servePut K clk during True fr st
      = st\<lparr>ss_in := frs, ss_seen := ss_seen st @ [q_ID (fr_req fr)], ss_cache := c', ss_out := ss_out st @ [Response0\<lparr>r_ID := q_ID (fr_req fr), r_DiskPath := path\<rparr>]\<rparr>"
    using h go assms(11) by (simp add: servePut_def sess_defs)
  have "content (c_fs c') path = Some (case content (c_fs ?c) path of None \<Rightarrow> d | Some old \<Rightarrow> old)"
    using fun_cong [OF P(5), of v] assms(16) by (auto simp: bodies_def publish_def split: option.splits)
  then show ?thesis unfolding out using G by (simp add: handleGet_def)
qed

definition demo_put :: frame where
  "demo_put = \<lparr>fr_req = \<lparr>q_ID = 1, q_Command = CmdPut, q_ActionID = id_bytes (demo_id 1), q_OutputID = id_bytes (demo_id 7), q_BodySize = 3\<rparr>,
     fr_body = Some ([1, 2, 3], None), fr_drained = True\<rparr>"

theorem gocacheprog_put_get_witness:
  "\<exists>st'. servePut demo_K (\<lambda>_. 20) (\<lambda>u. (u, Timeout)) True demo_put (session_start [demo_put] demo_cache) = st'
    \<and> fst (handleGet demo_K (\<lambda>_. 30) 2 (id_bytes (demo_id 1)) (ss_cache st')) = Response0\<lparr>r_ID := 2, r_OutputID := id_bytes (demo_id 7),
        r_Size := 3, r_Time := Some 20, r_DiskPath := Store_Path ''/c'' (demo_id 7)\<rparr>
    \<and> content (c_fs (ss_cache st')) (Store_Path ''/c'' (demo_id 7)) = Some [1, 2, 3]"
proof -
  let ?st = "session_start [demo_put] demo_cache"
  have f: "ss_cache ?st = demo_cache" "ss_in ?st = [demo_put]" by (simp_all add: session_start_def)
  have fr: "q_ActionID (fr_req demo_put) = id_bytes (demo_id 1)" "q_OutputID (fr_req demo_put) = id_bytes (demo_id 7)"
    "q_BodySize (fr_req demo_put) = int (length [1, 2, 3 :: 8 word])" "fr_body demo_put = (if [1, 2, 3] = [] then None else Some ([1, 2, 3], None))"
    by (simp_all add: demo_put_def)
  have nb: "content (c_fs demo_cache) (Store_Path ''/c'' (demo_id 7)) = None" using demo_no_body by (simp add: bodies_def)
  have b: "no_faults (ce_E demo_K)" "pebble_healthy (ce_P demo_K)" "\<not> ix_closed (c_idx demo_cache)" "in64 20" "in64 (int (length [1, 2, 3 :: 8 word]))"
    "clear_way (ce_E demo_K) (c_fs demo_cache) (Store_Path (ce_root demo_K) (demo_id 7))"
    using no_faults_demo8 pebble_healthy_ref clear_way_demo8 by (simp_all add: empty_index_def in64_def)
  show ?thesis
    using gocacheprog_put_get [where K = demo_K and st = ?st and s = empty_spec and clk = "\<lambda>_. 20" and clk' = "\<lambda>_. 30" and d = "[1, 2, 3]"
        and v = "demo_id 7" and a = "demo_id 1" and fr = demo_put and frs = "[]" and ident = 2 and path = "Store_Path ''/c'' (demo_id 7)"
        and during = "\<lambda>u. (u, Timeout)", unfolded f, OF env_ok_demo b(2,1) cache_repr_demo room_demo b(3,4) _ b(5,6) refl fr] nb
    by simp
qed

section \<open>A put that fails early ends the session\<close>

text \<open>
  A put whose output identifier is malformed is answered with an error before its body is read, and
  the decoder refuses to go on: whatever the client has sent after it is never taken.
\<close>

lemma bad_put_ends_session:
  assumes "ss_in st = fr # frs" "fr_body fr = Some (d, None)" "OutputIDFromBytes (q_OutputID (fr_req fr)) = Inl err"
  shows "ss_in (servePut K clk during True fr st) = []"
proof -
  have "\<not> putLeaves K fr (c_fs (ss_cache st))"
    using assms(2,3) by (simp add: putLeaves_def bodyRead_def split: sum.split)
  then show ?thesis by (simp add: servePut_def Let_def case_prod_beta)
qed

section \<open>Serving misses\<close>

text \<open>Up to and including a close every request is answered, in order, no get is a hit, and no path is given.\<close>

lemma ServeMisses_answers:
  assumes "\<And>n. wr n" "\<And>fr. fr \<in> set frs \<Longrightarrow> fr_body fr = None \<or> (\<exists>b. fr_body fr = Some (b, None))"
  shows "\<exists>out. fst (ServeMisses wr fin frs) = handshake # out
    \<and> map r_ID out = map (q_ID \<circ> fr_req) (takeWhile (\<lambda>fr. \<not> closes fr) frs @ take 1 (dropWhile (\<lambda>fr. \<not> closes fr) frs))
    \<and> (\<forall>r \<in> set out. r_Err r = None \<and> r_OutputID r = [] \<and> r_DiskPath r = [])"
proof -
  have "map r_ID (fst (missLoop wr n fin frs)) = map (q_ID \<circ> fr_req) (takeWhile (\<lambda>fr. \<not> closes fr) frs @ take 1 (dropWhile (\<lambda>fr. \<not> closes fr) frs))
      \<and> (\<forall>r \<in> set (fst (missLoop wr n fin frs)). r_Err r = None \<and> r_OutputID r = [] \<and> r_DiskPath r = [])" for n
    using assms(2)
  proof (induction frs arbitrary: n)
    case (Cons fr frs)
    have "fr_body fr = None \<or> (\<exists>b. fr_body fr = Some (b, None))" using Cons.prems by simp
    then have "missLoop wr n fin (fr # frs) = (let resp = Response0\<lparr>r_ID := q_ID (fr_req fr), r_Miss := (q_Command (fr_req fr) = CmdGet)\<rparr> in
        if closes fr then ([resp], None) else (let (out, err) = missLoop wr (Suc n) fin frs in (resp # out, err)))"
      using assms(1) by (auto simp: closes_def)
    then show ?case using Cons.IH [of "Suc n"] Cons.prems
      by (auto simp: Let_def closes_def Response0_def split: prod.splits)
  qed simp
  from this [of 1] show ?thesis using assms(1) by (auto simp: ServeMisses_def split: prod.splits)
qed

end
