(* ===== verification/Base64.thy ===== *)
theory Base64
  imports Strconv
begin

text \<open>
  The standard library's \<^verbatim>\<open>encoding/base64\<close> with \<^verbatim>\<open>StdEncoding\<close>, as the protocol and \<^verbatim>\<open>encoding/json\<close> use it: the
  encoder, the decoder of a whole text, and the streaming decoder, which decodes the whole quanta it
  has buffered each time its reader delivers something.
\<close>

section \<open>The alphabet\<close>

definition b64_alphabet :: string where
  "b64_alphabet = ''ABCDEFGHIJKLMNOPQRSTUVWXYZabcdefghijklmnopqrstuvwxyz0123456789+/''"

definition b64_char :: "nat \<Rightarrow> char" where
  "b64_char n = b64_alphabet ! (n mod 64)"

definition b64_val :: "char \<Rightarrow> nat option" where
  "b64_val c = (let n = length (takeWhile (\<lambda>x. x \<noteq> c) b64_alphabet) in if n < 64 then Some n else None)"

definition b64_pad :: char where "b64_pad = CHR ''=''"

lemma length_alphabet [simp]: "length b64_alphabet = 64"
  by (simp add: b64_alphabet_def)

lemma distinct_alphabet: "distinct b64_alphabet"
  by (simp add: b64_alphabet_def)

lemma takeWhile_nth_distinct: "distinct xs \<Longrightarrow> n < length xs \<Longrightarrow> length (takeWhile (\<lambda>x. x \<noteq> xs ! n) xs) = n"
proof (induction xs arbitrary: n)
  case (Cons x xs)
  then show ?case by (cases n) auto
qed simp

lemma b64_val_char [simp]: "b64_val (b64_char n) = Some (n mod 64)"
  using takeWhile_nth_distinct [OF distinct_alphabet, of "n mod 64"] by (simp add: b64_val_def b64_char_def Let_def)

lemma b64_val_less: "b64_val c = Some n \<Longrightarrow> n < 64"
  by (auto simp: b64_val_def Let_def split: if_splits)

lemma b64_char_in: "b64_char n \<in> set b64_alphabet"
  by (simp add: b64_char_def)

lemma b64_char_not [simp]: "b64_char n \<noteq> b64_pad" "b64_char n \<noteq> CHR 0x0A" "b64_char n \<noteq> CHR 0x0D" "b64_char n \<noteq> CHR 0x22"
  using b64_char_in [of n] by (auto simp: b64_alphabet_def b64_pad_def)

section \<open>Quanta\<close>

text \<open>Three bytes are 24 bits, and 24 bits are four digits.\<close>

definition quantum :: "8 word \<Rightarrow> 8 word \<Rightarrow> 8 word \<Rightarrow> nat" where
  "quantum a b c = unat a * 65536 + unat b * 256 + unat c"

definition from_digits :: "nat \<Rightarrow> nat \<Rightarrow> nat \<Rightarrow> nat \<Rightarrow> nat" where
  "from_digits x0 x1 x2 x3 = x0 * 262144 + x1 * 4096 + x2 * 64 + x3"

definition octet0 :: "nat \<Rightarrow> 8 word" where "octet0 n = of_nat (n div 65536)"
definition octet1 :: "nat \<Rightarrow> 8 word" where "octet1 n = of_nat (n div 256)"
definition octet2 :: "nat \<Rightarrow> 8 word" where "octet2 n = of_nat n"

definition digit0 :: "nat \<Rightarrow> char" where "digit0 n = b64_char (n div 262144)"
definition digit1 :: "nat \<Rightarrow> char" where "digit1 n = b64_char (n div 4096)"
definition digit2 :: "nat \<Rightarrow> char" where "digit2 n = b64_char (n div 64)"
definition digit3 :: "nat \<Rightarrow> char" where "digit3 n = b64_char n"

lemmas digit_defs = digit0_def digit1_def digit2_def digit3_def

section \<open>Encoding\<close>

fun b64_encode :: "bytes \<Rightarrow> string" where
  "b64_encode [] = []"
| "b64_encode [a] = (let n = quantum a 0 0 in [digit0 n, digit1 n, b64_pad, b64_pad])"
| "b64_encode [a, b] = (let n = quantum a b 0 in [digit0 n, digit1 n, digit2 n, b64_pad])"
| "b64_encode (a # b # c # bs) = (let n = quantum a b c in [digit0 n, digit1 n, digit2 n, digit3 n] @ b64_encode bs)"

section \<open>Decoding a text\<close>

text \<open>
  The bytes decoded before the first error, and whether there was none. Line ends are skipped wherever
  they are. Padding ends the text: what follows it is garbage, an error that is found after the
  quantum's bytes were produced.
\<close>

fun b64_quanta :: "string \<Rightarrow> bytes \<times> bool" where
  "b64_quanta [] = ([], True)"
| "b64_quanta (c0 # c1 # c2 # c3 # cs) =
     (case (b64_val c0, b64_val c1, b64_val c2, b64_val c3) of
        (Some x0, Some x1, Some x2, Some x3) \<Rightarrow>
          (let n = from_digits x0 x1 x2 x3; (bs, ok) = b64_quanta cs in (octet0 n # octet1 n # octet2 n # bs, ok))
      | (Some x0, Some x1, Some x2, None) \<Rightarrow>
          (if c3 = b64_pad then (let n = from_digits x0 x1 x2 0 in ([octet0 n, octet1 n], cs = [])) else ([], False))
      | (Some x0, Some x1, None, _) \<Rightarrow>
          (if c2 = b64_pad \<and> c3 = b64_pad then (let n = from_digits x0 x1 0 0 in ([octet0 n], cs = [])) else ([], False))
      | _ \<Rightarrow> ([], False))"
| "b64_quanta cs = ([], False)"

definition line_end :: "char \<Rightarrow> bool" where
  "line_end c \<longleftrightarrow> c = CHR 0x0A \<or> c = CHR 0x0D"

definition b64_decode :: "string \<Rightarrow> bytes \<times> bool" where
  "b64_decode s = b64_quanta (filter (\<lambda>c. \<not> line_end c) s)"

definition b64_DecodeString :: "string \<Rightarrow> bytes result" where
  "b64_DecodeString s = (case b64_decode s of (bs, True) \<Rightarrow> Inr bs | (_, False) \<Rightarrow> Inl ErrParse)"

section \<open>Round trip\<close>

lemma quantum_less: "quantum a b c < 16777216"
  using unat_byte_bound [of a] unat_byte_bound [of b] unat_byte_bound [of c] unfolding quantum_def by linarith

lemma from_digits_id:
  assumes "n < 16777216"
  shows "from_digits (n div 262144 mod 64) (n div 4096 mod 64) (n div 64 mod 64) (n mod 64) = n"
proof -
  have q: "n = n div 64 * 64 + n mod 64" "n div 64 = n div 4096 * 64 + n div 64 mod 64" "n div 4096 = n div 262144 * 64 + n div 4096 mod 64"
    using div_mult_mod_eq [of n 64] div_mult_mod_eq [of "n div 64" 64] div_mult_mod_eq [of "n div 4096" 64]
    by (simp_all add: div_mult2_eq [symmetric])
  have "n div 262144 mod 64 = n div 262144" using assms by simp
  then show ?thesis using q unfolding from_digits_def by linarith
qed

lemma word_of_nat_mod: "(of_nat (x * 256 + unat (b :: 8 word)) :: 8 word) = b"
proof -
  have "(of_nat 256 :: 8 word) = 0" by code_simp
  then have "(of_nat (x * 256) :: 8 word) = 0" by (simp only: of_nat_mult mult_zero_right)
  then show ?thesis by (simp only: of_nat_add add_0_left add_0_left) simp
qed

lemma octets_quantum: "octet0 (quantum a b c) = a" "octet1 (quantum a b c) = b" "octet2 (quantum a b c) = c"
proof -
  have "unat b * 256 + unat c < 65536" using unat_byte_bound [of b] unat_byte_bound [of c] by linarith
  moreover have "quantum a b c = 65536 * unat a + (unat b * 256 + unat c)" by (simp add: quantum_def)
  ultimately have "quantum a b c div 65536 = unat a" by simp
  then show "octet0 (quantum a b c) = a" by (simp add: octet0_def)
  have "quantum a b c = 256 * (unat a * 256 + unat b) + unat c" by (simp add: quantum_def)
  then have "quantum a b c div 256 = unat a * 256 + unat b"
    using div_mult_self2 [of 256 "unat c" "unat a * 256 + unat b"] unat_byte_bound [of c] by (simp only: add.commute div_less)
  then show "octet1 (quantum a b c) = b" unfolding octet1_def by (simp only: word_of_nat_mod)
  have "quantum a b c = (unat a * 256 + unat b) * 256 + unat c" by (simp add: quantum_def)
  then show "octet2 (quantum a b c) = c" unfolding octet2_def by (simp only: word_of_nat_mod)
qed

lemma quantum_low:
  "quantum a 0 0 mod 64 = 0" "quantum a 0 0 div 64 mod 64 = 0" "quantum a b 0 mod 64 = 0"
proof -
  have "quantum a 0 0 = 64 * (64 * (16 * unat a))" "quantum a b 0 = 64 * (1024 * unat a + 4 * unat b)" by (simp_all add: quantum_def)
  then show "quantum a 0 0 mod 64 = 0" "quantum a 0 0 div 64 mod 64 = 0" "quantum a b 0 mod 64 = 0"
    by (simp_all del: mult.assoc)
qed

lemma b64_val_pad [simp]: "b64_val b64_pad = None"
  by (simp add: b64_val_def b64_alphabet_def b64_pad_def)

lemma b64_val_digit [simp]:
  "b64_val (digit0 n) = Some (n div 262144 mod 64)" "b64_val (digit1 n) = Some (n div 4096 mod 64)"
  "b64_val (digit2 n) = Some (n div 64 mod 64)" "b64_val (digit3 n) = Some (n mod 64)"
  by (simp_all add: digit_defs)

text \<open>One quantum at a time; the last may be padded.\<close>

lemma quanta_step:
  "b64_quanta (digit0 (quantum a b c) # digit1 (quantum a b c) # digit2 (quantum a b c) # digit3 (quantum a b c) # cs)
    = (let (bs, ok) = b64_quanta cs in (a # b # c # bs, ok))"
  by (simp add: from_digits_id [OF quantum_less] octets_quantum Let_def)

lemma quanta_last: "b64_quanta (b64_encode [a]) = ([a], True)" "b64_quanta (b64_encode [a, b]) = ([a, b], True)"
  using from_digits_id [OF quantum_less, of a 0 0] from_digits_id [OF quantum_less, of a b 0]
  by (simp_all add: quantum_low octets_quantum Let_def)

lemma quanta_encode: "b64_quanta (b64_encode bs) = (bs, True)"
  by (induction bs rule: b64_encode.induct)
    (simp_all add: Let_def quanta_step quanta_last [simplified Let_def b64_encode.simps] del: b64_quanta.simps(2))

section \<open>Decoding a stream\<close>

text \<open>
  \<^verbatim>\<open>base64.NewDecoder\<close> over a reader that delivers these pieces and then ends: each time at least four digits
  are buffered the whole quanta among them are decoded. Digits left over at the end are an error.
\<close>

fun b64_stream :: "string \<Rightarrow> string list \<Rightarrow> bytes \<times> bool" where
  "b64_stream buf [] = ([], buf = [])"
| "b64_stream buf (c # cs) =
     (let buf = buf @ filter (\<lambda>x. \<not> line_end x) c; n = length buf div 4 * 4 in
      if n = 0 then b64_stream buf cs
      else case b64_quanta (take n buf) of
        (bs, False) \<Rightarrow> (bs, False)
      | (bs, True) \<Rightarrow> (let (bs', ok) = b64_stream (drop n buf) cs in (bs @ bs', ok)))"

lemma length_encode: "\<exists>k. length (b64_encode bs) = 4 * k"
proof (induction bs rule: b64_encode.induct)
  case (4 a b c bs)
  from 4 [OF refl] obtain k where "length (b64_encode bs) = 4 * k" ..
  then have "length (b64_encode (a # b # c # bs)) = 4 * Suc k" by (simp add: Let_def)
  then show ?case ..
qed (auto simp: Let_def intro: exI [of _ 1])

lemma encode_take: "take (4 * k) (b64_encode bs) = b64_encode (take (3 * k) bs)"
  and encode_drop: "drop (4 * k) (b64_encode bs) = b64_encode (drop (3 * k) bs)"
proof (induction k arbitrary: bs)
  case (Suc k)
  {
    case 1 show ?case
    proof (cases bs rule: b64_encode.cases)
      case (4 a b c xs)
      then show ?thesis using Suc.IH(1) [of xs] by (simp add: Let_def eval_nat_numeral)
    qed (simp_all add: Let_def eval_nat_numeral)
  next
    case 2 show ?case
    proof (cases bs rule: b64_encode.cases)
      case (4 a b c xs)
      then show ?thesis using Suc.IH(2) [of xs] by (simp add: Let_def eval_nat_numeral)
    qed (simp_all add: Let_def eval_nat_numeral)
  }
qed simp_all

lemma encode_chars: "set (b64_encode bs) \<subseteq> insert b64_pad (set b64_alphabet)"
  by (induction bs rule: b64_encode.induct) (auto simp: Let_def digit_defs b64_char_in)

lemma encode_no_line_end: "filter (\<lambda>x. \<not> line_end x) (b64_encode bs) = b64_encode bs"
  using encode_chars [of bs] by (auto simp: filter_id_conv line_end_def b64_alphabet_def b64_pad_def)

lemma encode_no_quote: "CHR 0x22 \<notin> set (b64_encode bs)"
  using encode_chars [of bs] by (auto simp: b64_alphabet_def b64_pad_def)

text \<open>However the text is delivered, the stream decodes to what was encoded.\<close>

lemma stream_encode:
  "buf @ concat cs = b64_encode bs \<Longrightarrow> length buf < 4 \<Longrightarrow> b64_stream buf cs = (bs, True)"
proof (induction cs arbitrary: buf bs)
  case Nil
  obtain k where "length (b64_encode bs) = 4 * k" using length_encode ..
  then have "b64_encode bs = []" using Nil by simp
  then show ?case using Nil quanta_encode [of bs] by simp
next
  case (Cons c cs)
  have e: "(buf @ c) @ concat cs = b64_encode bs" using Cons.prems(1) by simp
  have "set c \<subseteq> set (b64_encode bs)" using e by (metis Un_upper1 Un_upper2 le_supE set_append)
  then have f: "filter (\<lambda>x. \<not> line_end x) c = c" using encode_no_line_end [of bs] by (fastforce simp: filter_id_conv)
  let ?k = "length (buf @ c) div 4"
  have le: "4 * ?k \<le> length (buf @ c)" by simp
  show ?case
  proof (cases "?k = 0")
    case True
    then have "length (buf @ c) < 4" by (simp add: div_eq_0_iff)
    then show ?thesis using Cons.IH [OF e] f True by (simp add: Let_def)
  next
    case False
    have t: "take (4 * ?k) (buf @ c) = b64_encode (take (3 * ?k) bs)"
      using arg_cong [OF e, of "take (4 * ?k)"] le by (simp add: encode_take)
    have d: "drop (4 * ?k) (buf @ c) @ concat cs = b64_encode (drop (3 * ?k) bs)"
      using arg_cong [OF e, of "drop (4 * ?k)"] le by (simp add: encode_drop)
    have "length (drop (4 * ?k) (buf @ c)) < 4"
      unfolding length_drop minus_mult_div_eq_mod by simp
    from Cons.IH [OF d this] show ?thesis
      using t f False quanta_encode [of "take (3 * ?k) bs"] by (simp add: Let_def mult.commute [of _ 4] del: take_append drop_append)
  qed
qed

end
