(* ===== verification/Json.thy ===== *)
theory Json
  imports Base64 "HOL-Library.Monad_Syntax"
begin

text \<open>
  The standard library's \<^verbatim>\<open>encoding/json\<close>, as the protocol, the handshake and the activity records use it: the
  grammar of RFC 8259 over bytes, with strings sanitised to UTF-8 and nesting bounded, the compact text
  \<^verbatim>\<open>Marshal\<close> writes, and the decoding of values into Go's types. A Go string is its bytes, so a
  character here is a byte.
\<close>

section \<open>Values\<close>

datatype json = JNull | JBool bool | JNum string | JStr string | JArr "json list" | JObj "(string \<times> json) list"

abbreviation cp :: "char \<Rightarrow> nat" where "cp \<equiv> of_char"

abbreviation chr :: "nat \<Rightarrow> char" where "chr \<equiv> char_of"

definition jquote :: char where "jquote = CHR 0x22"
definition jback :: char where "jback = CHR 0x5C"

section \<open>UTF-8\<close>

definition cont :: "nat \<Rightarrow> bool" where
  "cont b \<longleftrightarrow> 128 \<le> b \<and> b < 192"

text \<open>The number of bytes of the character a text starts with, 0 when they are no character's encoding.\<close>

fun rune_width :: "nat list \<Rightarrow> nat" where
  "rune_width [] = 0"
| "rune_width (b0 # bs) =
     (if b0 < 128 then 1
      else case bs of
        [] \<Rightarrow> 0
      | b1 # bs \<Rightarrow>
          (if 194 \<le> b0 \<and> b0 < 224 then (if cont b1 then 2 else 0)
           else case bs of
             [] \<Rightarrow> 0
           | b2 # bs \<Rightarrow>
               (if 224 \<le> b0 \<and> b0 < 240 then
                  (if cont b1 \<and> cont b2 \<and> (b0 = 224 \<longrightarrow> 160 \<le> b1) \<and> (b0 = 237 \<longrightarrow> b1 < 160) then 3 else 0)
                else case bs of
                  [] \<Rightarrow> 0
                | b3 # bs \<Rightarrow>
                    (if 240 \<le> b0 \<and> b0 < 245 \<and> cont b1 \<and> cont b2 \<and> cont b3
                        \<and> (b0 = 240 \<longrightarrow> 144 \<le> b1) \<and> (b0 = 244 \<longrightarrow> b1 < 144) then 4 else 0))))"

definition encode_rune :: "nat \<Rightarrow> string" where
  "encode_rune r =
     (if r < 128 then [chr r]
      else if r < 2048 then [chr (192 + r div 64), chr (128 + r mod 64)]
      else if r < 65536 then [chr (224 + r div 4096), chr (128 + r div 64 mod 64), chr (128 + r mod 64)]
      else [chr (240 + r div 262144), chr (128 + r div 4096 mod 64), chr (128 + r div 64 mod 64), chr (128 + r mod 64)])"

definition replacement :: string where "replacement = encode_rune 0xFFFD"

section \<open>String literals\<close>

definition hex4 :: "string \<Rightarrow> nat option" where
  "hex4 s =
     (case map fromHexChar (take 4 s) of
        [Some a, Some b, Some c, Some d] \<Rightarrow> Some (a * 4096 + b * 256 + c * 16 + d)
      | _ \<Rightarrow> None)"

text \<open>The literal after its opening quote: its raw text, and what follows the closing quote.\<close>

fun scan_str :: "string \<Rightarrow> (string \<times> string) option" where
  "scan_str [] = None"
| "scan_str (c # cs) =
     (if c = jquote then Some ([], cs)
      else if c = jback then
        (case cs of
           [] \<Rightarrow> None
         | e # es \<Rightarrow>
             (if e = CHR ''u'' \<and> hex4 es = None then None
              else if e \<notin> set [jquote, jback, CHR ''/'', CHR ''b'', CHR ''f'', CHR ''n'', CHR ''r'', CHR ''t'', CHR ''u''] then None
              else map_option (\<lambda>(s, r). (c # e # s, r)) (scan_str es)))
      else if cp c < 32 then None
      else map_option (\<lambda>(s, r). (c # s, r)) (scan_str cs))"

definition escape_of :: "char \<Rightarrow> char" where
  "escape_of e =
     (if e = CHR ''b'' then CHR 0x08 else if e = CHR ''f'' then CHR 0x0C else if e = CHR ''n'' then CHR 0x0A
      else if e = CHR ''r'' then CHR 0x0D else if e = CHR ''t'' then CHR 0x09 else e)"

text \<open>A second half of a surrogate pair, written as an escape.\<close>

definition low_surrogate :: "string \<Rightarrow> nat option" where
  "low_surrogate s =
     (case s of
        b # u # hs \<Rightarrow>
          (if b = jback \<and> u = CHR ''u'' then
             (case hex4 hs of Some r \<Rightarrow> if 0xDC00 \<le> r \<and> r < 0xE000 then Some r else None | None \<Rightarrow> None)
           else None)
      | _ \<Rightarrow> None)"

text \<open>The value of a raw literal; what is no UTF-8 and no pair of surrogates becomes U+FFFD.\<close>

function unquote_str :: "string \<Rightarrow> string" where
  "unquote_str s =
     (case s of
        [] \<Rightarrow> []
      | c # cs \<Rightarrow>
          (if c = jback then
             (case cs of
                [] \<Rightarrow> []
              | e # es \<Rightarrow>
                  (if e \<noteq> CHR ''u'' then escape_of e # unquote_str es
                   else case hex4 es of
                     None \<Rightarrow> []
                   | Some r \<Rightarrow>
                       (let rest = drop 4 es in
                        if r < 0xD800 \<or> 0xE000 \<le> r then encode_rune r @ unquote_str rest
                        else case (if r < 0xDC00 then low_surrogate rest else None) of
                          None \<Rightarrow> replacement @ unquote_str rest
                        | Some r2 \<Rightarrow> encode_rune (0x10000 + (r - 0xD800) * 1024 + (r2 - 0xDC00)) @ unquote_str (drop 6 rest))))
           else
             (let w = rune_width (map cp s) in
              if w = 0 then replacement @ unquote_str cs else take w s @ unquote_str (drop (w - 1) cs))))"
  by pat_completeness auto

termination by (relation "measure length") (auto split: if_splits)

declare unquote_str.simps [simp del]

section \<open>Numbers\<close>

text \<open>An integer part without leading zeros, a fraction and an exponent.\<close>

definition scan_frac :: "string \<Rightarrow> (string \<times> string) option" where
  "scan_frac s =
     (case s of
        c # cs \<Rightarrow>
          (if c = CHR ''.'' then
             (if takeWhile is_digit cs = [] then None else Some (c # takeWhile is_digit cs, dropWhile is_digit cs))
           else Some ([], s))
      | [] \<Rightarrow> Some ([], s))"

definition scan_exp :: "string \<Rightarrow> (string \<times> string) option" where
  "scan_exp s =
     (case s of
        c # cs \<Rightarrow>
          (if c = CHR ''e'' \<or> c = CHR ''E'' then
             (let sg = (case cs of x # _ \<Rightarrow> if x = CHR ''+'' \<or> x = CHR ''-'' then [x] else [] | [] \<Rightarrow> []);
                  ds = drop (length sg) cs in
              if takeWhile is_digit ds = [] then None else Some (c # sg @ takeWhile is_digit ds, dropWhile is_digit ds))
           else Some ([], s))
      | [] \<Rightarrow> Some ([], s))"

definition scan_int :: "string \<Rightarrow> (string \<times> string) option" where
  "scan_int s =
     (let sg = (case s of x # _ \<Rightarrow> if x = CHR ''-'' then [x] else [] | [] \<Rightarrow> []); ds = drop (length sg) s in
      case ds of
        [] \<Rightarrow> None
      | d # r \<Rightarrow>
          (if d = CHR ''0'' then Some (sg @ [d], r)
           else if is_digit d then Some (sg @ takeWhile is_digit ds, dropWhile is_digit ds)
           else None))"

definition scan_num :: "string \<Rightarrow> (string \<times> string) option" where
  "scan_num s =
     do { (i, r) \<leftarrow> scan_int s; (f, r) \<leftarrow> scan_frac r; (e, r) \<leftarrow> scan_exp r; Some (i @ f @ e, r) }"

section \<open>The parser\<close>

definition is_ws :: "char \<Rightarrow> bool" where
  "is_ws c \<longleftrightarrow> c = CHR '' '' \<or> c = CHR 0x09 \<or> c = CHR 0x0A \<or> c = CHR 0x0D"

abbreviation skip_ws :: "string \<Rightarrow> string" where "skip_ws \<equiv> dropWhile is_ws"

definition cut_prefix :: "string \<Rightarrow> string \<Rightarrow> string option" where
  "cut_prefix p s = (if take (length p) s = p then Some (drop (length p) s) else None)"

definition maxNestingDepth :: nat where "maxNestingDepth = 10000"

text \<open>
  The first argument is fuel: every call reads a character before it calls again, so the length of the
  text is enough. The second is how many arrays and objects are open.
\<close>

fun jvalue :: "nat \<Rightarrow> nat \<Rightarrow> string \<Rightarrow> (json \<times> string) option"
  and jelems :: "nat \<Rightarrow> nat \<Rightarrow> string \<Rightarrow> (json list \<times> string) option"
  and jmembers :: "nat \<Rightarrow> nat \<Rightarrow> string \<Rightarrow> ((string \<times> json) list \<times> string) option" where
  "jvalue 0 d s = None"
| "jvalue (Suc n) d s =
     (case skip_ws s of
        [] \<Rightarrow> None
      | c # cs \<Rightarrow>
          (if c = jquote then map_option (\<lambda>(t, r). (JStr (unquote_str t), r)) (scan_str cs)
           else if c = CHR ''['' then
             (if d \<ge> maxNestingDepth then None
              else if take 1 (skip_ws cs) = '']'' then Some (JArr [], drop 1 (skip_ws cs))
              else map_option (\<lambda>(vs, r). (JArr vs, r)) (jelems n (Suc d) cs))
           else if c = CHR ''{'' then
             (if d \<ge> maxNestingDepth then None
              else if take 1 (skip_ws cs) = ''}'' then Some (JObj [], drop 1 (skip_ws cs))
              else map_option (\<lambda>(ms, r). (JObj ms, r)) (jmembers n (Suc d) cs))
           else if c = CHR ''t'' then map_option (\<lambda>r. (JBool True, r)) (cut_prefix ''rue'' cs)
           else if c = CHR ''f'' then map_option (\<lambda>r. (JBool False, r)) (cut_prefix ''alse'' cs)
           else if c = CHR ''n'' then map_option (\<lambda>r. (JNull, r)) (cut_prefix ''ull'' cs)
           else map_option (\<lambda>(t, r). (JNum t, r)) (scan_num (c # cs))))"
| "jelems 0 d s = None"
| "jelems (Suc n) d s =
     (case jvalue n d s of
        None \<Rightarrow> None
      | Some (v, r) \<Rightarrow>
          (case skip_ws r of
             [] \<Rightarrow> None
           | c # cs \<Rightarrow>
               (if c = CHR '']'' then Some ([v], cs)
                else if c = CHR '','' then map_option (\<lambda>(vs, r). (v # vs, r)) (jelems n d cs)
                else None)))"
| "jmembers 0 d s = None"
| "jmembers (Suc n) d s =
     (case skip_ws s of
        [] \<Rightarrow> None
      | q # qs \<Rightarrow>
          (if q \<noteq> jquote then None
           else case scan_str qs of
             None \<Rightarrow> None
           | Some (k, r) \<Rightarrow>
               (case skip_ws r of
                  [] \<Rightarrow> None
                | c # cs \<Rightarrow>
                    (if c \<noteq> CHR '':'' then None
                     else case jvalue n d cs of
                       None \<Rightarrow> None
                     | Some (v, r) \<Rightarrow>
                         (case skip_ws r of
                            [] \<Rightarrow> None
                          | c # cs \<Rightarrow>
                              (if c = CHR ''}'' then Some ([(unquote_str k, v)], cs)
                               else if c = CHR '','' then map_option (\<lambda>(ms, r). ((unquote_str k, v) # ms, r)) (jmembers n d cs)
                               else None))))))"

declare jvalue.simps(2) [simp del] jelems.simps(2) [simp del] jmembers.simps(2) [simp del]

definition json_parse :: "string \<Rightarrow> json option" where
  "json_parse s =
     (case jvalue (Suc (length s)) 0 s of
        Some (v, r) \<Rightarrow> if skip_ws r = [] then Some v else None
      | None \<Rightarrow> None)"

section \<open>The compact text\<close>

definition hexd :: "nat \<Rightarrow> char" where
  "hexd n = hexdigit (n mod 16)"

text \<open>
  A string as \<^verbatim>\<open>Marshal\<close> writes it: quotes, backslashes and control characters escaped, the characters HTML
  gives a meaning too, and the two line separators of Unicode.
\<close>

definition quote_char :: "char \<Rightarrow> string" where
  "quote_char c =
     (if c = jquote \<or> c = jback then [jback, c]
      else if c = CHR 0x08 then [jback, CHR ''b''] else if c = CHR 0x0C then [jback, CHR ''f'']
      else if c = CHR 0x0A then [jback, CHR ''n''] else if c = CHR 0x0D then [jback, CHR ''r'']
      else if c = CHR 0x09 then [jback, CHR ''t'']
      else if cp c < 32 \<or> c \<in> set ''<>&'' then jback # ''u00'' @ [hexd (cp c div 16), hexd (cp c)]
      else [c])"

function quote_str :: "string \<Rightarrow> string" where
  "quote_str s =
     (case s of
        [] \<Rightarrow> []
      | c # cs \<Rightarrow>
          (if cp c < 128 then
             quote_char c @ quote_str cs
           else
             (let w = rune_width (map cp s) in
              if w = 0 then jback # ''ufffd'' @ quote_str cs
              else if map cp (take 3 s) = [0xE2, 0x80, 0xA8] then jback # ''u2028'' @ quote_str (drop 2 cs)
              else if map cp (take 3 s) = [0xE2, 0x80, 0xA9] then jback # ''u2029'' @ quote_str (drop 2 cs)
              else take w s @ quote_str (drop (w - 1) cs))))"
  by pat_completeness auto

termination by (relation "measure length") (auto split: if_splits)

declare quote_str.simps [simp del]

fun commas :: "string list \<Rightarrow> string" where
  "commas [] = []"
| "commas [x] = x"
| "commas (x # y # xs) = x @ CHR '','' # commas (y # xs)"

definition str_lit :: "string \<Rightarrow> string" where
  "str_lit s = jquote # quote_str s @ [jquote]"

fun jprint :: "json \<Rightarrow> string" where
  "jprint JNull = ''null''"
| "jprint (JBool b) = (if b then ''true'' else ''false'')"
| "jprint (JNum t) = t"
| "jprint (JStr s) = str_lit s"
| "jprint (JArr vs) = CHR ''['' # commas (map jprint vs) @ '']''"
| "jprint (JObj ms) = CHR ''{'' # commas (map (\<lambda>(k, v). str_lit k @ CHR '':'' # jprint v) ms) @ ''}''"

section \<open>What is printed parses back\<close>

text \<open>Characters that stand for themselves in a literal.\<close>

definition plain_char :: "char \<Rightarrow> bool" where
  "plain_char c \<longleftrightarrow> 32 \<le> cp c \<and> cp c < 127 \<and> c \<noteq> jquote \<and> c \<noteq> jback \<and> c \<notin> set ''<>&''"

definition plain_str :: "string \<Rightarrow> bool" where
  "plain_str s \<longleftrightarrow> list_all plain_char s"

fun jwf :: "json \<Rightarrow> bool" where
  "jwf JNull = True"
| "jwf (JBool b) = True"
| "jwf (JNum t) = (\<exists>n. t = FormatInt n)"
| "jwf (JStr s) = plain_str s"
| "jwf (JArr vs) = (\<forall>v \<in> set vs. jwf v)"
| "jwf (JObj ms) = (\<forall>(k, v) \<in> set ms. plain_str k \<and> jwf v)"

fun jdepth :: "json \<Rightarrow> nat" where
  "jdepth (JArr vs) = Suc (Max (insert 0 (jdepth ` set vs)))"
| "jdepth (JObj ms) = Suc (Max (insert 0 ((\<lambda>(k, v). jdepth v) ` set ms)))"
| "jdepth v = 0"

lemma plain_quote: "plain_str s \<Longrightarrow> quote_str s = s"
proof (induction s)
  case (Cons c cs)
  then have p: "plain_char c" by (simp add: plain_str_def)
  have "c \<noteq> CHR 0x08" "c \<noteq> CHR 0x0C" "c \<noteq> CHR 0x0A" "c \<noteq> CHR 0x0D" "c \<noteq> CHR 0x09" using p by (auto simp: plain_char_def)
  then have "quote_char c = [c]" "cp c < 128" using p by (simp_all add: plain_char_def quote_char_def)
  then show ?case using Cons by (subst quote_str.simps) (simp add: plain_str_def)
qed (simp add: quote_str.simps)

lemma plain_unquote: "plain_str s \<Longrightarrow> unquote_str s = s"
proof (induction s)
  case (Cons c cs)
  then show ?case by (subst unquote_str.simps) (auto simp: plain_str_def plain_char_def)
qed (simp add: unquote_str.simps)

lemma plain_scan: "plain_str s \<Longrightarrow> scan_str (s @ jquote # r) = Some (s, r)"
proof (induction s)
  case (Cons c cs)
  then show ?case by (auto simp: plain_str_def plain_char_def)
qed simp

text \<open>A number is followed by something that cannot continue it.\<close>

definition ends_num :: "string \<Rightarrow> bool" where
  "ends_num r \<longleftrightarrow> r = [] \<or> (\<not> is_digit (hd r) \<and> hd r \<notin> set ''.eE'')"

lemma format_nat_zero: "format_nat 0 = ''0''"
  by (simp add: format_nat.simps digit_char_def) code_simp

lemma format_nat_hd: "0 < n \<Longrightarrow> hd (format_nat n) \<noteq> CHR ''0''"
proof (induction n rule: format_nat.induct)
  case (1 n)
  show ?case
  proof (cases "n < 10")
    case True
    then have "cp (digit_char n) \<noteq> cp (CHR ''0'')" using "1.prems" by simp
    then have "digit_char n \<noteq> CHR ''0''" by metis
    then show ?thesis using True by (subst format_nat.simps) simp
  next
    case False
    then show ?thesis using 1 by (subst format_nat.simps) simp
  qed
qed

lemma scan_int_format: "ends_num r \<Longrightarrow> scan_int (FormatInt n @ r) = Some (FormatInt n, r)"
proof -
  assume r: "ends_num r"
  have tw: "takeWhile is_digit (format_nat m @ r) = format_nat m" "dropWhile is_digit (format_nat m @ r) = r" for m
    using format_nat_digits [of m] r by (cases r; simp add: ends_num_def takeWhile_append2 dropWhile_append2 list_all_iff)+
  have nn: "scan_int (format_nat m @ r) = Some (format_nat m, r)" for m
  proof -
    obtain c cs where f: "format_nat m = c # cs" by (cases "format_nat m") auto
    have d: "is_digit c" using format_nat_digits [of m] f by simp
    then have m: "c \<noteq> CHR ''-''" by (auto simp: is_digit_def)
    show ?thesis
    proof (cases "m = 0")
      case True
      then show ?thesis using format_nat_zero by (simp add: scan_int_def)
    next
      case False
      then have "c \<noteq> CHR ''0''" using format_nat_hd [of m] f by simp
      then show ?thesis using f d m tw [of m] by (simp add: scan_int_def)
    qed
  qed
  show ?thesis
  proof (cases "n < 0")
    case True
    then obtain c cs where f: "format_nat (nat (- n)) = c # cs" "c \<noteq> CHR ''0''" "is_digit c"
      using format_nat_hd [of "nat (- n)"] hd_format_nat [of "nat (- n)"] by (cases "format_nat (nat (- n))") auto
    then show ?thesis using True tw [of "nat (- n)"] by (simp add: FormatInt_def scan_int_def)
  next
    case False
    then show ?thesis using nn by (simp add: FormatInt_def)
  qed
qed

lemma scan_num_format: "ends_num r \<Longrightarrow> scan_num (FormatInt n @ r) = Some (FormatInt n, r)"
  using scan_int_format [of r n]
  by (cases r) (auto simp: scan_num_def scan_frac_def scan_exp_def ends_num_def)

lemma FormatInt_first: "\<exists>c cs. FormatInt n = c # cs \<and> (is_digit c \<or> c = CHR ''-'')"
  using FormatInt_chars [of _ n] by (cases "FormatInt n") (auto simp: FormatInt_def split: if_splits)

lemma value_num:
  assumes "ends_num r"
  shows "jvalue (Suc n) d (FormatInt k @ r) = Some (JNum (FormatInt k), r)"
proof -
  obtain c cs where f: "FormatInt k = c # cs" "is_digit c \<or> c = CHR ''-''" using FormatInt_first by blast
  then have "\<not> is_ws c" "c \<notin> {jquote, CHR ''['', CHR ''{'', CHR ''t'', CHR ''f'', CHR ''n''}"
    by (auto simp: is_ws_def is_digit_def jquote_def)
  then show ?thesis using scan_num_format [OF assms, of k] f(1) by (simp add: jvalue.simps)
qed

lemma value_str: "plain_str s \<Longrightarrow> jvalue (Suc n) d (str_lit s @ r) = Some (JStr s, r)"
  using plain_scan [of s r] by (simp add: jvalue.simps str_lit_def plain_quote plain_unquote is_ws_def jquote_def)

text \<open>One element after another.\<close>

lemma elems_print:
  assumes "\<And>v n r. v \<in> set vs \<Longrightarrow> length (jprint v) \<le> n \<Longrightarrow> ends_num r \<Longrightarrow> jvalue (Suc n) d (jprint v @ r) = Some (v, r)"
    and "vs \<noteq> []" "length (commas (map jprint vs)) + 2 \<le> n"
  shows "jelems n d (commas (map jprint vs) @ CHR '']'' # r) = Some (vs, r)"
  using assms
proof (induction vs arbitrary: n rule: induct_list012)
  case (2 v)
  then obtain m where n: "n = Suc (Suc m)" "length (jprint v) \<le> m" by (cases n; cases "n - 1") auto
  have "jvalue (Suc m) d (jprint v @ CHR '']'' # r) = Some (v, CHR '']'' # r)"
    using 2(1) [of v m] n by (simp add: ends_num_def is_digit_def)
  then show ?case using n by (simp add: jelems.simps is_ws_def)
next
  case (3 v w vs)
  then obtain m where n: "n = Suc (Suc m)" "length (jprint v) \<le> m" by (cases n; cases "n - 1") auto
  let ?r = "commas (map jprint (w # vs)) @ CHR '']'' # r"
  have "jvalue (Suc m) d (jprint v @ CHR '','' # ?r) = Some (v, CHR '','' # ?r)"
    using 3(3) [of v m] n by (simp add: ends_num_def is_digit_def)
  moreover have "jelems (Suc m) d ?r = Some (w # vs, r)"
    by (rule "3.IH"(2)) (use 3 n in auto)
  ultimately show ?case using n by (simp add: jelems.simps(2) [of "Suc m"] is_ws_def)
qed simp

definition member_text :: "string \<times> json \<Rightarrow> string" where
  "member_text m = str_lit (fst m) @ CHR '':'' # jprint (snd m)"

lemma member_step:
  assumes "jvalue m d (jprint v @ c # r) = Some (v, c # r)" "plain_str k" "\<not> is_ws c"
  shows "jmembers (Suc m) d (member_text (k, v) @ c # r) =
    (if c = CHR ''}'' then Some ([(k, v)], r)
     else if c = CHR '','' then map_option (\<lambda>(ms, r). ((k, v) # ms, r)) (jmembers m d r) else None)"
  using assms plain_scan [OF assms(2)]
  by (simp add: jmembers.simps member_text_def str_lit_def plain_quote plain_unquote is_ws_def jquote_def)

lemma members_print:
  assumes "\<And>k v n r. (k, v) \<in> set ms \<Longrightarrow> plain_str k \<and> (length (jprint v) \<le> n \<longrightarrow> ends_num r \<longrightarrow> jvalue (Suc n) d (jprint v @ r) = Some (v, r))"
    and "ms \<noteq> []" "length (commas (map member_text ms)) + 2 \<le> n"
  shows "jmembers n d (commas (map member_text ms) @ CHR ''}'' # r) = Some (ms, r)"
  using assms
proof (induction ms arbitrary: n rule: induct_list012)
  case (2 x)
  obtain k v where x: "x = (k, v)" by (cases x)
  then obtain m where n: "n = Suc (Suc m)" "length (jprint v) \<le> m" using 2 by (cases n; cases "n - 1") (auto simp: member_text_def)
  have "jvalue (Suc m) d (jprint v @ CHR ''}'' # r) = Some (v, CHR ''}'' # r)" "plain_str k"
    using 2(1) [of k v m] n x by (simp_all add: ends_num_def is_digit_def)
  then show ?case using n x member_step by (simp add: is_ws_def)
next
  case (3 x y ms)
  obtain k v where x: "x = (k, v)" by (cases x)
  then obtain m where n: "n = Suc (Suc m)" "length (jprint v) \<le> m" using 3 by (cases n; cases "n - 1") (auto simp: member_text_def)
  let ?r = "commas (map member_text (y # ms)) @ CHR ''}'' # r"
  have "jvalue (Suc m) d (jprint v @ CHR '','' # ?r) = Some (v, CHR '','' # ?r)" "plain_str k"
    using 3(3) [of k v m] n x by (simp_all add: ends_num_def is_digit_def)
  moreover have "jmembers (Suc m) d ?r = Some (y # ms, r)"
  proof (rule "3.IH"(2))
    show "plain_str k \<and> (length (jprint v) \<le> n \<longrightarrow> ends_num r \<longrightarrow> jvalue (Suc n) d (jprint v @ r) = Some (v, r))"
      if "(k, v) \<in> set (y # ms)" for k v n r using that by (intro "3.prems"(1)) simp
  qed (use "3.prems"(3) n in auto)
  ultimately show ?case using n x member_step [of "Suc m" d v "CHR '',''" ?r k] by (simp add: is_ws_def)
qed simp

lemma print_members: "jprint (JObj ms) = CHR ''{'' # commas (map member_text ms) @ ''}''"
proof -
  have "map (\<lambda>(k, v). str_lit k @ CHR '':'' # jprint v) ms = map member_text ms" by (rule map_cong) (auto simp: member_text_def)
  then show ?thesis by (simp only: jprint.simps)
qed

lemma print_first: "jwf v \<Longrightarrow> \<exists>c cs. jprint v = c # cs \<and> \<not> is_ws c \<and> c \<noteq> CHR '']'' \<and> c \<noteq> CHR ''}''"
proof (cases v)
  case (JNum t)
  assume "jwf v"
  then obtain n where "t = FormatInt n" using JNum by auto
  then show ?thesis using FormatInt_first [of n] JNum by (auto simp: is_ws_def is_digit_def)
qed (auto simp: is_ws_def str_lit_def jquote_def)

lemma commas_first: "xs \<noteq> [] \<Longrightarrow> \<exists>y. commas xs = hd xs @ y"
  by (cases xs rule: commas.cases) auto

text \<open>Every value that is printed is parsed, with enough fuel, within the depth, whatever follows.\<close>

lemma value_print:
  "jwf v \<Longrightarrow> jdepth v + d \<le> maxNestingDepth \<Longrightarrow> length (jprint v) \<le> n \<Longrightarrow> ends_num r \<Longrightarrow> jvalue (Suc n) d (jprint v @ r) = Some (v, r)"
proof (induction v arbitrary: d n r)
  case JNull
  then show ?case by (simp add: jvalue.simps is_ws_def jquote_def cut_prefix_def)
next
  case (JBool b)
  then show ?case by (simp add: jvalue.simps is_ws_def jquote_def cut_prefix_def)
next
  case (JNum t)
  then show ?case using value_num by auto
next
  case (JStr s)
  then show ?case using value_str by simp
next
  case (JArr vs)
  have D: "jdepth v + Suc d \<le> maxNestingDepth" if "v \<in> set vs" for v
  proof -
    have "jdepth v \<le> Max (insert 0 (jdepth ` set vs))" using that by (intro Max_ge) auto
    then show ?thesis using JArr.prems(2) by simp
  qed
  show ?case
  proof (cases "vs = []")
    case True
    then show ?thesis using JArr.prems(2) by (simp add: jvalue.simps is_ws_def jquote_def)
  next
    case False
    obtain c cs where f: "commas (map jprint vs) = c # cs" "\<not> is_ws c" "c \<noteq> CHR '']''"
      using commas_first [of "map jprint vs"] print_first [of "hd vs"] JArr.prems(1) False by (cases vs) force+
    have "jelems n (Suc d) (commas (map jprint vs) @ CHR '']'' # r) = Some (vs, r)"
      by (rule elems_print [OF _ False]) (use JArr D in auto)
    then show ?thesis using f JArr.prems(2) by (simp add: jvalue.simps is_ws_def jquote_def)
  qed
next
  case (JObj ms)
  have D: "jdepth v + Suc d \<le> maxNestingDepth" if "(k, v) \<in> set ms" for k v
  proof -
    have "jdepth v \<le> Max (insert 0 ((\<lambda>(k, v). jdepth v) ` set ms))" using that by (intro Max_ge) force+
    then show ?thesis using JObj.prems(2) by simp
  qed
  show ?case
  proof (cases "ms = []")
    case True
    then show ?thesis using JObj.prems(2) by (simp add: jvalue.simps is_ws_def jquote_def)
  next
    case False
    obtain cs where f: "commas (map member_text ms) = jquote # cs"
      using commas_first [of "map member_text ms"] False by (cases ms) (auto simp: member_text_def str_lit_def)
    have "length (commas (map member_text ms)) + 2 \<le> n" using JObj.prems(3) unfolding print_members by simp
    from members_print [OF _ False this, of "Suc d" r]
    have "jmembers n (Suc d) (commas (map member_text ms) @ CHR ''}'' # r) = Some (ms, r)"
      using JObj.IH JObj.prems(1) D by fastforce
    then show ?thesis using f JObj.prems(2) unfolding print_members by (simp add: jvalue.simps is_ws_def jquote_def)
  qed
qed

lemma parse_print: "jwf v \<Longrightarrow> jdepth v \<le> maxNestingDepth \<Longrightarrow> json_parse (jprint v) = Some v"
  using value_print [of v 0 "length (jprint v)" "[]"] by (simp add: json_parse_def ends_num_def)

section \<open>Decoding into Go's types\<close>

text \<open>
  Member names are matched without regard to case. Of the characters beyond ASCII only the long s and
  the Kelvin sign fold to a letter.
\<close>

fun fold_key :: "string \<Rightarrow> string" where
  "fold_key [] = []"
| "fold_key (c # cs) =
     (if 97 \<le> cp c \<and> cp c \<le> 122 then chr (cp c - 32) # fold_key cs
      else case cs of
        d # ds \<Rightarrow>
          (if cp c = 0xC5 \<and> cp d = 0xBF then CHR ''S'' # fold_key ds
           else case ds of
             e # es \<Rightarrow>
               (if cp c = 0xE2 \<and> cp d = 0x84 \<and> cp e = 0xAA then CHR ''K'' # fold_key es else c # fold_key cs)
           | [] \<Rightarrow> c # fold_key cs)
      | [] \<Rightarrow> c # fold_key cs)"

definition is_field :: "string \<Rightarrow> string \<Rightarrow> bool" where
  "is_field name k \<longleftrightarrow> fold_key k = fold_key name"

text \<open>A \<^verbatim>\<open>null\<close> leaves a number, a string or a struct as it is.\<close>

definition decode_int :: "int \<Rightarrow> json \<Rightarrow> int option" where
  "decode_int old v = (case v of JNull \<Rightarrow> Some old | JNum t \<Rightarrow> ParseInt t | _ \<Rightarrow> None)"

definition decode_text :: "string \<Rightarrow> json \<Rightarrow> string option" where
  "decode_text old v = (case v of JNull \<Rightarrow> Some old | JStr s \<Rightarrow> Some s | _ \<Rightarrow> None)"

definition decode_byte :: "json \<Rightarrow> 8 word option" where
  "decode_byte v =
     (case v of
        JNull \<Rightarrow> Some 0
      | JNum t \<Rightarrow> (case ParseInt t of Some n \<Rightarrow> if t \<noteq> [] \<and> is_digit (hd t) \<and> n < 256 then Some (of_int n) else None | None \<Rightarrow> None)
      | _ \<Rightarrow> None)"

text \<open>A \<^verbatim>\<open>[]byte\<close> is base64 text, or an array of numbers; \<^verbatim>\<open>null\<close> makes it \<^verbatim>\<open>nil\<close>.\<close>

definition decode_bytes :: "json \<Rightarrow> bytes option" where
  "decode_bytes v =
     (case v of
        JNull \<Rightarrow> Some []
      | JStr s \<Rightarrow> (case b64_decode s of (bs, ok) \<Rightarrow> if ok then Some bs else None)
      | JArr vs \<Rightarrow> those (map decode_byte vs)
      | _ \<Rightarrow> None)"

text \<open>The members of an object one after the other; \<open>set_field\<close> ignores a name it does not know.\<close>

fun decode_members :: "(string \<Rightarrow> json \<Rightarrow> 's \<Rightarrow> 's option) \<Rightarrow> (string \<times> json) list \<Rightarrow> 's \<Rightarrow> 's option" where
  "decode_members set_field [] s = Some s"
| "decode_members set_field ((k, v) # ms) s =
     (case set_field k v s of None \<Rightarrow> None | Some s \<Rightarrow> decode_members set_field ms s)"

definition decode_struct :: "(string \<Rightarrow> json \<Rightarrow> 's \<Rightarrow> 's option) \<Rightarrow> 's \<Rightarrow> json \<Rightarrow> 's option" where
  "decode_struct set_field s v = (case v of JNull \<Rightarrow> Some s | JObj ms \<Rightarrow> decode_members set_field ms s | _ \<Rightarrow> None)"

definition Unmarshal :: "(string \<Rightarrow> json \<Rightarrow> 's \<Rightarrow> 's option) \<Rightarrow> 's \<Rightarrow> string \<Rightarrow> 's option" where
  "Unmarshal set_field s text = (case json_parse text of None \<Rightarrow> None | Some v \<Rightarrow> decode_struct set_field s v)"

lemma decode_int_print [simp]: "in64 n \<Longrightarrow> decode_int old (JNum (FormatInt n)) = Some n"
  by (simp add: decode_int_def ParseInt_FormatInt)

lemma decode_bytes_print [simp]: "decode_bytes (JStr (b64_encode bs)) = Some bs"
  by (simp add: decode_bytes_def b64_decode_def encode_no_line_end quanta_encode)

lemma plain_encode: "plain_str (b64_encode bs)"
  using encode_chars [of bs] unfolding plain_str_def list_all_iff b64_alphabet_def b64_pad_def plain_char_def
  by (auto simp: jquote_def jback_def)

lemma Unmarshal_print:
  "jwf (JObj ms) \<Longrightarrow> jdepth (JObj ms) \<le> maxNestingDepth \<Longrightarrow> Unmarshal set_field s (jprint (JObj ms)) = decode_members set_field ms s"
  by (simp add: Unmarshal_def parse_print decode_struct_def del: jprint.simps jwf.simps jdepth.simps)

end
