(* ===== verification/Decoder.thy ===== *)
theory Decoder
  imports Wire Json
begin

text \<open>
  Reading the requests of the GOCACHEPROG protocol from a byte stream (\<^verbatim>\<open>internal/wire/decoder.go\<close>) and
  writing them (\<^verbatim>\<open>client.go\<close>). The stream is the bytes still to come and what reading past them
  returns. A body is read from the stream by whoever serves the put, before the next request; the
  model computes what that reading delivers when the request is returned, and is told afterwards
  whether it was read to its end.
\<close>

section \<open>A request as a line\<close>

definition Request0 :: Request where
  "Request0 = \<lparr>q_ID = 0, q_Command = [], q_ActionID = [], q_OutputID = [], q_BodySize = 0\<rparr>"

definition Request_field :: "string \<Rightarrow> json \<Rightarrow> Request \<Rightarrow> Request option" where
  "Request_field k v r =
     (if is_field ''ID'' k then map_option (\<lambda>n. r\<lparr>q_ID := n\<rparr>) (decode_int (q_ID r) v)
      else if is_field ''Command'' k then map_option (\<lambda>s. r\<lparr>q_Command := s\<rparr>) (decode_text (q_Command r) v)
      else if is_field ''ActionID'' k then map_option (\<lambda>b. r\<lparr>q_ActionID := b\<rparr>) (decode_bytes v)
      else if is_field ''OutputID'' k then map_option (\<lambda>b. r\<lparr>q_OutputID := b\<rparr>) (decode_bytes v)
      else if is_field ''BodySize'' k then map_option (\<lambda>n. r\<lparr>q_BodySize := n\<rparr>) (decode_int (q_BodySize r) v)
      else Some r)"

definition Request_members :: "Request \<Rightarrow> (string \<times> json) list" where
  "Request_members r =
     [(''ID'', JNum (FormatInt (q_ID r))), (''Command'', JStr (q_Command r))]
     @ (if q_ActionID r = [] then [] else [(''ActionID'', JStr (b64_encode (q_ActionID r)))])
     @ (if q_OutputID r = [] then [] else [(''OutputID'', JStr (b64_encode (q_OutputID r)))])
     @ (if q_BodySize r = 0 then [] else [(''BodySize'', JNum (FormatInt (q_BodySize r)))])"

definition marshal_Request :: "Request \<Rightarrow> string" where
  "marshal_Request r = jprint (JObj (Request_members r))"

definition newline :: char where "newline = CHR 0x0A"

section \<open>Lines\<close>

text \<open>What a read that fails returns: the end of the stream, or an error.\<close>

datatype rerr = EndOfStream | ReadErr error

definition maxLineBytes :: nat where "maxLineBytes = 2 ^ 20"

record Decoder =
  d_in :: string
  d_fail :: "error option"                  \<comment> \<open>what follows the bytes: the end, or an error\<close>
  d_body :: "(bool \<times> error option) option"  \<comment> \<open>the last body: whether it was read, and its error\<close>
  d_emptyBodyLinePending :: bool

definition NewDecoder :: "string \<Rightarrow> error option \<Rightarrow> Decoder" where
  "NewDecoder s fl = \<lparr>d_in = s, d_fail = fl, d_body = None, d_emptyBodyLinePending = False\<rparr>"

definition readLine :: "string \<Rightarrow> error option \<Rightarrow> (rerr + string) \<times> string" where
  "readLine s fl =
     (let line = takeWhile (\<lambda>c. c \<noteq> newline) s; rest = drop (Suc (length line)) s in
      if length line > maxLineBytes then (Inl (ReadErr ErrParse), rest)
      else if newline \<in> set s then (Inr line, rest)
      else case fl of
        Some e \<Rightarrow> (Inl (ReadErr e), [])
      | None \<Rightarrow> (if line = [] then Inl EndOfStream else Inr line, []))"

lemma readLine_blank: "readLine s fl = (Inr [], rest) \<Longrightarrow> length rest < length s"
  by (cases s) (auto simp: readLine_def Let_def split: if_splits option.splits)

text \<open>Blank lines are skipped.\<close>

function readFrame :: "string \<Rightarrow> error option \<Rightarrow> (rerr + string) \<times> string" where
  "readFrame s fl =
     (case readLine s fl of
        (Inl e, rest) \<Rightarrow> (Inl e, rest)
      | (Inr line, rest) \<Rightarrow> (if line \<noteq> [] then (Inr line, rest) else readFrame rest fl))"
  by pat_completeness auto

termination by (relation "measure (\<lambda>(s, _). length s)") (auto dest: readLine_blank [OF sym])

declare readFrame.simps [simp del]

section \<open>Bodies\<close>

text \<open>
  One body line: \<^verbatim>\<open>quotedReader\<close> finds the quoted text, the base64 decoder reads it in the pieces \<open>cuts\<close> makes
  of it, and \<^verbatim>\<open>bodyReader\<close> insists on the declared size and on the end of the line. The result is the
  bytes a reader of the whole body is given, the error it ends with, and the stream after the line.
  Of a body that ends in an error the bytes are those decoded before it; nothing keeps them.
\<close>

definition readErr :: "error option \<Rightarrow> error" where
  "readErr fl = (case fl of None \<Rightarrow> ErrIO 0 | Some e \<Rightarrow> e)"

definition drainLine :: "error option \<Rightarrow> string \<Rightarrow> error option \<times> string" where
  "drainLine fl after =
     (case after of
        [] \<Rightarrow> (fl, [])
      | c # rest \<Rightarrow> (if c = newline then None else Some ErrParse, rest))"

definition readBody :: "(string \<Rightarrow> string list) \<Rightarrow> nat \<Rightarrow> error option \<Rightarrow> string \<Rightarrow> (bytes \<times> error option) \<times> string" where
  "readBody cuts sz fl s =
     (case dropWhile line_end s of
        [] \<Rightarrow> (([], Some (readErr fl)), [])
      | q # r \<Rightarrow>
          (if q \<noteq> jquote then (([], Some ErrParse), r)
           else
             (let payload = takeWhile (\<lambda>c. c \<noteq> jquote) r;
                  (ds, ok) = b64_stream [] (cuts payload) in
              if jquote \<notin> set r then ((take sz ds, Some (readErr fl)), [])
              else if \<not> ok then ((take sz ds, Some ErrParse), [])
              else if length ds \<noteq> sz then ((take sz ds, Some (ErrShortBody (int (length ds)) (int sz))), [])
              else (let (err, rest) = drainLine fl (drop (Suc (length payload)) r) in ((ds, err), rest)))))"

section \<open>Next\<close>

text \<open>The line that may follow a put of no bytes.\<close>

definition checkEmptyBodyLine :: "string \<Rightarrow> error option" where
  "checkEmptyBodyLine line =
     (case json_parse line of
        Some (JStr t) \<Rightarrow> if t = [] then None else Some (ErrShortBody (int (length t)) 0)
      | _ \<Rightarrow> Some ErrParse)"

definition nextLine :: "Decoder \<Rightarrow> (rerr + string) \<times> Decoder" where
  "nextLine d =
     (let (r, s) = readFrame (d_in d) (d_fail d); d = d\<lparr>d_in := s\<rparr> in
      case r of
        Inl e \<Rightarrow> (Inl e, d)
      | Inr line \<Rightarrow>
          (if \<not> d_emptyBodyLinePending d then (Inr line, d)
           else
             (let d = d\<lparr>d_emptyBodyLinePending := False\<rparr> in
              if hd line \<noteq> jquote then (Inr line, d)
              else case checkEmptyBodyLine line of
                Some e \<Rightarrow> (Inl (ReadErr e), d)
              | None \<Rightarrow> (let (r, s) = readFrame (d_in d) (d_fail d) in (r, d\<lparr>d_in := s\<rparr>)))))"

definition Decoder_Next ::
  "(string \<Rightarrow> string list) \<Rightarrow> Decoder \<Rightarrow> (rerr + Request \<times> (bytes \<times> error option) option) \<times> Decoder" where
  "Decoder_Next cuts d =
     (case d_body d of
        Some (_, Some e) \<Rightarrow> (Inl (ReadErr e), d)
      | Some (False, None) \<Rightarrow> (Inl (ReadErr ErrParse), d)
      | _ \<Rightarrow>
          (case nextLine (d\<lparr>d_body := None\<rparr>) of
             (Inl e, d) \<Rightarrow> (Inl e, d)
           | (Inr line, d) \<Rightarrow>
               (case Unmarshal Request_field Request0 line of
                  None \<Rightarrow> (Inl (ReadErr ErrParse), d)
                | Some req \<Rightarrow>
                    (if q_BodySize req < 0 then (Inl (ReadErr (ErrNegative ''BodySize'' (q_BodySize req))), d)
                     else if q_BodySize req > 0 \<and> q_Command req \<noteq> CmdPut then (Inl (ReadErr ErrParse), d)
                     else if q_BodySize req > 0 then
                       (let (body, s) = readBody cuts (nat (q_BodySize req)) (d_fail d) (d_in d) in
                        (Inr (req, Some body), d\<lparr>d_in := s, d_body := Some (False, snd body)\<rparr>))
                     else if q_Command req = CmdPut then (Inr (req, None), d\<lparr>d_emptyBodyLinePending := True\<rparr>)
                     else (Inr (req, None), d)))))"

text \<open>The body has been read to its end.\<close>

definition bodyConsumed :: "Decoder \<Rightarrow> Decoder" where
  "bodyConsumed d = d\<lparr>d_body := map_option (\<lambda>(_, e). (True, e)) (d_body d)\<rparr>"

text \<open>All requests of a stream whose bodies are read, and the error it ends with; the length of the stream is fuel enough.\<close>

fun decodeAll :: "(string \<Rightarrow> string list) \<Rightarrow> bool \<Rightarrow> nat \<Rightarrow> Decoder \<Rightarrow> frame list \<times> rerr" where
  "decodeAll cuts dr 0 d = ([], EndOfStream)"
| "decodeAll cuts dr (Suc n) d =
     (case Decoder_Next cuts d of
        (Inl e, _) \<Rightarrow> ([], e)
      | (Inr (req, body), d) \<Rightarrow>
          (let (frs, e) = decodeAll cuts dr n (bodyConsumed d) in (\<lparr>fr_req = req, fr_body = body, fr_drained = dr\<rparr> # frs, e)))"

section \<open>Writing requests (client.go)\<close>

definition writeBody :: "nat \<Rightarrow> bytes \<Rightarrow> string result" where
  "writeBody sz b =
     (if length b \<noteq> sz then Inl (ErrShortBody (int (length b)) (int sz))
      else Inr (jquote # b64_encode b @ [jquote, newline]))"

text \<open>What \<^verbatim>\<open>RequestEncoder.Encode\<close> writes; a body it is given is ignored when none is declared.\<close>

definition encodeRequest :: "Request \<Rightarrow> bytes option \<Rightarrow> string result" where
  "encodeRequest req body =
     (if q_BodySize req < 0 then Inl (ErrNegative ''BodySize'' (q_BodySize req))
      else if q_BodySize req = 0 then Inr (marshal_Request req @ [newline])
      else case body of
        None \<Rightarrow> Inl ErrParse
      | Some b \<Rightarrow> rbind (writeBody (nat (q_BodySize req)) b) (\<lambda>t. Inr (marshal_Request req @ [newline] @ t)))"

end
