(* ===== verification/Decoder_Theorems.thy ===== *)
theory Decoder_Theorems
  imports Decoder
begin

text \<open>
  What a client writes is what the decoder delivers: any number of requests in one stream, with or
  without the blank lines and the empty body lines different clients write, however the bytes of the
  bodies arrive.
\<close>

section \<open>Lines\<close>

lemma readLine_line: "newline \<notin> set line \<Longrightarrow> length line \<le> maxLineBytes \<Longrightarrow> readLine (line @ newline # s) fl = (Inr line, s)"
proof -
  assume "newline \<notin> set line" "length line \<le> maxLineBytes"
  moreover from this have "takeWhile (\<lambda>c. c \<noteq> newline) (line @ newline # s) = line" by (subst takeWhile_append2) auto
  ultimately show ?thesis by (simp add: readLine_def Let_def)
qed

lemma readFrame_line: "newline \<notin> set line \<Longrightarrow> length line \<le> maxLineBytes \<Longrightarrow> line \<noteq> [] \<Longrightarrow> readFrame (line @ newline # s) fl = (Inr line, s)"
  by (subst readFrame.simps) (simp add: readLine_line)

lemma readFrame_blank: "readFrame (replicate k newline @ s) fl = readFrame s fl"
proof (induction k)
  case (Suc k)
  have "readLine (newline # replicate k newline @ s) fl = (Inr [], replicate k newline @ s)" using readLine_line [of "[]"] by simp
  then show ?case using Suc by (subst readFrame.simps) simp
qed simp

lemma readFrame_end: "readFrame [] None = (Inl EndOfStream, [])"
  by (subst readFrame.simps) (simp add: readLine_def Let_def)

section \<open>A request\<close>

definition request_ok :: "Request \<Rightarrow> bool" where
  "request_ok r \<longleftrightarrow> in64 (q_ID r) \<and> in64 (q_BodySize r) \<and> 0 \<le> q_BodySize r \<and> plain_str (q_Command r)
     \<and> length (marshal_Request r) \<le> maxLineBytes"

lemma plain_names: "plain_str ''ID''" "plain_str ''Command''" "plain_str ''ActionID''" "plain_str ''OutputID''" "plain_str ''BodySize''"
  by (simp_all add: plain_str_def plain_char_def jquote_def jback_def)

lemma field_names:
  "is_field ''ID'' ''ID''" "is_field ''Command'' ''Command''" "is_field ''ActionID'' ''ActionID''" "is_field ''OutputID'' ''OutputID''"
  "is_field ''BodySize'' ''BodySize''" "\<not> is_field ''ID'' ''Command''" "\<not> is_field ''ID'' ''ActionID''" "\<not> is_field ''ID'' ''OutputID''"
  "\<not> is_field ''ID'' ''BodySize''" "\<not> is_field ''Command'' ''ActionID''" "\<not> is_field ''Command'' ''OutputID''" "\<not> is_field ''Command'' ''BodySize''"
  "\<not> is_field ''ActionID'' ''OutputID''" "\<not> is_field ''ActionID'' ''BodySize''" "\<not> is_field ''OutputID'' ''BodySize''"
  unfolding is_field_def by code_simp+

lemma members_wf: "request_ok r \<Longrightarrow> jwf (JObj (Request_members r))"
  by (auto simp: Request_members_def request_ok_def plain_names plain_encode)

lemma members_depth: "jdepth (JObj (Request_members r)) \<le> maxNestingDepth"
  by (simp add: Request_members_def maxNestingDepth_def)

lemma Request_field_names:
  "Request_field ''ID'' v r = map_option (\<lambda>n. r\<lparr>q_ID := n\<rparr>) (decode_int (q_ID r) v)"
  "Request_field ''Command'' v r = map_option (\<lambda>t. r\<lparr>q_Command := t\<rparr>) (decode_text (q_Command r) v)"
  "Request_field ''ActionID'' v r = map_option (\<lambda>b. r\<lparr>q_ActionID := b\<rparr>) (decode_bytes v)"
  "Request_field ''OutputID'' v r = map_option (\<lambda>b. r\<lparr>q_OutputID := b\<rparr>) (decode_bytes v)"
  "Request_field ''BodySize'' v r = map_option (\<lambda>n. r\<lparr>q_BodySize := n\<rparr>) (decode_int (q_BodySize r) v)"
  by (simp_all only: Request_field_def field_names if_True if_False)

lemma decode_request:
  assumes "request_ok r"
  shows "Unmarshal Request_field Request0 (marshal_Request r) = Some r"
proof -
  have t: "decode_text old (JStr t) = Some t" for old t by (simp add: decode_text_def)
  have n: "decode_int old (JNum (FormatInt (q_ID r))) = Some (q_ID r)" "decode_int old (JNum (FormatInt (q_BodySize r))) = Some (q_BodySize r)" for old
    using assms by (simp_all add: request_ok_def)
  have "decode_members Request_field (Request_members r) Request0 =
    Some \<lparr>q_ID = q_ID r, q_Command = q_Command r, q_ActionID = q_ActionID r, q_OutputID = q_OutputID r, q_BodySize = q_BodySize r\<rparr>"
    unfolding Request_members_def Request0_def
    by (cases "q_ActionID r = []"; cases "q_OutputID r = []"; cases "q_BodySize r = 0") (simp_all add: Request_field_names t n)
  then have "decode_members Request_field (Request_members r) Request0 = Some r" by simp
  then show ?thesis unfolding marshal_Request_def Unmarshal_print [OF members_wf [OF assms] members_depth] .
qed

lemma plain_no_newline: "plain_str s \<Longrightarrow> newline \<notin> set s"
proof
  assume "plain_str s" "newline \<in> set s"
  then have "plain_char newline" by (simp add: plain_str_def list_all_iff)
  then show False by (simp add: plain_char_def newline_def)
qed

lemma lit_no_newline: "plain_str s \<Longrightarrow> newline \<notin> set (str_lit s)"
  using plain_no_newline [of s] by (simp add: str_lit_def plain_quote newline_def jquote_def)

lemma int_no_newline: "newline \<notin> set (FormatInt n)"
  using FormatInt_chars [of newline n] by (auto simp: newline_def is_digit_def)

lemma marshal_line: "request_ok r \<Longrightarrow> newline \<notin> set (marshal_Request r) \<and> (\<exists>cs. marshal_Request r = CHR ''{'' # cs)"
  using plain_names [THEN lit_no_newline] plain_encode [THEN lit_no_newline] lit_no_newline [of "q_Command r"] int_no_newline
  by (simp add: marshal_Request_def Request_members_def request_ok_def) (simp add: newline_def)

section \<open>A body\<close>

lemma readBody_line:
  assumes "\<And>p. concat (cuts p) = p" "length b = sz"
  shows "readBody cuts sz fl (replicate k newline @ jquote # b64_encode b @ jquote # newline # s) = ((b, None), s)"
proof -
  have "dropWhile line_end (replicate k newline @ jquote # r) = jquote # r" for r
    by (induction k) (simp_all add: line_end_def newline_def jquote_def)
  moreover have "takeWhile (\<lambda>c. c \<noteq> jquote) (b64_encode b @ jquote # newline # s) = b64_encode b"
    using encode_no_quote [of b] by (subst takeWhile_append2) (auto simp: jquote_def)
  moreover have "b64_stream [] (cuts (b64_encode b)) = (b, True)" by (rule stream_encode) (simp_all add: assms(1))
  ultimately show ?thesis using assms(2) by (simp add: readBody_def drainLine_def)
qed

section \<open>A stream of requests\<close>

text \<open>
  A message as clients write it: the request, any number of blank lines (the Go toolchain writes one),
  and the body. After a put of no bytes a client may write an empty body line.
\<close>

record msg =
  m_req :: Request
  m_body :: bytes
  m_gap :: nat
  m_emptyLine :: bool

definition leftover :: "msg \<Rightarrow> string" where
  "leftover m = replicate (m_gap m) newline @ (if m_emptyLine m then [jquote, jquote, newline] else [])"

definition msg_text :: "msg \<Rightarrow> string" where
  "msg_text m = marshal_Request (m_req m) @ newline #
     (if m_body m = [] then leftover m else replicate (m_gap m) newline @ jquote # b64_encode (m_body m) @ [jquote, newline])"

definition msg_ok :: "msg \<Rightarrow> bool" where
  "msg_ok m \<longleftrightarrow> request_ok (m_req m) \<and> q_BodySize (m_req m) = int (length (m_body m))
     \<and> (m_body m \<noteq> [] \<or> m_emptyLine m \<longrightarrow> q_Command (m_req m) = CmdPut)"

definition msg_frame :: "bool \<Rightarrow> msg \<Rightarrow> frame" where
  "msg_frame dr m = \<lparr>fr_req = m_req m, fr_body = (if m_body m = [] then None else Some (m_body m, None)), fr_drained = dr\<rparr>"

text \<open>Between two requests: what the last one may have left in the stream, and whether an empty body line may follow.\<close>

definition ready :: "Decoder \<Rightarrow> string \<Rightarrow> bool" where
  "ready d s \<longleftrightarrow> d_fail d = None \<and> (d_body d = None \<or> d_body d = Some (True, None))
     \<and> (\<exists>g ln. d_in d = replicate g newline @ (if ln then [jquote, jquote, newline] else []) @ s \<and> (ln \<longrightarrow> d_emptyBodyLinePending d))"

lemma empty_line: "checkEmptyBodyLine [jquote, jquote] = None" "readFrame (jquote # jquote # newline # s) fl = (Inr [jquote, jquote], s)"
proof -
  have "json_parse (jprint (JStr [])) = Some (JStr [])" by (rule parse_print) (simp_all add: plain_str_def)
  then show "checkEmptyBodyLine [jquote, jquote] = None" by (simp add: checkEmptyBodyLine_def str_lit_def quote_str.simps)
  show "readFrame (jquote # jquote # newline # s) fl = (Inr [jquote, jquote], s)"
    using readFrame_line [of "[jquote, jquote]" s fl] by (simp add: jquote_def newline_def maxLineBytes_def)
qed

lemma nextLine_ready:
  assumes "ready d s" "\<And>fl. readFrame s fl = (Inr line, r)" "hd line \<noteq> jquote"
  shows "nextLine d = (Inr line, d\<lparr>d_in := r, d_emptyBodyLinePending := False\<rparr>)"
proof -
  obtain g ln where i: "d_in d = replicate g newline @ (if ln then [jquote, jquote, newline] else []) @ s" "ln \<longrightarrow> d_emptyBodyLinePending d"
    using assms(1) by (auto simp: ready_def)
  show ?thesis
  proof (cases ln)
    case True
    then have "nextLine d = (case readFrame s (d_fail d) of (r, u) \<Rightarrow> (r, d\<lparr>d_emptyBodyLinePending := False, d_in := u\<rparr>))"
      using i empty_line by (simp add: nextLine_def readFrame_blank Let_def)
    then show ?thesis using assms(2) by simp
  next
    case False
    then show ?thesis using i assms(2,3) by (cases "d_emptyBodyLinePending d") (simp_all add: nextLine_def readFrame_blank Let_def)
  qed
qed

lemma nextLine_end: "ready d [] \<Longrightarrow> \<exists>d'. nextLine d = (Inl EndOfStream, d')"
proof -
  assume r: "ready d []"
  then obtain g ln where i: "d_in d = replicate g newline @ (if ln then [jquote, jquote, newline] else [])" "ln \<longrightarrow> d_emptyBodyLinePending d"
    "d_fail d = None"
    by (auto simp: ready_def)
  then show ?thesis using empty_line readFrame_blank [of g "[]" None] readFrame_blank [of g _ None]
    by (cases ln) (simp_all add: nextLine_def Let_def readFrame_end)
qed

lemma Next_ready: "ready d s \<Longrightarrow> Decoder_Next cuts d =
   (case nextLine (d\<lparr>d_body := None\<rparr>) of
      (Inl e, d) \<Rightarrow> (Inl e, d)
    | (Inr line, d) \<Rightarrow>
        (case Unmarshal Request_field Request0 line of
           None \<Rightarrow> (Inl (ReadErr ErrParse), d)
         | Some req \<Rightarrow>
             (if q_BodySize req < 0 then (Inl (ReadErr (ErrNegative ''BodySize'' (q_BodySize req))), d)
              else if q_BodySize req > 0 \<and> q_Command req \<noteq> CmdPut then (Inl (ReadErr ErrParse), d)
              else if q_BodySize req > 0 then
                (let (body, s) = readBody cuts (nat (q_BodySize req)) (d_fail d) (d_in d) in
                 (Inr (req, Some body), d\<lparr>d_in := s, d_body := Some (False, snd body)\<rparr>))
              else if q_Command req = CmdPut then (Inr (req, None), d\<lparr>d_emptyBodyLinePending := True\<rparr>)
              else (Inr (req, None), d))))"
  unfolding Decoder_Next_def by (auto simp: ready_def)

lemma Next_msg:
  assumes "ready d (msg_text m @ s)" "msg_ok m" "\<And>p. concat (cuts p) = p"
  shows "\<exists>d'. Decoder_Next cuts d = (Inr (m_req m, if m_body m = [] then None else Some (m_body m, None)), d') \<and> ready (bodyConsumed d') s"
proof -
  let ?r = "m_req m" and ?d = "d\<lparr>d_body := None\<rparr>"
  have ok: "request_ok ?r" "q_BodySize ?r = int (length (m_body m))" using assms(2) by (simp_all add: msg_ok_def)
  obtain t where t: "msg_text m @ s = marshal_Request ?r @ newline # t"
    "t = (if m_body m = [] then leftover m @ s else replicate (m_gap m) newline @ jquote # b64_encode (m_body m) @ jquote # newline # s)"
    by (simp add: msg_text_def)
  have rf: "readFrame (msg_text m @ s) fl = (Inr (marshal_Request ?r), t)" for fl
    unfolding t(1) by (rule readFrame_line) (use marshal_line [OF ok(1)] ok(1) in \<open>auto simp: request_ok_def\<close>)
  have hd: "hd (marshal_Request ?r) \<noteq> jquote" using marshal_line [OF ok(1)] by (auto simp: jquote_def)
  have rd: "ready ?d (msg_text m @ s)" using assms(1) by (simp add: ready_def)
  have nl: "nextLine ?d = (Inr (marshal_Request ?r), ?d\<lparr>d_in := t, d_emptyBodyLinePending := False\<rparr>)"
    by (rule nextLine_ready [OF rd rf hd])
  have f: "d_fail d = None" using assms(1) by (simp add: ready_def)
  show ?thesis
  proof (cases "m_body m = []")
    case True
    then show ?thesis using f t(2) assms(2) ok(2) decode_request [OF ok(1)] unfolding Next_ready [OF assms(1)] nl
      by (fastforce simp: ready_def bodyConsumed_def leftover_def msg_ok_def)
  next
    case False
    then have "readBody cuts (length (m_body m)) None t = ((m_body m, None), s)" using readBody_line [OF assms(3) refl] t(2) by simp
    then show ?thesis using False f assms(2) ok(2) decode_request [OF ok(1)] unfolding Next_ready [OF assms(1)] nl
      by (simp add: msg_ok_def ready_def bodyConsumed_def) (metis append_Nil replicate_0)
  qed
qed

lemma decodeAll_msgs:
  assumes "\<And>m. m \<in> set ms \<Longrightarrow> msg_ok m" "\<And>p. concat (cuts p) = p" "ready d (concat (map msg_text ms))" "length ms < n"
  shows "decodeAll cuts dr n d = (map (msg_frame dr) ms, EndOfStream)"
  using assms(1,3,4)
proof (induction ms arbitrary: d n)
  case Nil
  then obtain k where n: "n = Suc k" by (cases n) auto
  have rd: "ready (d\<lparr>d_body := None\<rparr>) []" using Nil.prems(2) by (simp add: ready_def)
  obtain d' where e: "nextLine (d\<lparr>d_body := None\<rparr>) = (Inl EndOfStream, d')" using nextLine_end [OF rd] by blast
  have "Decoder_Next cuts d = (Inl EndOfStream, d')" unfolding Next_ready [OF Nil.prems(2) [simplified]] e by simp
  then show ?case using n by simp
next
  case (Cons m ms)
  then obtain k where n: "n = Suc k" "length ms < k" by (cases n) auto
  have rd: "ready d (msg_text m @ concat (map msg_text ms))" using Cons.prems(2) by simp
  obtain d' where N: "Decoder_Next cuts d = (Inr (m_req m, if m_body m = [] then None else Some (m_body m, None)), d')"
    "ready (bodyConsumed d') (concat (map msg_text ms))"
    using Next_msg [OF rd Cons.prems(1) assms(2)] by auto
  have "decodeAll cuts dr k (bodyConsumed d') = (map (msg_frame dr) ms, EndOfStream)"
    by (rule Cons.IH [OF Cons.prems(1) N(2) n(2)]) simp
  then show ?case using n(1) N(1) by (simp add: msg_frame_def)
qed

lemma length_msgs: "length ms \<le> length (concat (map msg_text ms))"
  by (induction ms) (simp_all add: msg_text_def)

text \<open>The client of this program writes no blank lines and no empty body line.\<close>

lemma encodeRequest_text:
  assumes "msg_ok m" "m_gap m = 0" "\<not> m_emptyLine m"
  shows "encodeRequest (m_req m) (Some (m_body m)) = Inr (msg_text m)"
  using assms by (cases "m_body m") (auto simp: encodeRequest_def writeBody_def msg_text_def leftover_def msg_ok_def)

text \<open>
  C9. What is written is what is read. Any sequence of requests, each with its body, written into one
  stream as the protocol's clients write it, with any number of blank lines after a request and
  with or without an empty body line after a put of no bytes, is delivered request by request with
  the same fields and the same bodies, in order, followed by a clean end; and this is so however
  the bytes of the bodies arrive. What this program's own encoder writes is such a sequence.
\<close>

theorem wire_roundtrip:
  assumes "\<forall>m \<in> set ms. msg_ok m" "\<forall>p. concat (cuts p) = p" "text = concat (map msg_text ms)"
  shows "decodeAll cuts dr (Suc (length text)) (NewDecoder text None) = (map (msg_frame dr) ms, EndOfStream)
    \<and> (\<forall>m \<in> set ms. m_gap m = 0 \<longrightarrow> \<not> m_emptyLine m \<longrightarrow> encodeRequest (m_req m) (Some (m_body m)) = Inr (msg_text m))"
proof -
  have "ready (NewDecoder text None) (concat (map msg_text ms))"
    using assms(3) unfolding ready_def NewDecoder_def by (auto intro: exI [of _ 0] exI [of _ False])
  moreover have "length ms < Suc (length text)" using length_msgs [of ms] assms(3) by simp
  ultimately have "decodeAll cuts dr (Suc (length text)) (NewDecoder text None) = (map (msg_frame dr) ms, EndOfStream)"
    using decodeAll_msgs [of ms cuts] assms(1,2) by blast
  then show ?thesis using encodeRequest_text assms(1) by blast
qed

definition demo_msg :: "int \<Rightarrow> Cmd \<Rightarrow> bytes \<Rightarrow> bytes \<Rightarrow> bool \<Rightarrow> msg" where
  "demo_msg n cmd v b ln = \<lparr>m_req = \<lparr>q_ID = n, q_Command = cmd, q_ActionID = [7], q_OutputID = v, q_BodySize = int (length b)\<rparr>, m_body = b, m_gap = 1, m_emptyLine = ln\<rparr>"

definition demo_msgs :: "msg list" where
  "demo_msgs = [demo_msg 1 CmdGet [] [] False, demo_msg 2 CmdPut [8] [1, 2, 3, 4] False, demo_msg 3 CmdPut [9] [] True, demo_msg 4 CmdClose [] [] False]"

lemma length_lit: "plain_str s \<Longrightarrow> length (str_lit s) = length s + 2"
  by (simp add: str_lit_def plain_quote)

lemma plain_cmds: "plain_str CmdGet" "plain_str CmdPut" "plain_str CmdClose"
  by (simp_all add: cmd_defs plain_str_def plain_char_def jquote_def jback_def)

lemma demo_lengths: "list_all (\<lambda>m. length (marshal_Request (m_req m)) < 100) demo_msgs"
  by (simp add: demo_msgs_def demo_msg_def marshal_Request_def Request_members_def length_lit plain_names plain_cmds plain_encode [of "[_]"]
      FormatInt_def format_nat.simps del: b64_encode.simps)
    (simp add: cmd_defs Let_def)

lemma demo_msgs_ok: "\<forall>m \<in> set demo_msgs. msg_ok m"
proof -
  have "length (marshal_Request (m_req m)) \<le> maxLineBytes" if "m \<in> set demo_msgs" for m
    using demo_lengths that by (auto simp: list_all_iff maxLineBytes_def)
  then show ?thesis
    by (auto simp: demo_msgs_def demo_msg_def msg_ok_def request_ok_def in64_def plain_cmds)
qed

theorem wire_roundtrip_witness:
  "decodeAll (\<lambda>p. [take 3 p, drop 3 p]) True (Suc (length (concat (map msg_text demo_msgs)))) (NewDecoder (concat (map msg_text demo_msgs)) None)
    = (map (msg_frame True) demo_msgs, EndOfStream)"
  using wire_roundtrip [OF demo_msgs_ok, where cuts = "\<lambda>p. [take 3 p, drop 3 p]" and dr = True] by simp



end
