(* ===== verification/History.thy ===== *)
theory History
  imports Cache Json
begin

text \<open>
  The persistent history of the counters (\<^verbatim>\<open>internal/index/activity.go\<close>), and what the cache does with it:
  \<^verbatim>\<open>FlushMetrics\<close> and \<^verbatim>\<open>Close\<close> (\<^verbatim>\<open>internal/cache/cache.go\<close>). A \<^verbatim>\<open>time.Time\<close> is its count of nanoseconds since the epoch; hours are
  aligned with the epoch, so truncation to the hour is truncation of that count.
\<close>

section \<open>The records\<close>

definition Activity_field :: "string \<Rightarrow> json \<Rightarrow> Activity \<Rightarrow> Activity option" where
  "Activity_field k v a =
     (if is_field ''get_local_hit'' k then map_option (\<lambda>n. a\<lparr>GetLocalHit := n\<rparr>) (decode_int (GetLocalHit a) v)
      else if is_field ''get_remote_hit'' k then map_option (\<lambda>n. a\<lparr>GetRemoteHit := n\<rparr>) (decode_int (GetRemoteHit a) v)
      else if is_field ''get_miss'' k then map_option (\<lambda>n. a\<lparr>GetMiss := n\<rparr>) (decode_int (GetMiss a) v)
      else if is_field ''get_repair'' k then map_option (\<lambda>n. a\<lparr>GetRepair := n\<rparr>) (decode_int (GetRepair a) v)
      else if is_field ''put'' k then map_option (\<lambda>n. a\<lparr>Put := n\<rparr>) (decode_int (Put a) v)
      else if is_field ''upload_ok'' k then map_option (\<lambda>n. a\<lparr>UploadOK := n\<rparr>) (decode_int (UploadOK a) v)
      else if is_field ''upload_fail'' k then map_option (\<lambda>n. a\<lparr>UploadFail := n\<rparr>) (decode_int (UploadFail a) v)
      else if is_field ''upload_drop'' k then map_option (\<lambda>n. a\<lparr>UploadDrop := n\<rparr>) (decode_int (UploadDrop a) v)
      else if is_field ''upload_skip'' k then map_option (\<lambda>n. a\<lparr>UploadSkip := n\<rparr>) (decode_int (UploadSkip a) v)
      else if is_field ''compactions'' k then map_option (\<lambda>n. a\<lparr>Compactions := n\<rparr>) (decode_int (Compactions a) v)
      else Some a)"

definition Activity_members :: "Activity \<Rightarrow> (string \<times> json) list" where
  "Activity_members a = map (\<lambda>(k, n). (k, JNum (FormatInt n)))
     [(''get_local_hit'', GetLocalHit a), (''get_remote_hit'', GetRemoteHit a), (''get_miss'', GetMiss a), (''get_repair'', GetRepair a),
      (''put'', Put a), (''upload_ok'', UploadOK a), (''upload_fail'', UploadFail a), (''upload_drop'', UploadDrop a),
      (''upload_skip'', UploadSkip a), (''compactions'', Compactions a)]"

record activityRecord =
  rec_Version :: int
  rec_Since :: int
  rec_Total :: Activity

definition activityVersion :: int where "activityVersion = 1"

definition record_field :: "string \<Rightarrow> json \<Rightarrow> activityRecord \<Rightarrow> activityRecord option" where
  "record_field k v r =
     (if is_field ''version'' k then map_option (\<lambda>n. r\<lparr>rec_Version := n\<rparr>) (decode_int (rec_Version r) v)
      else if is_field ''since'' k then map_option (\<lambda>n. r\<lparr>rec_Since := n\<rparr>) (decode_int (rec_Since r) v)
      else if is_field ''total'' k then map_option (\<lambda>a. r\<lparr>rec_Total := a\<rparr>) (decode_struct Activity_field (rec_Total r) v)
      else Some r)"

definition zero_record :: activityRecord where
  "zero_record = \<lparr>rec_Version = 0, rec_Since = 0, rec_Total = zero_Activity\<rparr>"

definition marshal_Activity :: "Activity \<Rightarrow> bytes" where
  "marshal_Activity a = bytes_of_string (jprint (JObj (Activity_members a)))"

definition marshal_record :: "activityRecord \<Rightarrow> bytes" where
  "marshal_record r = bytes_of_string (jprint (JObj
     [(''version'', JNum (FormatInt (rec_Version r))), (''since'', JNum (FormatInt (rec_Since r))), (''total'', JObj (Activity_members (rec_Total r)))]))"

definition unmarshal_Activity :: "bytes \<Rightarrow> Activity option" where
  "unmarshal_Activity v = Unmarshal Activity_field zero_Activity (string_of_bytes v)"

definition unmarshal_record :: "bytes \<Rightarrow> activityRecord option" where
  "unmarshal_record v = Unmarshal record_field zero_record (string_of_bytes v)"

section \<open>Hours\<close>

definition hour_ns :: int where "hour_ns = 3600 * 1000000000"

definition ActivityRetention :: int where "ActivityRetention = 14 * 24 * hour_ns"

definition truncHour :: "int \<Rightarrow> int" where
  "truncHour t = t div hour_ns * hour_ns"

text \<open>The key of the hour an instant is in; byte order is time order.\<close>

definition activityBucketKey :: "int \<Rightarrow> bytes" where
  "activityBucketKey t = activityBucketPrefix @ put_u64 (truncHour t div 1000000000)"

definition hourFromBucketKey :: "bytes \<Rightarrow> int option" where
  "hourFromBucketKey k =
     (if length k \<noteq> length activityBucketPrefix + 8 then None else Some (get_i64 (drop (length activityBucketPrefix) k)))"

text \<open>The upper bound is the prefix with its last byte incremented.\<close>

definition activityBucketRange :: "bytes \<times> bytes" where
  "activityBucketRange = (activityBucketPrefix, butlast activityBucketPrefix @ [last activityBucketPrefix + 1])"

section \<open>Reading and recording\<close>

definition loadActivity :: "'db pebble \<Rightarrow> 'db index \<Rightarrow> (Activity \<times> int) result" where
  "loadActivity P ix =
     rbind (getCopy P ix metaActivity) (\<lambda>v.
       case v of
         None \<Rightarrow> Inr (zero_Activity, 0)
       | Some b \<Rightarrow>
           (case unmarshal_record b of
              None \<Rightarrow> Inl ErrParse
            | Some r \<Rightarrow> if rec_Version r > activityVersion then Inl (ErrVersion (of_int (rec_Version r))) else Inr (rec_Total r, rec_Since r)))"

text \<open>A damaged bucket restarts from zero.\<close>

definition loadActivityBucket :: "'db pebble \<Rightarrow> 'db index \<Rightarrow> int \<Rightarrow> Activity result" where
  "loadActivityBucket P ix t =
     rbind (getCopy P ix (activityBucketKey t)) (\<lambda>v.
       case v of
         None \<Rightarrow> Inr zero_Activity
       | Some b \<Rightarrow> Inr (case unmarshal_Activity b of None \<Rightarrow> zero_Activity | Some a \<Rightarrow> a))"

definition RecordActivity :: "'db pebble \<Rightarrow> Activity \<Rightarrow> int \<Rightarrow> 'db index \<Rightarrow> error option \<times> 'db index" where
  "RecordActivity P delta t ix =
     (if Activity_IsZero delta then (None, ix)
      else if ix_closed ix then (Some ErrClosed, ix)
      else case loadActivity P ix of
        Inl e \<Rightarrow> (Some e, ix)
      | Inr (tot, since) \<Rightarrow>
          (let since = (if since = 0 then t else since);
               rc = marshal_record \<lparr>rec_Version = activityVersion, rec_Since = since, rec_Total = Activity_Add tot delta\<rparr>;
               hour = truncHour t in
           case loadActivityBucket P ix hour of
             Inl e \<Rightarrow> (Some e, ix)
           | Inr bucket \<Rightarrow>
               (case rbind (pb_stage P [] (BSet metaActivity rc)) (\<lambda>b.
                     rbind (pb_stage P b (BSet (activityBucketKey hour) (marshal_Activity (Activity_Add bucket delta)))) (\<lambda>b.
                     rbind (pb_stage P b (BDeleteRange (fst activityBucketRange) (activityBucketKey (hour - ActivityRetention)))) (\<lambda>b.
                     pb_commit P (ix_db ix) b))) of
                  Inl e \<Rightarrow> (Some e, ix)
                | Inr db \<Rightarrow> (None, ix\<lparr>ix_db := db\<rparr>))))"

definition TotalActivity :: "'db pebble \<Rightarrow> 'db index \<Rightarrow> (Activity \<times> int) result" where
  "TotalActivity P ix = (if ix_closed ix then Inl ErrClosed else loadActivity P ix)"

record ActivityBucket =
  bk_Hour :: int
  bk_Activity :: Activity

fun bucketsOf :: "(bytes \<times> bytes) list \<Rightarrow> ActivityBucket list" where
  "bucketsOf [] = []"
| "bucketsOf ((k, v) # kvs) =
     (case hourFromBucketKey k of
        None \<Rightarrow> bucketsOf kvs
      | Some h \<Rightarrow>
          (case unmarshal_Activity v of
             None \<Rightarrow> bucketsOf kvs
           | Some a \<Rightarrow> \<lparr>bk_Hour = h, bk_Activity = a\<rparr> # bucketsOf kvs))"

definition ActivitySince :: "'db pebble \<Rightarrow> int \<Rightarrow> 'db index \<Rightarrow> ActivityBucket list result" where
  "ActivitySince P cutoff ix =
     (if ix_closed ix then Inl ErrClosed
      else rbind (pb_iter P (ix_db ix) (activityBucketKey cutoff) (snd activityBucketRange)) (\<lambda>(kvs, err).
        case err of None \<Rightarrow> Inr (bucketsOf kvs) | Some e \<Rightarrow> Inl e))"

section \<open>Flushing and closing the cache\<close>

definition FlushMetrics :: "('db, 'r) cache_env \<Rightarrow> int \<Rightarrow> ('db, 'r) cache \<Rightarrow> error option \<times> ('db, 'r) cache" where
  "FlushMetrics K now c =
     (let snap = c_metrics c; delta = Activity_Sub snap (c_flushed c) in
      if Activity_IsZero delta then (None, c)
      else case RecordActivity (ce_P K) delta now (c_idx c) of
        (Some e, ix) \<Rightarrow> (Some e, c\<lparr>c_idx := ix\<rparr>)
      | (None, ix) \<Rightarrow> (None, c\<lparr>c_idx := ix, c_flushed := snap\<rparr>))"

definition Cache_Close :: "('db, 'r) cache_env \<Rightarrow> (nat \<Rightarrow> int) \<Rightarrow> int \<Rightarrow> ('db, 'r) cache \<Rightarrow> ('db, 'r) cache" where
  "Cache_Close K clk now c =
     (let (t, ix) = toucher_close (index_touch (ce_P K)) clk (c_touches c) (c_idx c);
          c = c\<lparr>c_touches := t, c_idx := ix\<rparr>;
          (u, fs, m, r) = uploader_close (ce_E K) (ce_rem K) (Cache_superseded K c) (c_uploads c) (c_fs c) (c_metrics c) (c_tier c) in
      snd (FlushMetrics K now (c\<lparr>c_uploads := u, c_fs := fs, c_metrics := m, c_tier := r\<rparr>)))"

end
