(* ===== verification/History_Theorems.thy ===== *)
theory History_Theorems
  imports History Cache_Theorems
begin

text \<open>
  The history is exact: a record reads back as it was written, a flush adds precisely what was counted since
  the last one that succeeded, whatever failed in between, and the hourly buckets come back in order of time
  and inside the retention window.
\<close>

section \<open>Records read back\<close>

lemma jwf_Activity: "jwf (JObj (Activity_members a))"
  by (auto simp: Activity_members_def plain_str_def plain_char_def jquote_def jback_def)

lemma jdepth_Activity: "jdepth (JObj (Activity_members a)) = 1"
  by (simp add: Activity_members_def)

lemma decode_Activity: "Activity64 a \<Longrightarrow> decode_members Activity_field (Activity_members a) b = Some a"
  by (simp add: Activity_members_def Activity_field_def Activity64_def is_field_def)

lemma unmarshal_marshal_Activity: "Activity64 a \<Longrightarrow> unmarshal_Activity (marshal_Activity a) = Some a"
  by (simp add: unmarshal_Activity_def marshal_Activity_def Unmarshal_print jwf_Activity jdepth_Activity
      decode_Activity maxNestingDepth_def del: jprint.simps jwf.simps jdepth.simps)

definition record64 :: "activityRecord \<Rightarrow> bool" where
  "record64 r \<longleftrightarrow> in64 (rec_Version r) \<and> in64 (rec_Since r) \<and> Activity64 (rec_Total r)"

lemma decode_record:
  "record64 r \<Longrightarrow> decode_members record_field [(''version'', JNum (FormatInt (rec_Version r))),
     (''since'', JNum (FormatInt (rec_Since r))), (''total'', JObj (Activity_members (rec_Total r)))] b = Some r"
  by (simp add: record_field_def record64_def is_field_def decode_struct_def decode_Activity)

lemma unmarshal_marshal_record:
  assumes "record64 r"
  shows "unmarshal_record (marshal_record r) = Some r"
proof -
  let ?ms = "[(''version'', JNum (FormatInt (rec_Version r))), (''since'', JNum (FormatInt (rec_Since r))), (''total'', JObj (Activity_members (rec_Total r)))]"
  have "jwf (JObj ?ms)" using jwf_Activity [of "rec_Total r"]
    by (auto simp: plain_str_def plain_char_def jquote_def jback_def simp del: jwf.simps(5))
  moreover have "jdepth (JObj ?ms) \<le> maxNestingDepth" by (simp add: maxNestingDepth_def Activity_members_def)
  ultimately show ?thesis using decode_record [OF assms]
    by (simp add: unmarshal_record_def marshal_record_def Unmarshal_print del: jprint.simps jwf.simps jdepth.simps)
qed

section \<open>Numbers that were read are 64 bits wide\<close>

lemma decode_int_in64: "decode_int old v = Some n \<Longrightarrow> in64 old \<Longrightarrow> in64 n"
  by (auto simp: decode_int_def dest: ParseInt_in64 split: json.splits)

lemma Activity_field64: "Activity_field k v a = Some b \<Longrightarrow> Activity64 a \<Longrightarrow> Activity64 b"
  unfolding Activity_field_def by (simp only: split: if_splits) (auto simp: Activity64_def dest: decode_int_in64)

lemma decode_members_inv:
  assumes "\<And>k v s s'. set_field k v s = Some s' \<Longrightarrow> I s \<Longrightarrow> I s'" "decode_members set_field ms s = Some s'" "I s"
  shows "I s'"
  using assms(2,3)
proof (induction ms arbitrary: s)
  case (Cons x ms)
  obtain k v where x: "x = (k, v)" by (cases x)
  with Cons.prems obtain t where "set_field k v s = Some t" "decode_members set_field ms t = Some s'"
    by (auto split: option.splits)
  then show ?case using Cons assms(1) by blast
qed simp

lemma decode_struct_inv:
  assumes "\<And>k v s s'. set_field k v s = Some s' \<Longrightarrow> I s \<Longrightarrow> I s'" "decode_struct set_field s v = Some s'" "I s"
  shows "I s'"
  using assms(2,3) decode_members_inv [where I = I and set_field = set_field, OF assms(1)]
  by (auto simp: decode_struct_def split: json.splits)

lemma decode_Activity64: "decode_struct Activity_field a v = Some b \<Longrightarrow> Activity64 a \<Longrightarrow> Activity64 b"
  by (rule decode_struct_inv [where I = Activity64]) (rule Activity_field64)

lemma record_field64: "record_field k v r = Some r' \<Longrightarrow> record64 r \<Longrightarrow> record64 r'"
  unfolding record_field_def
  by (simp only: split: if_splits)
    (auto simp: record64_def dest: decode_int_in64 decode_Activity64)

lemma decode_record64: "decode_struct record_field a v = Some b \<Longrightarrow> record64 a \<Longrightarrow> record64 b"
  by (rule decode_struct_inv [where I = record64]) (rule record_field64)

lemma unmarshal_record64: "unmarshal_record v = Some r \<Longrightarrow> record64 r"
  unfolding unmarshal_record_def Unmarshal_def
  by (auto split: option.splits intro: decode_record64) (erule decode_record64, simp add: record64_def zero_record_def)

section \<open>What a recording writes\<close>

definition stored_total :: "kv_map \<Rightarrow> (Activity \<times> int) option" where
  "stored_total m =
     (case m metaActivity of
        None \<Rightarrow> Some (zero_Activity, 0)
      | Some b \<Rightarrow>
          (case unmarshal_record b of
             None \<Rightarrow> None
           | Some r \<Rightarrow> if rec_Version r > activityVersion then None else Some (rec_Total r, rec_Since r)))"

definition stored_bucket :: "kv_map \<Rightarrow> int \<Rightarrow> Activity" where
  "stored_bucket m t =
     (case m (activityBucketKey t) of
        None \<Rightarrow> zero_Activity
      | Some b \<Rightarrow> (case unmarshal_Activity b of None \<Rightarrow> zero_Activity | Some a \<Rightarrow> a))"

lemma stored_total64: "stored_total m = Some (tot, since) \<Longrightarrow> Activity64 tot \<and> in64 since"
  by (auto simp: stored_total_def record64_def dest!: unmarshal_record64 split: option.splits if_splits)

lemma loadActivity_stored:
  "pebble_ok P \<Longrightarrow> loadActivity P ix = Inr x \<Longrightarrow> stored_total (pb_view P (ix_db ix)) = Some x"
  by (auto simp: loadActivity_def getCopy_def stored_total_def result_simps dest!: pb_getD split: option.splits if_splits)

lemma loadActivity_healthy:
  "pebble_ok P \<Longrightarrow> pebble_healthy P \<Longrightarrow> stored_total (pb_view P (ix_db ix)) = Some x \<Longrightarrow> loadActivity P ix = Inr x"
  by (auto simp: loadActivity_def getCopy_def stored_total_def pebble_healthy_get split: option.splits if_splits)

lemma loadActivityBucket_stored:
  "pebble_ok P \<Longrightarrow> loadActivityBucket P ix t = Inr a \<Longrightarrow> a = stored_bucket (pb_view P (ix_db ix)) t"
  by (auto simp: loadActivityBucket_def getCopy_def stored_bucket_def result_simps dest!: pb_getD split: option.splits)

definition record_batch :: "Activity \<Rightarrow> int \<Rightarrow> Activity \<Rightarrow> int \<Rightarrow> Activity \<Rightarrow> batch" where
  "record_batch d t tot since bucket =
     [BSet metaActivity (marshal_record \<lparr>rec_Version = activityVersion, rec_Since = (if since = 0 then t else since), rec_Total = Activity_Add tot d\<rparr>),
      BSet (activityBucketKey (truncHour t)) (marshal_Activity (Activity_Add bucket d)),
      BDeleteRange activityBucketPrefix (activityBucketKey (truncHour t - ActivityRetention))]"

lemma RecordActivity_view:
  assumes "pebble_ok P" "RecordActivity P d t ix = (None, ix')" "\<not> Activity_IsZero d"
  obtains tot since db where "stored_total (pb_view P (ix_db ix)) = Some (tot, since)" "ix' = ix\<lparr>ix_db := db\<rparr>" "\<not> ix_closed ix"
    "pb_view P db = apply_batch (record_batch d t tot since (stored_bucket (pb_view P (ix_db ix)) (truncHour t))) (pb_view P (ix_db ix))"
proof -
  obtain tot since where l: "loadActivity P ix = Inr (tot, since)" and open': "\<not> ix_closed ix"
    using assms(2,3) by (auto simp: RecordActivity_def split: sum.splits if_splits)
  obtain bk where b: "loadActivityBucket P ix (truncHour t) = Inr bk"
    using assms(2,3) l open' by (auto simp: RecordActivity_def Let_def split: sum.splits if_splits)
  obtain db where "ix' = ix\<lparr>ix_db := db\<rparr>" "pb_commit P (ix_db ix) (record_batch d t tot since bk) = Inr db"
    using assms(2,3) l b open'
    by (auto simp: RecordActivity_def record_batch_def Let_def result_simps activityBucketRange_def split: sum.splits
        dest!: pb_stageD [OF assms(1)])
  then show thesis
    using that [OF loadActivity_stored [OF assms(1) l]] open' loadActivityBucket_stored [OF assms(1) b] pb_commitD [OF assms(1)] by metis
qed

lemma RecordActivity_fails: "RecordActivity P d t ix = (Some e, ix') \<Longrightarrow> ix' = ix"
  by (auto simp: RecordActivity_def Let_def split: if_splits sum.splits)

section \<open>The keys of the history\<close>

lemma meta_range: "activityBucketPrefix \<le> k \<Longrightarrow> k < activityBucketKey t \<Longrightarrow> \<exists>r. k = prefixMeta # r"
  by (cases k) (auto simp: activityBucketPrefix_def activityBucketKey_def metaKey_def)

lemma history_keys [simp]:
  "metaActivity \<noteq> activityBucketKey t" "activityBucketKey t \<noteq> metaActivity" "\<not> activityBucketPrefix \<le> metaActivity"
  "metaCounters \<noteq> activityBucketKey t" "metaCounters \<noteq> metaActivity" "\<not> metaCounters < activityBucketKey t"
  "metaCleanShutdown \<noteq> activityBucketKey t" "metaCleanShutdown \<noteq> metaActivity" "\<not> metaCleanShutdown < activityBucketKey t"
  by (simp_all add: metaActivity_def activityBucketKey_def activityBucketPrefix_def metaKey_def metaCounters_def metaCleanShutdown_def)

lemma record_batch_off_meta: "\<nexists>r. k = prefixMeta # r \<Longrightarrow> apply_batch (record_batch d t tot since b) m k = m k"
  using meta_range [of k]
  by (auto simp: record_batch_def metaActivity_def activityBucketKey_def activityBucketPrefix_def metaKey_def)

lemma record_batch_counters:
  "apply_batch (record_batch d t tot since b) m metaCounters = m metaCounters"
  "apply_batch (record_batch d t tot since b) m metaCleanShutdown = m metaCleanShutdown"
  by (simp_all add: record_batch_def)

lemma record_batch_total:
  assumes "in64 t" "in64 since"
  shows "stored_total (apply_batch (record_batch d t tot since b) m) = Some (Activity_Add tot d, if since = 0 then t else since)"
proof -
  have "record64 \<lparr>rec_Version = activityVersion, rec_Since = (if since = 0 then t else since), rec_Total = Activity_Add tot d\<rparr>"
    using assms by (simp add: record64_def activityVersion_def in64_def)
  from unmarshal_marshal_record [OF this] show ?thesis by (simp add: stored_total_def record_batch_def)
qed

lemma RecordActivity_healthy:
  assumes "pebble_ok P" "pebble_healthy P" "\<not> ix_closed ix" "stored_total (pb_view P (ix_db ix)) = Some x"
  shows "\<exists>ix'. RecordActivity P d t ix = (None, ix')"
proof -
  have "loadActivityBucket P ix u = Inr (stored_bucket (pb_view P (ix_db ix)) u)" for u
    by (simp add: loadActivityBucket_def getCopy_def stored_bucket_def pebble_healthy_get [OF assms(1,2)] split: option.split)
  moreover obtain db where "pb_commit P (ix_db ix) b = Inr (db b)" for b using pebble_healthy_commit [OF assms(2)] by metis
  ultimately show ?thesis using assms(3) loadActivity_healthy [OF assms(1,2,4)]
    by (cases x) (simp add: RecordActivity_def Let_def pebble_healthy_stage [OF assms(1,2)])
qed

section \<open>Flushes count once\<close>

text \<open>A cache whose counters move on between flushes, each made with a store of its own, which may fail at any call.\<close>

fun flush_run :: "(('db, 'r) cache_env \<times> Activity \<times> int) list \<Rightarrow> ('db, 'r) cache \<Rightarrow> ('db, 'r) cache" where
  "flush_run [] c = c"
| "flush_run ((K, snap, now) # steps) c = flush_run steps (snd (FlushMetrics K now (c\<lparr>c_metrics := snap\<rparr>)))"

lemma Activity_Sub_trans: "Activity_Add (Activity_Sub b a) (Activity_Sub c b) = Activity_Sub c a"
  by (simp add: Activity_Add_def Activity_Sub_def add64_def sub64_def wrap_simps)

lemma Activity_Sub_self [simp]: "Activity_Sub a a = zero_Activity"
  by (simp add: Activity_Sub_def zero_Activity_def sub64_def wrap64_def)

lemma FlushMetrics_cases:
  assumes "Activity64 (c_metrics c)" "Activity64 (c_flushed c)" "FlushMetrics K now c = (e, c')"
  obtains "e = None" "c' = c" "c_metrics c = c_flushed c"
  | err where "e = Some err" "c' = c"
  | ix where "e = None" "c' = c\<lparr>c_idx := ix, c_flushed := c_metrics c\<rparr>" "c_metrics c \<noteq> c_flushed c"
      "RecordActivity (ce_P K) (Activity_Sub (c_metrics c) (c_flushed c)) now (c_idx c) = (None, ix)"
proof (cases "c_metrics c = c_flushed c")
  case True
  then show thesis using assms that(1) by (simp add: FlushMetrics_def Activity_IsZero_def)
next
  case False
  then have "\<not> Activity_IsZero (Activity_Sub (c_metrics c) (c_flushed c))" using assms by (simp add: Activity_Sub_zero_iff)
  then show thesis using assms(3) False that(2,3)
    by (auto simp: FlushMetrics_def Let_def split: prod.splits option.splits dest: RecordActivity_fails)
qed

lemma RecordActivity_keeps:
  assumes "pebble_ok P" "RecordActivity P d t ix = (None, ix')" "\<not> Activity_IsZero d" "in64 t"
    and "stored_total (pb_view P (ix_db ix)) = Some (tot, since)"
  shows "stored_total (pb_view P (ix_db ix')) = Some (Activity_Add tot d, if since = 0 then t else since)"
    and "ix_closed ix' = ix_closed ix" and "repr P ix s \<Longrightarrow> repr P ix' s"
proof -
  let ?b = "record_batch d t tot since (stored_bucket (pb_view P (ix_db ix)) (truncHour t))"
  obtain db where ix: "ix' = ix\<lparr>ix_db := db\<rparr>" and v: "pb_view P db = apply_batch ?b (pb_view P (ix_db ix))"
    using RecordActivity_view [OF assms(1-3)] assms(5) by (metis option.inject prod.inject)
  show "stored_total (pb_view P (ix_db ix')) = Some (Activity_Add tot d, if since = 0 then t else since)"
    using ix v record_batch_total [OF assms(4)] stored_total64 [OF assms(5)] by simp
  show "ix_closed ix' = ix_closed ix" using ix by simp
  show "repr P ix' s" if "repr P ix s"
    using that tables_cong_off_meta [of "pb_view P (ix_db ix)" s "pb_view P db"] record_batch_off_meta v ix
    by (simp add: repr_def counters_ok_def)
qed

lemma FlushMetrics_step:
  assumes "pebble_ok (ce_P K)" "Activity64 (c_metrics c)" "Activity64 (c_flushed c)" "in64 now"
    and "stored_total (pb_view (ce_P K) (ix_db (c_idx c))) = Some (tot, since)" "FlushMetrics K now c = (e, c')"
  shows "\<exists>since'. stored_total (pb_view (ce_P K) (ix_db (c_idx c'))) = Some (Activity_Add tot (Activity_Sub (c_flushed c') (c_flushed c)), since')"
    and "c_flushed c' = (if e = None then c_metrics c else c_flushed c)"
    and "ix_closed (c_idx c') = ix_closed (c_idx c)"
    and "repr (ce_P K) (c_idx c) s \<Longrightarrow> repr (ce_P K) (c_idx c') s"
proof -
  have nz: "c_metrics c \<noteq> c_flushed c \<Longrightarrow> \<not> Activity_IsZero (Activity_Sub (c_metrics c) (c_flushed c))"
    using assms(2,3) by (simp add: Activity_Sub_zero_iff)
  note keeps = RecordActivity_keeps [OF assms(1) _ nz assms(4,5)]
  show "\<exists>since'. stored_total (pb_view (ce_P K) (ix_db (c_idx c'))) = Some (Activity_Add tot (Activity_Sub (c_flushed c') (c_flushed c)), since')"
    by (rule FlushMetrics_cases [OF assms(2,3,6)]) (use assms(5) stored_total64 [OF assms(5)] keeps(1) in auto)
  show "c_flushed c' = (if e = None then c_metrics c else c_flushed c)"
    by (rule FlushMetrics_cases [OF assms(2,3,6)]) auto
  show "ix_closed (c_idx c') = ix_closed (c_idx c)"
    by (rule FlushMetrics_cases [OF assms(2,3,6)]) (use keeps(2) in auto)
  show "repr (ce_P K) (c_idx c') s" if "repr (ce_P K) (c_idx c) s"
    by (rule FlushMetrics_cases [OF assms(2,3,6)]) (use keeps(3) that in auto)
qed

definition flush_step_ok :: "('db \<Rightarrow> kv_map) \<Rightarrow> ('db, 'r) cache_env \<times> Activity \<times> int \<Rightarrow> bool" where
  "flush_step_ok V = (\<lambda>(K, snap, now). pebble_ok (ce_P K) \<and> pb_view (ce_P K) = V \<and> Activity64 snap \<and> in64 now)"

lemma flush_run_step:
  assumes "\<forall>x \<in> set steps. flush_step_ok V x" "Activity64 (c_flushed c)" "stored_total (V (ix_db (c_idx c))) = Some (tot, since)"
  shows "(\<exists>since'. stored_total (V (ix_db (c_idx (flush_run steps c)))) = Some (Activity_Add tot (Activity_Sub (c_flushed (flush_run steps c)) (c_flushed c)), since'))
    \<and> Activity64 (c_flushed (flush_run steps c)) \<and> ix_closed (c_idx (flush_run steps c)) = ix_closed (c_idx c)
    \<and> (\<forall>P s. pb_view P = V \<longrightarrow> repr P (c_idx c) s \<longrightarrow> repr P (c_idx (flush_run steps c)) s)"
  using assms
proof (induction steps arbitrary: c tot since)
  case Nil
  then show ?case using stored_total64 [OF Nil(3)] by simp
next
  case (Cons x steps)
  obtain K snap now where x: "x = (K, snap, now)" by (cases x)
  let ?c = "c\<lparr>c_metrics := snap\<rparr>"
  obtain e c1 where f: "FlushMetrics K now ?c = (e, c1)" by fastforce
  have K: "pebble_ok (ce_P K)" "pb_view (ce_P K) = V" "Activity64 snap" "in64 now" using Cons.prems(1) x by (auto simp: flush_step_ok_def)
  have h: "Activity64 (c_metrics ?c)" "Activity64 (c_flushed ?c)" "stored_total (pb_view (ce_P K) (ix_db (c_idx ?c))) = Some (tot, since)"
    using K Cons.prems by simp_all
  note st = FlushMetrics_step [OF K(1) h(1,2) K(4) h(3) f]
  obtain since1 where t1: "stored_total (V (ix_db (c_idx c1))) = Some (Activity_Add tot (Activity_Sub (c_flushed c1) (c_flushed c)), since1)"
    using st(1) K(2) by auto
  have f1: "Activity64 (c_flushed c1)" using st(2) K(3) Cons.prems(2) by (simp split: if_splits)
  have r: "repr P (c_idx c) s \<longrightarrow> repr P (c_idx c1) s" if "pb_view P = V" for P s
    using st(4) [of s] that K(2) by (simp add: repr_def)
  have "\<forall>x \<in> set steps. flush_step_ok V x" using Cons.prems(1) by simp
  from Cons.IH [OF this f1 t1] st(3) r show ?case
    by (auto simp add: x f Activity_Add_assoc Activity_Sub_trans)
qed

text \<open>
  C11. Everything counted reaches the history exactly once: whatever flushes were made before, at whatever
  snapshots of the counters and whichever of them failed, one flush that finds the store working
  leaves in the index the total it held at the start plus all that was counted since, even across a wrap of the
  counters; and no flush disturbs the tables of the cache.\<close>

theorem flushes_count_once:
  assumes "\<forall>x \<in> set steps. flush_step_ok (pb_view (ce_P K)) x" "flush_step_ok (pb_view (ce_P K)) (K, snap, now)"
    and "pebble_healthy (ce_P K)" "\<not> ix_closed (c_idx c)"
    and "Activity64 (c_flushed c)" "stored_total (pb_view (ce_P K) (ix_db (c_idx c))) = Some (tot, since)"
  shows "\<exists>c' since'. FlushMetrics K now ((flush_run steps c)\<lparr>c_metrics := snap\<rparr>) = (None, c')
    \<and> TotalActivity (ce_P K) (c_idx c') = Inr (Activity_Add tot (Activity_Sub snap (c_flushed c)), since')
    \<and> c_flushed c' = snap \<and> (\<forall>s. repr (ce_P K) (c_idx c) s \<longrightarrow> repr (ce_P K) (c_idx c') s)"
proof -
  let ?c = "(flush_run steps c)\<lparr>c_metrics := snap\<rparr>"
  have K: "pebble_ok (ce_P K)" "Activity64 snap" "in64 now" using assms(2) by (simp_all add: flush_step_ok_def)
  from flush_run_step [OF assms(1,5,6)] obtain since1 where
      t: "stored_total (pb_view (ce_P K) (ix_db (c_idx ?c))) = Some (Activity_Add tot (Activity_Sub (c_flushed ?c) (c_flushed c)), since1)"
    and c: "Activity64 (c_flushed ?c)" "\<not> ix_closed (c_idx ?c)"
    and r: "\<And>s. repr (ce_P K) (c_idx c) s \<Longrightarrow> repr (ce_P K) (c_idx ?c) s" using assms(4) by auto
  obtain e c' where f: "FlushMetrics K now ?c = (e, c')" by fastforce
  have m: "Activity64 (c_metrics ?c)" using K by simp
  note st = FlushMetrics_step [OF K(1) m c(1) K(3) t f]
  obtain ix' where "RecordActivity (ce_P K) (Activity_Sub snap (c_flushed ?c)) now (c_idx ?c) = (None, ix')"
    using RecordActivity_healthy [OF K(1) assms(3) c(2) t] by blast
  with f have e: "e = None" by (auto simp: FlushMetrics_def Let_def split: if_splits)
  then have fl: "c_flushed c' = snap" using st(2) by simp
  obtain since' where "stored_total (pb_view (ce_P K) (ix_db (c_idx c'))) = Some (Activity_Add tot (Activity_Sub snap (c_flushed c)), since')"
    using st(1) fl by (auto simp: Activity_Add_assoc Activity_Sub_trans)
  from loadActivity_healthy [OF K(1) assms(3) this]
  show ?thesis using f e fl st(3,4) c(2) r by (auto simp: TotalActivity_def)
qed

theorem flushes_count_once_witness:
  "\<exists>c' since'. FlushMetrics demo_K 5 ((flush_run [(demo_K, zero_Activity\<lparr>Put := 3\<rparr>, 4)] demo_cache)\<lparr>c_metrics := zero_Activity\<lparr>Put := 7\<rparr>\<rparr>) = (None, c')
    \<and> TotalActivity ref_pebble (c_idx c') = Inr (zero_Activity\<lparr>Put := 7\<rparr>, since')"
proof -
  have f: "c_flushed demo_cache = zero_Activity" by (simp add: demo_cache_def Cache_New_def)
  have st: "stored_total (pb_view (ce_P demo_K) (ix_db (c_idx demo_cache))) = Some (zero_Activity, 0)"
    by (simp add: stored_total_def empty_index_def ref_pebble_def)
  have ok: "flush_step_ok (pb_view (ce_P demo_K)) (demo_K, zero_Activity\<lparr>Put := n\<rparr>, t)" if "n \<in> {3, 7}" "t \<in> {4, 5}" for n t
    using that pebble_ok_ref by (auto simp: flush_step_ok_def Activity64_def zero_Activity_def in64_def)
  have "\<not> ix_closed (c_idx demo_cache)" by (simp add: empty_index_def)
  from flushes_count_once [where K = demo_K and c = demo_cache and steps = "[(demo_K, zero_Activity\<lparr>Put := 3\<rparr>, 4)]"
      and snap = "zero_Activity\<lparr>Put := 7\<rparr>" and now = 5, OF _ ok _ this _ st] ok [of 3 4] f pebble_healthy_ref
  have "\<exists>c' since'. FlushMetrics demo_K 5 ((flush_run [(demo_K, zero_Activity\<lparr>Put := 3\<rparr>, 4)] demo_cache)\<lparr>c_metrics := zero_Activity\<lparr>Put := 7\<rparr>\<rparr>) = (None, c')
    \<and> TotalActivity (ce_P demo_K) (c_idx c') = Inr (Activity_Add zero_Activity (Activity_Sub (zero_Activity\<lparr>Put := 7\<rparr>) zero_Activity), since')"
    by (simp del: flush_run.simps) blast
  moreover have "Activity_Add zero_Activity (Activity_Sub (zero_Activity\<lparr>Put := 7\<rparr>) zero_Activity) = zero_Activity\<lparr>Put := 7\<rparr>"
    by (simp add: Activity_Add_def Activity_Sub_def zero_Activity_def add64_def sub64_def wrap64_def)
  ultimately show ?thesis by simp
qed

section \<open>The hours\<close>

definition hour_sec :: "int \<Rightarrow> int" where
  "hour_sec t = truncHour t div 1000000000"

lemma bucketKey_sec: "activityBucketKey t = activityBucketPrefix @ put_u64 (hour_sec t)"
  by (simp add: activityBucketKey_def hour_sec_def)

lemma hour_sec_range: "0 \<le> t \<Longrightarrow> in64 t \<Longrightarrow> 0 \<le> hour_sec t \<and> in64 (hour_sec t)"
proof -
  assume t: "0 \<le> t" "in64 t"
  have "0 \<le> hour_sec t" "hour_sec t \<le> t" using t by (simp_all add: hour_sec_def truncHour_def hour_ns_def)
  then show ?thesis using t by (simp add: in64_def)
qed

lemma hour_sec_mono_iff: "hour_sec t < hour_sec u \<longleftrightarrow> truncHour t < truncHour u"
  by (simp add: hour_sec_def truncHour_def hour_ns_def)

text \<open>Byte order is time order, which is what the range delete and the report rest on.\<close>

lemma bucketKey_less_iff:
  "0 \<le> t \<Longrightarrow> in64 t \<Longrightarrow> 0 \<le> u \<Longrightarrow> in64 u \<Longrightarrow> activityBucketKey t < activityBucketKey u \<longleftrightarrow> truncHour t < truncHour u"
  using hour_sec_range [of t] hour_sec_range [of u]
  by (simp add: bucketKey_sec append_less_iff put_u64_less_iff in64_def flip: hour_sec_mono_iff)

lemma le_append_self: "xs \<le> xs @ (ys :: byte list)"
  by (induction xs) auto

text \<open>After a recording no hour older than the retention window is left, and the hour of the recording holds its counts.\<close>

lemma RecordActivity_window:
  assumes "pebble_ok P" "RecordActivity P d t ix = (None, ix')" "\<not> Activity_IsZero d" "in64 t" "ActivityRetention \<le> truncHour t"
  shows "0 \<le> u \<Longrightarrow> in64 u \<Longrightarrow> pb_view P (ix_db ix') (activityBucketKey u) \<noteq> None \<Longrightarrow> truncHour t - ActivityRetention \<le> truncHour u"
    and "stored_bucket (pb_view P (ix_db ix')) t = Activity_Add (stored_bucket (pb_view P (ix_db ix)) t) d"
proof -
  let ?lo = "truncHour t - ActivityRetention"
  have tr: "truncHour (truncHour t) = truncHour t" "truncHour ?lo = ?lo"
    by (simp_all add: truncHour_def ActivityRetention_def hour_ns_def)
  have t: "0 \<le> t" "truncHour t \<le> t" using assms(5) by (simp_all add: truncHour_def ActivityRetention_def hour_ns_def)
  have lo: "0 \<le> ?lo" "in64 ?lo" using t assms(4,5) by (simp_all add: in64_def ActivityRetention_def hour_ns_def)
  have k: "activityBucketKey (truncHour t) = activityBucketKey t" "stored_bucket m (truncHour t) = stored_bucket m t" for m
    by (simp_all add: activityBucketKey_def stored_bucket_def tr)
  obtain tot since db where ix: "ix' = ix\<lparr>ix_db := db\<rparr>"
    and v: "pb_view P db = apply_batch (record_batch d t tot since (stored_bucket (pb_view P (ix_db ix)) t)) (pb_view P (ix_db ix))"
    using RecordActivity_view [OF assms(1-3)] k by metis
  have pre: "activityBucketPrefix \<le> activityBucketKey u" for u by (simp add: activityBucketKey_def le_append_self)
  show "truncHour t - ActivityRetention \<le> truncHour u" if "0 \<le> u" "in64 u" "pb_view P (ix_db ix') (activityBucketKey u) \<noteq> None"
    using that bucketKey_less_iff [OF that(1,2) lo] pre [of u] ix v tr by (auto simp: record_batch_def split: if_splits)
  show "stored_bucket (pb_view P (ix_db ix')) t = Activity_Add (stored_bucket (pb_view P (ix_db ix)) t) d"
  proof -
    have "\<not> activityBucketKey t < activityBucketKey ?lo"
      using bucketKey_less_iff [OF t(1) assms(4) lo] tr by (simp add: ActivityRetention_def hour_ns_def)
    then have "pb_view P db (activityBucketKey t) = Some (marshal_Activity (Activity_Add (stored_bucket (pb_view P (ix_db ix)) t) d))"
      using v k(1) by (simp add: record_batch_def)
    then show ?thesis using ix unmarshal_marshal_Activity by (simp add: stored_bucket_def [of "pb_view P db"])
  qed
qed

text \<open>
  The report of the hours since a cutoff: one bucket for every stored hour from the cutoff's on that can be
  read, in order of time. A damaged hour is left out of the report and does not end it.
\<close>

definition hours_stored :: "kv_map \<Rightarrow> bool" where
  "hours_stored m \<longleftrightarrow> (\<forall>h. in64 h \<longrightarrow> m (activityBucketPrefix @ put_u64 h) \<noteq> None \<longrightarrow> 0 \<le> h)"

lemma hourFromBucketKey_key: "in64 h \<Longrightarrow> hourFromBucketKey (activityBucketPrefix @ put_u64 h) = Some h"
  by (simp add: hourFromBucketKey_def get_put_u64_id)

lemma range_prefix:
  fixes c :: byte
  assumes "uint c < 255" "p @ [c] \<le> k" "k < p @ [c + 1]"
  shows "\<exists>r. k = p @ c # r"
  using assms(2,3)
proof (induction p arbitrary: k)
  case Nil
  then show ?case using in_prefixRange_iff [OF assms(1), of k] by (simp add: prefixRange_def)
next
  case (Cons x p)
  then obtain y k' where "k = y # k'" by (cases k) auto
  with Cons show ?case by auto
qed

lemma bucket_range_iff:
  "activityBucketPrefix \<le> k \<and> k < snd activityBucketRange \<longleftrightarrow> (\<exists>r. k = activityBucketPrefix @ r)"
proof -
  obtain p where p: "activityBucketPrefix = p @ [47 :: byte]"
    by (rule that [of "prefixMeta # map of_char ''activity''"]) (simp add: activityBucketPrefix_def metaKey_def)
  have "p @ 47 # r < p @ [48 :: byte]" for r by (induction p) simp_all
  then show ?thesis using range_prefix [of 47 p k] le_append_self [of activityBucketPrefix] by (auto simp: activityBucketRange_def p)
qed

lemma bucketsOf_mem:
  "b \<in> set (bucketsOf kvs) \<longleftrightarrow> (\<exists>k v. (k, v) \<in> set kvs \<and> hourFromBucketKey k = Some (bk_Hour b) \<and> unmarshal_Activity v = Some (bk_Activity b))"
  by (induction kvs rule: bucketsOf.induct) (auto split: option.splits, blast+)

lemma hourFromBucketKey_Some:
  "hourFromBucketKey (activityBucketPrefix @ r) = Some h \<longleftrightarrow> r = put_u64 h \<and> in64 h"
  by (auto simp: hourFromBucketKey_def put_get_u64 get_put_u64_id)

lemma bucketsOf_sorted:
  assumes "sorted_wrt (<) (map fst kvs)"
    and "\<And>k h. k \<in> fst ` set kvs \<Longrightarrow> hourFromBucketKey k = Some h \<Longrightarrow> 0 \<le> h \<and> in64 h \<and> k = activityBucketPrefix @ put_u64 h"
  shows "sorted_wrt (<) (map bk_Hour (bucketsOf kvs))"
  using assms
proof (induction kvs rule: bucketsOf.induct)
  case (2 k v kvs)
  have IH: "sorted_wrt (<) (map bk_Hour (bucketsOf kvs))"
    using "2.prems" by (cases "hourFromBucketKey k"; cases "unmarshal_Activity v") (auto intro: "2.IH" split: option.splits)
  show ?case
  proof (cases "\<exists>h a. hourFromBucketKey k = Some h \<and> unmarshal_Activity v = Some a")
    case True
    then obtain h a where h: "hourFromBucketKey k = Some h" "unmarshal_Activity v = Some a" by blast
    have "h < bk_Hour b" if b: "b \<in> set (bucketsOf kvs)" for b
    proof -
      obtain k' v' where k': "(k', v') \<in> set kvs" "hourFromBucketKey k' = Some (bk_Hour b)" using b by (auto simp: bucketsOf_mem)
      have "k < k'" using "2.prems"(1) k' by auto
      then show ?thesis using "2.prems"(2) [of k h] "2.prems"(2) [of k' "bk_Hour b"] h k'
        by (force simp: append_less_iff put_u64_less_iff in64_def)
    qed
    then show ?thesis using h IH by simp
  next
    case False
    then show ?thesis using IH by (auto split: option.splits)
  qed
qed simp

lemma ActivitySince_report:
  assumes "pebble_ok P" "hours_stored (pb_view P (ix_db ix))" "0 \<le> cutoff" "in64 cutoff" "ActivitySince P cutoff ix = Inr bs"
  shows "sorted_wrt (<) (map bk_Hour bs)"
    and "b \<in> set bs \<longleftrightarrow> hour_sec cutoff \<le> bk_Hour b \<and> in64 (bk_Hour b)
      \<and> (\<exists>v. pb_view P (ix_db ix) (activityBucketPrefix @ put_u64 (bk_Hour b)) = Some v \<and> unmarshal_Activity v = Some (bk_Activity b))"
proof -
  let ?m = "pb_view P (ix_db ix)"
  obtain kvs where it: "pb_iter P (ix_db ix) (activityBucketKey cutoff) (snd activityBucketRange) = Inr (kvs, None)" and bs: "bs = bucketsOf kvs"
    using assms(5) by (auto simp: ActivitySince_def result_simps split: if_splits option.splits)
  note l = pb_iter_NoneD [OF assms(1) it, unfolded lists_range_def]
  have pre: "activityBucketPrefix \<le> activityBucketKey cutoff" by (simp add: activityBucketKey_def le_append_self)
  have k: "\<exists>r. k = activityBucketPrefix @ r" if "(k, v) \<in> set kvs" for k v
    using l that pre bucket_range_iff [of k] by force
  have ks: "0 \<le> h \<and> in64 h \<and> k = activityBucketPrefix @ put_u64 h" if "k \<in> fst ` set kvs" "hourFromBucketKey k = Some h" for k h
    using that k l assms(2) by (fastforce simp: hourFromBucketKey_Some hours_stored_def)
  show "sorted_wrt (<) (map bk_Hour bs)" unfolding bs using bucketsOf_sorted l ks by blast
  have c: "0 \<le> hour_sec cutoff" "in64 (hour_sec cutoff)" using hour_sec_range assms by auto
  have le: "activityBucketKey cutoff \<le> activityBucketPrefix @ put_u64 h \<longleftrightarrow> hour_sec cutoff \<le> h" if "0 \<le> h" "in64 h" for h
    using that c by (auto simp: bucketKey_sec append_less_iff put_u64_less_iff in64_def linorder_not_less [symmetric])
  have r: "activityBucketPrefix @ r < snd activityBucketRange" for r using bucket_range_iff by blast
  show "b \<in> set bs \<longleftrightarrow> hour_sec cutoff \<le> bk_Hour b \<and> in64 (bk_Hour b)
      \<and> (\<exists>v. ?m (activityBucketPrefix @ put_u64 (bk_Hour b)) = Some v \<and> unmarshal_Activity v = Some (bk_Activity b))"
  proof
    assume "b \<in> set bs"
    then obtain k v where kv: "(k, v) \<in> set kvs" "hourFromBucketKey k = Some (bk_Hour b)" "unmarshal_Activity v = Some (bk_Activity b)"
      by (auto simp: bs bucketsOf_mem)
    then have "0 \<le> bk_Hour b \<and> in64 (bk_Hour b) \<and> k = activityBucketPrefix @ put_u64 (bk_Hour b)" using ks by force
    then show "hour_sec cutoff \<le> bk_Hour b \<and> in64 (bk_Hour b)
      \<and> (\<exists>v. ?m (activityBucketPrefix @ put_u64 (bk_Hour b)) = Some v \<and> unmarshal_Activity v = Some (bk_Activity b))"
      using kv l le by auto
  next
    assume "hour_sec cutoff \<le> bk_Hour b \<and> in64 (bk_Hour b)
      \<and> (\<exists>v. ?m (activityBucketPrefix @ put_u64 (bk_Hour b)) = Some v \<and> unmarshal_Activity v = Some (bk_Activity b))"
    then obtain v where v: "hour_sec cutoff \<le> bk_Hour b" "in64 (bk_Hour b)" "unmarshal_Activity v = Some (bk_Activity b)"
        "?m (activityBucketPrefix @ put_u64 (bk_Hour b)) = Some v" by blast
    then have "(activityBucketPrefix @ put_u64 (bk_Hour b), v) \<in> set kvs" using l le [of "bk_Hour b"] c r by simp
    then show "b \<in> set bs" using v hourFromBucketKey_key bs bucketsOf_mem by blast
  qed
qed

end
