(* ===== verification/Idle.thy ===== *)
theory Idle
  imports Prelude
begin

text \<open>
  The life of the daemon (\<^verbatim>\<open>internal/daemon/server.go\<close>): the count of active connections, the timer of the idle
  exit, and the accept loop. One step is one critical section of the server's mutex or one event of the timer,
  so that a connection may arrive between any two of them.
\<close>

section \<open>The idle timer\<close>

text \<open>
  \<open>sv_timer\<close> is whether the timer \<^verbatim>\<open>idleTimer\<close> points to is counting. \<open>sv_arming\<close> counts the goroutines on their way
  from the last line of \<^verbatim>\<open>leave\<close>, or of the start of \<^verbatim>\<open>Serve\<close>, into \<^verbatim>\<open>armIdleTimer\<close>; \<open>sv_fired\<close> the callbacks of
  expired timers that have not yet taken the mutex, and \<open>sv_deciding\<close> those that found no connection and
  are about to call \<^verbatim>\<open>Stop\<close>.
\<close>

record idle =
  sv_active :: int
  sv_timer :: bool
  sv_arming :: nat
  sv_fired :: nat
  sv_deciding :: nat
  sv_stopped :: bool

definition serve_start :: idle where
  "serve_start = \<lparr>sv_active = 0, sv_timer = False, sv_arming = 1, sv_fired = 0, sv_deciding = 0, sv_stopped = False\<rparr>"

definition armIdleTimer :: "int \<Rightarrow> idle \<Rightarrow> idle" where
  "armIdleTimer idleTimeout s = (if idleTimeout \<le> 0 then s else s\<lparr>sv_timer := True\<rparr>)"

text \<open>The callback of the timer, from the lock to the unlock.\<close>

definition idleCheck :: "idle \<Rightarrow> idle" where
  "idleCheck s = (if sv_active s = 0 then s\<lparr>sv_deciding := sv_deciding s + 1\<rparr> else s)"

definition enter :: "idle \<Rightarrow> idle" where
  "enter s = s\<lparr>sv_active := sv_active s + 1, sv_timer := False\<rparr>"

definition leave :: "idle \<Rightarrow> idle" where
  "leave s =
     (let s = s\<lparr>sv_active := sv_active s - 1\<rparr> in
      if sv_active s = 0 then s\<lparr>sv_arming := sv_arming s + 1\<rparr> else s)"

definition Stop :: "idle \<Rightarrow> idle" where
  "Stop s = s\<lparr>sv_stopped := True\<rparr>"

text \<open>What the daemon does with no connection coming or going.\<close>

inductive settle :: "int \<Rightarrow> idle \<Rightarrow> idle \<Rightarrow> bool" for idleTimeout where
  arms: "0 < sv_arming s \<Longrightarrow> settle idleTimeout s (armIdleTimer idleTimeout (s\<lparr>sv_arming := sv_arming s - 1\<rparr>))"
| expires: "sv_timer s \<Longrightarrow> settle idleTimeout s (s\<lparr>sv_timer := False, sv_fired := sv_fired s + 1\<rparr>)"
| checks: "0 < sv_fired s \<Longrightarrow> settle idleTimeout s (idleCheck (s\<lparr>sv_fired := sv_fired s - 1\<rparr>))"
| decides: "0 < sv_deciding s \<Longrightarrow> settle idleTimeout s (Stop (s\<lparr>sv_deciding := sv_deciding s - 1\<rparr>))"

inductive idle_step :: "int \<Rightarrow> idle \<Rightarrow> idle \<Rightarrow> bool" for idleTimeout where
  settles: "settle idleTimeout s s' \<Longrightarrow> idle_step idleTimeout s s'"
| enters: "idle_step idleTimeout s (enter s)"
| leaves: "0 < sv_active s \<Longrightarrow> idle_step idleTimeout s (leave s)"

text \<open>A client may ask for the end as well.\<close>

inductive server_step :: "int \<Rightarrow> idle \<Rightarrow> idle \<Rightarrow> bool" for idleTimeout where
  works: "idle_step idleTimeout s s' \<Longrightarrow> server_step idleTimeout s s'"
| shuts: "server_step idleTimeout s (Stop s)"

lemmas idle_defs = armIdleTimer_def idleCheck_def enter_def leave_def Stop_def

inductive_cases settleE: "settle idleTimeout s s'"
inductive_cases idle_stepE: "idle_step idleTimeout s s'"
inductive_cases server_stepE: "server_step idleTimeout s s'"

section \<open>An idle daemon exits\<close>

text \<open>Whenever no connection is active, something is under way that ends in an exit.\<close>

definition idle_inv :: "int \<Rightarrow> idle \<Rightarrow> bool" where
  "idle_inv idleTimeout s \<longleftrightarrow> 0 \<le> sv_active s
     \<and> (0 < idleTimeout \<longrightarrow> sv_active s = 0 \<longrightarrow>
          sv_timer s \<or> 0 < sv_arming s \<or> 0 < sv_fired s \<or> 0 < sv_deciding s \<or> sv_stopped s)"

lemma settle_inv: "settle idleTimeout s s' \<Longrightarrow> idle_inv idleTimeout s \<Longrightarrow> idle_inv idleTimeout s' \<and> sv_active s' = sv_active s"
  by (induction rule: settle.induct) (auto simp: idle_inv_def idle_defs)

lemma server_step_inv: "server_step idleTimeout s s' \<Longrightarrow> idle_inv idleTimeout s \<Longrightarrow> idle_inv idleTimeout s'"
  by (auto elim!: server_stepE idle_stepE dest: settle_inv) (auto simp: idle_inv_def idle_defs Let_def)

lemma reachable_inv: "(server_step idleTimeout)\<^sup>*\<^sup>* serve_start s \<Longrightarrow> idle_inv idleTimeout s"
  by (induction rule: rtranclp_induct) (auto simp: idle_inv_def serve_start_def dest: server_step_inv)

definition settle_bound :: "idle \<Rightarrow> nat" where
  "settle_bound s = 5 * sv_arming s + 4 * of_bool (sv_timer s) + 3 * sv_fired s + 2 * sv_deciding s"

lemma settle_bound_less: "settle idleTimeout s s' \<Longrightarrow> settle_bound s' < settle_bound s"
  by (induction rule: settle.induct) (auto simp: settle_bound_def idle_defs)

lemma settle_bounded: "(settle idleTimeout ^^ n) s s' \<Longrightarrow> n + settle_bound s' \<le> settle_bound s"
  by (induction n arbitrary: s') (fastforce dest: settle_bound_less)+

lemma settled_stopped:
  assumes "idle_inv idleTimeout s" "0 < idleTimeout" "sv_active s = 0" "\<nexists>s'. settle idleTimeout s s'"
  shows "sv_stopped s"
  using assms settle.intros [of s idleTimeout] unfolding idle_inv_def by blast

lemma settles_inv: "(settle idleTimeout)\<^sup>*\<^sup>* s s' \<Longrightarrow> idle_inv idleTimeout s \<Longrightarrow> idle_inv idleTimeout s' \<and> sv_active s' = sv_active s"
  by (induction rule: rtranclp_induct) (auto dest: settle_inv)

lemma settles_somewhere: "\<exists>s'. (settle idleTimeout)\<^sup>*\<^sup>* s s' \<and> (\<nexists>s''. settle idleTimeout s' s'')"
proof (induction "settle_bound s" arbitrary: s rule: less_induct)
  case less
  then show ?case by (metis converse_rtranclp_into_rtranclp rtranclp.rtrancl_refl settle_bound_less)
qed

text \<open>
  C13. An idle daemon exits. In whatever state connections, timers and requests to stop have left a daemon with an idle timeout,
  once no connection is active and none comes it stops: it can do so, it cannot come to rest without having done so, and
  it takes no more than a bounded number of steps to come to rest.
\<close>

theorem idle_daemon_exits:
  assumes "(server_step idleTimeout)\<^sup>*\<^sup>* serve_start s" "0 < idleTimeout" "sv_active s = 0"
  shows "(\<exists>s'. (settle idleTimeout)\<^sup>*\<^sup>* s s' \<and> sv_stopped s')
    \<and> (\<forall>s'. (settle idleTimeout)\<^sup>*\<^sup>* s s' \<longrightarrow> (\<nexists>s''. settle idleTimeout s' s'') \<longrightarrow> sv_stopped s')
    \<and> (\<forall>n s'. (settle idleTimeout ^^ n) s s' \<longrightarrow> n \<le> settle_bound s)"
proof -
  note inv = reachable_inv [OF assms(1)]
  have "sv_stopped s'" if "(settle idleTimeout)\<^sup>*\<^sup>* s s'" "\<nexists>s''. settle idleTimeout s' s''" for s'
    using settles_inv [OF that(1) inv] settled_stopped [OF _ assms(2) _ that(2)] assms(3) by simp
  moreover have "n \<le> settle_bound s" if "(settle idleTimeout ^^ n) s s'" for n s' using settle_bounded [OF that] by simp
  ultimately show ?thesis using settles_somewhere by blast
qed

theorem idle_daemon_exits_witness:
  "\<exists>s'. (settle 60)\<^sup>*\<^sup>* (leave (enter (armIdleTimer 60 (serve_start\<lparr>sv_arming := 0\<rparr>)))) s' \<and> sv_stopped s'"
proof -
  let ?s1 = "armIdleTimer 60 (serve_start\<lparr>sv_arming := 0\<rparr>)"
  have a: "server_step 60 serve_start ?s1"
    using arms [of serve_start 60] by (intro works settles) (simp add: serve_start_def)
  have b: "server_step 60 ?s1 (enter ?s1)" by (intro works enters)
  have c: "server_step 60 (enter ?s1) (leave (enter ?s1))"
    by (intro works leaves) (simp add: serve_start_def idle_defs)
  have "(server_step 60)\<^sup>*\<^sup>* serve_start (leave (enter ?s1))"
    by (rule rtranclp.rtrancl_into_rtrancl [OF rtranclp.rtrancl_into_rtrancl [OF r_into_rtranclp [of "server_step 60", OF a] b] c])
  from idle_daemon_exits [OF this] show ?thesis by (simp add: serve_start_def idle_defs Let_def)
qed

section \<open>A daemon in use stays\<close>

definition used_step :: "int \<Rightarrow> idle \<Rightarrow> idle \<Rightarrow> bool" where
  "used_step idleTimeout s s' \<longleftrightarrow> idle_step idleTimeout s s' \<and> 0 < sv_active s'"



section \<open>Accepting connections\<close>

definition maxAcceptFailures :: nat where "maxAcceptFailures = 10"

text \<open>
  What the two selects of the loop see: nothing, a stop, or a context that has ended with its error. One event of the listener is a
  connection, or a failure with what is seen at once and what is seen during the pause that follows.
\<close>

datatype halt = Going | Halted | Cancelled error
datatype accept_event = Conn | AcceptErr error halt halt

text \<open>The connections handed to a handler, and the result: whether connections are drained first, and the error.\<close>

fun acceptLoop :: "nat \<Rightarrow> accept_event list \<Rightarrow> nat \<times> (bool \<times> error option) option" where
  "acceptLoop acceptFails [] = (0, None)"
| "acceptLoop acceptFails (Conn # evs) = (let (n, r) = acceptLoop 0 evs in (Suc n, r))"
| "acceptLoop acceptFails (AcceptErr err now pause # evs) =
     (case now of
        Halted \<Rightarrow> (0, Some (True, None))
      | Cancelled e \<Rightarrow> (0, Some (True, Some e))
      | Going \<Rightarrow>
          (if acceptFails + 1 > maxAcceptFailures then (0, Some (False, Some err))
           else case pause of
             Halted \<Rightarrow> (0, Some (True, None))
           | Cancelled e \<Rightarrow> (0, Some (True, Some e))
           | Going \<Rightarrow> acceptLoop (acceptFails + 1) evs))"

text \<open>The loop gives up exactly at the eleventh failure in a row; a connection in between starts the count again.\<close>

lemma acceptLoop_retries:
  "f + length es \<le> maxAcceptFailures \<Longrightarrow> acceptLoop f (map (\<lambda>e. AcceptErr e Going Going) es @ evs) = acceptLoop (f + length es) evs"
  by (induction es arbitrary: f) simp_all

lemma acceptLoop_survives:
  assumes "\<forall>es \<in> set ess. length es \<le> maxAcceptFailures"
  shows "acceptLoop 0 (concat (map (\<lambda>es. map (\<lambda>e. AcceptErr e Going Going) es @ [Conn]) ess) @ evs)
    = (let (n, r) = acceptLoop 0 evs in (length ess + n, r))"
  using assms by (induction ess) (simp_all add: acceptLoop_retries split: prod.splits)

lemma acceptLoop_gives_up:
  assumes "length es = maxAcceptFailures"
  shows "acceptLoop 0 (map (\<lambda>e. AcceptErr e Going Going) es @ AcceptErr err Going pause # evs) = (0, Some (False, Some err))"
  using assms acceptLoop_retries [of 0 es] by simp

end
