(* ===== verification/Adopt.thy ===== *)
theory Adopt
  imports Cache
begin

text \<open>
  Importing another cache's stage (\<^verbatim>\<open>internal/adopt/adopt.go\<close>): a walk over the files that record its actions, each of which
  names an output and its size, and for each one that is not indexed yet the adoption of its body and an
  entry in the index. The log is not modelled, nor is the elapsed time, which the code does not return either.
\<close>

record AdoptResult =
  ar_Records :: int
  ar_Adopted :: int
  ar_AlreadyPresent :: int
  ar_MissingBody :: int
  ar_SizeMismatch :: int
  ar_Malformed :: int
  ar_Linked :: int
  ar_Copied :: int
  ar_Bytes :: int

definition AdoptResult0 :: AdoptResult where
  "AdoptResult0 = \<lparr>ar_Records = 0, ar_Adopted = 0, ar_AlreadyPresent = 0, ar_MissingBody = 0, ar_SizeMismatch = 0,
     ar_Malformed = 0, ar_Linked = 0, ar_Copied = 0, ar_Bytes = 0\<rparr>"

definition actionSubdir :: string where "actionSubdir = ''action''"
definition outputSubdir :: string where "outputSubdir = ''output''"

section \<open>System calls the walk adds\<close>

text \<open>Whether a name exists, and whether it is a directory; and one read of at most \<open>n\<close> bytes from the start of a file.\<close>

definition os_Lstat :: "osenv \<Rightarrow> string \<Rightarrow> fsys \<Rightarrow> bool result \<times> fsys" where
  "os_Lstat E p = syscall E (\<lambda>fs.
     if p \<in> set (fs_dirs fs) then (Inr True, fs)
     else if lookup fs p \<noteq> None then (Inr False, fs) else (Inl ErrNotExist, fs))"

definition os_ReadUpTo :: "osenv \<Rightarrow> File \<Rightarrow> nat \<Rightarrow> fsys \<Rightarrow> bytes result \<times> fsys" where
  "os_ReadUpTo E f n = syscall E (\<lambda>fs. (Inr (take n (i_data (fs_inode fs (f_ino f)))), fs))"

section \<open>Records\<close>

record legacyRecord =
  lr_action :: ActionID
  lr_output :: OutputID
  lr_size :: int

definition parseRecord :: "ActionID \<Rightarrow> string \<Rightarrow> legacyRecord result" where
  "parseRecord a s =
     (let fields = Fields s in
      if length fields \<noteq> 2 then Inl ErrParse
      else rbind (ParseOutputID (fields ! 0)) (\<lambda>v.
        case ParseInt (fields ! 1) of
          None \<Rightarrow> Inl ErrParse
        | Some n \<Rightarrow> if n < 0 then Inl (ErrNegative ''size'' n) else Inr \<lparr>lr_action = a, lr_output = v, lr_size = n\<rparr>))"

text \<open>An empty file reads as the end of the stream, which is an error.\<close>

definition readRecord :: "osenv \<Rightarrow> string \<Rightarrow> string \<Rightarrow> fsys \<Rightarrow> legacyRecord result \<times> fsys" where
  "readRecord E path name fs =
     (case ParseActionID name of
        Inl e \<Rightarrow> (Inl e, fs)
      | Inr a \<Rightarrow>
          (case os_Open E path fs of
             (Inl e, fs) \<Rightarrow> (Inl e, fs)
           | (Inr f, fs) \<Rightarrow>
               (let (rd, fs) = os_ReadUpTo E f 256 fs;
                    r = rbind rd (\<lambda>buf. if buf = [] then Inl ErrParse else parseRecord a (string_of_bytes buf));
                    (_, fs) = os_Close E f fs in
                (r, fs))))"

section \<open>One record\<close>

record 'db adopting =
  ad_ix :: "'db index"
  ad_fs :: fsys
  ad_res :: AdoptResult

definition legacyBody :: "string \<Rightarrow> OutputID \<Rightarrow> string" where
  "legacyBody dir v = path_join (path_join (path_join dir outputSubdir) (take 2 (id_String v))) (id_String v)"

text \<open>Recency comes from the file of the action, the age of the content from the body's.\<close>

definition adoptTimes :: "FileInfo \<Rightarrow> FileInfo result \<Rightarrow> int \<Rightarrow> int \<times> int" where
  "adoptTimes fi ai now =
     (let created = wrap64 (fi_ModTime fi);
          lastUsed = (case ai of
                        Inl _ \<Rightarrow> created
                      | Inr a \<Rightarrow> if wrap64 (fi_ModTime a) > 0 then wrap64 (fi_ModTime a) else created);
          created = (if created \<le> 0 then lastUsed else created) in
      if created \<le> 0 \<or> lastUsed \<le> 0 then (wrap64 now, wrap64 now) else (created, lastUsed))"

record 'db adopt_params =
  ap_P :: "'db pebble"
  ap_E :: osenv
  ap_root :: string
  ap_LegacyDir :: string
  ap_DryRun :: bool
  ap_ctxErr :: "fsys \<Rightarrow> error option"
  ap_now :: "nat \<Rightarrow> int"

definition publishRecord :: "'db adopt_params \<Rightarrow> string \<Rightarrow> legacyRecord \<Rightarrow> FileInfo \<Rightarrow> 'db adopting \<Rightarrow> 'db adopting" where
  "publishRecord p path rc fi st =
     (case Store_Adopt (ap_E p) (ap_root p) (lr_output rc) (legacyBody (ap_LegacyDir p) (lr_output rc)) (lr_size rc) (ad_fs st) of
        (Inl e, fs) \<Rightarrow> st\<lparr>ad_fs := fs\<rparr>
      | (Inr (_, nbytes, linked), fs) \<Rightarrow>
          (let r = ad_res st;
               r = (if linked then r\<lparr>ar_Linked := add64 (ar_Linked r) 1\<rparr> else r\<lparr>ar_Copied := add64 (ar_Copied r) 1\<rparr>);
               (ai, fs) = os_Stat (ap_E p) path fs;
               (created, lastUsed) = adoptTimes fi ai (ap_now p (fs_clock fs)) in
           case Index_Put (ap_P p) (ad_ix st) (lr_action rc)
                  \<lparr>OutputID = lr_output rc, Size = lr_size rc, CreatedAt = created, LastUsedAt = lastUsed\<rparr> nbytes of
             (Some e, ix) \<Rightarrow> \<lparr>ad_ix = ix, ad_fs = fs, ad_res = r\<rparr>
           | (None, ix) \<Rightarrow> \<lparr>ad_ix = ix, ad_fs = fs,
               ad_res = r\<lparr>ar_Adopted := add64 (ar_Adopted r) 1, ar_Bytes := add64 (ar_Bytes r) nbytes\<rparr>\<rparr>))"

definition adoptRecord :: "'db adopt_params \<Rightarrow> string \<Rightarrow> legacyRecord \<Rightarrow> 'db adopting \<Rightarrow> 'db adopting" where
  "adoptRecord p path rc st =
     (let r = ad_res st in
      case Index_Get (ap_P p) (ad_ix st) (lr_action rc) of
        Inl e \<Rightarrow> st
      | Inr (Some _) \<Rightarrow> st\<lparr>ad_res := r\<lparr>ar_AlreadyPresent := add64 (ar_AlreadyPresent r) 1\<rparr>\<rparr>
      | Inr None \<Rightarrow>
          (case os_Stat (ap_E p) (legacyBody (ap_LegacyDir p) (lr_output rc)) (ad_fs st) of
             (Inl e, fs) \<Rightarrow> st\<lparr>ad_fs := fs, ad_res := r\<lparr>ar_MissingBody := add64 (ar_MissingBody r) 1\<rparr>\<rparr>
           | (Inr fi, fs) \<Rightarrow>
               (if fi_Size fi \<noteq> lr_size rc then
                  st\<lparr>ad_fs := fs, ad_res := r\<lparr>ar_SizeMismatch := add64 (ar_SizeMismatch r) 1\<rparr>\<rparr>
                else if ap_DryRun p then
                  st\<lparr>ad_fs := fs, ad_res := r\<lparr>ar_Adopted := add64 (ar_Adopted r) 1, ar_Bytes := add64 (ar_Bytes r) (lr_size rc)\<rparr>\<rparr>
                else publishRecord p path rc fi (st\<lparr>ad_fs := fs\<rparr>))))"

definition adoptFile :: "'db adopt_params \<Rightarrow> string \<Rightarrow> string \<Rightarrow> 'db adopting \<Rightarrow> error option \<times> 'db adopting" where
  "adoptFile p path name st =
     (case ap_ctxErr p (ad_fs st) of
        Some e \<Rightarrow> (Some e, st)
      | None \<Rightarrow>
          (let r = ad_res st; r = r\<lparr>ar_Records := add64 (ar_Records r) 1\<rparr>;
               (rr, fs) = readRecord (ap_E p) path name (ad_fs st) in
           case rr of
             Inl e \<Rightarrow> (None, st\<lparr>ad_fs := fs, ad_res := r\<lparr>ar_Malformed := add64 (ar_Malformed r) 1\<rparr>\<rparr>)
           | Inr rc \<Rightarrow> (None, adoptRecord p path rc (st\<lparr>ad_fs := fs, ad_res := r\<rparr>))))"

section \<open>The walk\<close>

text \<open>
  \<^verbatim>\<open>filepath.WalkDir\<close> with the visitor of \<^verbatim>\<open>Run\<close>, which passes over directories and over those that cannot be read, and
  ends the walk only with the error of the context. The fuel bounds the depth of the tree.
\<close>

fun walkList :: "(string \<Rightarrow> bool \<Rightarrow> 's \<Rightarrow> (error option \<times> 's) option) \<Rightarrow> (string \<times> bool) list \<Rightarrow> 's \<Rightarrow> (error option \<times> 's) option" where
  "walkList visit [] st = Some (None, st)"
| "walkList visit ((name, isDir) # ds) st =
     (case visit name isDir st of
        None \<Rightarrow> None
      | Some (Some e, st) \<Rightarrow> Some (Some e, st)
      | Some (None, st) \<Rightarrow> walkList visit ds st)"

fun walkDir :: "nat \<Rightarrow> 'db adopt_params \<Rightarrow> string \<Rightarrow> string \<Rightarrow> bool \<Rightarrow> 'db adopting \<Rightarrow> (error option \<times> 'db adopting) option" where
  "walkDir 0 p path name isDir st = None"
| "walkDir (Suc n) p path name isDir st =
     (if \<not> isDir then Some (adoptFile p path name st)
      else case os_ReadDir (ap_E p) path (ad_fs st) of
        (Inl e, fs) \<Rightarrow> Some (None, st\<lparr>ad_fs := fs\<rparr>)
      | (Inr ds, fs) \<Rightarrow> walkList (\<lambda>name. walkDir n p (path_join path name) name) ds (st\<lparr>ad_fs := fs\<rparr>))"

definition Adopt_Run :: "nat \<Rightarrow> 'db adopt_params \<Rightarrow> 'db index \<Rightarrow> fsys \<Rightarrow> (error option \<times> 'db adopting) option" where
  "Adopt_Run fuel p ix fs =
     (let actionRoot = path_join (ap_LegacyDir p) actionSubdir; st = \<lparr>ad_ix = ix, ad_fs = fs, ad_res = AdoptResult0\<rparr> in
      case os_Lstat (ap_E p) actionRoot fs of
        (Inl e, fs) \<Rightarrow> Some (if e = ErrNotExist then None else Some e, st\<lparr>ad_fs := fs\<rparr>)
      | (Inr _, fs) \<Rightarrow>
          (case os_Lstat (ap_E p) actionRoot fs of
             (Inl e, fs) \<Rightarrow> Some (None, st\<lparr>ad_fs := fs\<rparr>)
           | (Inr isDir, fs) \<Rightarrow> walkDir fuel p actionRoot actionSubdir isDir (st\<lparr>ad_fs := fs\<rparr>)))"

end
