(* ===== verification/Adopt_Theorems.thy ===== *)
theory Adopt_Theorems
  imports Adopt Cache_Theorems
begin

text \<open>
  An import is safe at any time: it always ends, whatever fails on the way it leaves the index consistent and every
  indexed output with its body, it adds and never replaces, and it changes no file of either cache.
\<close>

section \<open>System calls are counted\<close>

lemma syscall_clock: "(\<And>fs r fs'. f fs = (r, fs') \<Longrightarrow> fs_clock fs' = fs_clock fs) \<Longrightarrow> syscall E f fs = (r, fs') \<Longrightarrow> fs_clock fs' = Suc (fs_clock fs)"
  by (auto simp: syscall_def Let_def split: option.splits)

lemma os_clock:
  "os_Stat E p fs = (r1, fs') \<Longrightarrow> fs_clock fs' = Suc (fs_clock fs)"
  "os_Open E p fs = (r2, fs') \<Longrightarrow> fs_clock fs' = Suc (fs_clock fs)"
  "os_Fstat E f fs = (r3, fs') \<Longrightarrow> fs_clock fs' = Suc (fs_clock fs)"
  "os_Close E f fs = (r4, fs') \<Longrightarrow> fs_clock fs' = Suc (fs_clock fs)"
  "os_Create E p fs = (r5, fs') \<Longrightarrow> fs_clock fs' = Suc (fs_clock fs)"
  "os_Write E f d fs = (r6, fs') \<Longrightarrow> fs_clock fs' = Suc (fs_clock fs)"
  "os_Link E p q fs = (r7, fs') \<Longrightarrow> fs_clock fs' = Suc (fs_clock fs)"
  "os_Remove E p fs = (r8, fs') \<Longrightarrow> fs_clock fs' = Suc (fs_clock fs)"
  "os_MkdirAll E p fs = (r9, fs') \<Longrightarrow> fs_clock fs' = Suc (fs_clock fs)"
  "os_ReadDir E p fs = (r10, fs') \<Longrightarrow> fs_clock fs' = Suc (fs_clock fs)"
  "os_Lstat E p fs = (r11, fs') \<Longrightarrow> fs_clock fs' = Suc (fs_clock fs)"
  "os_ReadUpTo E f n fs = (r12, fs') \<Longrightarrow> fs_clock fs' = Suc (fs_clock fs)"
  unfolding os_Stat_def os_Open_def os_Fstat_def os_Close_def os_Create_def os_Link_def os_Remove_def os_MkdirAll_def os_ReadDir_def
    os_Lstat_def os_ReadUpTo_def
  by (auto simp: os_Write_def Let_def dest!: syscall_clock [rotated] split: option.splits if_splits)

lemma createTempLoop_clock: "createTempLoop n E path fs = (r, fs') \<Longrightarrow> fs_clock fs \<le> fs_clock fs'"
  by (induction n E path fs arbitrary: r fs' rule: createTempLoop.induct)
    (fastforce simp: Let_def split: prod.splits sum.splits if_splits dest: os_clock)+

lemma createTempIn_clock: "createTempIn E path fs = (r, fs') \<Longrightarrow> fs_clock fs \<le> fs_clock fs'"
  by (fastforce simp: createTempIn_def createTemp_def split: prod.splits sum.splits if_splits dest: os_clock createTempLoop_clock)

lemma putTemp_clock: "putTemp E path tmp body sz fs = (r, fs') \<Longrightarrow> fs_clock fs \<le> fs_clock fs'"
  by (auto simp: putTemp_def Let_def split: prod.splits sum.splits if_splits option.splits dest!: os_clock)

lemma Store_Put_clock: "Store_Put E root v body sz fs = (r, fs') \<Longrightarrow> fs_clock fs \<le> fs_clock fs'"
  by (fastforce simp: Store_Put_def Let_def split: prod.splits sum.splits if_splits dest: os_clock createTempIn_clock putTemp_clock)

lemma linkIn_clock: "linkIn E src path fs = (r, fs') \<Longrightarrow> fs_clock fs \<le> fs_clock fs'"
  by (auto simp: linkIn_def split: prod.splits sum.splits if_splits dest!: os_clock)

lemma Store_Adopt_clock:
  assumes "Store_Adopt E root v src sz fs = (r, fs')"
  shows "fs_clock fs \<le> fs_clock fs'"
proof -
  obtain st fs1 where st: "os_Stat E src fs = (st, fs1)" by fastforce
  obtain lk fs2 where lk: "linkIn E src (Store_Path root v) fs1 = (lk, fs2)" by fastforce
  have 2: "fs_clock fs \<le> fs_clock fs1" "fs_clock fs1 \<le> fs_clock fs2" using os_clock(1) [OF st] linkIn_clock [OF lk] by auto
  obtain q fs3 where q: "os_Stat E (Store_Path root v) fs2 = (q, fs3)" by fastforce
  obtain o1 fs4 where o: "os_Open E src fs2 = (o1, fs4)" by fastforce
  have 4: "fs_clock fs2 \<le> fs_clock fs3" "fs_clock fs2 \<le> fs_clock fs4" using os_clock(1) [OF q] os_clock(2) [OF o] by auto
  have put: "fs_clock fs4 \<le> fs_clock fs6"
    if "Store_Put E root v b sz fs4 = (r5, fs5)" "os_Close E f fs5 = (r6, fs6)" for b r5 fs5 f r6 fs6
    using Store_Put_clock [OF that(1)] os_clock(4) [OF that(2)] by simp
  show ?thesis
    using assms st lk q o 2 4 put unfolding Store_Adopt_def Let_def
    by (auto split: prod.splits sum.splits if_splits) (meson order_trans)+
qed

section \<open>Reading a record changes nothing\<close>

lemma os_Lstat_cases:
  "os_Lstat E p fs = (r, fs') \<Longrightarrow> same_files fs fs' \<and> (r = Inr True \<longrightarrow> p \<in> set (fs_dirs fs))"
  by (auto simp: os_Lstat_def syscall_def Let_def same_files_def split: option.splits if_splits)

lemma os_ReadUpTo_same: "os_ReadUpTo E f n fs = (r, fs') \<Longrightarrow> same_files fs fs'"
  by (auto simp: os_ReadUpTo_def syscall_def Let_def same_files_def split: option.splits)

lemma parseRecord_ok: "parseRecord a s = Inr rc \<Longrightarrow> 0 \<le> lr_size rc \<and> in64 (lr_size rc)"
proof -
  assume p: "parseRecord a s = Inr rc"
  then obtain n where "ParseInt (Fields s ! 1) = Some n" "0 \<le> n" "lr_size rc = n"
    by (cases "ParseInt (Fields s ! 1)") (auto simp: parseRecord_def Let_def result_simps split: if_splits)
  then show ?thesis using ParseInt_in64 by blast
qed

lemma readRecord_ok:
  assumes "readRecord E path name fs = (r, fs')"
  shows "same_files fs fs' \<and> fs_clock fs \<le> fs_clock fs' \<and> (\<forall>rc. r = Inr rc \<longrightarrow> 0 \<le> lr_size rc \<and> in64 (lr_size rc))"
proof (cases "ParseActionID name")
  case (Inl e)
  then show ?thesis using assms by (auto simp: readRecord_def)
next
  case (Inr a)
  obtain o1 fs1 where o: "os_Open E path fs = (o1, fs1)" by fastforce
  have 1: "same_files fs fs1" "fs_clock fs \<le> fs_clock fs1" using os_Open_cases [OF o] os_clock(2) [OF o] by auto
  show ?thesis
  proof (cases o1)
    case (Inl e)
    then show ?thesis using assms o 1 \<open>ParseActionID name = Inr a\<close> by (auto simp: readRecord_def)
  next
    case (Inr f)
    obtain rd fs2 c fs3 where rd: "os_ReadUpTo E f 256 fs1 = (rd, fs2)" and c: "os_Close E f fs2 = (c, fs3)" by (metis surj_pair)
    have "fs' = fs3" and r: "r = rbind rd (\<lambda>buf. if buf = [] then Inl ErrParse else parseRecord a (string_of_bytes buf))"
      using assms o Inr rd c \<open>ParseActionID name = Inr a\<close> by (simp_all add: readRecord_def)
    moreover have "same_files fs1 fs2" "same_files fs2 fs3" "fs_clock fs1 \<le> fs_clock fs3"
      using os_ReadUpTo_same [OF rd] os_Close_same [OF c] os_clock(12) [OF rd] os_clock(4) [OF c] by auto
    moreover have "0 \<le> lr_size rc \<and> in64 (lr_size rc)" if "r = Inr rc" for rc
      using that unfolding r
      by (auto simp: result_simps dest: parseRecord_ok split: if_splits)
    ultimately show ?thesis using 1 same_files_trans by (meson order_trans)
  qed
qed

section \<open>The walk keeps what each visit keeps\<close>

lemma walkList_rel:
  assumes "reflp R" "transp R"
    and "\<And>name isDir st e st'. (name, isDir) \<in> set ds \<Longrightarrow> visit name isDir st = Some (e, st') \<Longrightarrow> R st st'"
    and "walkList visit ds st = Some (e, st')"
  shows "R st st'"
  using assms(3,4)
proof (induction ds arbitrary: st)
  case Nil
  then show ?case using assms(1) by (auto dest: reflpD)
next
  case (Cons x ds)
  obtain name isDir where x: "x = (name, isDir)" by (cases x)
  obtain e1 st1 where v: "visit name isDir st = Some (e1, st1)" using Cons.prems(2) x by (auto split: option.splits)
  then have 1: "R st st1" using Cons.prems(1) [of name isDir st e1 st1] x by simp
  show ?case
  proof (cases e1)
    case None
    then have w: "walkList visit ds st1 = Some (e, st')" using Cons.prems(2) x v by simp
    have "R st1 st'" by (rule Cons.IH [OF Cons.prems(1) w]) simp_all
    then show ?thesis using 1 assms(2) by (blast dest: transpD)
  next
    case (Some e2)
    then show ?thesis using Cons.prems(2) x v 1 by simp
  qed
qed

lemma walkDir_rel:
  assumes "reflp R" "transp R"
    and "\<And>path name st e st'. adoptFile p path name st = (e, st') \<Longrightarrow> R st st'"
    and "\<And>path st r fs. os_ReadDir (ap_E p) path (ad_fs st) = (r, fs) \<Longrightarrow> R st (st\<lparr>ad_fs := fs\<rparr>)"
    and "walkDir n p path name isDir st = Some (e, st')"
  shows "R st st'"
  using assms(5)
proof (induction n arbitrary: path name isDir st e st')
  case (Suc n)
  show ?case
  proof (cases isDir)
    case False
    then show ?thesis using Suc.prems assms(3) by (metis option.inject walkDir.simps(2))
  next
    case True
    obtain r fs where rd: "os_ReadDir (ap_E p) path (ad_fs st) = (r, fs)" by fastforce
    note 1 = assms(4) [OF rd]
    show ?thesis
    proof (cases r)
      case (Inl e1)
      then show ?thesis using Suc.prems True rd 1 by simp
    next
      case (Inr ds)
      then have "walkList (\<lambda>name. walkDir n p (path_join path name) name) ds (st\<lparr>ad_fs := fs\<rparr>) = Some (e, st')"
        using Suc.prems True rd by simp
      then have "R (st\<lparr>ad_fs := fs\<rparr>) st'"
        by (rule walkList_rel [where R = R, OF assms(1,2), rotated]) (rule Suc.IH)
      then show ?thesis using 1 assms(2) by (blast dest: transpD)
    qed
  qed
qed simp

section \<open>What an import may do\<close>

text \<open>
  A state the import may be in: the index is consistent, its outputs have bodies, no body is longer than a file can be, and the
  index has grown by at most one entry per system call since the import started.
\<close>

definition adopt_good :: "'db adopt_params \<Rightarrow> int \<Rightarrow> 'db adopting \<Rightarrow> ispec \<Rightarrow> bool" where
  "adopt_good p base st s \<longleftrightarrow>
     repr (ap_P p) (ad_ix st) s \<and> store_ok (ad_fs st) (ap_root p) \<and> dom (cost s) \<subseteq> dom (bodies (ad_fs st) (ap_root p))
     \<and> (\<forall>v d. bodies (ad_fs st) (ap_root p) v = Some d \<longrightarrow> int (length d) < 2 ^ 63)
     \<and> int (card (dom (ents s))) \<le> base + int (fs_clock (ad_fs st))"

text \<open>What it adds: entries whose body the stage has, and bodies that are the stage's; a dry run adds nothing.\<close>

definition adopt_adds :: "'db adopt_params \<Rightarrow> 'db adopting \<Rightarrow> ispec \<Rightarrow> 'db adopting \<Rightarrow> ispec \<Rightarrow> bool" where
  "adopt_adds p st s st' s' \<longleftrightarrow>
     keeps (ad_fs st) (ad_fs st') \<and> ents s \<subseteq>\<^sub>m ents s'
     \<and> (\<forall>a e. ents s' a = Some e \<longrightarrow> ents s a = None \<longrightarrow>
          (\<exists>d. content (ad_fs st') (legacyBody (ap_LegacyDir p) (OutputID e)) = Some d \<and> int (length d) = Size e))
     \<and> (\<forall>v d. bodies (ad_fs st) (ap_root p) v = None \<longrightarrow> bodies (ad_fs st') (ap_root p) v = Some d \<longrightarrow>
          content (ad_fs st') (legacyBody (ap_LegacyDir p) v) = Some d)
     \<and> (ap_DryRun p \<longrightarrow> ad_ix st' = ad_ix st \<and> same_files (ad_fs st) (ad_fs st'))"

definition adopt_rel :: "'db adopt_params \<Rightarrow> int \<Rightarrow> int \<Rightarrow> 'db adopting \<Rightarrow> 'db adopting \<Rightarrow> bool" where
  "adopt_rel p base T st st' \<longleftrightarrow>
     fs_clock (ad_fs st) \<le> fs_clock (ad_fs st')
     \<and> (int (fs_clock (ad_fs st')) \<le> T \<longrightarrow> (\<forall>s. adopt_good p base st s \<longrightarrow> (\<exists>s'. adopt_good p base st' s' \<and> adopt_adds p st s st' s')))"

lemma adopt_adds_refl: "adopt_adds p st s st s"
  by (simp add: adopt_adds_def)

lemma adopt_adds_trans:
  assumes "adopt_adds p a s b t" "adopt_adds p b t c u" "adopt_good p base b t"
  shows "adopt_adds p a s c u"
proof -
  let ?l = "legacyBody (ap_LegacyDir p)" and ?r = "ap_root p"
  have wf: "fs_wf (ad_fs b)" using assms(3) by (simp add: adopt_good_def store_ok_def)
  have k: "keeps (ad_fs a) (ad_fs b)" "keeps (ad_fs b) (ad_fs c)" using assms by (simp_all add: adopt_adds_def)
  have kc: "content (ad_fs c) q = Some d" if "content (ad_fs b) q = Some d" for q d using keeps_content [OF k(2) wf that] .
  have "keeps (ad_fs a) (ad_fs c)" "ents s \<subseteq>\<^sub>m ents u" using keeps_trans [OF k] map_le_trans assms by (auto simp: adopt_adds_def)
  moreover have "\<exists>d. content (ad_fs c) (?l (OutputID e)) = Some d \<and> int (length d) = Size e" if "ents u x = Some e" "ents s x = None" for x e
  proof (cases "ents t x")
    case None
    then show ?thesis using assms(2) that by (simp add: adopt_adds_def)
  next
    case (Some e')
    moreover have "ents t \<subseteq>\<^sub>m ents u" using assms(2) by (simp add: adopt_adds_def)
    ultimately have "e' = e" using that by (metis domI map_le_def option.inject)
    then show ?thesis using assms(1) that Some kc by (fastforce simp: adopt_adds_def)
  qed
  moreover have "content (ad_fs c) (?l v) = Some d" if "bodies (ad_fs a) ?r v = None" "bodies (ad_fs c) ?r v = Some d" for v d
  proof (cases "bodies (ad_fs b) ?r v")
    case None
    then show ?thesis using assms(2) that by (simp add: adopt_adds_def)
  next
    case (Some d')
    then have "d' = d" using kc [of "Store_Path ?r v" d'] that by (simp add: bodies_def)
    then show ?thesis using assms(1) that Some kc by (simp add: adopt_adds_def)
  qed
  moreover have "ap_DryRun p \<longrightarrow> ad_ix c = ad_ix a \<and> same_files (ad_fs a) (ad_fs c)"
    using assms(1,2) same_files_trans [of "ad_fs a" "ad_fs b" "ad_fs c"] by (simp add: adopt_adds_def)
  ultimately show ?thesis by (simp add: adopt_adds_def)
qed

lemma adopt_rel_refl: "reflp (adopt_rel p base T)"
  by (rule reflpI) (auto simp: adopt_rel_def intro: adopt_adds_refl)

lemma adopt_rel_trans: "transp (adopt_rel p base T)"
proof (rule transpI)
  fix a b c assume ab: "adopt_rel p base T a b" and bc: "adopt_rel p base T b c"
  have "\<exists>u. adopt_good p base c u \<and> adopt_adds p a s c u" if c: "int (fs_clock (ad_fs c)) \<le> T" and g: "adopt_good p base a s" for s
  proof -
    have b: "int (fs_clock (ad_fs b)) \<le> T" using bc c by (simp add: adopt_rel_def)
    obtain t where t: "adopt_good p base b t" "adopt_adds p a s b t" using ab g b by (auto simp: adopt_rel_def)
    then obtain u where "adopt_good p base c u" "adopt_adds p b t c u" using bc c by (auto simp: adopt_rel_def)
    then show ?thesis using adopt_adds_trans t by blast
  qed
  then show "adopt_rel p base T a c" using ab bc by (auto simp: adopt_rel_def)
qed

lemma adopt_same:
  assumes "same_files (ad_fs st) (ad_fs st')" "fs_clock (ad_fs st) \<le> fs_clock (ad_fs st')" "ad_ix st' = ad_ix st"
  shows "adopt_good p base st s \<Longrightarrow> adopt_good p base st' s" "adopt_adds p st s st' s" "adopt_rel p base T st st'"
proof -
  show g: "adopt_good p base st' s" if "adopt_good p base st s" for s
    using that assms bodies_same_files [OF assms(1)] store_ok_same_files [OF assms(1)] by (auto simp: adopt_good_def)
  show a: "adopt_adds p st s st' s" for s
    using assms bodies_same_files [OF assms(1)] same_files_keeps [OF assms(1)] by (auto simp: adopt_adds_def)
  show "adopt_rel p base T st st'" using g a assms(2) by (auto simp: adopt_rel_def)
qed

lemma adoptTimes_in64: "adoptTimes fi ai now = (c, l) \<Longrightarrow> in64 c \<and> in64 l"
  by (auto simp: adoptTimes_def Let_def split: sum.splits if_splits)

lemma publishRecord_ok:
  assumes "pebble_ok (ap_P p)" "\<not> ap_DryRun p" "adopt_good p base st s" "ents s (lr_action rc) = None"
    and "0 \<le> lr_size rc" "in64 (lr_size rc)" "base + int (fs_clock (ad_fs st)) < 2 ^ 63 - 1"
    and "st' = publishRecord p path rc fi st"
  shows "fs_clock (ad_fs st) \<le> fs_clock (ad_fs st') \<and> (\<exists>s'. adopt_good p base st' s' \<and> adopt_adds p st s st' s')"
proof -
  let ?fs = "ad_fs st" and ?r = "ap_root p" and ?v = "lr_output rc" and ?l = "legacyBody (ap_LegacyDir p)"
  note G = assms(3) [unfolded adopt_good_def]
  have so: "store_ok ?fs ?r" using G by blast
  obtain q fs1 where ad: "Store_Adopt (ap_E p) ?r ?v (?l ?v) (lr_size rc) ?fs = (q, fs1)" by fastforce
  note B = Store_Adopt_bodies [OF so ad] and F = Store_Adopt_frame [OF so ad] and C = Store_Adopt_clock [OF ad]
  show ?thesis
  proof (cases q)
    case (Inl e)
    then have st': "st' = st\<lparr>ad_fs := fs1\<rparr>" using assms(8) ad by (simp add: publishRecord_def)
    have "bodies fs1 ?r = bodies ?fs ?r" using F(1) Inl by blast
    then have "adopt_good p base st' s" "adopt_adds p st s st' s"
      using G B(1,2) C assms(2) by (auto simp: st' adopt_good_def adopt_adds_def)
    then show ?thesis using C st' by auto
  next
    case (Inr x)
    obtain pa n linked where x: "x = (pa, n, linked)" by (cases x)
    note P = B(3) [OF Inr [unfolded x]]
    obtain ai fs2 where ai: "os_Stat (ap_E p) path fs1 = (ai, fs2)" by fastforce
    obtain cr lu where t: "adoptTimes fi ai (ap_now p (fs_clock fs2)) = (cr, lu)" by fastforce
    let ?e = "\<lparr>OutputID = ?v, Size = lr_size rc, CreatedAt = cr, LastUsedAt = lu\<rparr>"
    obtain r ix where pt: "Index_Put (ap_P p) (ad_ix st) (lr_action rc) ?e n = (r, ix)" by fastforce
    have st': "ad_fs st' = fs2" "ad_ix st' = ix"
      using assms(8) ad Inr x ai t pt by (cases r; simp add: publishRecord_def Let_def)+
    have s2: "same_files fs1 fs2" "fs_clock fs2 = Suc (fs_clock fs1)" using os_Stat_cases [OF ai] os_clock(1) [OF ai] by auto
    have "in64 n" using P G assms(6) by blast
    moreover have "wf_entry ?e" using adoptTimes_in64 [OF t] assms(6) by (simp add: wf_entry_def)
    moreover have "int (card (dom (ents s))) < 2 ^ 63 - 1" using G assms(7) by linarith
    ultimately have put: "ix = ad_ix st \<and> r \<noteq> None \<or> repr (ap_P p) ix (spec_put (lr_action rc) ?e n s) \<and> ix_closed ix = ix_closed (ad_ix st)"
      using Put_refines [OF assms(1) _ _ _ _ pt] G by blast
    from P obtain d where d: "content ?fs (?l ?v) = Some d" "int (length d) = lr_size rc" "bodies ?fs ?r ?v = None \<longrightarrow> bodies fs1 ?r ?v = Some d"
      by (elim conjE exE)
    have k: "keeps ?fs fs2" using keeps_trans [OF B(2) same_files_keeps [OF s2(1)]] .
    have b2: "bodies fs2 ?r = bodies fs1 ?r" "store_ok fs2 ?r" using bodies_same_files [OF s2(1)] store_ok_same_files [OF s2(1) B(1)] by auto
    have l2: "content fs2 (?l ?v) = Some d" using keeps_content [OF k _ d(1)] so by (simp add: store_ok_def)
    have new: "bodies fs2 ?r u = Some d' \<Longrightarrow> bodies ?fs ?r u = Some d' \<or> bodies ?fs ?r u = None \<and> u = ?v \<and> d' = d" for u d'
    proof (cases "u = ?v")
      case True
      then show "bodies fs2 ?r u = Some d' \<Longrightarrow> ?thesis" using d(3) b2(1) bodies_mono [OF B(2) so, of ?v] by (cases "bodies ?fs ?r ?v") auto
    next
      case False
      then show "bodies fs2 ?r u = Some d' \<Longrightarrow> ?thesis" using F(1) b2(1) by simp
    qed
    have small: "int (length d') < 2 ^ 63" if "bodies fs2 ?r u = Some d'" for u d'
      using new [OF that] G d(2) assms(6) by (auto simp: in64_def)
    have dom: "dom (bodies ?fs ?r) \<subseteq> dom (bodies fs2 ?r)" "?v \<in> dom (bodies fs2 ?r)"
      using bodies_mono [OF k so] P b2(1) by (auto simp: dom_def)
    have ld: "content fs2 (?l u) = Some d'" if "bodies ?fs ?r u = None" "bodies fs2 ?r u = Some d'" for u d'
      using new [OF that(2)] that(1) l2 by auto
    have both: "adopt_good p base st' t \<and> adopt_adds p st s st' t"
      if "repr (ap_P p) ix t" "dom (cost t) \<subseteq> insert ?v (dom (cost s))" "ents s \<subseteq>\<^sub>m ents t" "card (dom (ents t)) \<le> Suc (card (dom (ents s)))"
        "\<And>a e. ents t a = Some e \<Longrightarrow> ents s a = None \<Longrightarrow> OutputID e = ?v \<and> Size e = lr_size rc" for t
    proof
      have "int (card (dom (ents t))) \<le> base + int (fs_clock fs2)" using that(4) G s2(2) C by linarith
      moreover have "dom (cost t) \<subseteq> dom (bodies fs2 ?r)" using that(2) dom G by blast
      ultimately show "adopt_good p base st' t" unfolding adopt_good_def st' using that(1) b2(2) small by blast
      show "adopt_adds p st s st' t" unfolding adopt_adds_def st' using k that(3,5) ld l2 d(2) assms(2) by fastforce
    qed
    have fin: "finite (dom (ents s))" using reprD(1) G by (auto simp: swf_def)
    consider (keep) "repr (ap_P p) ix s" | (add) "repr (ap_P p) ix (spec_put (lr_action rc) ?e n s)" using put G by blast
    then have "\<exists>s'. adopt_good p base st' s' \<and> adopt_adds p st s st' s'"
    proof cases
      case keep
      then show ?thesis using both [of s] by auto
    next
      case add
      have m: "ents s \<subseteq>\<^sub>m ents (spec_put (lr_action rc) ?e n s)" using assms(4) by (auto simp: spec_put_def map_le_def)
      have "dom (cost (spec_put (lr_action rc) ?e n s)) \<subseteq> insert ?v (dom (cost s))" by (auto simp: spec_put_def)
      moreover have "card (dom (ents (spec_put (lr_action rc) ?e n s))) \<le> Suc (card (dom (ents s)))"
        using card_dom_put_le [OF fin] by (simp add: spec_put_def)
      moreover have "OutputID x = ?v \<and> Size x = lr_size rc" if "ents (spec_put (lr_action rc) ?e n s) a = Some x" "ents s a = None" for a x
        using that by (auto simp: spec_put_def split: if_splits)
      ultimately show ?thesis using both [OF add _ m] by blast
    qed
    then show ?thesis using st' s2(2) C by simp
  qed
qed

lemma publishRecord_clock: "fs_clock (ad_fs st) \<le> fs_clock (ad_fs (publishRecord p path rc fi st))"
proof -
  obtain q fs1 where ad: "Store_Adopt (ap_E p) (ap_root p) (lr_output rc) (legacyBody (ap_LegacyDir p) (lr_output rc)) (lr_size rc) (ad_fs st) = (q, fs1)"
    by fastforce
  obtain ai fs2 where ai: "os_Stat (ap_E p) path fs1 = (ai, fs2)" by fastforce
  have "fs_clock (ad_fs st) \<le> fs_clock fs1" "fs_clock fs1 \<le> fs_clock fs2" using Store_Adopt_clock [OF ad] os_clock(1) [OF ai] by auto
  then show ?thesis using ad ai
    by (auto simp: publishRecord_def Let_def split: sum.splits prod.splits option.splits)
qed

lemma adoptRecord_rel:
  assumes "pebble_ok (ap_P p)" "base + T < 2 ^ 63 - 1" "0 \<le> lr_size rc" "in64 (lr_size rc)"
  shows "adopt_rel p base T st (adoptRecord p path rc st)"
proof (cases "Index_Get (ap_P p) (ad_ix st) (lr_action rc)")
  case (Inl e)
  then show ?thesis using reflpD [OF adopt_rel_refl] by (simp add: adoptRecord_def)
next
  case get: (Inr x)
  obtain q fs where q: "os_Stat (ap_E p) (legacyBody (ap_LegacyDir p) (lr_output rc)) (ad_fs st) = (q, fs)" by fastforce
  have sf: "same_files (ad_fs st) fs" "fs_clock (ad_fs st) \<le> fs_clock fs" using os_Stat_cases [OF q] os_clock(1) [OF q] by auto
  show ?thesis
  proof (cases "x = None \<and> (\<exists>fi. q = Inr fi \<and> fi_Size fi = lr_size rc) \<and> \<not> ap_DryRun p")
    case False
    then have "ad_ix (adoptRecord p path rc st) = ad_ix st" "ad_fs (adoptRecord p path rc st) \<in> {ad_fs st, fs}"
      using get q by (auto simp: adoptRecord_def Let_def split: option.splits sum.splits)
    then show ?thesis using sf by (intro adopt_same(3)) auto
  next
    case True
    then obtain fi where fi: "x = None" "q = Inr fi" "fi_Size fi = lr_size rc" "\<not> ap_DryRun p" by blast
    let ?st1 = "st\<lparr>ad_fs := fs\<rparr>"
    have st': "adoptRecord p path rc st = publishRecord p path rc fi ?st1" using get q fi by (simp add: adoptRecord_def Let_def)
    note same = adopt_same [of st ?st1]
    have c: "fs_clock fs \<le> fs_clock (ad_fs (publishRecord p path rc fi ?st1))" using publishRecord_clock [of ?st1] by simp
    have "\<exists>s'. adopt_good p base (publishRecord p path rc fi ?st1) s' \<and> adopt_adds p st s (publishRecord p path rc fi ?st1) s'"
      if T: "int (fs_clock (ad_fs (publishRecord p path rc fi ?st1))) \<le> T" and g: "adopt_good p base st s" for s
    proof -
      have g1: "adopt_good p base ?st1 s" and a1: "adopt_adds p st s ?st1 s" using same(1,2) g sf by simp_all
      have e: "ents s (lr_action rc) = None" using Get_refines [OF assms(1) _ get] g fi(1) by (simp add: adopt_good_def)
      have "base + int (fs_clock (ad_fs ?st1)) < 2 ^ 63 - 1" using T c assms(2) by simp
      from publishRecord_ok [OF assms(1) fi(4) g1 e assms(3,4) this refl] adopt_adds_trans [OF a1 _ g1] show ?thesis by blast
    qed
    then show ?thesis unfolding st' adopt_rel_def using c sf(2) by simp
  qed
qed

lemma adoptFile_rel:
  assumes "pebble_ok (ap_P p)" "base + T < 2 ^ 63 - 1" "adoptFile p path name st = (e, st')"
  shows "adopt_rel p base T st st'"
proof (cases "ap_ctxErr p (ad_fs st)")
  case (Some err)
  then show ?thesis using assms(3) reflpD [OF adopt_rel_refl] by (auto simp: adoptFile_def)
next
  case None
  obtain rr fs where rr: "readRecord (ap_E p) path name (ad_fs st) = (rr, fs)" by fastforce
  note R = readRecord_ok [OF rr]
  show ?thesis
  proof (cases rr)
    case (Inl err)
    then show ?thesis using assms(3) None rr R by (intro adopt_same(3)) (auto simp: adoptFile_def Let_def)
  next
    case (Inr rc)
    let ?st1 = "st\<lparr>ad_fs := fs, ad_res := (ad_res st)\<lparr>ar_Records := add64 (ar_Records (ad_res st)) 1\<rparr>\<rparr>"
    have "st' = adoptRecord p path rc ?st1" using assms(3) None rr Inr by (simp add: adoptFile_def Let_def)
    moreover have "adopt_rel p base T ?st1 (adoptRecord p path rc ?st1)" using adoptRecord_rel [OF assms(1,2)] R Inr by blast
    moreover have "adopt_rel p base T st ?st1" using R by (intro adopt_same(3)) auto
    ultimately show ?thesis using adopt_rel_trans by (metis transpD)
  qed
qed

lemma ReadDir_rel: "os_ReadDir E path (ad_fs st) = (r, fs) \<Longrightarrow> adopt_rel p base T st (st\<lparr>ad_fs := fs\<rparr>)"
  using ReadDir_ok(1) os_clock(10) by (intro adopt_same(3)) fastforce+

section \<open>The walk ends\<close>

definition dirs_ok :: "'db adopt_params \<Rightarrow> nat \<Rightarrow> 'db adopting \<Rightarrow> bool" where
  "dirs_ok p L st \<longleftrightarrow> store_ok (ad_fs st) (ap_root p) \<and> (\<forall>x \<in> set (fs_dirs (ad_fs st)). length x \<le> L)"

lemma dirs_ok_same: "same_files (ad_fs st) (ad_fs st') \<Longrightarrow> dirs_ok p L st \<Longrightarrow> dirs_ok p L st'"
  using store_ok_same_files by (auto simp: dirs_ok_def same_files_def)

lemma publishRecord_dirs:
  assumes "dirs_ok p L st" "length (ap_root p) + 75 \<le> L"
  shows "dirs_ok p L (publishRecord p path rc fi st)"
proof -
  have so: "store_ok (ad_fs st) (ap_root p)" using assms(1) by (simp add: dirs_ok_def)
  obtain q fs1 where ad: "Store_Adopt (ap_E p) (ap_root p) (lr_output rc) (legacyBody (ap_LegacyDir p) (lr_output rc)) (lr_size rc) (ad_fs st) = (q, fs1)"
    by fastforce
  obtain ai fs2 where ai: "os_Stat (ap_E p) path fs1 = (ai, fs2)" by fastforce
  have 1: "dirs_ok p L (st\<lparr>ad_fs := fs1\<rparr>)"
    using Store_Adopt_bodies(1) [OF so ad] Store_Adopt_frame(2) [OF so ad] assms by (fastforce simp: dirs_ok_def)
  have 2: "dirs_ok p L (st\<lparr>ad_fs := fs2\<rparr>)" by (rule dirs_ok_same [OF _ 1]) (use os_Stat_cases [OF ai] in simp)
  have "ad_fs (publishRecord p path rc fi st) \<in> {fs1, fs2}"
    using ad ai by (auto simp: publishRecord_def Let_def split: sum.splits prod.splits option.splits)
  then show ?thesis using 1 2 by (auto simp: dirs_ok_def)
qed

lemma adoptFile_dirs:
  assumes "dirs_ok p L st" "length (ap_root p) + 75 \<le> L" "adoptFile p path name st = (e, st')"
  shows "dirs_ok p L st'"
proof -
  obtain rr fs where rr: "readRecord (ap_E p) path name (ad_fs st) = (rr, fs)" by fastforce
  have 1: "dirs_ok p L (st\<lparr>ad_fs := fs, ad_res := r\<rparr>)" for r by (rule dirs_ok_same [OF _ assms(1)]) (use readRecord_ok [OF rr] in simp)
  have "dirs_ok p L (adoptRecord p path rc (st\<lparr>ad_fs := fs, ad_res := r\<rparr>))" for rc r
  proof -
    obtain q fs2 where q: "os_Stat (ap_E p) (legacyBody (ap_LegacyDir p) (lr_output rc)) fs = (q, fs2)" by fastforce
    have 2: "dirs_ok p L (st\<lparr>ad_fs := fs2, ad_res := r'\<rparr>)" for r' by (rule dirs_ok_same [OF _ 1]) (use os_Stat_cases [OF q] in simp)
    have "dirs_ok p L (st\<lparr>ad_res := r', ad_fs := fs2\<rparr>)" for r' using 2 by (simp add: dirs_ok_def)
    then have 3: "dirs_ok p L (publishRecord p path rc fi (st\<lparr>ad_res := r', ad_fs := fs2\<rparr>))" for fi r'
      by (rule publishRecord_dirs [OF _ assms(2)])
    show ?thesis using 1 2 3 q by (auto simp: adoptRecord_def Let_def split: sum.splits option.splits)
  qed
  then show ?thesis using assms(1,3) 1 rr by (auto simp: adoptFile_def Let_def split: option.splits sum.splits)
qed

lemma walkDir_dirs:
  assumes "walkDir n p path name isDir st = Some (e, st')" "dirs_ok p L st" "length (ap_root p) + 75 \<le> L"
  shows "dirs_ok p L st'"
proof -
  let ?R = "\<lambda>st st'. dirs_ok p L st \<longrightarrow> dirs_ok p L st'"
  have "?R st st'"
  proof (rule walkDir_rel [where R = ?R, OF _ _ _ _ assms(1)])
    show "reflp ?R" by (rule reflpI) simp
    show "transp ?R" by (rule transpI) blast
    show "?R s1 s2" if "adoptFile p path1 name1 s1 = (e1, s2)" for path1 name1 s1 e1 s2 using adoptFile_dirs [OF _ assms(3) that] by blast
    show "?R s1 (s1\<lparr>ad_fs := fs\<rparr>)" if "os_ReadDir (ap_E p) path1 (ad_fs s1) = (r, fs)" for path1 s1 r fs
      using dirs_ok_same [of s1 "s1\<lparr>ad_fs := fs\<rparr>"] ReadDir_ok(1) [OF that] by simp
  qed
  then show ?thesis using assms(2) by blast
qed

lemma length_dir_base: "length (dirname q) + length (basename q) \<le> length q"
proof -
  have "length (takeWhile (\<lambda>c. c \<noteq> slash) (rev q)) + length (dropWhile (\<lambda>c. c \<noteq> slash) (rev q)) = length q"
    by (metis length_append length_rev takeWhile_dropWhile_id)
  then show ?thesis by (simp add: dirname_def basename_def)
qed

lemma walkDir_total:
  assumes "length (ap_root p) + 75 \<le> L" "dirs_ok p L st"
    and "if isDir then length path \<le> Suc L \<and> Suc L < n + length path else 0 < n"
  shows "\<exists>e st'. walkDir n p path name isDir st = Some (e, st')"
  using assms(2,3)
proof (induction n arbitrary: path name isDir st)
  case (Suc n)
  show ?case
  proof (cases isDir)
    case False
    then show ?thesis by (cases "adoptFile p path name st") simp
  next
    case True
    obtain r fs where rd: "os_ReadDir (ap_E p) path (ad_fs st) = (r, fs)" by fastforce
    have d1: "dirs_ok p L (st\<lparr>ad_fs := fs\<rparr>)" by (rule dirs_ok_same [OF _ Suc.prems(1)]) (use ReadDir_ok(1) [OF rd] in simp)
    show ?thesis
    proof (cases r)
      case (Inl e)
      then show ?thesis using True rd by simp
    next
      case (Inr ds)
      have "path \<in> set (fs_dirs (ad_fs st))" using rd Inr by (auto simp: os_ReadDir_def syscall_def Let_def split: option.splits if_splits)
      then have lp: "length path \<le> L" using Suc.prems(1) by (simp add: dirs_ok_def)
      have child: "if d then length (path_join path nm) \<le> Suc L \<and> Suc L < n + length (path_join path nm) else 0 < n"
        if "(nm, d) \<in> set ds" for nm d
      proof (cases d)
        case True
        then have "(nm, True) \<in> set ds" using that by simp
        from ReadDir_ok(5) [OF rd Inr this] obtain q where "q \<in> set (fs_dirs (ad_fs st))" "dirname q = path" "basename q = nm" by blast
        then have "length path + length nm \<le> L" using length_dir_base [of q] Suc.prems(1) by (fastforce simp: dirs_ok_def)
        then show ?thesis using True Suc.prems(2) \<open>isDir\<close> by (simp add: path_join_def)
      next
        case False
        then show ?thesis using Suc.prems(2) lp \<open>isDir\<close> by simp
      qed
      have "\<exists>e st'. walkList (\<lambda>name. walkDir n p (path_join path name) name) es s1 = Some (e, st')"
        if "set es \<subseteq> set ds" "dirs_ok p L s1" for es s1
        using that
      proof (induction es arbitrary: s1)
        case (Cons x es)
        obtain nm d where x: "x = (nm, d)" by (cases x)
        then have "(nm, d) \<in> set ds" using Cons.prems(1) by simp
        from Suc.IH [OF Cons.prems(2) child [OF this]] obtain e2 s2 where w: "walkDir n p (path_join path nm) nm d s1 = Some (e2, s2)" by blast
        have "dirs_ok p L s2" by (rule walkDir_dirs [OF w Cons.prems(2) assms(1)])
        then show ?case using Cons x w by (cases e2) auto
      qed simp
      then show ?thesis using True rd Inr d1 by simp
    qed
  qed
qed (auto split: if_splits)

section \<open>The import\<close>

lemma Adopt_Run_rel:
  assumes "pebble_ok (ap_P p)" "base + T < 2 ^ 63 - 1" "Adopt_Run fuel p ix fs = Some (e, st')"
  shows "adopt_rel p base T \<lparr>ad_ix = ix, ad_fs = fs, ad_res = AdoptResult0\<rparr> st'"
proof -
  let ?st = "\<lparr>ad_ix = ix, ad_fs = fs, ad_res = AdoptResult0\<rparr>" and ?root = "path_join (ap_LegacyDir p) actionSubdir"
  obtain r1 fs1 where r1: "os_Lstat (ap_E p) ?root fs = (r1, fs1)" by fastforce
  obtain r2 fs2 where r2: "os_Lstat (ap_E p) ?root fs1 = (r2, fs2)" by fastforce
  have 1: "same_files fs fs1" "same_files fs fs2" "fs_clock fs \<le> fs_clock fs1" "fs_clock fs \<le> fs_clock fs2"
    using os_Lstat_cases [OF r1] os_Lstat_cases [OF r2] os_clock(11) [OF r1] os_clock(11) [OF r2] same_files_trans by auto
  have rel: "adopt_rel p base T ?st (?st\<lparr>ad_fs := fs'\<rparr>)" if "fs' \<in> {fs1, fs2}" for fs' using that 1 by (intro adopt_same(3)) auto
  have walk: "adopt_rel p base T (?st\<lparr>ad_fs := fs2\<rparr>) st'" if "walkDir fuel p ?root actionSubdir d (?st\<lparr>ad_fs := fs2\<rparr>) = Some (e, st')" for d
    by (rule walkDir_rel [OF adopt_rel_refl adopt_rel_trans adoptFile_rel [OF assms(1,2)] ReadDir_rel that])
  have "(\<exists>fs' \<in> {fs1, fs2}. st' = ?st\<lparr>ad_fs := fs'\<rparr>) \<or> (\<exists>d. walkDir fuel p ?root actionSubdir d (?st\<lparr>ad_fs := fs2\<rparr>) = Some (e, st'))"
    using assms(3) r1 r2 by (auto simp: Adopt_Run_def Let_def split: sum.splits)
  then show ?thesis
  proof
    assume "\<exists>fs' \<in> {fs1, fs2}. st' = ?st\<lparr>ad_fs := fs'\<rparr>"
    then show ?thesis using rel by blast
  next
    assume "\<exists>d. walkDir fuel p ?root actionSubdir d (?st\<lparr>ad_fs := fs2\<rparr>) = Some (e, st')"
    then have "adopt_rel p base T (?st\<lparr>ad_fs := fs2\<rparr>) st'" using walk by blast
    moreover have "adopt_rel p base T ?st (?st\<lparr>ad_fs := fs2\<rparr>)" by (rule rel) simp
    ultimately show ?thesis by (rule transpD [OF adopt_rel_trans, rotated])
  qed
qed

lemma Adopt_Run_total:
  assumes "store_ok fs (ap_root p)" "\<forall>x \<in> set (fs_dirs fs). length x \<le> L" "length (ap_root p) + 75 \<le> L" "length (ap_LegacyDir p) + 7 \<le> L" "L + 2 \<le> fuel"
  shows "\<exists>e st'. Adopt_Run fuel p ix fs = Some (e, st')"
proof -
  let ?st = "\<lparr>ad_ix = ix, ad_fs = fs, ad_res = AdoptResult0\<rparr>" and ?root = "path_join (ap_LegacyDir p) actionSubdir"
  obtain r1 fs1 where r1: "os_Lstat (ap_E p) ?root fs = (r1, fs1)" by fastforce
  obtain r2 fs2 where r2: "os_Lstat (ap_E p) ?root fs1 = (r2, fs2)" by fastforce
  have sf: "same_files fs fs2" using os_Lstat_cases [OF r1] os_Lstat_cases [OF r2] same_files_trans by blast
  have "dirs_ok p L ?st" using assms(1,2) by (simp add: dirs_ok_def)
  then have "dirs_ok p L (?st\<lparr>ad_fs := fs2\<rparr>)" by (rule dirs_ok_same [rotated]) (simp add: sf)
  moreover have "if d then length ?root \<le> Suc L \<and> Suc L < fuel + length ?root else 0 < fuel" for d
    using assms(4,5) by (simp add: path_join_def actionSubdir_def)
  ultimately have "\<exists>e st'. walkDir fuel p ?root actionSubdir d (?st\<lparr>ad_fs := fs2\<rparr>) = Some (e, st')" for d
    using walkDir_total [OF assms(3)] by blast
  then show ?thesis using r1 r2 by (cases r1; cases r2) (simp_all add: Adopt_Run_def Let_def)
qed

text \<open>
  C12. An import is safe and ends. Whatever the stage holds and whatever fails or is cancelled on the way, \<^verbatim>\<open>Run\<close> returns; if the index has
  room for one entry per system call, the index then represents a state that has every entry it had,
  each new one naming an output whose body, of the recorded size, is in the stage; every indexed output has its body in the store,
  every body that is new is the stage's, and no file of either cache was changed. A dry run changes nothing at all.
\<close>

theorem adopt_sound:
  assumes "pebble_ok (ap_P p)" "repr (ap_P p) ix s" "store_ok fs (ap_root p)" "dom (cost s) \<subseteq> dom (bodies fs (ap_root p))"
    and "\<forall>v d. bodies fs (ap_root p) v = Some d \<longrightarrow> int (length d) < 2 ^ 63"
    and "\<forall>x \<in> set (fs_dirs fs). length x \<le> L" "length (ap_root p) + 75 \<le> L" "length (ap_LegacyDir p) + 7 \<le> L" "L + 2 \<le> fuel"
  shows "\<exists>e st'. Adopt_Run fuel p ix fs = Some (e, st')
    \<and> (int (card (dom (ents s))) + int (fs_clock (ad_fs st')) - int (fs_clock fs) < 2 ^ 63 - 1 \<longrightarrow>
        (\<exists>s'. repr (ap_P p) (ad_ix st') s' \<and> store_ok (ad_fs st') (ap_root p) \<and> dom (cost s') \<subseteq> dom (bodies (ad_fs st') (ap_root p))
          \<and> keeps fs (ad_fs st') \<and> ents s \<subseteq>\<^sub>m ents s'
          \<and> (\<forall>a x. ents s' a = Some x \<longrightarrow> ents s a = None \<longrightarrow>
              (\<exists>d. content (ad_fs st') (legacyBody (ap_LegacyDir p) (OutputID x)) = Some d \<and> int (length d) = Size x))
          \<and> (\<forall>v d. bodies fs (ap_root p) v = None \<longrightarrow> bodies (ad_fs st') (ap_root p) v = Some d \<longrightarrow>
              content (ad_fs st') (legacyBody (ap_LegacyDir p) v) = Some d)
          \<and> (ap_DryRun p \<longrightarrow> ad_ix st' = ix \<and> same_files fs (ad_fs st'))))"
proof -
  let ?st = "\<lparr>ad_ix = ix, ad_fs = fs, ad_res = AdoptResult0\<rparr>" and ?base = "int (card (dom (ents s))) - int (fs_clock fs)"
  obtain e st' where run: "Adopt_Run fuel p ix fs = Some (e, st')" using Adopt_Run_total [OF assms(3,6-9)] by blast
  have good: "adopt_good p ?base ?st s" using assms(2-5) by (simp add: adopt_good_def)
  have "\<exists>s'. adopt_good p ?base st' s' \<and> adopt_adds p ?st s st' s'"
    if "int (card (dom (ents s))) + int (fs_clock (ad_fs st')) - int (fs_clock fs) < 2 ^ 63 - 1"
    using Adopt_Run_rel [OF assms(1) _ run, of ?base "int (fs_clock (ad_fs st'))"] that good by (simp add: adopt_rel_def algebra_simps)
  note * = this [unfolded adopt_good_def adopt_adds_def adopting.simps]
  show ?thesis
    by (rule exI [of _ e], rule exI [of _ st'], rule conjI [OF run], rule impI, drule *, elim exE conjE, rule exI, intro conjI) assumption+
qed

text \<open>A stage with one record and its body.\<close>

definition stage_path :: string where
  "stage_path = path_join ''/d/action'' (id_String (demo_id 2))"

definition stage_fs :: "nat \<Rightarrow> fsys" where
  "stage_fs n = \<lparr>fs_names = [(stage_path, 0), (legacyBody ''/d'' (demo_id 7), 3)],
     fs_inode = (\<lambda>i. if i = 0 then \<lparr>i_data = bytes_of_string (id_String (demo_id 7) @ '' '' @ FormatInt 2), i_mtime = 9\<rparr> else \<lparr>i_data = [1, 2], i_mtime = 4\<rparr>),
     fs_dirs = [[], ''/c'', ''/c/output'', path_join ''/c/output'' (take 2 (id_String (demo_id 7))), ''/d'', ''/d/action''], fs_next = 4, fs_clock = n\<rparr>"

definition stage_params :: "bool \<Rightarrow> ref_db adopt_params" where
  "stage_params dry = \<lparr>ap_P = ref_pebble, ap_E = demo_os8, ap_root = ''/c'', ap_LegacyDir = ''/d'', ap_DryRun = dry, ap_ctxErr = (\<lambda>_. None), ap_now = (\<lambda>_. 20)\<rparr>"

lemma stage_params_simps [simp]:
  "ap_P (stage_params d) = ref_pebble" "ap_E (stage_params d) = demo_os8" "ap_root (stage_params d) = ''/c''" "ap_LegacyDir (stage_params d) = ''/d''"
  "ap_DryRun (stage_params d) = d" "ap_ctxErr (stage_params d) = (\<lambda>_. None)"
  by (simp_all add: stage_params_def)

lemma stage_calls [simp]: "syscall demo_os8 f fs = f (fs\<lparr>fs_clock := Suc (fs_clock fs)\<rparr>)"
  by (simp add: syscall_def demo_os8_def demo_os_def Let_def)

lemma stage_clock [simp]: "(stage_fs n)\<lparr>fs_clock := m\<rparr> = stage_fs m" "fs_clock (stage_fs n) = n"
  by (simp_all add: stage_fs_def)

lemma stage_paths: "stage_path \<noteq> legacyBody ''/d'' v" "legacyBody ''/d'' v \<noteq> stage_path" "Store_Path ''/c'' v \<noteq> stage_path" "Store_Path ''/c'' v \<noteq> legacyBody ''/d'' u"
  by (simp_all add: stage_path_def legacyBody_def Store_Path_split path_join_def outputSubdir_def slash_def)

lemma stage_lookup [simp]:
  "lookup (stage_fs n) stage_path = Some 0" "lookup (stage_fs n) (legacyBody ''/d'' (demo_id 7)) = Some 3"
  "lookup (stage_fs n) (Store_Path ''/c'' v) = None"
  using stage_paths by (simp_all add: lookup_def stage_fs_def)

lemma stage_dirs [simp]:
  "''/d/action'' \<in> set (fs_dirs (stage_fs n))" "dirname (Store_Path ''/c'' (demo_id 7)) \<in> set (fs_dirs (stage_fs n))"
  "Store_Path ''/c'' v \<notin> set (fs_dirs (stage_fs n))"
  using length_Store_Path [of "''/c''" v] id_String_plain
  by (auto simp: stage_fs_def dirname_Path path_join_def outputDir_def slash_def)

lemma stage_ReadDir: "os_ReadDir demo_os8 ''/d/action'' (stage_fs n) = (Inr [(id_String (demo_id 2), False)], stage_fs (Suc n))"
proof -
  have "dirname (legacyBody ''/d'' (demo_id 7)) = path_join (path_join ''/d'' outputSubdir) (take 2 (id_String (demo_id 7)))" by (simp add: legacyBody_def)
  then have "dirname (legacyBody ''/d'' (demo_id 7)) \<noteq> ''/d/action''" by (simp add: path_join_def outputSubdir_def slash_def)
  moreover have "dirname (path_join ''/c/output'' (take 2 (id_String (demo_id 7)))) = ''/c/output''" by simp
  moreover have "dirname stage_path = ''/d/action''" "basename stage_path = id_String (demo_id 2)" by (simp_all add: stage_path_def)
  moreover have "dirname [] \<noteq> ''/d/action''" "dirname ''/c'' \<noteq> ''/d/action''" "dirname ''/c/output'' \<noteq> ''/d/action''" "dirname ''/d'' \<noteq> ''/d/action''"
    "dirname ''/d/action'' \<noteq> ''/d/action''" by (simp_all add: dirname_def slash_def)
  moreover have "path_join ''/c/output'' (take 2 (id_String (demo_id 7))) \<notin> {''/d'', ''/d/action''}" by (simp add: path_join_def)
  ultimately show ?thesis using stage_paths(1) by (simp add: os_ReadDir_def) (simp add: stage_fs_def)
qed

lemma stage_record:
  "readRecord demo_os8 stage_path (id_String (demo_id 2)) (stage_fs n) = (Inr \<lparr>lr_action = demo_id 2, lr_output = demo_id 7, lr_size = 2\<rparr>, stage_fs (n + 3))"
proof -
  let ?s = "id_String (demo_id 7) @ '' '' @ FormatInt 2"
  have d: "i_data (fs_inode (stage_fs m) 0) = bytes_of_string ?s" for m by (simp add: stage_fs_def)
  have "length ?s \<le> 256" by (simp add: FormatInt_def format_nat.simps)
  then have "take 256 (bytes_of_string ?s) = bytes_of_string ?s" "bytes_of_string ?s \<noteq> []" by (simp_all add: bytes_of_string_def)
  moreover have "Fields ?s = [id_String (demo_id 7), FormatInt 2]" by (rule Fields_two) (simp_all add: id_String_plain FormatInt_plain)
  then have "parseRecord (demo_id 2) ?s = Inr \<lparr>lr_action = demo_id 2, lr_output = demo_id 7, lr_size = 2\<rparr>"
    by (simp add: parseRecord_def ParseInt_FormatInt in64_def ParseOutputID_eq)
  ultimately show ?thesis
    by (simp add: readRecord_def os_Open_def os_ReadUpTo_def os_Close_def d del: append_Cons) (simp add: numeral_eq_Suc)
qed

lemma stage_publish:
  "fs_clock (ad_fs (adoptRecord (stage_params False) stage_path \<lparr>lr_action = demo_id 2, lr_output = demo_id 7, lr_size = 2\<rparr>
     \<lparr>ad_ix = empty_index, ad_fs = stage_fs n, ad_res = r\<rparr>)) = n + 4"
proof -
  have g: "Index_Get ref_pebble empty_index (demo_id 2) = Inr None"
    using Get_healthy [OF pebble_ok_ref pebble_healthy_ref repr_empty, of "demo_id 2"] by (simp add: empty_index_def empty_spec_def)
  have sz: "fi_Size (file_info demo_os8 (stage_fs m) 3) = 2" for m by (simp add: file_info_def stage_fs_def)
  have dev: "os_dev demo_os8 p = 0" for p by (simp add: demo_os8_def demo_os_def)
  let ?b = "legacyBody ''/d'' (demo_id 7)" and ?p = "Store_Path ''/c'' (demo_id 7)"
  obtain fs2 where ad: "Store_Adopt demo_os8 ''/c'' (demo_id 7) ?b 2 (stage_fs (Suc n)) = (Inr (?p, diskBytes (file_info demo_os8 (stage_fs (n + 2)) 3), True), fs2)"
    and c: "fs_clock fs2 = n + 3"
    by (simp add: os_Stat_def sz Store_Adopt_def Let_def linkIn_def os_Link_def dev)
  obtain ai fs3 where ai: "os_Stat demo_os8 stage_path fs2 = (ai, fs3)" by fastforce
  then have "fs_clock fs3 = n + 4" using c os_clock(1) by fastforce
  then show ?thesis using ad ai
    by (simp add: adoptRecord_def publishRecord_def g os_Stat_def [of _ ?b] sz Let_def split: prod.split option.split)
qed

lemma stage_run: "Adopt_Run (Suc (Suc k)) (stage_params False) empty_index (stage_fs 0) = Some (e, st') \<Longrightarrow> fs_clock (ad_fs st') = 10"
proof -
  have r: "path_join ''/d'' actionSubdir = ''/d/action''" "path_join ''/d/action'' (id_String (demo_id 2)) = stage_path"
    by (simp_all add: path_join_def actionSubdir_def slash_def stage_path_def)
  have "os_Lstat demo_os8 ''/d/action'' (stage_fs n) = (Inr True, stage_fs (Suc n))" for n by (simp add: os_Lstat_def)
  then have "Adopt_Run (Suc (Suc k)) (stage_params False) empty_index (stage_fs 0) = Some (None, adoptRecord (stage_params False) stage_path
      \<lparr>lr_action = demo_id 2, lr_output = demo_id 7, lr_size = 2\<rparr> \<lparr>ad_ix = empty_index, ad_fs = stage_fs 6, ad_res = AdoptResult0\<lparr>ar_Records := 1\<rparr>\<rparr>)"
    by (simp add: Adopt_Run_def r stage_ReadDir adoptFile_def stage_record Let_def AdoptResult0_def add64_def wrap64_def)
  moreover assume "Adopt_Run (Suc (Suc k)) (stage_params False) empty_index (stage_fs 0) = Some (e, st')"
  ultimately show ?thesis using stage_publish [of 6] by auto
qed

theorem adopt_sound_witness:
  "\<exists>e st' s'. Adopt_Run 152 (stage_params False) empty_index (stage_fs 0) = Some (e, st')
    \<and> repr ref_pebble (ad_ix st') s' \<and> dom (cost s') \<subseteq> dom (bodies (ad_fs st') ''/c'') \<and> keeps (stage_fs 0) (ad_fs st')"
proof -
  have so: "store_ok (stage_fs 0) (ap_root (stage_params False))"
    by (auto simp: store_ok_def fs_wf_def) (auto simp: stage_fs_def lookup_def split: if_splits)
  have nb: "bodies (stage_fs 0) ''/c'' = Map.empty" by (rule ext) (simp add: bodies_def content_def)
  have "\<forall>x \<in> set (fs_dirs (stage_fs 0)). length x \<le> 150" by (simp add: stage_fs_def path_join_def)
  from adopt_sound [OF _ _ so _ _ this, where ix = empty_index and s = empty_spec and fuel = 152]
  obtain e st' where run: "Adopt_Run 152 (stage_params False) empty_index (stage_fs 0) = Some (e, st')"
    and ok: "int (card (dom (ents empty_spec))) + int (fs_clock (ad_fs st')) - 0 < 2 ^ 63 - 1 \<longrightarrow>
      (\<exists>s'. repr ref_pebble (ad_ix st') s' \<and> dom (cost s') \<subseteq> dom (bodies (ad_fs st') ''/c'') \<and> keeps (stage_fs 0) (ad_fs st'))"
    using pebble_ok_ref repr_empty nb by (auto simp: empty_spec_def)
  have "fs_clock (ad_fs st') = 10" using stage_run [of 150 e st'] run by (simp add: numeral_eq_Suc)
  then show ?thesis using run ok by (auto simp: empty_spec_def)
qed

end
