(* ===== verification/Spec2Isabelle.thy ===== *)
theory Spec2Isabelle
  imports Evict_Theorems Index_Life Blob_Theorems Remote_Tier Read_Theorems Session_Theorems Decoder_Theorems History_Theorems Idle Adopt_Theorems
begin

text \<open>
  A verification library for plaid-cache, a build cache for the Go toolchain (the GOCACHEPROG protocol) and for Bazel (HTTP and the
  Remote Execution API), with an index and a body store on the local machine and an optional shared tier in S3.

  \<^bold>\<open>The program and its parts.\<close> An \<^emph>\<open>index\<close> (\<^verbatim>\<open>internal/index\<close>, over the embedded store Pebble) maps an action to the output it produced,
  with reference counts, an order of last use and counters. A \<^emph>\<open>body store\<close> (\<^verbatim>\<open>internal/blob\<close>) holds the bytes of outputs in files named by
  their identifier. A \<^emph>\<open>cache\<close> (\<^verbatim>\<open>internal/cache\<close>) joins the two with the shared tier (\<^verbatim>\<open>internal/remote\<close>), a memo of presence answers, a queue of
  deferred last-use updates and a pool of uploads, and evicts. On top of it stand the Bazel adapter and its HTTP handler (\<^verbatim>\<open>internal/bazel\<close>), the gRPC services
  (\<^verbatim>\<open>internal/reapi\<close>), the GOCACHEPROG protocol (\<^verbatim>\<open>internal/wire\<close>) with the daemon that serves its sessions (\<^verbatim>\<open>internal/daemon\<close>),
  and the import of another cache's directory (\<^verbatim>\<open>internal/adopt\<close>).

  \<^bold>\<open>Conventions.\<close> A component's state is a record that its operations take and return. Errors are values of the datatype \<open>error\<close>, in a sum
  or an option; wrapping an error keeps its identity. Go's \<^verbatim>\<open>int64\<close> is an \<open>int\<close> with the wrap-around written out (\<open>wrap64\<close>, \<open>add64\<close>, \<open>sub64\<close>, \<open>in64\<close>).
  Time is an argument: a count of nanoseconds, or a function of the number of clock readings. Where several goroutines share state, one critical
  section is one operation and a step relation interleaves them. Third-party code is a parameter with a named contract of its documented behaviour: Pebble
  (\<open>pebble_ok\<close>, in \<^verbatim>\<open>Kv_Store\<close>, satisfied by the reference store \<open>ref_pebble\<close>), the AWS client (\<open>s3_ok\<close>), the zstd package and the encoding of protocol messages.
  The operating system is an explicit file system with inodes in which the environment makes any call fail (\<^verbatim>\<open>Os\<close>). What is used of the standard library is written
  out: \<^verbatim>\<open>strconv\<close>, \<^verbatim>\<open>strings\<close> and \<^verbatim>\<open>path\<close> (\<^verbatim>\<open>Strconv\<close>), \<^verbatim>\<open>crypto/sha256\<close> (\<^verbatim>\<open>Sha256\<close>, with two vectors of FIPS 180-4 evaluated by the kernel),
  \<^verbatim>\<open>encoding/base64\<close> (\<^verbatim>\<open>Base64\<close>) and \<^verbatim>\<open>encoding/json\<close> (\<^verbatim>\<open>Json\<close>).

  \<^bold>\<open>The theories.\<close>
  \<^item> \<^verbatim>\<open>Prelude\<close>: bytes, 64-bit integers, big-endian numbers, errors, lexicographic order. \<^verbatim>\<open>Ids\<close> is \<^verbatim>\<open>ids.go\<close>. \<^verbatim>\<open>Codec\<close> is \<^verbatim>\<open>keys.go\<close> and \<^verbatim>\<open>codec.go\<close>: the locale
    \<open>record_codec\<close> states what a fixed-width encoding promises and is interpreted for the three value layouts.
  \<^item> The index. \<^verbatim>\<open>Index_Ops\<close> (\<^verbatim>\<open>index.go\<close>), \<^verbatim>\<open>Index_Counters\<close> (\<^verbatim>\<open>counters.go\<close>, \<^verbatim>\<open>remeasure.go\<close>, opening and closing) and \<^verbatim>\<open>Index_Evict\<close> (\<^verbatim>\<open>evict.go\<close>) translate the operations;
    \<^verbatim>\<open>Index_Spec\<close> is the abstract index, a map of entries and a map of costs; \<^verbatim>\<open>Index_Scan\<close> and \<^verbatim>\<open>Index_Refine\<close> relate the stored tables to it (\<open>repr\<close>), and
    every operation is shown to implement its abstract counterpart or to change nothing. \<^verbatim>\<open>Index_Theorems\<close> states this for single operations;
    \<^verbatim>\<open>Index_Life\<close> for any interleaving of operations, crashes and restarts.
  \<^item> Eviction. \<^verbatim>\<open>Evict_Refine\<close> relates a chunk to a walk over the oldest actions, \<^verbatim>\<open>Evict_Pass\<close> and \<^verbatim>\<open>Evict_Reap\<close> the two loops, both interpretations of the
    locale \<open>chunk_loop\<close>; \<^verbatim>\<open>Evict_Theorems\<close> has the limits, the order, the report of forgotten outputs and termination.
  \<^item> The body store. \<^verbatim>\<open>Blob\<close> (\<^verbatim>\<open>blob.go\<close>, \<^verbatim>\<open>measure.go\<close>, \<^verbatim>\<open>usage_unix.go\<close>) and \<^verbatim>\<open>Blob_Theorems\<close>: publication is atomic and never replaces, the sweep removes exactly the temporaries.
  \<^item> The parts of the cache. \<^verbatim>\<open>Presence\<close> (\<^verbatim>\<open>presence.go\<close>), \<^verbatim>\<open>Toucher\<close> (\<^verbatim>\<open>touch.go\<close>, over the locale \<open>touch_sink\<close>), \<^verbatim>\<open>Uploader\<close> (the pool of \<^verbatim>\<open>cache.go\<close>), \<^verbatim>\<open>Remote\<close> and \<^verbatim>\<open>Remote_Tier\<close>
    (\<^verbatim>\<open>remote.go\<close>, \<^verbatim>\<open>s3.go\<close>; the locale \<open>shared_tier\<close> is what the cache relies on and the S3 tier provides), \<^verbatim>\<open>Config\<close> and \<^verbatim>\<open>Activity\<close> (the settings and the counters).
  \<^item> The cache. \<^verbatim>\<open>Cache\<close> (\<^verbatim>\<open>cache.go\<close>, \<^verbatim>\<open>reconcile.go\<close>), \<^verbatim>\<open>Cache_Inv\<close> (the invariant between index, store and memo), \<^verbatim>\<open>Cache_Eviction\<close> and \<^verbatim>\<open>Cache_Theorems\<close>. \<^verbatim>\<open>History\<close> and \<^verbatim>\<open>History_Theorems\<close>
    (\<^verbatim>\<open>activity.go\<close>, \<^verbatim>\<open>FlushMetrics\<close>, \<^verbatim>\<open>Close\<close>): persisted counters are exact, and the hourly report is complete and in order.
  \<^item> Bazel. \<^verbatim>\<open>Bazel\<close> (\<^verbatim>\<open>keys.go\<close>, \<^verbatim>\<open>upload.go\<close>, \<^verbatim>\<open>bazel.go\<close>, \<^verbatim>\<open>http.go\<close>), \<^verbatim>\<open>Staging\<close>, \<^verbatim>\<open>Content\<close>, \<^verbatim>\<open>Content_Theorems\<close> and \<^verbatim>\<open>Bazel_Theorems\<close>: every stored body hashes to its name,
    whatever the interleaving of uploads with everything else.
  \<^item> The Remote Execution API. \<^verbatim>\<open>Resource\<close> (\<^verbatim>\<open>reapi.go\<close>, \<^verbatim>\<open>resource.go\<close>), \<^verbatim>\<open>Pending\<close> (\<^verbatim>\<open>uploads.go\<close>, \<^verbatim>\<open>zstd.go\<close>), \<^verbatim>\<open>ByteStream\<close> (\<^verbatim>\<open>bytestream.go\<close>) and \<^verbatim>\<open>CasService\<close> (\<^verbatim>\<open>cas.go\<close>, \<^verbatim>\<open>actioncache.go\<close>,
    \<^verbatim>\<open>rrcc.go\<close>), with \<^verbatim>\<open>Pending_Theorems\<close>, \<^verbatim>\<open>ByteStream_Theorems\<close>, \<^verbatim>\<open>Resume_Theorems\<close> and \<^verbatim>\<open>Read_Theorems\<close>: the registry is exclusive and bounded, a broken write is resumed, a
    read equals its reference definition.
  \<^item> GOCACHEPROG. \<^verbatim>\<open>Wire\<close> (\<^verbatim>\<open>wire.go\<close>), \<^verbatim>\<open>Decoder\<close> and \<^verbatim>\<open>Decoder_Theorems\<close> (\<^verbatim>\<open>decoder.go\<close>, \<^verbatim>\<open>client.go\<close>): what is written is what is read, and a body is exactly what was declared. \<^verbatim>\<open>Session\<close> and
    \<^verbatim>\<open>Session_Theorems\<close> (the session of \<^verbatim>\<open>server.go\<close>): every request is answered once. \<^verbatim>\<open>Idle\<close> (the rest of the life of \<^verbatim>\<open>server.go\<close>): an idle daemon exits and one in use does not.
  \<^item> \<^verbatim>\<open>Adopt\<close> and \<^verbatim>\<open>Adopt_Theorems\<close> (\<^verbatim>\<open>adopt.go\<close>): an import ends, adds only what the stage has, and changes no file.

  \<^bold>\<open>Bounds and fuel.\<close> The loops of eviction take a bound on their chunks, and \<^verbatim>\<open>Evict_terminates_consistently\<close> shows that more than the number of actions and the number of outputs is enough. The walk of an
  import takes a bound on the depth of directories, and \<open>adopt_sound\<close> shows that two more than the longest path is enough. The JSON parser and the decoder of a stream are given the length of their input,
  which each step shortens. All other recursions are structural or have a measure. A theorem that counts in 64 bits assumes room for what it counts (\<open>room\<close>, or fewer than \<open>2 ^ 63 - 1\<close> actions).

  \<^bold>\<open>Not modelled.\<close> Logging and the texts of error messages (an error is which error it is); file modes, \<^verbatim>\<open>fsync\<close> and the options of Pebble; deadlines, except as the end of a stream; the statistics a report prints
  (\<^verbatim>\<open>remote/stats.go\<close>, \<^verbatim>\<open>reapi/metrics.go\<close>, \<^verbatim>\<open>daemon/metrics.go\<close>), which are histograms and floats no operation reads; the reading of the configuration file, the environment and flags, which parses floats
  and durations; the control exchange of the daemon, which dispatches to operations modelled here and renders their results; the client, the command line and the listeners, which start processes and call \<^verbatim>\<open>net/http\<close> and gRPC.
  The encoding of responses is not modelled as text, since a response carries a time in RFC 3339.
\<close>

end
